(* ===== verification/Prelude.thy ===== *)
theory Prelude
  imports Main
begin

text \<open>
  Shared vocabulary of the development: Go's \<open>error\<close> returns as values of a sum type, the
  early return \<open>if err != nil { return err }\<close> as \<open>bind_res\<close>, a \<open>for ... range\<close> loop that stops
  at the first error as \<open>each\<close>, and the generic facts about them that the component theories
  use.  \<open>res_simps\<close> collects the rewrite rules that turn "this program returned normally" into
  facts about its steps.
\<close>

named_theorems res_simps "when a sequence of fallible steps returns normally"

section \<open>Errors as values\<close>

definition bind_res :: "'e + 'a \<Rightarrow> ('a \<Rightarrow> 'e + 'b) \<Rightarrow> 'e + 'b" where
  "bind_res r f = (case r of Inl e \<Rightarrow> Inl e | Inr a \<Rightarrow> f a)"

lemma bind_res_simps [simp]:
  "bind_res (Inl e) f = Inl e"
  "bind_res (Inr a) f = f a"
  by (simp_all add: bind_res_def)

lemma bind_res_cong [fundef_cong]:
  "r = r' \<Longrightarrow> (\<And>a. r' = Inr a \<Longrightarrow> f a = g a) \<Longrightarrow> bind_res r f = bind_res r' g"
  by (cases r') simp_all

lemma bind_res_Inr [res_simps]:
  "bind_res r f = Inr b \<longleftrightarrow> (\<exists>a. r = Inr a \<and> f a = Inr b)"
  by (cases r) simp_all

lemma bind_res_InrE:
  assumes "bind_res r f = Inr b"
  obtains a where "r = Inr a" and "f a = Inr b"
  using assms by (cases r) simp_all

lemma bind_res_Inl:
  "bind_res r f = Inl e \<longleftrightarrow> r = Inl e \<or> (\<exists>a. r = Inr a \<and> f a = Inl e)"
  by (cases r) simp_all

text \<open>\<open>guard_res b e\<close>: the check \<open>if !b { return e }\<close>.\<close>

definition guard_res :: "bool \<Rightarrow> 'e \<Rightarrow> 'e + unit" where
  "guard_res b e = (if b then Inr () else Inl e)"

lemma guard_res_Inr [res_simps]: "guard_res b e = Inr u \<longleftrightarrow> b"
  by (simp add: guard_res_def)

lemma guard_res_simps [simp]:
  "guard_res True e = Inr ()" "guard_res False e = Inl e"
  by (simp_all add: guard_res_def)

section \<open>Loops that stop at the first error\<close>

fun each :: "('a \<Rightarrow> 's \<Rightarrow> 'e + 's) \<Rightarrow> 'a list \<Rightarrow> 's \<Rightarrow> 'e + 's" where
  "each f [] s = Inr s"
| "each f (x # xs) s = bind_res (f x s) (each f xs)"

lemma each_cong [fundef_cong]:
  assumes "xs = ys" and "s = t" and "\<And>x s. x \<in> set ys \<Longrightarrow> f x s = g x s"
  shows "each f xs s = each g ys t"
proof -
  have "each f ys u = each g ys u" for u
    using assms(3)
  proof (induction ys arbitrary: u)
    case (Cons y ys)
    then have "f y u = g y u" by simp
    moreover have "each f ys = each g ys" using Cons by (intro ext) simp
    ultimately show ?case by simp
  qed simp
  with assms(1,2) show ?thesis by simp
qed

text \<open>
  A reflexive and transitive relation that every iteration respects holds between the state
  before the loop and the state after it.
\<close>

lemma each_rel:
  assumes "\<And>s. R s s" and "\<And>s t u. R s t \<Longrightarrow> R t u \<Longrightarrow> R s u"
    and "\<And>x s t. x \<in> set xs \<Longrightarrow> f x s = Inr t \<Longrightarrow> R s t"
    and "each f xs s = Inr t"
  shows "R s t"
  using assms(3,4)
proof (induction xs arbitrary: s)
  case Nil
  with assms(1) show ?case by simp
next
  case (Cons x xs)
  from Cons.prems(2) obtain u where u: "f x s = Inr u" and t: "each f xs u = Inr t"
    by (auto elim: bind_res_InrE)
  have "R s u" by (rule Cons.prems(1) [OF _ u]) simp
  moreover have "R u t" by (rule Cons.IH [OF Cons.prems(1) t]) simp_all
  ultimately show ?case by (rule assms(2))
qed

text \<open>What holds of the elements seen so far and the state they led to.\<close>

lemma each_seen:
  assumes "\<And>seen x s t. P seen s \<Longrightarrow> x \<in> set xs \<Longrightarrow> f x s = Inr t \<Longrightarrow> P (seen @ [x]) t"
    and "P seen s" and "each f xs s = Inr t"
  shows "P (seen @ xs) t"
  using assms
proof (induction xs arbitrary: seen s)
  case (Cons x xs)
  from Cons.prems(3) obtain u where u: "f x s = Inr u" and t: "each f xs u = Inr t"
    by (auto elim: bind_res_InrE)
  have "P ((seen @ [x]) @ xs) t"
  proof (rule Cons.IH [OF _ _ t])
    show "P (seen @ [x]) u" by (rule Cons.prems(1) [OF Cons.prems(2) _ u]) simp
    show "P (seen' @ [y]) t'" if "P seen' s'" "y \<in> set xs" "f y s' = Inr t'" for seen' y s' t'
      using that by (intro Cons.prems(1) [of seen' s' y t']) simp_all
  qed
  then show ?case by simp
qed simp

text \<open>Checks without state: every element passes.\<close>

definition check_all :: "('a \<Rightarrow> 'e + unit) \<Rightarrow> 'a list \<Rightarrow> 'e + unit" where
  "check_all f xs = each (\<lambda>x _. f x) xs ()"

lemma each_unit_Inr: "each (\<lambda>x _. f x) xs u = Inr v \<longleftrightarrow> (\<forall>x \<in> set xs. f x = Inr ())"
  by (induction xs) (auto simp: res_simps)

lemma check_all_Inr [res_simps]:
  "check_all f xs = Inr u \<longleftrightarrow> (\<forall>x \<in> set xs. f x = Inr ())"
  by (simp add: check_all_def each_unit_Inr)

section \<open>Maps as association lists\<close>

text \<open>A value reached through a map is smaller than the map: the measure of tree walks.\<close>

lemma map_of_size [termination_simp]:
  "map_of m k = Some v \<Longrightarrow> f v < size_list (size_prod (\<lambda>_. 0) f) m"
  by (induction m) (auto split: if_splits)

lemma size_list_mem [termination_simp]: "x \<in> set xs \<Longrightarrow> f x < Suc (size_list f xs)"
  by (induction xs) auto

end
