(* ===== verification/Go_Json.thy ===== *)
theory Go_Json
  imports Complex_Main Go_Strings "HOL-Library.AList"
begin

text \<open>
  The values that \<open>encoding/json\<close> stores in an \<open>interface{}\<close>, with the dynamic types the code
  distinguishes in its type switches, and Go's comma-ok accesses to a
  \<open>map[string]interface{}\<close>.  A \<open>float64\<close> is the rational number it denotes (JSON has no NaN or
  infinity); \<open>json.Number\<close> keeps its text.  A map is an association list; a key's value is the
  first entry, and where the order of a \<open>range\<close> over a map matters it is the order of the list.
\<close>

datatype gval =
    GNil
  | GBool bool
  | GInt int
  | GInt64 int
  | GFloat rat
  | GNumber string
  | GStr string
  | GArr "gval list"
  | GObj "(string \<times> gval) list"

type_synonym gmap = "(string \<times> gval) list"

section \<open>Comma-ok accesses\<close>

text \<open>\<open>s, _ := m[k].(string)\<close>\<close>

definition str_field :: "gmap \<Rightarrow> string \<Rightarrow> string" where
  "str_field m k = (case map_of m k of Some (GStr s) \<Rightarrow> s | _ \<Rightarrow> [])"

text \<open>\<open>o, _ := m[k].(map[string]interface{})\<close>; the nil map has no keys.\<close>

definition obj_field :: "gmap \<Rightarrow> string \<Rightarrow> gmap" where
  "obj_field m k = (case map_of m k of Some (GObj o') \<Rightarrow> o' | _ \<Rightarrow> [])"

text \<open>\<open>l, ok := m[k].([]interface{})\<close>\<close>

definition arr_field :: "gmap \<Rightarrow> string \<Rightarrow> gval list option" where
  "arr_field m k = (case map_of m k of Some (GArr l) \<Rightarrow> Some l | _ \<Rightarrow> None)"

text \<open>\<open>b, _ := m[k].(bool)\<close>\<close>

definition bool_field :: "gmap \<Rightarrow> string \<Rightarrow> bool" where
  "bool_field m k = (case map_of m k of Some (GBool b) \<Rightarrow> b | _ \<Rightarrow> False)"

definition has_key :: "gmap \<Rightarrow> string \<Rightarrow> bool" where
  "has_key m k = (map_of m k \<noteq> None)"

text \<open>\<open>m[k] = v\<close>\<close>

definition put :: "gmap \<Rightarrow> string \<Rightarrow> gval \<Rightarrow> gmap" where
  "put m k v = AList.update k v m"

lemma map_of_put [simp]: "map_of (put m k v) k' = (if k' = k then Some v else map_of m k')"
  by (simp add: put_def update_conv')

lemma arr_field_Some [simp]: "arr_field m k = Some l \<longleftrightarrow> map_of m k = Some (GArr l)"
  by (auto simp: arr_field_def split: option.splits gval.splits)

lemma arr_field_size [termination_simp]:
  "arr_field m k = Some l \<Longrightarrow> size_list size l < size_list (size_prod (\<lambda>_. 0) size) m"
  using map_of_size [of m k "GArr l" size] by simp

text \<open>The conversion \<open>int(f)\<close> of a float truncates towards zero.\<close>

definition trunc_rat :: "rat \<Rightarrow> int" where
  "trunc_rat r = (if r < 0 then - \<lfloor>- r\<rfloor> else \<lfloor>r\<rfloor>)"

lemma trunc_rat_of_int [simp]: "trunc_rat (of_int i) = i"
  by (simp add: trunc_rat_def)

section \<open>Type codes\<close>

text \<open>
  \<open>IsCardPayload\<close> and \<open>IsRichTextPayload\<close> read the numeric \<open>type\<close> of a message the same way,
  whichever decoder produced it.
\<close>

definition has_content_type :: "int \<Rightarrow> gmap \<Rightarrow> bool" where
  "has_content_type n payload =
     (case map_of payload ''type'' of
        Some (GFloat r) \<Rightarrow> trunc_rat r = n
      | Some (GInt i) \<Rightarrow> i = n
      | Some (GNumber s) \<Rightarrow> parse_int64 s = Some n
      | _ \<Rightarrow> False)"

section \<open>The services the code calls\<close>

text \<open>
  \<open>encoding/json\<close> and the Markdown parser goldmark are parameters of the model, bundled in a
  record.  \<open>marshal\<close> is \<open>json.Marshal\<close>, \<open>unmarshal\<close> is \<open>json.Unmarshal\<close> into a
  \<open>map[string]interface{}\<close> (an object, or \<open>GNil\<close> for the text \<open>null\<close>), \<open>members\<close> is what
  \<open>json.Unmarshal\<close> into a struct iterates over: the members of the top-level object in document
  order, repeated names included (none for \<open>null\<close>), \<open>decode_num\<close> is one
  \<open>Decode\<close> of a decoder with \<open>UseNumber\<close> together with the input it leaves unread, and
  \<open>md_parse\<close> is goldmark's CommonMark parser.  The Markdown tree has the node kinds the code
  tells apart; a text node carries its segment and whether a line break follows it.
\<close>

datatype md =
    MdLink string "md list"
  | MdImage string "md list"
  | MdAutoLink string
  | MdText string bool
  | MdString string
  | MdBlock "md list"
  | MdOther "md list"

record services =
  marshal :: "gval \<Rightarrow> string option"
  unmarshal :: "string \<Rightarrow> gval option"
  members :: "string \<Rightarrow> gmap option"
  decode_num :: "string \<Rightarrow> (gval \<times> string) option"
  md_parse :: "string \<Rightarrow> md list"

end
