(* ===== verification/Net_Url.thy ===== *)
theory Net_Url
  imports Go_Strings
begin

text \<open>
  \<open>url.Parse\<close> of Go's \<open>net/url\<close>, as far as the card validator reads its result: whether the text
  parses, the scheme and the host.  The parser is the one of the language version the module
  names (Go 1.25): cut the fragment, refuse control bytes, take the scheme, cut the query, take
  the authority after two slashes, and check the percent escapes of every part.
\<close>

definition is_hex :: "char \<Rightarrow> bool" where
  "is_hex c = (is_digit c \<or> (97 \<le> byte c \<and> byte c \<le> 102) \<or> (65 \<le> byte c \<and> byte c \<le> 70))"

definition unhex :: "char \<Rightarrow> nat" where
  "unhex c = (if is_digit c then byte c - 48 else if 97 \<le> byte c then byte c - 87 else byte c - 55)"

datatype url_mode = HostMode | ZoneMode | OtherMode

text \<open>Bytes that may stand unescaped in a host name.\<close>

definition host_byte :: "char \<Rightarrow> bool" where
  "host_byte c = (is_alpha c \<or> is_digit c \<or> c \<in> set ''!$&()*+,;=:[]<>-_.~'' \<or> byte c = 39 \<or> byte c = 34)"

text \<open>\<open>unescape\<close>: decode percent escapes; \<open>None\<close> is its error.\<close>

fun unescape :: "url_mode \<Rightarrow> string \<Rightarrow> string option" where
  "unescape m [] = Some []"
| "unescape m (c # s) =
     (if c = CHR ''%'' then
        (case s of
           a # b # r \<Rightarrow>
             if \<not> is_hex a \<or> \<not> is_hex b then None
             else if m = HostMode \<and> unhex a < 8 \<and> [a, b] \<noteq> ''25'' then None
             else if m = ZoneMode \<and> [a, b] \<noteq> ''25'' \<and> 16 * unhex a + unhex b \<noteq> 32
                     \<and> \<not> host_byte (char_of (16 * unhex a + unhex b)) then None
             else map_option ((#) (char_of (16 * unhex a + unhex b))) (unescape m r)
         | _ \<Rightarrow> None)
      else if m \<noteq> OtherMode \<and> byte c < 128 \<and> \<not> host_byte c then None
      else map_option ((#) c) (unescape m s))"

text \<open>\<open>getScheme\<close>: the scheme and the rest; an empty scheme when the text has none.\<close>

fun scheme_scan :: "string \<Rightarrow> string \<Rightarrow> string \<Rightarrow> (string \<times> string) option" where
  "scheme_scan whole acc [] = Some ([], whole)"
| "scheme_scan whole acc (c # s) =
     (if is_alpha c then scheme_scan whole (acc @ [c]) s
      else if is_digit c \<or> c \<in> set ''+-.'' then
        (if acc = [] then Some ([], whole) else scheme_scan whole (acc @ [c]) s)
      else if c = CHR '':'' then (if acc = [] then None else Some (acc, s))
      else Some ([], whole))"

definition get_scheme :: "string \<Rightarrow> (string \<times> string) option" where
  "get_scheme s = scheme_scan s [] s"

definition lower_char :: "char \<Rightarrow> char" where
  "lower_char c = (if 65 \<le> byte c \<and> byte c \<le> 90 then char_of (byte c + 32) else c)"

definition to_lower :: "string \<Rightarrow> string" where
  "to_lower = map lower_char"

definition valid_optional_port :: "string \<Rightarrow> bool" where
  "valid_optional_port p = (case p of [] \<Rightarrow> True | c # ds \<Rightarrow> c = CHR '':'' \<and> list_all is_digit ds)"

definition valid_userinfo :: "string \<Rightarrow> bool" where
  "valid_userinfo =
     list_all (\<lambda>c. is_alpha c \<or> is_digit c \<or> c \<in> set ''-._:~!$&()*+,;=%@'' \<or> byte c = 39)"

definition parse_host :: "string \<Rightarrow> string option" where
  "parse_host host =
     (if prefix ''['' host then
        (case last_index (CHR '']'') host of
           None \<Rightarrow> None
         | Some i \<Rightarrow>
             if \<not> valid_optional_port (drop (Suc i) host) then None
             else (case str_index ''%25'' (take i host) of
                     None \<Rightarrow> unescape HostMode host
                   | Some z \<Rightarrow>
                       (case (unescape HostMode (take z host),
                              unescape ZoneMode (drop z (take i host)),
                              unescape HostMode (drop i host)) of
                          (Some h1, Some h2, Some h3) \<Rightarrow> Some (h1 @ h2 @ h3)
                        | _ \<Rightarrow> None)))
      else (case last_index (CHR '':'') host of
              None \<Rightarrow> unescape HostMode host
            | Some i \<Rightarrow>
                if \<not> valid_optional_port (drop i host) then None else unescape HostMode host))"

definition parse_authority :: "string \<Rightarrow> string option" where
  "parse_authority a =
     (case last_index (CHR ''@'') a of
        None \<Rightarrow> parse_host a
      | Some i \<Rightarrow>
          (case parse_host (drop (Suc i) a) of
             None \<Rightarrow> None
           | Some h \<Rightarrow>
               let user = take i a in
               if \<not> valid_userinfo user then None
               else (case str_cut (CHR '':'') user of
                       (name, pw, _) \<Rightarrow>
                         if unescape OtherMode name = None \<or> unescape OtherMode pw = None
                         then None else Some h)))"

definition has_ctl_byte :: "string \<Rightarrow> bool" where
  "has_ctl_byte s = list_ex (\<lambda>c. byte c < 32 \<or> byte c = 127) s"

text \<open>Drop the query: a single trailing question mark, or everything after the first one.\<close>

definition cut_query :: "string \<Rightarrow> string" where
  "cut_query s = (case str_cut (CHR ''?'') s of (b, _, _) \<Rightarrow> b)"

text \<open>\<open>parse(rawURL, viaRequest = false)\<close>: \<open>Some (Scheme, Host)\<close>, or \<open>None\<close> for an error.\<close>

definition parse_no_frag :: "string \<Rightarrow> (string \<times> string) option" where
  "parse_no_frag raw =
     (if has_ctl_byte raw then None
      else if raw = ''*'' then Some ([], [])
      else (case get_scheme raw of
              None \<Rightarrow> None
            | Some (sch0, rest0) \<Rightarrow>
                let sch = to_lower sch0; rest = cut_query rest0 in
                if \<not> prefix ''/'' rest \<and> sch \<noteq> [] then Some (sch, [])
                else if \<not> prefix ''/'' rest
                        \<and> CHR '':'' \<in> set (fst (str_cut (CHR ''/'') rest)) then None
                else if (sch \<noteq> [] \<or> \<not> prefix ''///'' rest) \<and> prefix ''//'' rest then
                  (let a = drop 2 rest; auth = takeWhile (\<lambda>c. c \<noteq> CHR ''/'') a;
                       path = dropWhile (\<lambda>c. c \<noteq> CHR ''/'') a
                   in case parse_authority auth of
                        None \<Rightarrow> None
                      | Some h \<Rightarrow> if unescape OtherMode path = None then None else Some (sch, h))
                else if unescape OtherMode rest = None then None else Some (sch, [])))"

definition url_parse :: "string \<Rightarrow> (string \<times> string) option" where
  "url_parse raw =
     (case str_cut (CHR ''#'') raw of
        (u, frag, _) \<Rightarrow>
          (case parse_no_frag u of
             None \<Rightarrow> None
           | Some r \<Rightarrow> if unescape OtherMode frag = None then None else Some r))"

section \<open>What a parsed URL looks like\<close>

lemma scheme_scan_Some:
  "scheme_scan whole acc s = Some (sch, rest) \<Longrightarrow> sch \<noteq> []
   \<Longrightarrow> \<exists>mid. s = mid @ CHR '':'' # rest \<and> sch = acc @ mid"
proof (induction whole acc s rule: scheme_scan.induct)
  case (2 whole acc c s)
  then show ?case by (fastforce split: if_splits)
qed simp

lemma get_scheme_Some:
  assumes "get_scheme s = Some (sch, rest)" and "sch \<noteq> []"
  shows "s = sch @ CHR '':'' # rest"
  using scheme_scan_Some [of s "[]" s sch rest] assms by (auto simp: get_scheme_def)

text \<open>
  A parsed URL with a scheme and a host spells out the scheme, a colon and two slashes.
\<close>

lemma parse_no_frag_scheme_host:
  assumes "parse_no_frag raw = Some (sch, h)" and "sch \<noteq> []" and "h \<noteq> []"
  shows "\<exists>sch0 rest. raw = sch0 @ ''://'' @ rest \<and> to_lower sch0 = sch"
proof -
  obtain sch0 rest0 where g: "get_scheme raw = Some (sch0, rest0)"
    using assms(1) by (auto simp: parse_no_frag_def assms(3) split: if_splits option.splits prod.splits)
  have *: "to_lower sch0 = sch \<and> prefix ''//'' (cut_query rest0)"
    using assms g
    by (auto simp: parse_no_frag_def Let_def split: if_splits option.splits)
  then have "sch0 \<noteq> []" using assms(2) by (auto simp: to_lower_def)
  with g have raw: "raw = sch0 @ CHR '':'' # rest0" by (rule get_scheme_Some)
  have "prefix (cut_query rest0) rest0"
    using str_cut_prefix [of "CHR ''?''" rest0] by (auto simp: cut_query_def split: prod.splits)
  with * have "prefix ''//'' rest0" using prefix_order.trans by blast
  then obtain rest where "rest0 = ''//'' @ rest" by (auto simp: prefix_def)
  with raw * show ?thesis by (intro exI [of _ sch0] exI [of _ rest]) simp
qed

lemma url_parse_scheme_host:
  assumes "url_parse raw = Some (sch, h)" and "sch \<noteq> []" and "h \<noteq> []"
  shows "\<exists>sch0 rest. raw = sch0 @ ''://'' @ rest \<and> to_lower sch0 = sch"
proof -
  obtain u frag fd where c: "str_cut (CHR ''#'') raw = (u, frag, fd)"
    by (cases "str_cut (CHR ''#'') raw")
  with assms(1) have "parse_no_frag u = Some (sch, h)"
    by (auto simp: url_parse_def split: option.splits if_splits)
  from parse_no_frag_scheme_host [OF this assms(2,3)]
  obtain sch0 rest where u: "u = sch0 @ ''://'' @ rest" "to_lower sch0 = sch" by blast
  obtain t where "raw = u @ t"
  proof (cases fd)
    case True
    with c str_cut_append [of "CHR ''#''" raw u frag] show ?thesis by (auto intro: that)
  next
    case False
    with c str_cut_not_found [of "CHR ''#''" raw u frag] show ?thesis by (auto intro: that [of "[]"])
  qed
  with u show ?thesis by (intro exI [of _ sch0] exI [of _ "rest @ t"]) simp
qed

end
