(* ===== verification/Card_Base.thy ===== *)
theory Card_Base
  imports Go_Json Net_Url
begin

text \<open>
  Package \<open>pkg/cardmsg\<close>: the constants, sentinel errors and profile table of card messages, and
  the URL allowlist (\<open>checkURL\<close>, \<open>checkImageURL\<close>, \<open>checkNodeURLs\<close>, \<open>markdownLinkTargets\<close>) that
  every URL-bearing position of a card goes through.
\<close>

datatype card_error =
    CardPayloadTooLarge
  | CardMissing
  | CardProfileUnsupported
  | CardUnknownElement
  | CardUnknownAction
  | CardBadURLScheme
  | CardTooManyNodes
  | CardTooDeep
  | CardBadShape
  | CardInputInvalid
  | CatalogMarkerInvalid
  | CardMarshal

type_synonym 'a res = "card_error + 'a"

definition max_payload_bytes :: nat where "max_payload_bytes = 524288"
definition max_nodes :: nat where "max_nodes = 200"
definition max_depth :: nat where "max_depth = 16"
definition max_copy_text_bytes :: nat where "max_copy_text_bytes = 4096"

definition card_version :: string where "card_version = ''1.5''"
definition profile_v1 :: string where "profile_v1 = ''octo/v1''"
definition profile_v2 :: string where "profile_v2 = ''octo/v2''"

definition accepted_profiles :: "(string \<times> bool) list" where
  "accepted_profiles = [(profile_v1, False), (profile_v2, True)]"

text \<open>\<open>interactiveByProfile\<close>: the capability of a profile, \<open>None\<close> for an unknown one.\<close>

definition interactive_by_profile :: "string \<Rightarrow> bool option" where
  "interactive_by_profile p = map_of accepted_profiles p"

definition is_accepted_render_profile :: "string \<Rightarrow> bool" where
  "is_accepted_render_profile v = (v = [] \<or> v = ''octo-chat/v1'')"

definition input_elements :: "string list" where
  "input_elements =
     [''Input.Text'', ''Input.Toggle'', ''Input.ChoiceSet'', ''Input.Number'', ''Input.Date'',
      ''Input.Time'']"

text \<open>The capability lists a bot is told: display elements and actions, and inputs.\<close>

definition display_elements :: "string list" where
  "display_elements =
     [''TextBlock'', ''RichTextBlock'', ''Image'', ''ImageSet'', ''Container'', ''ColumnSet'',
      ''FactSet'', ''Table'', ''ActionSet'']"

definition display_actions :: "string list" where
  "display_actions = [''Action.OpenUrl'', ''Action.ToggleVisibility'', ''Action.CopyToClipboard'']"

definition is_input_element :: "string \<Rightarrow> bool" where
  "is_input_element t = (t \<in> set input_elements)"

definition is_card_payload :: "gmap \<Rightarrow> bool" where
  "is_card_payload payload = has_content_type 17 payload"

section \<open>URLs\<close>

text \<open>\<open>checkURL\<close>: only absolute http and https URLs pass.\<close>

definition check_url :: "string \<Rightarrow> unit res" where
  "check_url raw =
     (case url_parse (trim_space raw) of
        None \<Rightarrow> Inl CardBadURLScheme
      | Some (scheme, host) \<Rightarrow>
          let scheme = to_lower scheme in
          if (scheme \<noteq> ''http'' \<and> scheme \<noteq> ''https'') \<or> host = [] then Inl CardBadURLScheme
          else Inr ())"

definition chevron_down_icon :: string where
  "chevron_down_icon =
     ''data:image/svg+xml,%3Csvg%20xmlns%3D%22http%3A%2F%2Fwww.w3.org%2F2000%2Fsvg%22%2'' @
     ''0width%3D%221em%22%20height%3D%221em%22%20viewBox%3D%220%200%2024%2024%22%3E%3Cp'' @
     ''ath%20fill%3D%22none%22%20stroke%3D%22%23a1a6ab%22%20stroke-linecap%3D%22round%2'' @
     ''2%20stroke-linejoin%3D%22round%22%20stroke-width%3D%222%22%20d%3D%22m6%209l6%206'' @
     ''l6-6%22%2F%3E%3C%2Fsvg%3E''"

definition chevron_up_icon :: string where
  "chevron_up_icon =
     ''data:image/svg+xml,%3Csvg%20xmlns%3D%22http%3A%2F%2Fwww.w3.org%2F2000%2Fsvg%22%2'' @
     ''0width%3D%221em%22%20height%3D%221em%22%20viewBox%3D%220%200%2024%2024%22%3E%3Cp'' @
     ''ath%20fill%3D%22none%22%20stroke%3D%22%23a1a6ab%22%20stroke-linecap%3D%22round%2'' @
     ''2%20stroke-linejoin%3D%22round%22%20stroke-width%3D%222%22%20d%3D%22m18%2015l-6-'' @
     ''6l-6%206%22%2F%3E%3C%2Fsvg%3E''"

definition vcs_git_branch_icon :: string where
  "vcs_git_branch_icon =
     ''data:image/svg+xml,%3Csvg%20xmlns%3D%22http%3A%2F%2Fwww.w3.org%2F2000%2Fsvg%22%2'' @
     ''0width%3D%2216%22%20height%3D%2216%22%20viewBox%3D%220%200%2024%2024%22%20fill%3'' @
     ''D%22none%22%20stroke%3D%22%236b7075%22%20stroke-width%3D%222%22%20stroke-linecap'' @
     ''%3D%22round%22%20stroke-linejoin%3D%22round%22%3E%3Cpath%20d%3D%22M15%206a9%209%'' @
     ''200%200%200-9%209V3%22%2F%3E%3Ccircle%20cx%3D%2218%22%20cy%3D%226%22%20r%3D%223%'' @
     ''22%2F%3E%3Ccircle%20cx%3D%226%22%20cy%3D%2218%22%20r%3D%223%22%2F%3E%3C%2Fsvg%3E''"

definition vetted_inline_images :: "string list" where
  "vetted_inline_images = [chevron_down_icon, chevron_up_icon, vcs_git_branch_icon]"

definition is_vetted_inline_image :: "string \<Rightarrow> bool" where
  "is_vetted_inline_image raw = (raw \<in> set vetted_inline_images)"

definition check_image_url :: "string \<Rightarrow> unit res" where
  "check_image_url raw = (if is_vetted_inline_image raw then Inr () else check_url raw)"

text \<open>\<open>checkNodeURLs\<close>: the background image of a node (a string or an object with a \<open>url\<close>) and its
  icon.\<close>

definition check_background :: "gmap \<Rightarrow> unit res" where
  "check_background node =
     (case map_of node ''backgroundImage'' of
        Some (GStr v) \<Rightarrow> if v \<noteq> [] then check_url v else Inr ()
      | Some (GObj v) \<Rightarrow>
          if str_field v ''url'' \<noteq> [] then check_url (str_field v ''url'') else Inr ()
      | _ \<Rightarrow> Inr ())"

definition check_node_urls :: "gmap \<Rightarrow> unit res" where
  "check_node_urls node =
     bind_res (check_background node) (\<lambda>_.
       if str_field node ''iconUrl'' \<noteq> [] then check_url (str_field node ''iconUrl'') else Inr ())"

text \<open>\<open>markdownLinkTargets\<close>: the destinations of links, images and autolinks, in document order,
  without the blank ones.\<close>

fun md_targets :: "md \<Rightarrow> string list" where
  "md_targets (MdLink d cs) = d # concat (map md_targets cs)"
| "md_targets (MdImage d cs) = d # concat (map md_targets cs)"
| "md_targets (MdAutoLink u) = [u]"
| "md_targets (MdText _ _) = []"
| "md_targets (MdString _) = []"
| "md_targets (MdBlock cs) = concat (map md_targets cs)"
| "md_targets (MdOther cs) = concat (map md_targets cs)"

definition markdown_link_targets :: "services \<Rightarrow> string \<Rightarrow> string list" where
  "markdown_link_targets sv s =
     (if s = [] then []
      else filter (\<lambda>d. \<not> blank d) (concat (map md_targets (md_parse sv s))))"

definition check_markdown :: "services \<Rightarrow> string \<Rightarrow> unit res" where
  "check_markdown sv s = check_all check_url (markdown_link_targets sv s)"

section \<open>What the allowlist lets through\<close>

text \<open>\<open>http_url s\<close>: up to white space around it, \<open>s\<close> spells http or https (in any case of letters),
  a colon and two slashes.\<close>

definition http_url :: "string \<Rightarrow> bool" where
  "http_url s =
     (let t = to_lower (trim_space s) in prefix ''http://'' t \<or> prefix ''https://'' t)"

lemma to_lower_append [simp]: "to_lower (a @ b) = to_lower a @ to_lower b"
  by (simp add: to_lower_def)

lemma length_to_lower [simp]: "length (to_lower s) = length s"
  by (simp add: to_lower_def)

lemma lower_char_fixed: "\<not> byte c \<le> 90 \<Longrightarrow> lower_char c = c"
  by (simp add: lower_char_def)

lemma lower_char_idem [simp]: "lower_char (lower_char c) = lower_char c"
proof (cases "65 \<le> byte c \<and> byte c \<le> 90")
  case True
  then have "byte (lower_char c) = byte c + 32" by (simp add: lower_char_def byte_def)
  with True have "\<not> byte (lower_char c) \<le> 90" by simp
  then show ?thesis by (rule lower_char_fixed)
next
  case False
  then have "lower_char c = c" by (simp only: lower_char_def if_False)
  then show ?thesis by simp
qed

lemma to_lower_idem [simp]: "to_lower (to_lower s) = to_lower s"
  by (simp add: to_lower_def)

lemma check_url_http: "check_url raw = Inr u \<Longrightarrow> http_url raw"
proof -
  assume "check_url raw = Inr u"
  then obtain sch host where p: "url_parse (trim_space raw) = Some (sch, host)"
    and s: "to_lower sch = ''http'' \<or> to_lower sch = ''https''" and h: "host \<noteq> []"
    by (auto simp: check_url_def Let_def split: option.splits if_splits)
  then have "sch \<noteq> []" by (auto simp: to_lower_def)
  from url_parse_scheme_host [OF p this h] obtain sch0 rest
    where t: "trim_space raw = sch0 @ ''://'' @ rest" and l: "to_lower sch0 = sch" by blast
  have "to_lower ''://'' = ''://''" by (simp add: to_lower_def lower_char_def byte_def)
  with t have "to_lower (trim_space raw) = to_lower sch0 @ ''://'' @ to_lower rest"
    by (metis to_lower_append)
  moreover have "to_lower sch0 = ''http'' \<or> to_lower sch0 = ''https''"
    using s l by (metis to_lower_idem)
  ultimately show ?thesis by (auto simp: http_url_def)
qed

text \<open>An image URL is an http(s) URL or one of the vetted constants, byte for byte.\<close>

definition image_url :: "string \<Rightarrow> bool" where
  "image_url s = (is_vetted_inline_image s \<or> http_url s)"

lemma check_image_url_ok: "check_image_url raw = Inr u \<Longrightarrow> image_url raw"
  by (auto simp: check_image_url_def image_url_def dest: check_url_http split: if_splits)

text \<open>The URLs of a node's own background and icon.\<close>

definition node_urls :: "gmap \<Rightarrow> string list" where
  "node_urls node =
     (case map_of node ''backgroundImage'' of
        Some (GStr v) \<Rightarrow> [v] | Some (GObj v) \<Rightarrow> [str_field v ''url''] | _ \<Rightarrow> [])
     @ [str_field node ''iconUrl'']"

lemma check_node_urls_http:
  "check_node_urls node = Inr u \<Longrightarrow> x \<in> set (node_urls node) \<Longrightarrow> x \<noteq> [] \<Longrightarrow> http_url x"
  by (auto simp: check_node_urls_def check_background_def node_urls_def res_simps
      dest: check_url_http split: option.splits gval.splits if_splits)

lemma check_markdown_http:
  "check_markdown sv s = Inr u \<Longrightarrow> x \<in> set (markdown_link_targets sv s) \<Longrightarrow> http_url x"
  by (auto simp: check_markdown_def res_simps dest: check_url_http)

end
