(* ===== verification/Card_Validate.thy ===== *)
theory Card_Validate
  imports Card_Base
begin

text \<open>
  The write-strict gate \<open>Validate\<close> of \<open>pkg/cardmsg/validate.go\<close>: the walker over an Adaptive Card
  with its node and depth budgets, its per-card identifier namespace, its action and element
  allowlists and the toggle targets it resolves at the end.  The walker's fields are the record
  \<open>walker\<close>; every method takes the walker and returns the error or the updated walker.
\<close>

record walker =
  nodes :: nat
  interactive :: bool
  seen_ids :: "string set"
  element_ids :: "string set"
  target_refs :: "string list"

definition new_walker :: "bool \<Rightarrow> walker" where
  "new_walker b =
     \<lparr>nodes = 0, interactive = b, seen_ids = {}, element_ids = {}, target_refs = []\<rparr>"

section \<open>Budgets and identifiers\<close>

definition bump :: "nat \<Rightarrow> walker \<Rightarrow> walker res" where
  "bump depth w =
     (let w = w\<lparr>nodes := Suc (nodes w)\<rparr> in
      if max_nodes < nodes w then Inl CardTooManyNodes
      else if max_depth < depth then Inl CardTooDeep
      else Inr w)"

definition register_id :: "string \<Rightarrow> walker \<Rightarrow> walker res" where
  "register_id ident w =
     (if ident \<in> seen_ids w then Inl CardBadShape
      else Inr (w\<lparr>seen_ids := insert ident (seen_ids w)\<rparr>))"

definition is_visible_ok :: "gmap \<Rightarrow> bool" where
  "is_visible_ok node =
     (case map_of node ''isVisible'' of None \<Rightarrow> True | Some (GBool _) \<Rightarrow> True | Some _ \<Rightarrow> False)"

definition note_id_and_visibility :: "gmap \<Rightarrow> walker \<Rightarrow> walker res" where
  "note_id_and_visibility node w =
     bind_res (guard_res (is_visible_ok node) CardBadShape) (\<lambda>_.
       case map_of node ''id'' of
         Some (GStr ident) \<Rightarrow>
           if blank ident then Inr w
           else bind_res (register_id ident w) (\<lambda>w.
                  Inr (w\<lparr>element_ids := insert ident (element_ids w)\<rparr>))
       | _ \<Rightarrow> Inr w)"

definition resolve_target_refs :: "walker \<Rightarrow> unit res" where
  "resolve_target_refs w =
     check_all (\<lambda>ref. guard_res (ref \<in> element_ids w) CardBadShape) (target_refs w)"

section \<open>Actions\<close>

definition target_element_id :: "gval \<Rightarrow> string res" where
  "target_element_id item =
     (case item of
        GStr v \<Rightarrow> if blank v then Inl CardBadShape else Inr v
      | GObj v \<Rightarrow>
          let ident = str_field v ''elementId'' in
          if blank ident then Inl CardBadShape
          else if \<not> is_visible_ok v then Inl CardBadShape
          else Inr ident
      | _ \<Rightarrow> Inl CardBadShape)"

definition toggle_visibility :: "gmap \<Rightarrow> walker \<Rightarrow> walker res" where
  "toggle_visibility act w =
     (case map_of act ''targetElements'' of
        Some (GArr list) \<Rightarrow>
          if list = [] then Inl CardBadShape
          else each (\<lambda>item w. bind_res (target_element_id item) (\<lambda>ident.
                 Inr (w\<lparr>target_refs := target_refs w @ [ident]\<rparr>))) list w
      | _ \<Rightarrow> Inl CardBadShape)"

definition copy_to_clipboard :: "gmap \<Rightarrow> unit res" where
  "copy_to_clipboard act =
     (let text = str_field act ''text'' in
      if text = [] then Inl CardBadShape
      else if max_copy_text_bytes < length text then Inl CardBadShape
      else guard_res (case map_of act ''title'' of
                        None \<Rightarrow> True | Some (GStr _) \<Rightarrow> True | Some _ \<Rightarrow> False) CardBadShape)"

definition submit_action_check :: "gmap \<Rightarrow> walker \<Rightarrow> walker res" where
  "submit_action_check act w =
     (if \<not> interactive w then Inl CardUnknownAction
      else let ident = str_field act ''id'' in
        if ident = [] then Inl CardBadShape
        else bind_res (register_id ident w) (\<lambda>w.
               bind_res (guard_res (case map_of act ''data'' of
                           None \<Rightarrow> True | Some (GObj _) \<Rightarrow> True | Some _ \<Rightarrow> False) CardBadShape)
                 (\<lambda>_. Inr w)))"

definition open_url_check :: "gmap \<Rightarrow> unit res" where
  "open_url_check act =
     (let u = str_field act ''url'' in if u = [] then Inl CardBadShape else check_url u)"

definition action :: "gval \<Rightarrow> walker \<Rightarrow> walker res" where
  "action a w =
     bind_res (bump 1 w) (\<lambda>w.
       case a of
         GObj act \<Rightarrow>
           bind_res (check_node_urls act) (\<lambda>_.
             let t = str_field act ''type'' in
             if t = ''Action.OpenUrl'' then bind_res (open_url_check act) (\<lambda>_. Inr w)
             else if t = ''Action.ToggleVisibility'' then toggle_visibility act w
             else if t = ''Action.CopyToClipboard'' then
               bind_res (copy_to_clipboard act) (\<lambda>_. Inr w)
             else if t = ''Action.Submit'' then submit_action_check act w
             else Inl CardUnknownAction)
       | _ \<Rightarrow> Inl CardBadShape)"

definition optional_action :: "string \<Rightarrow> gmap \<Rightarrow> walker \<Rightarrow> walker res" where
  "optional_action k el w =
     (case map_of el k of None \<Rightarrow> Inr w | Some a \<Rightarrow> action a w)"

definition select_action :: "gmap \<Rightarrow> walker \<Rightarrow> walker res" where
  "select_action = optional_action ''selectAction''"

definition inline_action :: "gmap \<Rightarrow> walker \<Rightarrow> walker res" where
  "inline_action = optional_action ''inlineAction''"

section \<open>Children constrained by their position\<close>

definition child_collection_fields :: "string list" where
  "child_collection_fields =
     [''items'', ''columns'', ''rows'', ''cells'', ''inlines'', ''actions'', ''facts'', ''images'']"

definition child_type_matches :: "gmap \<Rightarrow> string \<Rightarrow> bool" where
  "child_type_matches node expected =
     (case map_of node ''type'' of
        None \<Rightarrow> True
      | Some (GStr s) \<Rightarrow> s = expected
      | Some _ \<Rightarrow> expected = [])"

definition reject_foreign_subtree :: "gmap \<Rightarrow> string list \<Rightarrow> unit res" where
  "reject_foreign_subtree node allowed =
     check_all (\<lambda>f. guard_res (\<not> has_key node f \<or> f \<in> set allowed) CardUnknownElement)
       child_collection_fields"

definition check_constrained_child :: "gmap \<Rightarrow> string \<Rightarrow> string list \<Rightarrow> unit res" where
  "check_constrained_child node expected allowed =
     bind_res (guard_res (expected = [] \<or> child_type_matches node expected) CardUnknownElement)
       (\<lambda>_. reject_foreign_subtree node allowed)"

text \<open>An optional array field: absent counts as empty, any other shape is refused.\<close>

definition array_at :: "gmap \<Rightarrow> string \<Rightarrow> gval list res" where
  "array_at m k =
     (case map_of m k of None \<Rightarrow> Inr [] | Some (GArr l) \<Rightarrow> Inr l | Some _ \<Rightarrow> Inl CardBadShape)"

lemma array_at_size:
  "array_at m k = Inr l \<Longrightarrow> size_list size l \<le> size_list (size_prod (\<lambda>_. 0) size) m"
  using map_of_size [of m k "GArr l" size]
  by (auto simp: array_at_def split: option.splits gval.splits)

section \<open>Leaf elements\<close>

definition text_block :: "services \<Rightarrow> gmap \<Rightarrow> unit res" where
  "text_block sv el =
     (case map_of el ''text'' of
        None \<Rightarrow> Inr ()
      | Some (GStr s) \<Rightarrow> check_markdown sv s
      | Some _ \<Rightarrow> Inl CardBadShape)"

definition image :: "gmap \<Rightarrow> unit res" where
  "image el =
     (let u = str_field el ''url'' in if u = [] then Inl CardBadShape else check_image_url u)"

definition fact_text :: "services \<Rightarrow> gmap \<Rightarrow> string \<Rightarrow> unit res" where
  "fact_text sv fct k =
     (case map_of fct k of
        None \<Rightarrow> Inr ()
      | Some (GStr s) \<Rightarrow> check_markdown sv s
      | Some _ \<Rightarrow> Inl CardBadShape)"

definition fact_child :: "services \<Rightarrow> nat \<Rightarrow> gval \<Rightarrow> walker \<Rightarrow> walker res" where
  "fact_child sv d f w =
     (case f of
        GObj fct \<Rightarrow>
          bind_res (bump (d + 1) w) (\<lambda>w.
          bind_res (check_constrained_child fct [] []) (\<lambda>_.
          bind_res (fact_text sv fct ''title'') (\<lambda>_.
          bind_res (fact_text sv fct ''value'') (\<lambda>_. Inr w))))
      | _ \<Rightarrow> Inl CardBadShape)"

definition image_child :: "nat \<Rightarrow> gval \<Rightarrow> walker \<Rightarrow> walker res" where
  "image_child d it w =
     (case it of
        GObj img \<Rightarrow>
          bind_res (bump d w) (\<lambda>w.
          bind_res (check_constrained_child img ''Image'' []) (\<lambda>_.
          bind_res (check_node_urls img) (\<lambda>_.
          bind_res (note_id_and_visibility img w) (\<lambda>w.
          bind_res (select_action img w) (\<lambda>w.
          bind_res (image img) (\<lambda>_. Inr w))))))
      | _ \<Rightarrow> Inl CardBadShape)"

definition inline_child :: "nat \<Rightarrow> gval \<Rightarrow> walker \<Rightarrow> walker res" where
  "inline_child d it w =
     (case it of
        GStr _ \<Rightarrow> Inr w
      | GObj inl \<Rightarrow>
          bind_res (bump (d + 1) w) (\<lambda>w.
          bind_res (check_constrained_child inl ''TextRun'' []) (\<lambda>_.
          select_action inl w))
      | _ \<Rightarrow> Inl CardBadShape)"

definition label_markdown :: "services \<Rightarrow> gmap \<Rightarrow> string \<Rightarrow> unit res" where
  "label_markdown sv el k =
     (case map_of el k of Some (GStr s) \<Rightarrow> check_markdown sv s | _ \<Rightarrow> Inr ())"

definition input_element :: "services \<Rightarrow> string \<Rightarrow> gmap \<Rightarrow> walker \<Rightarrow> walker res" where
  "input_element sv t el w =
     (if \<not> is_input_element t then Inl CardUnknownElement
      else if \<not> interactive w then Inl CardUnknownElement
      else if blank (str_field el ''id'') then Inl CardBadShape
      else bind_res (label_markdown sv el ''label'') (\<lambda>_.
           bind_res (label_markdown sv el ''errorMessage'') (\<lambda>_.
           bind_res (guard_res (t = ''Input.ChoiceSet'' \<longrightarrow>
                       (case map_of el ''choices'' of
                          None \<Rightarrow> True | Some (GArr _) \<Rightarrow> True | Some _ \<Rightarrow> False)) CardBadShape) (\<lambda>_.
           inline_action el w))))"

section \<open>The recursive walk\<close>

definition element_head :: "gmap \<Rightarrow> nat \<Rightarrow> walker \<Rightarrow> walker res" where
  "element_head el depth w =
     bind_res (bump depth w) (\<lambda>w.
     bind_res (check_node_urls el) (\<lambda>_.
     bind_res (select_action el w) (\<lambda>w.
     note_id_and_visibility el w)))"

definition column_head :: "gmap \<Rightarrow> nat \<Rightarrow> walker \<Rightarrow> walker res" where
  "column_head col depth w =
     bind_res (bump depth w) (\<lambda>w.
     bind_res (check_node_urls col) (\<lambda>_.
     bind_res (note_id_and_visibility col w) (\<lambda>w.
     bind_res (check_constrained_child col ''Column'' [''items'']) (\<lambda>_. Inr w))))"

definition row_head :: "gmap \<Rightarrow> nat \<Rightarrow> walker \<Rightarrow> walker res" where
  "row_head row depth w =
     bind_res (bump depth w) (\<lambda>w.
     bind_res (check_node_urls row) (\<lambda>_.
     bind_res (select_action row w) (\<lambda>w.
     bind_res (check_constrained_child row ''TableRow'' [''cells'']) (\<lambda>_.
     note_id_and_visibility row w))))"

definition cell_head :: "gmap \<Rightarrow> nat \<Rightarrow> walker \<Rightarrow> walker res" where
  "cell_head cell depth w =
     bind_res (bump depth w) (\<lambda>w.
     bind_res (check_constrained_child cell ''TableCell'' [''items'']) (\<lambda>_.
     bind_res (note_id_and_visibility cell w) (\<lambda>w.
     bind_res (check_node_urls cell) (\<lambda>_.
     select_action cell w))))"

function (sequential)
  elements :: "services \<Rightarrow> gval list \<Rightarrow> nat \<Rightarrow> walker \<Rightarrow> walker res"
  and element :: "services \<Rightarrow> gmap \<Rightarrow> nat \<Rightarrow> walker \<Rightarrow> walker res"
  and columns :: "services \<Rightarrow> gval list \<Rightarrow> nat \<Rightarrow> walker \<Rightarrow> walker res"
  and column :: "services \<Rightarrow> gmap \<Rightarrow> nat \<Rightarrow> walker \<Rightarrow> walker res"
  and rows :: "services \<Rightarrow> gval list \<Rightarrow> nat \<Rightarrow> walker \<Rightarrow> walker res"
  and cells :: "services \<Rightarrow> gval list \<Rightarrow> nat \<Rightarrow> walker \<Rightarrow> walker res"
where
  "elements sv [] depth w = Inr w"
| "elements sv (GObj el # items) depth w =
     bind_res (element sv el depth w) (\<lambda>w. elements sv items depth w)"
| "elements sv (_ # items) depth w = Inl CardBadShape"
| "element sv el depth w =
     bind_res (element_head el depth w) (\<lambda>w.
       let t = str_field el ''type'' in
       if t = ''TextBlock'' then bind_res (text_block sv el) (\<lambda>_. Inr w)
       else if t = ''Image'' then bind_res (image el) (\<lambda>_. Inr w)
       else if t = ''Container'' then
         bind_res (array_at el ''items'') (\<lambda>l. elements sv l (depth + 1) w)
       else if t = ''ColumnSet'' then
         bind_res (array_at el ''columns'') (\<lambda>l. columns sv l (depth + 1) w)
       else if t = ''FactSet'' then
         bind_res (array_at el ''facts'') (\<lambda>l. each (fact_child sv depth) l w)
       else if t = ''ImageSet'' then
         bind_res (array_at el ''images'') (\<lambda>l. each (image_child (depth + 1)) l w)
       else if t = ''RichTextBlock'' then
         bind_res (array_at el ''inlines'') (\<lambda>l. each (inline_child depth) l w)
       else if t = ''Table'' then
         bind_res (array_at el ''rows'') (\<lambda>l. rows sv l depth w)
       else if t = ''ActionSet'' then
         bind_res (array_at el ''actions'') (\<lambda>l. each action l w)
       else input_element sv t el w)"
| "columns sv [] depth w = Inr w"
| "columns sv (GObj col # cols) depth w =
     bind_res (column sv col depth w) (\<lambda>w. columns sv cols depth w)"
| "columns sv (_ # cols) depth w = Inl CardBadShape"
| "column sv col depth w =
     bind_res (column_head col depth w) (\<lambda>w.
     bind_res (array_at col ''items'') (\<lambda>l.
     bind_res (elements sv l (depth + 1) w) (\<lambda>w. select_action col w)))"
| "rows sv [] depth w = Inr w"
| "rows sv (GObj row # rs) depth w =
     bind_res (row_head row (depth + 1) w) (\<lambda>w.
     bind_res (array_at row ''cells'') (\<lambda>l.
     bind_res (cells sv l depth w) (\<lambda>w. rows sv rs depth w)))"
| "rows sv (_ # rs) depth w = Inl CardBadShape"
| "cells sv [] depth w = Inr w"
| "cells sv (GObj cell # cs) depth w =
     bind_res (cell_head cell (depth + 2) w) (\<lambda>w.
     bind_res (array_at cell ''items'') (\<lambda>l.
     bind_res (elements sv l (depth + 3) w) (\<lambda>w. cells sv cs depth w)))"
| "cells sv (_ # cs) depth w = Inl CardBadShape"
  by pat_completeness auto
termination
  by (relation "measure (\<lambda>x. case x of
        Inl (Inl (_, its, _, _)) \<Rightarrow> size_list size its
      | Inl (Inr (Inl (_, el, _, _))) \<Rightarrow> Suc (size_list (size_prod (\<lambda>_. 0) size) el)
      | Inl (Inr (Inr (_, cs, _, _))) \<Rightarrow> size_list size cs
      | Inr (Inl (_, col, _, _)) \<Rightarrow> Suc (size_list (size_prod (\<lambda>_. 0) size) col)
      | Inr (Inr (Inl (_, rs, _, _))) \<Rightarrow> size_list size rs
      | Inr (Inr (Inr (_, cs, _, _))) \<Rightarrow> size_list size cs)")
    (auto dest!: array_at_size)

declare element.simps [simp del] column.simps [simp del]

section \<open>The card\<close>

text \<open>\<open>validateCard\<close>: the root of the card, then the identifiers that toggles refer to.\<close>

definition card_head :: "gmap \<Rightarrow> unit res" where
  "card_head ac =
     bind_res (guard_res (\<not> has_key ac ''type'' \<or> str_field ac ''type'' = ''AdaptiveCard'')
       CardBadShape) (\<lambda>_.
     bind_res (guard_res (\<not> has_key ac ''version'' \<or> str_field ac ''version'' = card_version)
       CardProfileUnsupported) (\<lambda>_.
     check_node_urls ac))"

definition card_walk :: "services \<Rightarrow> gmap \<Rightarrow> walker \<Rightarrow> walker res" where
  "card_walk sv ac w =
     bind_res (array_at ac ''body'') (\<lambda>items.
     bind_res (elements sv items 1 w) (\<lambda>w.
     bind_res (array_at ac ''actions'') (\<lambda>acts.
     bind_res (each action acts w) (select_action ac))))"

definition validate_card :: "services \<Rightarrow> gmap \<Rightarrow> bool \<Rightarrow> unit res" where
  "validate_card sv ac b =
     bind_res (card_head ac) (\<lambda>_.
     bind_res (card_walk sv ac (new_walker b)) resolve_target_refs)"

section \<open>Laws that hold of every step hold of the whole walk\<close>

text \<open>
  A property of walker steps that the primitive steps have and that sequencing and the
  interactive gate preserve is a property of every visit, of whole subtrees and of the card.
\<close>

locale walker_law =
  fixes P :: "(walker \<Rightarrow> walker res) \<Rightarrow> bool"
  assumes stay: "P Inr"
    and fail: "P (\<lambda>_. Inl e)"
    and seq: "P f \<Longrightarrow> P g \<Longrightarrow> P (\<lambda>w. bind_res (f w) g)"
    and gate: "P f \<Longrightarrow> P (\<lambda>w. if \<not> interactive w then Inl e else f w)"
    and bump: "P (bump d)"
    and register_id: "P (register_id i)"
    and note_id: "P (note_id_and_visibility node)"
    and add_ref: "P (\<lambda>w. Inr (w\<lparr>target_refs := target_refs w @ [i]\<rparr>))"
begin

lemma check: "P f \<Longrightarrow> P (\<lambda>w. bind_res (r :: 'a res) (\<lambda>_. f w))"
  by (cases r) (simp_all add: fail)

lemma given: "(\<And>a. r = Inr a \<Longrightarrow> P (f a)) \<Longrightarrow> P (\<lambda>w. bind_res (r :: 'a res) (\<lambda>a. f a w))"
  by (cases r) (simp_all add: fail)

lemma branch: "P f \<Longrightarrow> P g \<Longrightarrow> P (\<lambda>w. if c then f w else g w)"
  by (cases c) simp_all

lemma each_step: "(\<And>x. x \<in> set xs \<Longrightarrow> P (f x)) \<Longrightarrow> P (each f xs)"
proof (induction xs)
  case Nil
  have "each f [] = Inr" by (rule ext) simp
  then show ?case by (simp add: stay)
next
  case (Cons x xs)
  have "each f (x # xs) = (\<lambda>w. bind_res (f x w) (each f xs))" by (rule ext) simp
  with Cons show ?case by (simp add: seq)
qed

lemma toggle_step: "P (toggle_visibility act)"
proof (cases "map_of act ''targetElements''")
  case (Some v)
  have "P (\<lambda>w. bind_res (target_element_id item) (\<lambda>i. Inr (w\<lparr>target_refs := target_refs w @ [i]\<rparr>)))"
    for item
    by (rule given) (rule add_ref)
  then have "P (each (\<lambda>item w. bind_res (target_element_id item)
      (\<lambda>i. Inr (w\<lparr>target_refs := target_refs w @ [i]\<rparr>))) xs)" for xs
    by (rule each_step)
  with Some show ?thesis
    by (cases v) (simp_all add: toggle_visibility_def [abs_def] branch fail)
qed (simp add: toggle_visibility_def [abs_def] fail)

lemma submit_step: "P (submit_action_check act)"
proof -
  have "P (\<lambda>w. bind_res (register_id i w) (\<lambda>w. bind_res (c :: unit res) (\<lambda>_. Inr w)))" for i c
    by (rule seq [OF register_id check [OF stay]])
  then have "P (\<lambda>w. if str_field act ''id'' = [] then Inl CardBadShape
      else bind_res (register_id (str_field act ''id'') w)
        (\<lambda>w. bind_res (c :: unit res) (\<lambda>_. Inr w)))" for c
    by (cases "str_field act ''id'' = []") (simp_all add: fail)
  then show ?thesis
    unfolding submit_action_check_def Let_def by (rule gate)
qed

lemma object_step:
  "(\<And>o'. P (F o')) \<Longrightarrow> P (\<lambda>w. case v of GObj o' \<Rightarrow> F o' w | _ \<Rightarrow> Inl CardBadShape)"
  by (cases v) (simp_all add: fail)

lemma action_step: "P (action a)"
  unfolding action_def [abs_def] Let_def
  by (intro seq bump object_step check branch stay fail toggle_step submit_step)

lemma optional_action_step: "P (optional_action k el)"
  by (cases "map_of el k") (simp_all add: optional_action_def [abs_def] stay action_step)

lemmas select_action_step = optional_action_step [of "''selectAction''", folded select_action_def]
lemmas inline_action_step = optional_action_step [of "''inlineAction''", folded inline_action_def]

lemmas steps = stay fail seq check bump note_id action_step select_action_step inline_action_step

lemma leaf_steps:
  "P (fact_child sv d f)" "P (image_child d f)" "P (inline_child d f)"
proof -
  show "P (fact_child sv d f)"
    unfolding fact_child_def [abs_def] by (intro object_step steps)
  show "P (image_child d f)"
    unfolding image_child_def [abs_def] by (intro object_step steps)
  have "P (\<lambda>w. bind_res (bump (d + 1) w) (\<lambda>w.
          bind_res (check_constrained_child inl ''TextRun'' []) (\<lambda>_. select_action inl w)))" for inl
    by (intro steps)
  then show "P (inline_child d f)"
    by (cases f) (simp_all add: inline_child_def [abs_def] stay fail)
qed

lemma input_step: "P (input_element sv t el)"
proof -
  let ?f = "\<lambda>w. if blank (str_field el ''id'') then Inl CardBadShape
      else bind_res (label_markdown sv el ''label'') (\<lambda>_.
           bind_res (label_markdown sv el ''errorMessage'') (\<lambda>_.
           bind_res (guard_res (t = ''Input.ChoiceSet'' \<longrightarrow>
                       (case map_of el ''choices'' of
                          None \<Rightarrow> True | Some (GArr _) \<Rightarrow> True | Some _ \<Rightarrow> False)) CardBadShape) (\<lambda>_.
           inline_action el w)))"
  have "P ?f"
    by (cases "blank (str_field el ''id'')") (simp_all add: steps)
  then have "P (\<lambda>w. if \<not> interactive w then Inl CardUnknownElement else ?f w)"
    by (rule gate)
  then show ?thesis
    by (cases "is_input_element t") (simp_all add: input_element_def [abs_def] fail)
qed

lemma head_steps:
  "P (element_head el d)" "P (column_head el d)" "P (row_head el d)" "P (cell_head el d)"
  unfolding element_head_def [abs_def] column_head_def [abs_def] row_head_def [abs_def]
    cell_head_def [abs_def]
  by (intro steps)+

lemma walk_steps_bounded:
  "(\<forall>l d. size_list size l \<le> n \<longrightarrow>
      P (elements sv l d) \<and> P (columns sv l d) \<and> P (rows sv l d) \<and> P (cells sv l d)) \<and>
   (\<forall>el d. Suc (size_list (size_prod (\<lambda>_. 0) size) el) \<le> n \<longrightarrow>
      P (element sv el d) \<and> P (column sv el d))"
proof (induction n rule: less_induct)
  case (less n)
  have lists: "P (elements sv l d) \<and> P (columns sv l d) \<and> P (rows sv l d) \<and> P (cells sv l d)"
    if "size_list size l < n" for l d
    using less that by blast
  have nodes: "P (element sv el d) \<and> P (column sv el d)"
    if "Suc (size_list (size_prod (\<lambda>_. 0) size) el) < n" for el d
    using less that by blast
  have field: "P (\<lambda>w. bind_res (array_at el k) (\<lambda>l. f l w))"
    if "size_list (size_prod (\<lambda>_. 0) size) el < n" and "\<And>l. size_list size l < n \<Longrightarrow> P (f l)"
    for el k f
    by (rule given) (use array_at_size [of el k] that in fastforce)
  have "P (element sv el d) \<and> P (column sv el d)"
    if "Suc (size_list (size_prod (\<lambda>_. 0) size) el) \<le> n" for el d
  proof -
    have n: "size_list (size_prod (\<lambda>_. 0) size) el < n" using that by simp
    have "P (\<lambda>w. element sv el d w)"
      unfolding element.simps Let_def
      by (intro seq head_steps branch check stay input_step field [OF n] each_step leaf_steps
          action_step) (use lists in blast)+
    moreover have "P (\<lambda>w. column sv el d w)"
      unfolding column.simps
      by (intro seq head_steps field [OF n] select_action_step) (use lists in blast)+
    ultimately show ?thesis by (intro conjI)
  qed
  moreover have "P (elements sv l d) \<and> P (columns sv l d) \<and> P (rows sv l d) \<and> P (cells sv l d)"
    if "size_list size l \<le> n" for l d
  proof (cases l)
    case Nil
    then have "elements sv l d = Inr" "columns sv l d = Inr" "rows sv l d = Inr"
      "cells sv l d = Inr" by (simp_all add: fun_eq_iff)
    then show ?thesis by (simp add: stay)
  next
    case (Cons v vs)
    show ?thesis
    proof (cases "\<exists>m. v = GObj m")
      case True
      then obtain m where m: "v = GObj m" ..
      with that Cons have vs: "size_list size vs < n"
        and sm: "Suc (size_list (size_prod (\<lambda>_. 0) size) m) < n" by simp_all
      then have n: "size_list (size_prod (\<lambda>_. 0) size) m < n" by simp
      have "P (\<lambda>w. elements sv l d w)" "P (\<lambda>w. columns sv l d w)"
        using nodes [OF sm] lists [OF vs] by (simp_all add: Cons m seq)
      moreover have "P (\<lambda>w. rows sv l d w)"
        unfolding Cons m rows.simps
        by (intro seq head_steps field [OF n]) (use lists vs in blast)+
      moreover have "P (\<lambda>w. cells sv l d w)"
        unfolding Cons m cells.simps
        by (intro seq head_steps field [OF n]) (use lists vs in blast)+
      ultimately show ?thesis by simp
    next
      case False
      then have "elements sv l d = (\<lambda>_. Inl CardBadShape)" "columns sv l d = (\<lambda>_. Inl CardBadShape)"
        "rows sv l d = (\<lambda>_. Inl CardBadShape)" "cells sv l d = (\<lambda>_. Inl CardBadShape)"
        using Cons by (cases v; simp add: fun_eq_iff)+
      then show ?thesis by (simp add: fail)
    qed
  qed
  ultimately show ?case by blast
qed

lemma elements_step: "P (elements sv l d)"
  using walk_steps_bounded [of "size_list size l"] by blast

lemma card_walk_step: "P (card_walk sv ac)"
  unfolding card_walk_def [abs_def]
  by (intro given seq elements_step each_step action_step select_action_step)

end

section \<open>Instances of the law\<close>

text \<open>The walk only adds to the walker, within the node budget, and keeps its capability.\<close>

definition grows :: "walker \<Rightarrow> walker \<Rightarrow> bool" where
  "grows w w' \<longleftrightarrow> nodes w \<le> nodes w' \<and> (nodes w \<le> max_nodes \<longrightarrow> nodes w' \<le> max_nodes) \<and>
     interactive w' = interactive w \<and> seen_ids w \<subseteq> seen_ids w' \<and>
     (element_ids w \<subseteq> seen_ids w \<longrightarrow> element_ids w' \<subseteq> seen_ids w') \<and>
     element_ids w \<subseteq> element_ids w' \<and> prefix (target_refs w) (target_refs w')"

lemma grows_trans: "grows w w' \<Longrightarrow> grows w' w'' \<Longrightarrow> grows w w''"
  unfolding grows_def by (blast intro: le_trans prefix_order.trans)

interpretation growth: walker_law "\<lambda>f. \<forall>w w'. f w = Inr w' \<longrightarrow> grows w w'"
proof unfold_locales
  show "\<forall>w w'. bind_res (f w) g = Inr w' \<longrightarrow> grows w w'"
    if "\<forall>w w'. f w = Inr w' \<longrightarrow> grows w w'" "\<forall>w w'. g w = Inr w' \<longrightarrow> grows w w'"
    for f g :: "walker \<Rightarrow> walker res"
    using that grows_trans by (fastforce simp: res_simps)
qed (auto simp: grows_def bump_def register_id_def note_id_and_visibility_def Let_def res_simps
    split: if_splits option.splits gval.splits)

text \<open>
  A step that the display profile accepts is accepted by the interactive profile with the same
  effect: the profile only opens gates.
\<close>

definition with_interactive :: "walker \<Rightarrow> walker" where
  "with_interactive w = w\<lparr>interactive := True\<rparr>"

lemma with_interactive_simps [simp]:
  "nodes (with_interactive w) = nodes w" "seen_ids (with_interactive w) = seen_ids w"
  "element_ids (with_interactive w) = element_ids w" "target_refs (with_interactive w) = target_refs w"
  "interactive (with_interactive w)"
  by (simp_all add: with_interactive_def)

interpretation profile: walker_law
  "\<lambda>f. \<forall>w w'. f w = Inr w' \<longrightarrow> f (with_interactive w) = Inr (with_interactive w')"
proof unfold_locales
qed (auto simp: with_interactive_def bump_def register_id_def note_id_and_visibility_def Let_def
    res_simps split: if_splits option.splits gval.splits)

end
