(* ===== verification/Card_Surface.thy ===== *)
theory Card_Surface
  imports Card_Validate
begin

text \<open>
  What a client renders and a server dispatches of an Adaptive Card, as a list of faces read off
  the card by an independent traversal, and the refinement of the walker to a replay of that
  list: an accepted card has no face that the replay does not admit.
\<close>

section \<open>The surface of a card\<close>

datatype face =
    Node nat
  | Url string
  | ImageUrl string
  | Markdown string
  | Ident string
  | Submit gmap
  | Input gmap
  | Target string
  | Copy string
  | Bad

definition url_faces :: "gmap \<Rightarrow> face list" where
  "url_faces node = map Url (filter (\<lambda>u. u \<noteq> []) (node_urls node))"

fun target_name :: "gval \<Rightarrow> string" where
  "target_name (GStr v) = v"
| "target_name (GObj v) = str_field v ''elementId''"
| "target_name _ = []"

definition items_at :: "gmap \<Rightarrow> string \<Rightarrow> gval list" where
  "items_at m k = (case map_of m k of Some (GArr l) \<Rightarrow> l | _ \<Rightarrow> [])"

lemma items_at_size [termination_simp]:
  "size_list size (items_at m k) \<le> size_list (size_prod (\<lambda>_. 0) size) m"
  using map_of_size [of m k "GArr (items_at m k)" size]
  by (auto simp: items_at_def split: option.splits gval.splits)

lemma items_at_size':
  "size_list size (items_at m k) \<le> Suc (size_list (size_prod (\<lambda>_. 0) size) m + n)"
  using items_at_size [of m k] by simp

lemma array_at_items: "array_at m k = Inr l \<Longrightarrow> l = items_at m k"
  by (auto simp: array_at_def items_at_def split: option.splits gval.splits)

fun obj_of :: "gval \<Rightarrow> gmap" where
  "obj_of (GObj m) = m"
| "obj_of _ = []"

definition action_body_faces :: "gmap \<Rightarrow> face list" where
  "action_body_faces act =
     (let t = str_field act ''type'' in
      url_faces act @
        (if t = ''Action.OpenUrl'' then [Url (str_field act ''url'')]
         else if t = ''Action.ToggleVisibility'' then
           map (\<lambda>i. Target (target_name i)) (items_at act ''targetElements'')
         else if t = ''Action.CopyToClipboard'' then [Copy (str_field act ''text'')]
         else if t = ''Action.Submit'' then [Submit act]
         else []))"

fun action_faces :: "gval \<Rightarrow> face list" where
  "action_faces (GObj act) = Node 1 # action_body_faces act"
| "action_faces _ = [Node 1, Bad]"

definition actions_faces :: "gmap \<Rightarrow> face list" where
  "actions_faces m =
     (case map_of m ''actions'' of
        None \<Rightarrow> []
      | Some (GArr l) \<Rightarrow> concat (map action_faces l)
      | Some _ \<Rightarrow> [Bad])"

text \<open>A child whose explicit type is not the one its position asks for.\<close>

definition typed_faces :: "gmap \<Rightarrow> string \<Rightarrow> face list" where
  "typed_faces node expected = (if child_type_matches node expected then [] else [Bad])"

definition optional_faces :: "gmap \<Rightarrow> string \<Rightarrow> face list" where
  "optional_faces m k = (case map_of m k of None \<Rightarrow> [] | Some a \<Rightarrow> action_faces a)"

definition ident_faces :: "gmap \<Rightarrow> face list" where
  "ident_faces m = (if blank (str_field m ''id'') then [] else [Ident (str_field m ''id'')])"

definition text_faces :: "gmap \<Rightarrow> string \<Rightarrow> face list" where
  "text_faces m k = (case map_of m k of Some (GStr s) \<Rightarrow> [Markdown s] | _ \<Rightarrow> [])"

definition fact_faces :: "nat \<Rightarrow> gval \<Rightarrow> face list" where
  "fact_faces d f = Node (d + 1) # text_faces (obj_of f) ''title'' @ text_faces (obj_of f) ''value''"

definition image_faces :: "nat \<Rightarrow> gval \<Rightarrow> face list" where
  "image_faces d it =
     (let img = obj_of it in
      Node d # typed_faces img ''Image'' @ url_faces img @ ident_faces img @ optional_faces img ''selectAction'' @
        [ImageUrl (str_field img ''url'')])"

fun inline_faces :: "nat \<Rightarrow> gval \<Rightarrow> face list" where
  "inline_faces d (GObj inl) =
     Node (d + 1) # typed_faces inl ''TextRun'' @ optional_faces inl ''selectAction''"
| "inline_faces d _ = []"

definition input_faces :: "gmap \<Rightarrow> face list" where
  "input_faces el =
     Input el # text_faces el ''label'' @ text_faces el ''errorMessage'' @ optional_faces el ''inlineAction''"

definition element_own_faces :: "gmap \<Rightarrow> nat \<Rightarrow> face list" where
  "element_own_faces el d =
     Node d # url_faces el @ optional_faces el ''selectAction'' @ ident_faces el"

definition leaf_faces :: "gmap \<Rightarrow> nat \<Rightarrow> face list" where
  "leaf_faces el d =
     (let t = str_field el ''type'' in
      if t = ''TextBlock'' then text_faces el ''text''
      else if t = ''Image'' then [ImageUrl (str_field el ''url'')]
      else if t = ''FactSet'' then concat (map (fact_faces d) (items_at el ''facts''))
      else if t = ''ImageSet'' then concat (map (image_faces (d + 1)) (items_at el ''images''))
      else if t = ''RichTextBlock'' then concat (map (inline_faces d) (items_at el ''inlines''))
      else if t = ''ActionSet'' then actions_faces el
      else if is_input_element t then input_faces el
      else [Bad])"

function (sequential)
  elements_faces :: "gval list \<Rightarrow> nat \<Rightarrow> face list"
  and element_faces :: "gmap \<Rightarrow> nat \<Rightarrow> face list"
  and columns_faces :: "gval list \<Rightarrow> nat \<Rightarrow> face list"
  and rows_faces :: "gval list \<Rightarrow> nat \<Rightarrow> face list"
  and cells_faces :: "gval list \<Rightarrow> nat \<Rightarrow> face list"
where
  "elements_faces [] d = []"
| "elements_faces (GObj el # items) d = element_faces el d @ elements_faces items d"
| "elements_faces (_ # items) d = elements_faces items d"
| "element_faces el d =
     element_own_faces el d @
     (let t = str_field el ''type'' in
      if t = ''Container'' then elements_faces (items_at el ''items'') (d + 1)
      else if t = ''ColumnSet'' then columns_faces (items_at el ''columns'') (d + 1)
      else if t = ''Table'' then rows_faces (items_at el ''rows'') d
      else leaf_faces el d)"
| "columns_faces [] d = []"
| "columns_faces (GObj col # cols) d =
     Node d # url_faces col @ ident_faces col @ elements_faces (items_at col ''items'') (d + 1) @
     optional_faces col ''selectAction'' @ columns_faces cols d"
| "columns_faces (_ # cols) d = columns_faces cols d"
| "rows_faces [] d = []"
| "rows_faces (GObj row # rs) d =
     Node (d + 1) # url_faces row @ optional_faces row ''selectAction'' @
     typed_faces row ''TableRow'' @ ident_faces row @
     cells_faces (items_at row ''cells'') d @ rows_faces rs d"
| "rows_faces (_ # rs) d = rows_faces rs d"
| "cells_faces [] d = []"
| "cells_faces (GObj cell # cs) d =
     Node (d + 2) # typed_faces cell ''TableCell'' @ ident_faces cell @ url_faces cell @ optional_faces cell ''selectAction'' @
     elements_faces (items_at cell ''items'') (d + 3) @ cells_faces cs d"
| "cells_faces (_ # cs) d = cells_faces cs d"
  by pat_completeness auto
termination
  by (relation "measure (\<lambda>x. case x of
        Inl (Inl (its, _)) \<Rightarrow> size_list size its
      | Inl (Inr (el, _)) \<Rightarrow> Suc (size_list (size_prod (\<lambda>_. 0) size) el)
      | Inr (Inl (cs, _)) \<Rightarrow> size_list size cs
      | Inr (Inr (Inl (rs, _))) \<Rightarrow> size_list size rs
      | Inr (Inr (Inr (cs, _))) \<Rightarrow> size_list size cs)")
    (auto simp: less_Suc_eq_le items_at_size items_at_size')

declare element_faces.simps [simp del]

definition card_faces :: "gmap \<Rightarrow> face list" where
  "card_faces ac =
     url_faces ac @ elements_faces (items_at ac ''body'') 1 @
     actions_faces ac @ optional_faces ac ''selectAction''"

section \<open>Replaying a surface\<close>

fun admit :: "services \<Rightarrow> face \<Rightarrow> walker \<Rightarrow> walker res" where
  "admit sv (Node d) w = bump d w"
| "admit sv (Url u) w = bind_res (check_url u) (\<lambda>_. Inr w)"
| "admit sv (ImageUrl u) w = bind_res (check_image_url u) (\<lambda>_. Inr w)"
| "admit sv (Markdown s) w = bind_res (check_markdown sv s) (\<lambda>_. Inr w)"
| "admit sv (Ident i) w =
     (if blank i then Inl CardBadShape
      else bind_res (register_id i w) (\<lambda>w. Inr (w\<lparr>element_ids := insert i (element_ids w)\<rparr>)))"
| "admit sv (Submit act) w = submit_action_check act w"
| "admit sv (Target i) w =
     (if blank i then Inl CardBadShape else Inr (w\<lparr>target_refs := target_refs w @ [i]\<rparr>))"
| "admit sv (Copy s) w =
     (if s = [] \<or> max_copy_text_bytes < length s then Inl CardBadShape else Inr w)"
| "admit sv (Input el) w =
     (if \<not> interactive w then Inl CardUnknownElement
      else if blank (str_field el ''id'') then Inl CardBadShape else Inr w)"
| "admit sv Bad w = Inl CardBadShape"

definition replay :: "services \<Rightarrow> face list \<Rightarrow> walker \<Rightarrow> walker res" where
  "replay sv = each (admit sv)"

lemma replay_simps [simp]:
  "replay sv [] w = Inr w"
  "replay sv (x # xs) w = bind_res (admit sv x w) (replay sv xs)"
  by (simp_all add: replay_def)

lemma replay_append: "replay sv (a @ b) w = bind_res (replay sv a w) (replay sv b)"
proof (induction a arbitrary: w)
  case (Cons y u)
  then show ?case by (cases "admit sv y w") simp_all
qed simp

text \<open>\<open>covers sv f fs\<close>: whatever the walker step \<open>f\<close> accepts, the replay of \<open>fs\<close> accepts with the
  same effect.\<close>

definition covers :: "services \<Rightarrow> (walker \<Rightarrow> walker res) \<Rightarrow> face list \<Rightarrow> bool" where
  "covers sv f fs \<longleftrightarrow> (\<forall>w w'. f w = Inr w' \<longrightarrow> replay sv fs w = Inr w')"

lemma covers_append:
  "covers sv f a \<Longrightarrow> covers sv g b \<Longrightarrow> covers sv (\<lambda>w. bind_res (f w) g) (a @ b)"
  unfolding covers_def replay_append bind_res_Inr by blast

lemma covers_check: "covers sv f a \<Longrightarrow> covers sv (\<lambda>w. bind_res (r :: 'a res) (\<lambda>_. f w)) a"
  by (cases r) (simp_all add: covers_def)

lemma covers_given:
  "(\<And>x. r = Inr x \<Longrightarrow> covers sv (f x) a) \<Longrightarrow> covers sv (\<lambda>w. bind_res (r :: 'a res) (\<lambda>x. f x w)) a"
  by (cases r) (simp_all add: covers_def)

lemma covers_fail: "covers sv (\<lambda>_. Inl e) a"
  by (simp add: covers_def)

lemma covers_stay: "covers sv Inr []"
  by (simp add: covers_def)

lemma covers_bump: "covers sv (bump d) [Node d]"
  by (simp add: covers_def)

lemma covers_if: "(c \<Longrightarrow> covers sv f a) \<Longrightarrow> (\<not> c \<Longrightarrow> covers sv g b) \<Longrightarrow>
    covers sv (\<lambda>w. if c then f w else g w) (if c then a else b)"
  by simp

lemma covers_object:
  "(\<And>m. v = GObj m \<Longrightarrow> covers sv (f m) (a m)) \<Longrightarrow>
    covers sv (\<lambda>w. case v of GObj m \<Rightarrow> f m w | _ \<Rightarrow> Inl CardBadShape) (a (obj_of v))"
  by (cases v) (simp_all add: covers_fail)

lemma covers_each:
  "(\<And>x. x \<in> set xs \<Longrightarrow> covers sv (f x) (a x)) \<Longrightarrow> covers sv (each f xs) (concat (map a xs))"
proof (induction xs)
  case Nil
  have "each f [] = Inr" by (rule ext) simp
  then show ?case by (simp add: covers_stay)
next
  case (Cons x xs)
  have "each f (x # xs) = (\<lambda>w. bind_res (f x w) (each f xs))" by (rule ext) simp
  with Cons show ?case by (simp add: covers_append)
qed

lemma covers_url: "covers sv (\<lambda>w. bind_res (check_url u) (\<lambda>_. Inr w)) [Url u]"
  by (simp add: covers_def res_simps)

lemma covers_node_urls: "covers sv (\<lambda>w. bind_res (check_node_urls m) (\<lambda>_. Inr w)) (url_faces m)"
  by (auto simp: covers_def res_simps check_node_urls_def check_background_def url_faces_def
      node_urls_def split: option.splits gval.splits if_splits)

lemma covers_note: "covers sv (note_id_and_visibility m) (ident_faces m)"
  by (auto simp: covers_def note_id_and_visibility_def ident_faces_def str_field_def res_simps
      blank_def split: option.splits gval.splits if_splits)

lemma covers_toggle:
  "covers sv (toggle_visibility act)
     (map (\<lambda>i. Target (target_name i)) (items_at act ''targetElements''))"
proof -
  have "covers sv (\<lambda>w. bind_res (target_element_id item)
      (\<lambda>i. Inr (w\<lparr>target_refs := target_refs w @ [i]\<rparr>))) [Target (target_name item)]" for item
    by (cases item) (auto simp: covers_def target_element_id_def Let_def)
  then have "covers sv (each (\<lambda>item w. bind_res (target_element_id item)
      (\<lambda>i. Inr (w\<lparr>target_refs := target_refs w @ [i]\<rparr>))) l)
      (concat (map (\<lambda>i. [Target (target_name i)]) l))" for l
    by (rule covers_each)
  then show ?thesis
    by (auto simp: covers_def toggle_visibility_def items_at_def concat_map_singleton
        split: option.splits gval.splits)
qed

lemma covers_copy: "covers sv (\<lambda>w. bind_res (copy_to_clipboard act) (\<lambda>_. Inr w)) [Copy (str_field act ''text'')]"
  by (auto simp: covers_def copy_to_clipboard_def Let_def res_simps)

lemma covers_open: "covers sv (\<lambda>w. bind_res (open_url_check act) (\<lambda>_. Inr w)) [Url (str_field act ''url'')]"
  by (auto simp: covers_def open_url_check_def Let_def res_simps)

lemma covers_submit: "covers sv (submit_action_check act) [Submit act]"
  by (simp add: covers_def)

lemma covers_action: "covers sv (action a) (action_faces a)"
proof -
  have body: "covers sv (\<lambda>w. bind_res (check_node_urls act) (\<lambda>_. let t = str_field act ''type'' in
             if t = ''Action.OpenUrl'' then bind_res (open_url_check act) (\<lambda>_. Inr w)
             else if t = ''Action.ToggleVisibility'' then toggle_visibility act w
             else if t = ''Action.CopyToClipboard'' then bind_res (copy_to_clipboard act) (\<lambda>_. Inr w)
             else if t = ''Action.Submit'' then submit_action_check act w
             else Inl CardUnknownAction)) (action_body_faces act)" for act
  proof -
    have chk: "(\<lambda>w. bind_res r (\<lambda>_. f w)) = (\<lambda>w. bind_res (bind_res r (\<lambda>_. Inr w)) f)"
      for r :: "unit res" and f :: "walker \<Rightarrow> walker res"
      by (cases r) simp_all
    show ?thesis
      unfolding action_body_faces_def Let_def
      by (subst chk) (intro covers_append covers_node_urls covers_if covers_open covers_toggle
          covers_copy covers_submit covers_fail)
  qed
  show ?thesis
  proof (cases "\<exists>act. a = GObj act")
    case True
    then obtain act where a: "a = GObj act" ..
    have "covers sv (action a) ([Node 1] @ action_body_faces act)"
      unfolding action_def [abs_def] a gval.case by (rule covers_append [OF covers_bump body])
    then show ?thesis by (simp add: a)
  next
    case False
    then have "action a = (\<lambda>w. bind_res (bump 1 w) (\<lambda>_. Inl CardBadShape))"
      by (cases a) (auto simp: action_def fun_eq_iff)
    then show ?thesis by (simp add: covers_def bind_res_Inr)
  qed
qed

lemma covers_optional: "covers sv (optional_action k el) (optional_faces el k)"
  by (cases "map_of el k")
    (simp_all add: optional_action_def [abs_def] optional_faces_def covers_stay covers_action)

lemma covers_select: "covers sv (select_action el) (optional_faces el ''selectAction'')"
  by (simp add: select_action_def covers_optional)

lemma covers_text:
  "covers sv (\<lambda>w. bind_res (text_block sv el) (\<lambda>_. Inr w)) (text_faces el ''text'')"
  "covers sv (\<lambda>w. bind_res (fact_text sv el k) (\<lambda>_. Inr w)) (text_faces el k)"
  "covers sv (\<lambda>w. bind_res (label_markdown sv el k) (\<lambda>_. Inr w)) (text_faces el k)"
  by (auto simp: covers_def text_block_def fact_text_def label_markdown_def text_faces_def res_simps
      split: option.splits gval.splits)

lemma covers_image:
  "covers sv (\<lambda>w. bind_res (image el) (\<lambda>_. Inr w)) [ImageUrl (str_field el ''url'')]"
  by (auto simp: covers_def image_def Let_def res_simps split: if_splits)

text \<open>A stateless check in the middle of a sequence covers its own faces.\<close>

lemma covers_then:
  "covers sv (\<lambda>w. bind_res (r :: 'a res) (\<lambda>_. Inr w)) a \<Longrightarrow> covers sv f b \<Longrightarrow>
    covers sv (\<lambda>w. bind_res r (\<lambda>_. f w)) (a @ b)"
  using covers_append [of sv "\<lambda>w. bind_res r (\<lambda>_. Inr w)" a f b] by (cases r) simp_all

lemma covers_last:
  "covers sv f a \<Longrightarrow> covers sv (\<lambda>w. bind_res (f w) (\<lambda>w. bind_res (r :: 'a res) (\<lambda>_. Inr w))) a"
  by (cases r) (auto simp: covers_def res_simps)

lemma covers_typed:
  "e \<noteq> [] \<Longrightarrow> covers sv (\<lambda>w. bind_res (check_constrained_child m e l) (\<lambda>_. Inr w)) (typed_faces m e)"
  by (simp add: covers_def check_constrained_child_def typed_faces_def res_simps)

lemmas covers_intros =
  covers_append covers_bump covers_then covers_typed covers_node_urls covers_note covers_select
  covers_text covers_image covers_stay

lemma covers_Cons: "covers sv f ([Node d] @ a) \<Longrightarrow> covers sv f (Node d # a)"
  by simp

lemma covers_fact: "covers sv (fact_child sv d f) (fact_faces d f)"
proof -
  have "covers sv (\<lambda>w. bind_res (bump (d + 1) w) (\<lambda>w.
      bind_res (check_constrained_child m [] []) (\<lambda>_.
      bind_res (fact_text sv m ''title'') (\<lambda>_.
      bind_res (fact_text sv m ''value'') (\<lambda>_. Inr w)))))
      ([Node (d + 1)] @ text_faces m ''title'' @ text_faces m ''value'')" for m
    by (intro covers_append covers_bump covers_check covers_then covers_text)
  then have "covers sv (fact_child sv d f) ([Node (d + 1)] @
      text_faces (obj_of f) ''title'' @ text_faces (obj_of f) ''value'')"
    unfolding fact_child_def [abs_def] by (rule covers_object)
  then show ?thesis by (simp add: fact_faces_def)
qed

lemma covers_image_child: "covers sv (image_child d it) (image_faces d it)"
proof -
  have "covers sv (\<lambda>w. bind_res (bump d w) (\<lambda>w.
      bind_res (check_constrained_child m ''Image'' []) (\<lambda>_.
      bind_res (check_node_urls m) (\<lambda>_.
      bind_res (note_id_and_visibility m w) (\<lambda>w.
      bind_res (select_action m w) (\<lambda>w.
      bind_res (image m) (\<lambda>_. Inr w)))))))
      ([Node d] @ typed_faces m ''Image'' @ url_faces m @ ident_faces m @
        optional_faces m ''selectAction'' @ [ImageUrl (str_field m ''url'')])" for m
    by (intro covers_intros) simp
  then have "covers sv (image_child d it) ([Node d] @ typed_faces (obj_of it) ''Image'' @
      url_faces (obj_of it) @ ident_faces (obj_of it) @ optional_faces (obj_of it) ''selectAction'' @
      [ImageUrl (str_field (obj_of it) ''url'')])"
    unfolding image_child_def [abs_def] by (rule covers_object)
  then show ?thesis by (simp add: image_faces_def Let_def)
qed

lemma covers_inline: "covers sv (inline_child d it) (inline_faces d it)"
proof -
  have "covers sv (\<lambda>w. bind_res (bump (d + 1) w) (\<lambda>w.
      bind_res (check_constrained_child m ''TextRun'' []) (\<lambda>_. select_action m w)))
      ([Node (d + 1)] @ typed_faces m ''TextRun'' @ optional_faces m ''selectAction'')" for m
    by (intro covers_intros) simp
  then show ?thesis
    by (cases it) (simp_all add: inline_child_def [abs_def] covers_stay covers_fail)
qed

lemma covers_input:
  "is_input_element t \<Longrightarrow> covers sv (input_element sv t el) (input_faces el)"
  "\<not> is_input_element t \<Longrightarrow> covers sv (input_element sv t el) [Bad]"
proof -
  have "covers sv (\<lambda>w. bind_res (label_markdown sv el ''label'') (\<lambda>_.
      bind_res (label_markdown sv el ''errorMessage'') (\<lambda>_.
      bind_res (r :: unit res) (\<lambda>_. inline_action el w)))) (tl (input_faces el))" for r
    unfolding input_faces_def inline_action_def list.sel
    by (intro covers_then covers_text covers_check covers_optional)
  then show "is_input_element t \<Longrightarrow> covers sv (input_element sv t el) (input_faces el)"
    by (auto simp: input_element_def covers_def input_faces_def split: if_splits)
  show "\<not> is_input_element t \<Longrightarrow> covers sv (input_element sv t el) [Bad]"
    by (simp add: input_element_def covers_def)
qed

lemma covers_heads:
  "covers sv (element_head el d) (element_own_faces el d)"
  "covers sv (column_head el d) (Node d # url_faces el @ ident_faces el)"
  "covers sv (row_head el d)
     (Node d # url_faces el @ optional_faces el ''selectAction'' @ typed_faces el ''TableRow'' @
      ident_faces el)"
  "covers sv (cell_head el d)
     (Node d # typed_faces el ''TableCell'' @ ident_faces el @ url_faces el @
      optional_faces el ''selectAction'')"
proof -
  show "covers sv (element_head el d) (element_own_faces el d)"
    unfolding element_own_faces_def element_head_def [abs_def]
    by (intro covers_Cons covers_intros)
  have "covers sv (\<lambda>w. bind_res (note_id_and_visibility el w) (\<lambda>w.
      bind_res (check_constrained_child el ''Column'' [''items'']) (\<lambda>_. Inr w))) (ident_faces el)"
    by (rule covers_last [OF covers_note])
  then show "covers sv (column_head el d) (Node d # url_faces el @ ident_faces el)"
    unfolding column_head_def [abs_def]
    by (intro covers_Cons covers_append covers_bump covers_then covers_node_urls)
  show "covers sv (row_head el d)
     (Node d # url_faces el @ optional_faces el ''selectAction'' @ typed_faces el ''TableRow'' @
      ident_faces el)"
    unfolding row_head_def [abs_def] by (intro covers_Cons covers_intros) simp
  show "covers sv (cell_head el d)
     (Node d # typed_faces el ''TableCell'' @ ident_faces el @ url_faces el @
      optional_faces el ''selectAction'')"
    unfolding cell_head_def [abs_def] by (intro covers_Cons covers_intros) simp
qed

lemma covers_items:
  "(\<And>l. l = items_at m k \<Longrightarrow> covers sv (f l) a) \<Longrightarrow>
    covers sv (\<lambda>w. bind_res (array_at m k) (\<lambda>l. f l w)) a"
  by (rule covers_given) (drule array_at_items, simp)

lemma covers_field:
  "covers sv (f (items_at m k)) a \<Longrightarrow> covers sv (\<lambda>w. bind_res (array_at m k) (\<lambda>l. f l w)) a"
  by (rule covers_items) simp

lemma covers_actions:
  "covers sv (\<lambda>w. bind_res (array_at m ''actions'') (\<lambda>l. each action l w)) (actions_faces m)"
proof (rule covers_given)
  fix l assume "array_at m ''actions'' = Inr l"
  then have "actions_faces m = concat (map action_faces l)"
    by (auto simp: array_at_def actions_faces_def split: option.splits gval.splits)
  then show "covers sv (each action l) (actions_faces m)"
    by (simp add: covers_each covers_action)
qed

text \<open>The walk covers the surface, by induction on the size of the subtree.\<close>

lemma covers_walk_bounded:
  "(\<forall>l d. size_list size l \<le> n \<longrightarrow>
      covers sv (elements sv l d) (elements_faces l d) \<and>
      covers sv (columns sv l d) (columns_faces l d) \<and>
      covers sv (rows sv l d) (rows_faces l d) \<and> covers sv (cells sv l d) (cells_faces l d)) \<and>
   (\<forall>el d. Suc (size_list (size_prod (\<lambda>_. 0) size) el) \<le> n \<longrightarrow>
      covers sv (element sv el d) (element_faces el d))"
proof (induction n rule: less_induct)
  case (less n)
  have lists: "covers sv (elements sv l d) (elements_faces l d)"
      "covers sv (columns sv l d) (columns_faces l d)" "covers sv (rows sv l d) (rows_faces l d)"
      "covers sv (cells sv l d) (cells_faces l d)"
    if "size_list size l < n" for l d
    using less that by blast+
  have nodes: "covers sv (element sv el d) (element_faces el d)"
    if "Suc (size_list (size_prod (\<lambda>_. 0) size) el) < n" for el d
    using less that by blast
  have small: "size_list size (items_at m k) < n" if "size_list (size_prod (\<lambda>_. 0) size) m < n" for m k
    using items_at_size [of m k] that by simp
  have "covers sv (element sv el d) (element_faces el d)"
    if "Suc (size_list (size_prod (\<lambda>_. 0) size) el) \<le> n" for el d
  proof -
    have n: "size_list (size_prod (\<lambda>_. 0) size) el < n" using that by simp
    define t where "t = str_field el ''type''"
    have "covers sv (\<lambda>w. element sv el d w) (element_faces el d)"
      unfolding element.simps element_faces.simps Let_def t_def [symmetric]
      apply (rule covers_append [OF covers_heads(1)])
      apply (cases "t = ''Container'' \<or> t = ''ColumnSet'' \<or> t = ''Table''")
      subgoal using small [OF n] by (auto intro!: covers_items lists)
      subgoal
        by (simp add: leaf_faces_def t_def [symmetric])
          (auto intro!: covers_items covers_each covers_text covers_image covers_fact
            covers_image_child covers_inline covers_actions covers_input)
      done
    then show ?thesis .
  qed
  moreover have "covers sv (elements sv l d) (elements_faces l d) \<and>
      covers sv (columns sv l d) (columns_faces l d) \<and>
      covers sv (rows sv l d) (rows_faces l d) \<and> covers sv (cells sv l d) (cells_faces l d)"
    if "size_list size l \<le> n" for l d
  proof (cases l)
    case Nil
    then have "elements sv l d = Inr" "columns sv l d = Inr" "rows sv l d = Inr"
      "cells sv l d = Inr" by (simp_all add: fun_eq_iff)
    then show ?thesis by (simp add: Nil covers_stay)
  next
    case (Cons v vs)
    show ?thesis
    proof (cases "\<exists>m. v = GObj m")
      case True
      then obtain m where m: "v = GObj m" ..
      with that Cons have vs: "size_list size vs < n"
        and sm: "Suc (size_list (size_prod (\<lambda>_. 0) size) m) < n" by simp_all
      then have n: "size_list (size_prod (\<lambda>_. 0) size) m < n" by simp
      have "covers sv (\<lambda>w. elements sv l d w) (elements_faces l d)"
        using nodes [OF sm] lists(1) [OF vs] by (simp add: Cons m covers_append)
      moreover have "covers sv (\<lambda>w. column sv m d w) ((Node d # url_faces m @ ident_faces m) @
          elements_faces (items_at m ''items'') (d + 1) @ optional_faces m ''selectAction'')"
        unfolding column.simps
        by (rule covers_append covers_heads(2) covers_field lists(1) small n covers_select)+
      then have "covers sv (\<lambda>w. columns sv l d w) (columns_faces l d)"
        using covers_append [OF _ lists(2) [OF vs]] by (fastforce simp add: Cons m)
      moreover have "covers sv (\<lambda>w. rows sv l d w) ((Node (d + 1) # url_faces m @
          optional_faces m ''selectAction'' @ typed_faces m ''TableRow'' @ ident_faces m) @
          cells_faces (items_at m ''cells'') d @ rows_faces vs d)"
        unfolding Cons m rows.simps
        by (rule covers_append covers_heads(3) covers_field lists(4) lists(3) small n vs)+
      then have "covers sv (\<lambda>w. rows sv l d w) (rows_faces l d)"
        by (simp add: Cons m)
      moreover have "covers sv (\<lambda>w. cells sv l d w) ((Node (d + 2) # typed_faces m ''TableCell'' @
          ident_faces m @ url_faces m @ optional_faces m ''selectAction'') @
          elements_faces (items_at m ''items'') (d + 3) @ cells_faces vs d)"
        unfolding Cons m cells.simps
        by (rule covers_append covers_heads(4) covers_field lists(1) lists(4) small n vs)+
      then have "covers sv (\<lambda>w. cells sv l d w) (cells_faces l d)"
        by (simp add: Cons m)
      ultimately show ?thesis by (intro conjI)
    next
      case False
      then have "elements sv l d = (\<lambda>_. Inl CardBadShape)" "columns sv l d = (\<lambda>_. Inl CardBadShape)"
        "rows sv l d = (\<lambda>_. Inl CardBadShape)" "cells sv l d = (\<lambda>_. Inl CardBadShape)"
        using Cons by (cases v; simp add: fun_eq_iff)+
      then show ?thesis by (simp add: covers_fail)
    qed
  qed
  ultimately show ?case by blast
qed

lemma covers_elements: "covers sv (elements sv l d) (elements_faces l d)"
  using covers_walk_bounded [of "size_list size l"] by blast

lemma covers_card_walk:
  "covers sv (card_walk sv ac)
     (elements_faces (items_at ac ''body'') 1 @
      actions_faces ac @ optional_faces ac ''selectAction'')"
proof -
  have "card_walk sv ac = (\<lambda>w. bind_res (bind_res (array_at ac ''body'') (\<lambda>l. elements sv l 1 w))
      (\<lambda>w. bind_res (bind_res (array_at ac ''actions'') (\<lambda>l. each action l w)) (select_action ac)))"
    by (auto simp: card_walk_def bind_res_def fun_eq_iff split: sum.splits)
  then show ?thesis
    by (simp only:) (intro covers_append covers_field covers_elements covers_actions covers_select)
qed

section \<open>What an admitted surface satisfies\<close>

fun face_safe :: "services \<Rightarrow> face \<Rightarrow> bool" where
  "face_safe sv (Node d) = (d \<le> max_depth)"
| "face_safe sv (Url u) = http_url u"
| "face_safe sv (ImageUrl u) = image_url u"
| "face_safe sv (Markdown s) = list_all http_url (markdown_link_targets sv s)"
| "face_safe sv (Ident i) = (\<not> blank i)"
| "face_safe sv (Submit act) = (str_field act ''id'' \<noteq> [] \<and>
     (case map_of act ''data'' of None \<Rightarrow> True | Some (GObj _) \<Rightarrow> True | Some _ \<Rightarrow> False))"
| "face_safe sv (Target i) = (\<not> blank i)"
| "face_safe sv (Input el) = (\<not> blank (str_field el ''id''))"
| "face_safe sv Bad = False"
| "face_safe sv (Copy s) = (s \<noteq> [] \<and> length s \<le> max_copy_text_bytes)"

fun face_ids :: "face \<Rightarrow> string list" where
  "face_ids (Ident i) = [i]"
| "face_ids (Submit act) = [str_field act ''id'']"
| "face_ids _ = []"

fun face_elements :: "face \<Rightarrow> string list" where
  "face_elements (Ident i) = [i]"
| "face_elements _ = []"

fun face_targets :: "face \<Rightarrow> string list" where
  "face_targets (Target i) = [i]"
| "face_targets _ = []"

fun face_nodes :: "face \<Rightarrow> nat" where
  "face_nodes (Node _) = 1"
| "face_nodes _ = 0"

fun face_interactive :: "face \<Rightarrow> bool" where
  "face_interactive (Submit _) = True"
| "face_interactive (Input _) = True"
| "face_interactive _ = False"

definition ids_of :: "face list \<Rightarrow> string list" where
  "ids_of fs = concat (map face_ids fs)"

definition nodes_of :: "face list \<Rightarrow> nat" where
  "nodes_of fs = sum_list (map face_nodes fs)"

lemma admit_effect:
  assumes "admit sv f w = Inr w'"
  shows "nodes w' = nodes w + face_nodes f"
    and "seen_ids w' = seen_ids w \<union> set (face_ids f)"
    and "set (face_ids f) \<inter> seen_ids w = {}"
    and "element_ids w' = element_ids w \<union> set (face_elements f)"
    and "target_refs w' = target_refs w @ face_targets f"
    and "interactive w' = interactive w"
    and "nodes w \<le> max_nodes \<Longrightarrow> nodes w' \<le> max_nodes"
    and "face_interactive f \<Longrightarrow> interactive w"
  using assms
  by (cases f; auto simp: bump_def register_id_def submit_action_check_def Let_def res_simps
      split: if_splits)+

lemma admit_safe: "admit sv f w = Inr w' \<Longrightarrow> face_safe sv f"
  by (cases f; auto simp: bump_def register_id_def submit_action_check_def Let_def res_simps
      list_all_iff check_markdown_http check_image_url_ok dest: check_url_http split: if_splits)

lemma distinct_face_ids: "distinct (face_ids f)"
  by (cases f) simp_all

lemma replay_effect:
  assumes "replay sv fs w = Inr w'"
  shows "nodes w' = nodes w + nodes_of fs"
    and "seen_ids w' = seen_ids w \<union> set (ids_of fs)"
    and "set (ids_of fs) \<inter> seen_ids w = {} \<and> distinct (ids_of fs)"
    and "element_ids w' = element_ids w \<union> set (concat (map face_elements fs))"
    and "target_refs w' = target_refs w @ concat (map face_targets fs)"
    and "nodes w \<le> max_nodes \<longrightarrow> nodes w' \<le> max_nodes"
    and "\<not> interactive w \<longrightarrow> \<not> list_ex face_interactive fs"
proof -
  have "nodes w' = nodes w + nodes_of fs \<and> seen_ids w' = seen_ids w \<union> set (ids_of fs) \<and>
      set (ids_of fs) \<inter> seen_ids w = {} \<and> distinct (ids_of fs) \<and>
      element_ids w' = element_ids w \<union> set (concat (map face_elements fs)) \<and>
      target_refs w' = target_refs w @ concat (map face_targets fs) \<and>
      (nodes w \<le> max_nodes \<longrightarrow> nodes w' \<le> max_nodes) \<and>
      (\<not> interactive w \<longrightarrow> \<not> list_ex face_interactive fs)"
    using assms
  proof (induction fs arbitrary: w)
    case Nil
    then show ?case by (simp add: ids_of_def nodes_of_def)
  next
    case (Cons f fs)
    then obtain u where u: "admit sv f w = Inr u" and r: "replay sv fs u = Inr w'"
      by (auto simp: res_simps)
    note a = admit_effect [OF u] and IH = Cons.IH [OF r]
    show ?case
      using a IH distinct_face_ids [of f]
      by (auto simp: ids_of_def nodes_of_def Un_assoc)
  qed
  then show "nodes w' = nodes w + nodes_of fs" "seen_ids w' = seen_ids w \<union> set (ids_of fs)"
    "set (ids_of fs) \<inter> seen_ids w = {} \<and> distinct (ids_of fs)"
    "element_ids w' = element_ids w \<union> set (concat (map face_elements fs))"
    "target_refs w' = target_refs w @ concat (map face_targets fs)"
    "nodes w \<le> max_nodes \<longrightarrow> nodes w' \<le> max_nodes"
    "\<not> interactive w \<longrightarrow> \<not> list_ex face_interactive fs"
    by blast+
qed

lemma replay_safe:
  "replay sv fs w = Inr w' \<Longrightarrow> f \<in> set fs \<Longrightarrow> face_safe sv f"
  by (induction fs arbitrary: w) (auto simp: res_simps dest: admit_safe)

section \<open>Accepted cards\<close>

lemma validate_card_replay:
  assumes "validate_card sv ac b = Inr ()"
  obtains w where "replay sv (card_faces ac) (new_walker b) = Inr w"
    and "\<forall>ref \<in> set (target_refs w). ref \<in> element_ids w"
proof -
  from assms obtain w where urls: "check_node_urls ac = Inr ()"
    and walk: "card_walk sv ac (new_walker b) = Inr w" and refs: "resolve_target_refs w = Inr ()"
    by (auto simp: validate_card_def card_head_def res_simps)
  have "replay sv (url_faces ac) (new_walker b) = Inr (new_walker b)"
    using covers_node_urls [of sv ac] urls by (simp add: covers_def)
  with walk covers_card_walk [of sv ac]
  have "replay sv (card_faces ac) (new_walker b) = Inr w"
    by (simp add: card_faces_def replay_append covers_def)
  moreover have "\<forall>ref \<in> set (target_refs w). ref \<in> element_ids w"
    using refs by (simp add: resolve_target_refs_def res_simps)
  ultimately show thesis by (rule that)
qed

lemma card_faces_safe:
  assumes "validate_card sv ac b = Inr ()" and "f \<in> set (card_faces ac)"
  shows "face_safe sv f"
  using validate_card_replay [OF assms(1)] replay_safe [OF _ assms(2)] by metis

lemma card_faces_facts:
  assumes "validate_card sv ac b = Inr ()"
  shows "nodes_of (card_faces ac) \<le> max_nodes"
    and "distinct (ids_of (card_faces ac))"
    and "set (concat (map face_targets (card_faces ac)))
       \<subseteq> set (concat (map face_elements (card_faces ac)))"
    and "\<not> b \<Longrightarrow> \<not> list_ex face_interactive (card_faces ac)"
proof -
  obtain w where r: "replay sv (card_faces ac) (new_walker b) = Inr w"
    and refs: "\<forall>ref \<in> set (target_refs w). ref \<in> element_ids w"
    using validate_card_replay [OF assms] .
  note e = replay_effect [OF r]
  have new: "nodes (new_walker b) = 0" "seen_ids (new_walker b) = {}"
    "element_ids (new_walker b) = {}" "target_refs (new_walker b) = []"
    "interactive (new_walker b) = b" by (simp_all add: new_walker_def)
  show "nodes_of (card_faces ac) \<le> max_nodes" using e(1,6) new by simp
  show "distinct (ids_of (card_faces ac))" using e(3) by blast
  show "set (concat (map face_targets (card_faces ac)))
       \<subseteq> set (concat (map face_elements (card_faces ac)))"
    using refs e(4,5) new by simp blast
  show "\<not> list_ex face_interactive (card_faces ac)" if "\<not> b" using e(7) new that by simp
qed

text \<open>The interactive profile accepts every card that the display profile accepts.\<close>

lemma validate_card_interactive:
  assumes "validate_card sv ac False = Inr ()"
  shows "validate_card sv ac True = Inr ()"
proof -
  from assms obtain w where walk: "card_walk sv ac (new_walker False) = Inr w"
    and rest: "card_head ac = Inr ()" "resolve_target_refs w = Inr ()"
    by (auto simp: validate_card_def res_simps)
  have "with_interactive (new_walker False) = new_walker True"
    by (simp add: with_interactive_def new_walker_def)
  then have "card_walk sv ac (new_walker True) = Inr (with_interactive w)"
    using profile.card_walk_step [of sv ac] walk by metis
  with rest show ?thesis by (simp add: validate_card_def resolve_target_refs_def)
qed

end
