(* ===== verification/Card_Submit.thy ===== *)
theory Card_Submit
  imports Card_Surface
begin

text \<open>
  The interactive side of \<open>pkg/cardmsg/interactive.go\<close>: decoding a stored envelope, reading its
  template identity, its frame number and its transient mark, and the lookup of an
  \<open>Action.Submit\<close> by identifier with which a click is dispatched.
\<close>

section \<open>Decoding an envelope\<close>

text \<open>\<open>decodeEnvelope\<close>: one value is decoded; what follows it counts as trailing data unless the
  next byte that is not white space is a closing bracket (the contract of \<open>Decoder.More\<close>).
  A decoded \<open>null\<close> leaves the nil map.\<close>

definition json_space :: "char \<Rightarrow> bool" where
  "json_space c = (c \<in> {CHR 0x20, CHR 0x09, CHR 0x0A, CHR 0x0D})"

definition decoder_more :: "string \<Rightarrow> bool" where
  "decoder_more rest =
     (case dropWhile json_space rest of [] \<Rightarrow> False | c # _ \<Rightarrow> c \<noteq> CHR '']'' \<and> c \<noteq> CHR ''}'')"

definition decode_envelope :: "services \<Rightarrow> string \<Rightarrow> gmap option" where
  "decode_envelope sv raw =
     (case decode_num sv raw of
        Some (GObj payload, rest) \<Rightarrow> if decoder_more rest then None else Some payload
      | Some (GNil, rest) \<Rightarrow> if decoder_more rest then None else Some []
      | _ \<Rightarrow> None)"

definition decode_map :: "services \<Rightarrow> string \<Rightarrow> gmap option" where
  "decode_map sv raw =
     (case unmarshal sv raw of Some (GObj m) \<Rightarrow> Some m | Some GNil \<Rightarrow> Some [] | _ \<Rightarrow> None)"

text \<open>
  Decoding into \<open>struct { Card map[string]interface{} `json:"card"` }\<close>: every member whose name
  is \<open>card\<close> up to the case of its letters is stored in the field; an object adds its members to
  the map already there, \<open>null\<close> resets it, anything else is a type error.
\<close>

definition put_all :: "gmap \<Rightarrow> gmap \<Rightarrow> gmap" where
  "put_all m m' = fold (\<lambda>(k, v) acc. put acc k v) m' m"

fun decode_field :: "string \<Rightarrow> gmap \<Rightarrow> gmap option \<Rightarrow> gmap option option" where
  "decode_field f [] acc = Some acc"
| "decode_field f ((k, v) # ms) acc =
     (if to_lower k = f then
        case v of
          GObj m \<Rightarrow> decode_field f ms (Some (put_all (case acc of None \<Rightarrow> [] | Some a \<Rightarrow> a) m))
        | GNil \<Rightarrow> decode_field f ms None
        | _ \<Rightarrow> None
      else decode_field f ms acc)"

definition decode_card :: "services \<Rightarrow> string \<Rightarrow> gmap option" where
  "decode_card sv raw =
     (case members sv raw of
        None \<Rightarrow> None
      | Some ms \<Rightarrow> (case decode_field ''card'' ms None of Some (Some c) \<Rightarrow> Some c | _ \<Rightarrow> None))"

section \<open>Template identity\<close>

record template_context =
  tc_protocol :: string
  tc_id :: string
  tc_version :: string

definition trimmed :: "string \<Rightarrow> bool" where
  "trimmed s = (trim_space s = s)"

definition card_octo :: "gmap \<Rightarrow> gmap" where
  "card_octo payload = obj_field (obj_field (obj_field payload ''card'') ''metadata'') ''octo''"

definition card_template_context :: "services \<Rightarrow> string \<Rightarrow> template_context option" where
  "card_template_context sv raw =
     (case decode_envelope sv raw of
        None \<Rightarrow> None
      | Some payload \<Rightarrow>
          if \<not> is_card_payload payload then None
          else
            let octo = card_octo payload;
                template = obj_field octo ''template'';
                ctx = \<lparr>tc_protocol = str_field octo ''protocol'', tc_id = str_field template ''id'',
                       tc_version = str_field template ''version''\<rparr>
            in if tc_protocol ctx \<noteq> ''octo-card@1.0'' \<or> \<not> trimmed (tc_id ctx) \<or> tc_id ctx = [] \<or>
                  \<not> trimmed (tc_version ctx) \<or> tc_version ctx = []
               then None else Some ctx)"

definition card_variant :: "services \<Rightarrow> string \<Rightarrow> string option" where
  "card_variant sv raw =
     (case decode_envelope sv raw of
        None \<Rightarrow> None
      | Some payload \<Rightarrow>
          if \<not> is_card_payload payload then None
          else let variant = str_field (card_octo payload) ''variant'' in
               if blank variant then None else Some variant)"

definition has_card_template_metadata :: "services \<Rightarrow> string \<Rightarrow> bool" where
  "has_card_template_metadata sv raw =
     (case decode_envelope sv raw of
        None \<Rightarrow> False
      | Some payload \<Rightarrow>
          is_card_payload payload \<and>
          (case map_of (obj_field (obj_field payload ''card'') ''metadata'') ''octo'' of
             None \<Rightarrow> False
           | Some (GObj octo) \<Rightarrow> has_key octo ''protocol'' \<or> has_key octo ''template''
           | Some _ \<Rightarrow> True))"

section \<open>Frame number and marks\<close>

definition card_seq :: "gmap \<Rightarrow> int option" where
  "card_seq payload =
     (case map_of payload ''card_seq'' of
        Some (GInt i) \<Rightarrow> Some i
      | Some (GInt64 i) \<Rightarrow> Some i
      | Some (GNumber s) \<Rightarrow> parse_int64 s
      | _ \<Rightarrow> None)"

definition card_seq_from_content_edit :: "services \<Rightarrow> string \<Rightarrow> int option" where
  "card_seq_from_content_edit sv content_edit =
     (case decode_envelope sv content_edit of None \<Rightarrow> None | Some payload \<Rightarrow> card_seq payload)"

definition transient :: "gmap \<Rightarrow> bool" where
  "transient payload = bool_field payload ''transient''"

definition transient_from_content_edit :: "services \<Rightarrow> string \<Rightarrow> bool" where
  "transient_from_content_edit sv content_edit =
     (case decode_map sv content_edit of None \<Rightarrow> False | Some payload \<Rightarrow> transient payload)"

definition plain_from_content_edit :: "services \<Rightarrow> string \<Rightarrow> string" where
  "plain_from_content_edit sv content_edit =
     (case decode_map sv content_edit of None \<Rightarrow> [] | Some payload \<Rightarrow> str_field payload ''plain'')"

section \<open>Finding the action of a click\<close>

text \<open>The result of a lookup is \<open>None\<close> when the action is not found and otherwise its static data,
  \<open>None\<close> for Go's nil map.\<close>

definition submit_data :: "gmap \<Rightarrow> gmap option" where
  "submit_data act = (case map_of act ''data'' of Some (GObj d) \<Rightarrow> Some d | _ \<Rightarrow> None)"

definition or_else :: "'a option \<Rightarrow> 'a option \<Rightarrow> 'a option" where
  "or_else r r' = (case r of None \<Rightarrow> r' | Some _ \<Rightarrow> r)"

fun find_submit_action :: "gval \<Rightarrow> string \<Rightarrow> gmap option option"
  and find_submit_list :: "gval list \<Rightarrow> string \<Rightarrow> gmap option option"
where
  "find_submit_action (GArr l) i = find_submit_list l i"
| "find_submit_action (GObj t) i =
     (if map_of t ''type'' = Some (GStr ''Action.Submit'') \<and> str_field t ''id'' = i
      then Some (submit_data t) else None)"
| "find_submit_action _ i = None"
| "find_submit_list [] i = None"
| "find_submit_list (a # l) i = or_else (find_submit_action a i) (find_submit_list l i)"

definition find_submit_at :: "gmap \<Rightarrow> string \<Rightarrow> string \<Rightarrow> gmap option option" where
  "find_submit_at m k i = (case map_of m k of None \<Rightarrow> None | Some v \<Rightarrow> find_submit_action v i)"

text \<open>The loop over the children of a leaf collection that match their type.\<close>

fun find_in_typed :: "string \<Rightarrow> gval list \<Rightarrow> string \<Rightarrow> gmap option option" where
  "find_in_typed expected [] i = None"
| "find_in_typed expected (GObj c # l) i =
     or_else (if child_type_matches c expected then find_submit_at c ''selectAction'' i else None)
       (find_in_typed expected l i)"
| "find_in_typed expected (_ # l) i = find_in_typed expected l i"

definition find_submit_own :: "gmap \<Rightarrow> string \<Rightarrow> gmap option option" where
  "find_submit_own el i =
     or_else (find_submit_at el ''selectAction'' i)
       (if is_input_element (str_field el ''type'') then find_submit_at el ''inlineAction'' i
        else None)"

function (sequential)
  find_submit_in_elements :: "gval list \<Rightarrow> string \<Rightarrow> gmap option option"
  and find_submit_in_columns :: "gval list \<Rightarrow> string \<Rightarrow> gmap option option"
  and find_submit_in_rows :: "gval list \<Rightarrow> string \<Rightarrow> gmap option option"
  and find_submit_in_cells :: "gval list \<Rightarrow> string \<Rightarrow> gmap option option"
where
  "find_submit_in_elements [] i = None"
| "find_submit_in_elements (GObj el # items) i =
     or_else (find_submit_own el i)
     (or_else
       (let t = str_field el ''type'' in
        if t = ''Container'' then find_submit_in_elements (items_at el ''items'') i
        else if t = ''ColumnSet'' then find_submit_in_columns (items_at el ''columns'') i
        else if t = ''ActionSet'' then find_submit_at el ''actions'' i
        else if t = ''ImageSet'' then find_in_typed ''Image'' (items_at el ''images'') i
        else if t = ''RichTextBlock'' then find_in_typed ''TextRun'' (items_at el ''inlines'') i
        else if t = ''Table'' then find_submit_in_rows (items_at el ''rows'') i
        else None)
       (find_submit_in_elements items i))"
| "find_submit_in_elements (_ # items) i = find_submit_in_elements items i"
| "find_submit_in_columns [] i = None"
| "find_submit_in_columns (GObj col # cols) i =
     or_else (find_submit_at col ''selectAction'' i)
     (or_else (find_submit_in_elements (items_at col ''items'') i)
       (find_submit_in_columns cols i))"
| "find_submit_in_columns (_ # cols) i = find_submit_in_columns cols i"
| "find_submit_in_rows [] i = None"
| "find_submit_in_rows (GObj row # rs) i =
     or_else
       (if child_type_matches row ''TableRow'' then
          or_else (find_submit_at row ''selectAction'' i)
            (find_submit_in_cells (items_at row ''cells'') i)
        else None)
       (find_submit_in_rows rs i)"
| "find_submit_in_rows (_ # rs) i = find_submit_in_rows rs i"
| "find_submit_in_cells [] i = None"
| "find_submit_in_cells (GObj cell # cs) i =
     or_else
       (if child_type_matches cell ''TableCell'' then
          or_else (find_submit_at cell ''selectAction'' i)
            (find_submit_in_elements (items_at cell ''items'') i)
        else None)
       (find_submit_in_cells cs i)"
| "find_submit_in_cells (_ # cs) i = find_submit_in_cells cs i"
  by pat_completeness auto
termination
  by (relation "measure (\<lambda>x. case x of
        Inl (Inl (its, _)) \<Rightarrow> size_list size its
      | Inl (Inr (cs, _)) \<Rightarrow> size_list size cs
      | Inr (Inl (rs, _)) \<Rightarrow> size_list size rs
      | Inr (Inr (cs, _)) \<Rightarrow> size_list size cs)")
    (auto simp: less_Suc_eq_le items_at_size items_at_size')

text \<open>\<open>SubmitAction\<close> on the decoded card and on the envelope.\<close>

definition submit_in_card :: "gmap \<Rightarrow> string \<Rightarrow> gmap option option" where
  "submit_in_card ac i =
     or_else (find_submit_at ac ''actions'' i)
     (or_else (find_submit_at ac ''selectAction'' i)
       (find_submit_in_elements (items_at ac ''body'') i))"

definition submit_action :: "services \<Rightarrow> string \<Rightarrow> string \<Rightarrow> gmap option option" where
  "submit_action sv raw i =
     (if i = [] then None
      else case decode_card sv raw of None \<Rightarrow> None | Some ac \<Rightarrow> submit_in_card ac i)"

section \<open>The dispatch surface is the validated surface\<close>

text \<open>
  The submit actions among a list of faces, and \<open>dispatches S r\<close>: the lookup \<open>r\<close> finds exactly
  the identifiers of \<open>S\<close>, each with data of \<open>S\<close>.
\<close>

fun face_submit :: "face \<Rightarrow> (string \<times> gmap option) list" where
  "face_submit (Submit act) = [(str_field act ''id'', submit_data act)]"
| "face_submit _ = []"

definition submits :: "face list \<Rightarrow> (string \<times> gmap option) set" where
  "submits fs = set (concat (map face_submit fs))"

definition dispatches :: "(string \<times> gmap option) set \<Rightarrow> (string \<Rightarrow> gmap option option) \<Rightarrow> bool" where
  "dispatches S r \<longleftrightarrow> (\<forall>i d. r i = Some d \<longrightarrow> (i, d) \<in> S) \<and> (\<forall>i d. (i, d) \<in> S \<longrightarrow> r i \<noteq> None)"

lemma submits_simps [simp]:
  "submits [] = {}" "submits (a @ b) = submits a \<union> submits b"
  "submits (Node d # a) = submits a" "submits (ImageUrl u # a) = submits a"
  "submits (Bad # a) = submits a" "submits (Url u # a) = submits a"
  "submits (Input el # a) = submits a" "submits (Target u # a) = submits a" "submits (Copy u # a) = submits a"
  "submits (Submit act # a) = insert (str_field act ''id'', submit_data act) (submits a)"
  by (simp_all add: submits_def)

lemma submits_iff:
  "(i, d) \<in> submits fs \<longleftrightarrow>
    (\<exists>act. Submit act \<in> set fs \<and> str_field act ''id'' = i \<and> d = submit_data act)"
proof -
  have "(i, d) \<in> set (face_submit f) \<longleftrightarrow>
      (\<exists>act. f = Submit act \<and> str_field act ''id'' = i \<and> d = submit_data act)" for f
    by (cases f) auto
  then show ?thesis by (auto simp: submits_def)
qed

lemma submits_silent [simp]:
  "submits (url_faces m) = {}" "submits (ident_faces m) = {}" "submits (text_faces m k) = {}"
  "submits (typed_faces m e) = {}" "submits (fact_faces d f) = {}" "submits (map (\<lambda>i. Target (g i)) l) = {}"
  by (auto simp: submits_def url_faces_def ident_faces_def text_faces_def typed_faces_def
      fact_faces_def split: option.splits gval.splits if_splits)

lemma submits_concat: "submits (concat (map f l)) = (\<Union>x \<in> set l. submits (f x))"
  by (induction l) simp_all

lemma or_else_simps [simp]: "or_else None r = r" "or_else (Some x) r = Some x" "or_else r None = r"
  by (simp_all add: or_else_def split: option.splits)

lemma dispatches_or [intro]:
  "dispatches S r \<Longrightarrow> dispatches T r' \<Longrightarrow> dispatches (S \<union> T) (\<lambda>i. or_else (r i) (r' i))"
  unfolding dispatches_def or_else_def by (auto split: option.splits)

lemma dispatches_None [simp]: "dispatches {} (\<lambda>i. None)"
  by (simp add: dispatches_def)

lemma dispatches_action: "Bad \<notin> set (action_faces a) \<Longrightarrow> dispatches (submits (action_faces a)) (find_submit_action a)"
proof (cases "\<exists>m. a = GObj m")
  case True
  then obtain m where a: "a = GObj m" ..
  have "str_field m ''type'' = ''Action.Submit'' \<longleftrightarrow> map_of m ''type'' = Some (GStr ''Action.Submit'')"
    by (auto simp: str_field_def split: option.splits gval.splits)
  then show ?thesis
    by (auto simp: a dispatches_def action_body_faces_def Let_def)
next
  case False
  then show "Bad \<notin> set (action_faces a) \<Longrightarrow> ?thesis" by (cases a) simp_all
qed

lemma dispatches_at:
  "Bad \<notin> set (optional_faces m k) \<Longrightarrow> dispatches (submits (optional_faces m k)) (find_submit_at m k)"
  by (cases "map_of m k") (simp_all add: optional_faces_def find_submit_at_def [abs_def] dispatches_action)

lemma dispatches_list:
  "Bad \<notin> set (concat (map action_faces l)) \<Longrightarrow>
    dispatches (submits (concat (map action_faces l))) (find_submit_list l)"
proof (induction l)
  case (Cons a l)
  then show ?case using dispatches_or [OF dispatches_action [of a] Cons.IH] by simp
qed (simp add: dispatches_def)

lemma dispatches_actions:
  assumes "Bad \<notin> set (actions_faces m)"
  shows "dispatches (submits (actions_faces m)) (find_submit_at m ''actions'')"
proof (cases "map_of m ''actions''")
  case (Some v)
  with assms show ?thesis
    using dispatches_list
    by (cases v) (simp_all add: actions_faces_def find_submit_at_def [abs_def])
qed (simp add: actions_faces_def find_submit_at_def [abs_def])

lemma dispatches_typed_images:
  "Bad \<notin> set (concat (map (image_faces d) l)) \<Longrightarrow>
    dispatches (submits (concat (map (image_faces d) l))) (find_in_typed ''Image'' l)"
proof (induction l)
  case (Cons v l)
  have tl: "dispatches (submits (concat (map (image_faces d) l))) (find_in_typed ''Image'' l)"
    using Cons by simp
  show ?case
  proof (cases "\<exists>m. v = GObj m")
    case True
    then obtain m where v: "v = GObj m" ..
    then have "child_type_matches m ''Image''" and "Bad \<notin> set (optional_faces m ''selectAction'')"
      using Cons.prems by (auto simp: image_faces_def typed_faces_def Let_def split: if_splits)
    then show ?thesis
      using dispatches_or [OF dispatches_at tl, of m "''selectAction''"]
      by (simp add: v) (simp add: image_faces_def [of d "GObj m"] Let_def)
  next
    case False
    then have "find_in_typed ''Image'' (v # l) = find_in_typed ''Image'' l"
      and "submits (image_faces d v) = {}"
      by (cases v; simp add: fun_eq_iff image_faces_def optional_faces_def)+
    with tl show ?thesis by simp
  qed
qed (simp add: dispatches_def)

lemma dispatches_typed_inlines:
  "Bad \<notin> set (concat (map (inline_faces d) l)) \<Longrightarrow>
    dispatches (submits (concat (map (inline_faces d) l))) (find_in_typed ''TextRun'' l)"
proof (induction l)
  case (Cons v l)
  have tl: "dispatches (submits (concat (map (inline_faces d) l))) (find_in_typed ''TextRun'' l)"
    using Cons by simp
  show ?case
  proof (cases "\<exists>m. v = GObj m")
    case True
    then obtain m where v: "v = GObj m" ..
    then have "child_type_matches m ''TextRun''" and "Bad \<notin> set (optional_faces m ''selectAction'')"
      using Cons.prems by (auto simp: typed_faces_def Let_def split: if_splits)
    then show ?thesis
      using dispatches_or [OF dispatches_at tl, of m "''selectAction''"] by (simp add: v)
  next
    case False
    then have "find_in_typed ''TextRun'' (v # l) = find_in_typed ''TextRun'' l"
      and "submits (inline_faces d v) = {}"
      by (cases v; simp add: fun_eq_iff)+
    with tl show ?thesis by simp
  qed
qed (simp add: dispatches_def)

text \<open>What the dispatcher looks up in one element besides the elements after it.\<close>

definition find_submit_kind :: "gmap \<Rightarrow> string \<Rightarrow> gmap option option" where
  "find_submit_kind el i =
     (let t = str_field el ''type'' in
        if t = ''Container'' then find_submit_in_elements (items_at el ''items'') i
        else if t = ''ColumnSet'' then find_submit_in_columns (items_at el ''columns'') i
        else if t = ''ActionSet'' then find_submit_at el ''actions'' i
        else if t = ''ImageSet'' then find_in_typed ''Image'' (items_at el ''images'') i
        else if t = ''RichTextBlock'' then find_in_typed ''TextRun'' (items_at el ''inlines'') i
        else if t = ''Table'' then find_submit_in_rows (items_at el ''rows'') i
        else None)"

lemma input_types:
  "is_input_element t \<Longrightarrow> t \<notin> {''Container'', ''ColumnSet'', ''ActionSet'', ''ImageSet'',
     ''RichTextBlock'', ''Table'', ''TextBlock'', ''Image'', ''FactSet''}"
  by (auto simp: is_input_element_def input_elements_def)

lemma dispatches_element:
  assumes "Bad \<notin> set (element_faces el d)"
    and "str_field el ''type'' = ''Container'' \<Longrightarrow>
      dispatches (submits (elements_faces (items_at el ''items'') (d + 1)))
        (find_submit_in_elements (items_at el ''items''))"
    and "str_field el ''type'' = ''ColumnSet'' \<Longrightarrow>
      dispatches (submits (columns_faces (items_at el ''columns'') (d + 1)))
        (find_submit_in_columns (items_at el ''columns''))"
    and "str_field el ''type'' = ''Table'' \<Longrightarrow>
      dispatches (submits (rows_faces (items_at el ''rows'') d))
        (find_submit_in_rows (items_at el ''rows''))"
  shows "dispatches (submits (element_faces el d))
    (\<lambda>i. or_else (find_submit_own el i) (find_submit_kind el i))"
proof -
  define t where "t = str_field el ''type''"
  have own: "Bad \<notin> set (optional_faces el ''selectAction'')"
    using assms(1) by (simp add: element_faces.simps element_own_faces_def)
  have sub: "submits (element_own_faces el d) = submits (optional_faces el ''selectAction'')"
    by (simp add: element_own_faces_def)
  show ?thesis
  proof (cases "is_input_element t")
    case True
    note inp = input_types [OF True]
    then have el: "element_faces el d = element_own_faces el d @ input_faces el"
      by (simp add: element_faces.simps leaf_faces_def t_def [symmetric] True)
    then have "Bad \<notin> set (optional_faces el ''inlineAction'')"
      using assms(1) by (simp add: input_faces_def)
    from dispatches_or [OF dispatches_at [OF own] dispatches_at [OF this]]
    show ?thesis
      using inp True
      by (simp add: el sub input_faces_def find_submit_kind_def find_submit_own_def
          t_def [symmetric] Let_def)
  next
    case False
    have kind: "dispatches (submits (if t = ''Container'' then elements_faces (items_at el ''items'') (d + 1)
      else if t = ''ColumnSet'' then columns_faces (items_at el ''columns'') (d + 1)
      else if t = ''Table'' then rows_faces (items_at el ''rows'') d
      else leaf_faces el d)) (find_submit_kind el)"
      using assms False dispatches_actions [of el] dispatches_typed_images [of "d + 1" "items_at el ''images''"]
        dispatches_typed_inlines [of d "items_at el ''inlines''"]
      by (simp add: element_faces.simps find_submit_kind_def [abs_def] leaf_faces_def
          t_def [symmetric] Let_def submits_concat split: if_splits)
    from dispatches_or [OF dispatches_at [OF own] kind] show ?thesis
      using False
      by (simp add: element_faces.simps sub find_submit_own_def t_def [symmetric] Let_def)
  qed
qed

lemma dispatches_walk:
  "Bad \<notin> set (elements_faces l d) \<Longrightarrow>
    dispatches (submits (elements_faces l d)) (find_submit_in_elements l)"
  "Bad \<notin> set (element_faces el d) \<Longrightarrow> dispatches (submits (element_faces el d))
    (\<lambda>i. or_else (find_submit_own el i) (find_submit_kind el i))"
  "Bad \<notin> set (columns_faces l d) \<Longrightarrow>
    dispatches (submits (columns_faces l d)) (find_submit_in_columns l)"
  "Bad \<notin> set (rows_faces l d) \<Longrightarrow>
    dispatches (submits (rows_faces l d)) (find_submit_in_rows l)"
  "Bad \<notin> set (cells_faces l d) \<Longrightarrow>
    dispatches (submits (cells_faces l d)) (find_submit_in_cells l)"
proof (induction l d and el d and l d and l d and l d
    rule: elements_faces_element_faces_columns_faces_rows_faces_cells_faces.induct)
  case (2 el items d)
  then have "dispatches (submits (element_faces el d) \<union> submits (elements_faces items d))
    (\<lambda>i. or_else (or_else (find_submit_own el i) (find_submit_kind el i))
      (find_submit_in_elements items i))"
    by (intro dispatches_or) simp_all
  moreover have "find_submit_in_elements (GObj el # items) =
    (\<lambda>i. or_else (or_else (find_submit_own el i) (find_submit_kind el i))
      (find_submit_in_elements items i))"
    by (simp add: fun_eq_iff find_submit_kind_def or_else_def split: option.splits)
  ultimately show ?case by simp
next
  case (4 el d)
  then show ?case
    by (intro dispatches_element) (simp_all add: element_faces.simps Let_def)
next
  case (6 col cols d)
  have eq: "find_submit_in_columns (GObj col # cols) = (\<lambda>i. or_else
      (find_submit_at col ''selectAction'' i)
      (or_else (find_submit_in_elements (items_at col ''items'') i) (find_submit_in_columns cols i)))"
    by (rule ext) simp
  have "dispatches (submits (optional_faces col ''selectAction'') \<union>
      (submits (elements_faces (items_at col ''items'') (d + 1)) \<union> submits (columns_faces cols d)))
    (find_submit_in_columns (GObj col # cols))"
    unfolding eq using 6 by (intro dispatches_or dispatches_at) simp_all
  then show ?case by (simp add: Un_ac eq)
next
  case (9 row rs d)
  then have t: "child_type_matches row ''TableRow''"
    by (simp add: typed_faces_def split: if_splits)
  then have eq: "find_submit_in_rows (GObj row # rs) = (\<lambda>i. or_else
      (or_else (find_submit_at row ''selectAction'' i) (find_submit_in_cells (items_at row ''cells'') i))
      (find_submit_in_rows rs i))"
    by (intro ext) simp
  have "dispatches ((submits (optional_faces row ''selectAction'') \<union>
      submits (cells_faces (items_at row ''cells'') d)) \<union> submits (rows_faces rs d))
    (find_submit_in_rows (GObj row # rs))"
    unfolding eq using 9 by (intro dispatches_or dispatches_at) simp_all
  then show ?case by (simp add: Un_ac eq)
next
  case (12 cell cs d)
  then have t: "child_type_matches cell ''TableCell''"
    by (simp add: typed_faces_def split: if_splits)
  then have eq: "find_submit_in_cells (GObj cell # cs) = (\<lambda>i. or_else
      (or_else (find_submit_at cell ''selectAction'' i)
        (find_submit_in_elements (items_at cell ''items'') i))
      (find_submit_in_cells cs i))"
    by (intro ext) simp
  have "dispatches ((submits (optional_faces cell ''selectAction'') \<union>
      submits (elements_faces (items_at cell ''items'') (d + 3))) \<union> submits (cells_faces cs d))
    (find_submit_in_cells (GObj cell # cs))"
    unfolding eq using 12 by (intro dispatches_or dispatches_at) simp_all
  then show ?case by (simp add: Un_ac eq)
qed (simp_all add: dispatches_def)

lemma dispatches_card:
  assumes "Bad \<notin> set (card_faces ac)"
  shows "dispatches (submits (card_faces ac)) (submit_in_card ac)"
proof -
  have "dispatches (submits (actions_faces ac) \<union> (submits (optional_faces ac ''selectAction'') \<union>
      submits (elements_faces (items_at ac ''body'') 1))) (submit_in_card ac)"
    using assms unfolding submit_in_card_def [abs_def]
    by (intro dispatches_or dispatches_actions dispatches_at dispatches_walk(1))
      (simp_all add: card_faces_def)
  then show ?thesis by (simp add: card_faces_def Un_ac)
qed

lemma submit_faces_unique:
  "distinct (ids_of fs) \<Longrightarrow> (i, d) \<in> submits fs \<Longrightarrow> (i, d') \<in> submits fs \<Longrightarrow> d = d'"
proof (induction fs)
  case (Cons f fs)
  have mem: "(i, e) \<in> submits fs \<Longrightarrow> i \<in> set (ids_of fs)" for e
  proof (induction fs)
    case (Cons g gs)
    then show ?case by (cases g) (auto simp: submits_def ids_of_def)
  qed simp
  show ?case
  proof (cases "\<exists>act. f = Submit act")
    case True
    then obtain act where f: "f = Submit act" ..
    then have "str_field act ''id'' \<notin> set (ids_of fs)" and "distinct (ids_of fs)"
      using Cons.prems(1) by (auto simp: ids_of_def)
    with Cons f mem show ?thesis by auto
  next
    case False
    then have "submits (f # fs) = submits fs" by (cases f) (simp_all add: submits_def)
    moreover have "distinct (ids_of fs)" using Cons.prems(1) by (simp add: ids_of_def)
    ultimately show ?thesis using Cons by blast
  qed
qed simp

text \<open>On an accepted card the lookup is the finite map of its submit actions.\<close>

lemma submit_in_card_exact:
  assumes "validate_card sv ac b = Inr ()"
  shows "submit_in_card ac i = Some d \<longleftrightarrow> (i, d) \<in> submits (card_faces ac)"
proof -
  have "Bad \<notin> set (card_faces ac)" using card_faces_safe [OF assms, of Bad] by auto
  from dispatches_card [OF this] show ?thesis
    using submit_faces_unique [OF card_faces_facts(2) [OF assms]]
    by (auto simp: dispatches_def) (metis option.exhaust)
qed

end
