(* ===== verification/Card_Inputs.thy ===== *)
theory Card_Inputs
  imports Card_Submit
begin

text \<open>
  The trust boundary of \<open>pkg/cardmsg/inputs.go\<close>: the input elements that a stored card declares
  and the validation of the values a click submits for them.
\<close>

definition max_input_text_bytes :: nat where "max_input_text_bytes = 4096"
definition max_inputs_bytes :: nat where "max_inputs_bytes = 16384"

section \<open>Numbers\<close>

text \<open>\<open>jsonNumberPattern\<close>, the number grammar of RFC 8259, with the parts it matches: the sign, the
  integer digits, the fraction digits and the signed exponent digits.\<close>

record json_num =
  jn_neg :: bool
  jn_int :: string
  jn_frac :: string
  jn_exp_neg :: bool
  jn_exp :: string

fun num_int :: "string \<Rightarrow> (string \<times> string) option" where
  "num_int [] = None"
| "num_int (c # s) =
     (if c = CHR ''0'' then Some ([c], s)
      else if is_digit c then Some (c # takeWhile is_digit s, dropWhile is_digit s)
      else None)"

fun num_frac :: "string \<Rightarrow> (string \<times> string) option" where
  "num_frac (c # s) =
     (if c = CHR ''.'' then
        (if takeWhile is_digit s = [] then None else Some (takeWhile is_digit s, dropWhile is_digit s))
      else Some ([], c # s))"
| "num_frac [] = Some ([], [])"

definition num_exp_sign :: "string \<Rightarrow> bool \<times> string" where
  "num_exp_sign s =
     (case s of [] \<Rightarrow> (False, [])
      | c # s' \<Rightarrow> if c = CHR ''-'' then (True, s') else if c = CHR ''+'' then (False, s') else (False, s))"

fun num_exp :: "string \<Rightarrow> (bool \<times> string) option" where
  "num_exp [] = Some (False, [])"
| "num_exp (c # s) =
     (if c = CHR ''e'' \<or> c = CHR ''E'' then
        (case num_exp_sign s of (neg, ds) \<Rightarrow>
           if ds \<noteq> [] \<and> list_all is_digit ds then Some (neg, ds) else None)
      else None)"

definition json_number :: "string \<Rightarrow> json_num option" where
  "json_number s =
     (let neg = (s \<noteq> [] \<and> hd s = CHR ''-''); body = (if neg then tl s else s)
      in case num_int body of None \<Rightarrow> None
         | Some (ds, s) \<Rightarrow>
             (case num_frac s of None \<Rightarrow> None
              | Some (fr, s) \<Rightarrow>
                  (case num_exp s of None \<Rightarrow> None
                   | Some (en, ex) \<Rightarrow>
                       Some \<lparr>jn_neg = neg, jn_int = ds, jn_frac = fr, jn_exp_neg = en, jn_exp = ex\<rparr>)))"

text \<open>
  \<open>strconv.ParseFloat(s, 64)\<close> on a string of the grammar: the decimal value, whose exponent the
  library stops accumulating once it has reached 10000, overflows when rounding to nearest even
  leaves the finite doubles, that is from \<open>2 ^ 1024 - 2 ^ 970\<close> on.
\<close>

definition capped_exponent :: "string \<Rightarrow> nat" where
  "capped_exponent ds = foldl (\<lambda>e c. if e < 10000 then 10 * e + digit_value c else e) 0 ds"

definition json_num_value :: "json_num \<Rightarrow> rat" where
  "json_num_value n =
     (let m = of_nat (digits_value (jn_int n @ jn_frac n)) / 10 ^ length (jn_frac n);
          e = capped_exponent (jn_exp n);
          v = (if jn_exp_neg n then m / 10 ^ e else m * 10 ^ e)
      in if jn_neg n then - v else v)"

definition double_overflow :: rat where
  "double_overflow = 2 ^ 1024 - 2 ^ 970"

definition valid_number :: "string \<Rightarrow> bool" where
  "valid_number s =
     (case json_number s of None \<Rightarrow> False | Some n \<Rightarrow> \<bar>json_num_value n\<bar> < double_overflow)"

section \<open>Dates and times\<close>

definition leap_year :: "nat \<Rightarrow> bool" where
  "leap_year y = (y mod 4 = 0 \<and> (y mod 100 \<noteq> 0 \<or> y mod 400 = 0))"

definition days_in :: "nat \<Rightarrow> nat \<Rightarrow> nat" where
  "days_in m y =
     (if m = 2 then (if leap_year y then 29 else 28) else if m \<in> {4, 6, 9, 11} then 30 else 31)"

definition is_valid_date :: "string \<Rightarrow> bool" where
  "is_valid_date s =
     (length s = 10 \<and> s ! 4 = CHR ''-'' \<and> s ! 7 = CHR ''-'' \<and>
      (case (parse_digits (take 4 s), parse_digits (take 2 (drop 5 s)), parse_digits (drop 8 s)) of
         (Some y, Some m, Some d) \<Rightarrow> 1 \<le> m \<and> m \<le> 12 \<and> 1 \<le> d \<and> d \<le> days_in m y
       | _ \<Rightarrow> False))"

definition is_valid_time :: "string \<Rightarrow> bool" where
  "is_valid_time s =
     (length s = 5 \<and> s ! 2 = CHR '':'' \<and>
      (case (parse_digits (take 2 s), parse_digits (drop 3 s)) of
         (Some h, Some m) \<Rightarrow> h < 24 \<and> m < 60
       | _ \<Rightarrow> False))"

section \<open>Declared inputs\<close>

record input_spec =
  is_typ :: string
  is_choices :: "string list"
  is_multi :: bool
  is_value_on :: string
  is_value_off :: string

fun choice_value :: "gval \<Rightarrow> string list" where
  "choice_value (GObj ch) = (if str_field ch ''value'' \<noteq> [] then [str_field ch ''value''] else [])"
| "choice_value _ = []"

definition or_default :: "string \<Rightarrow> string \<Rightarrow> string" where
  "or_default s d = (if s \<noteq> [] then s else d)"

definition input_spec_of :: "gmap \<Rightarrow> input_spec" where
  "input_spec_of el =
     (let t = str_field el ''type'' in
      \<lparr>is_typ = t,
       is_choices = (if t = ''Input.ChoiceSet''
          then concat (map choice_value (items_at el ''choices'')) else []),
       is_multi = (t = ''Input.ChoiceSet'' \<and> bool_field el ''isMultiSelect''),
       is_value_on = (if t = ''Input.Toggle'' then or_default (str_field el ''valueOn'') ''true'' else []),
       is_value_off = (if t = ''Input.Toggle'' then or_default (str_field el ''valueOff'') ''false'' else [])\<rparr>)"

definition input_decl :: "gmap \<Rightarrow> (string \<times> input_spec) list" where
  "input_decl el =
     (if is_input_element (str_field el ''type'') \<and> str_field el ''id'' \<noteq> []
      then [(str_field el ''id'', input_spec_of el)] else [])"

text \<open>\<open>collectInputSpecsFromElements\<close>: the assignments \<open>specs[id] = spec\<close> in the order they are made.\<close>

function (sequential)
  collect_elements :: "gval list \<Rightarrow> (string \<times> input_spec) list"
  and collect_columns :: "gval list \<Rightarrow> (string \<times> input_spec) list"
  and collect_rows :: "gval list \<Rightarrow> (string \<times> input_spec) list"
where
  "collect_elements [] = []"
| "collect_elements (GObj el # items) =
     input_decl el @
     (let t = str_field el ''type'' in
      if t = ''Container'' then collect_elements (items_at el ''items'')
      else if t = ''ColumnSet'' then collect_columns (items_at el ''columns'')
      else if t = ''Table'' then collect_rows (items_at el ''rows'')
      else []) @
     collect_elements items"
| "collect_elements (_ # items) = collect_elements items"
| "collect_columns [] = []"
| "collect_columns (GObj col # cols) =
     collect_elements (items_at col ''items'') @ collect_columns cols"
| "collect_columns (_ # cols) = collect_columns cols"
| "collect_rows [] = []"
| "collect_rows (GObj row # rs) = collect_columns (items_at row ''cells'') @ collect_rows rs"
| "collect_rows (_ # rs) = collect_rows rs"
  by pat_completeness auto
termination
  by (relation "measure (\<lambda>x. case x of
        Inl its \<Rightarrow> size_list size its | Inr (Inl cs) \<Rightarrow> size_list size cs
      | Inr (Inr rs) \<Rightarrow> size_list size rs)")
    (auto simp: less_Suc_eq_le items_at_size items_at_size')

definition collect_input_specs :: "services \<Rightarrow> string \<Rightarrow> (string \<times> input_spec) list" where
  "collect_input_specs sv raw =
     (case decode_card sv raw of None \<Rightarrow> [] | Some ac \<Rightarrow> collect_elements (items_at ac ''body''))"

text \<open>The map that the assignments leave: the last one of a key counts.\<close>

definition spec_lookup :: "(string \<times> input_spec) list \<Rightarrow> string \<Rightarrow> input_spec option" where
  "spec_lookup specs k = map_of (rev specs) k"

section \<open>Submitted values\<close>

definition valid_input :: "input_spec \<Rightarrow> string \<Rightarrow> bool" where
  "valid_input spec s =
     (let t = is_typ spec in
      if t = ''Input.Text'' then length s \<le> max_input_text_bytes
      else if t = ''Input.Toggle'' then s = is_value_on spec \<or> s = is_value_off spec
      else if t = ''Input.ChoiceSet'' then
        (if is_multi spec then
           list_all (\<lambda>part. part = [] \<or> part \<in> set (is_choices spec)) (str_split CHR '','' s)
         else s = [] \<or> s \<in> set (is_choices spec))
      else if t = ''Input.Number'' then s = [] \<or> valid_number s
      else if t = ''Input.Date'' then s = [] \<or> is_valid_date s
      else if t = ''Input.Time'' then s = [] \<or> is_valid_time s
      else False)"

definition check_input :: "(string \<times> input_spec) list \<Rightarrow> string \<times> gval \<Rightarrow> unit res" where
  "check_input specs kv =
     (case spec_lookup specs (fst kv) of
        None \<Rightarrow> Inl CardInputInvalid
      | Some spec \<Rightarrow>
          (case snd kv of
             GStr s \<Rightarrow> guard_res (valid_input spec s) CardInputInvalid
           | _ \<Rightarrow> Inl CardInputInvalid))"

definition validate_inputs :: "services \<Rightarrow> string \<Rightarrow> gmap \<Rightarrow> unit res" where
  "validate_inputs sv raw inputs =
     (if inputs = [] then Inr ()
      else case marshal sv (GObj inputs) of
             None \<Rightarrow> Inl CardInputInvalid
           | Some s \<Rightarrow>
               if max_inputs_bytes < length s then Inl CardInputInvalid
               else check_all (check_input (collect_input_specs sv raw)) inputs)"

section \<open>Declarations and the validated surface\<close>

fun face_inputs :: "face \<Rightarrow> gmap list" where
  "face_inputs (Input el) = [el]"
| "face_inputs _ = []"

definition inputs_of :: "face list \<Rightarrow> gmap list" where
  "inputs_of fs = concat (map face_inputs fs)"

lemma inputs_of_simps [simp]:
  "inputs_of [] = []" "inputs_of (a @ b) = inputs_of a @ inputs_of b"
  "inputs_of (Node d # a) = inputs_of a" "inputs_of (ImageUrl u # a) = inputs_of a"
  "inputs_of (Bad # a) = inputs_of a" "inputs_of (Url u # a) = inputs_of a"
  "inputs_of (Target u # a) = inputs_of a" "inputs_of (Copy u # a) = inputs_of a"
  "inputs_of (Submit act # a) = inputs_of a" "inputs_of (Input el # a) = el # inputs_of a"
  by (simp_all add: inputs_of_def)

lemma inputs_of_concat: "(\<And>x. x \<in> set l \<Longrightarrow> inputs_of (f x) = []) \<Longrightarrow> inputs_of (concat (map f l)) = []"
  by (induction l) simp_all

lemma inputs_of_map: "(\<And>x. face_inputs (f x) = []) \<Longrightarrow> inputs_of (map f l) = []"
  by (induction l) (simp_all add: inputs_of_def)

lemma inputs_of_silent [simp]:
  "inputs_of (url_faces m) = []" "inputs_of (ident_faces m) = []" "inputs_of (text_faces m k) = []"
  "inputs_of (typed_faces m e) = []" "inputs_of (fact_faces d f) = []"
  "inputs_of (action_faces a) = []" "inputs_of (actions_faces m) = []"
  "inputs_of (optional_faces m k) = []" "inputs_of (image_faces d f) = []"
  "inputs_of (inline_faces d f) = []"
proof -
  show url: "inputs_of (url_faces m) = []" for m by (simp add: url_faces_def inputs_of_map)
  show idf: "inputs_of (ident_faces m) = []" for m
    by (simp add: ident_faces_def inputs_of_def)
  show tx: "inputs_of (text_faces m k) = []" for m k
    by (auto simp: text_faces_def inputs_of_def split: option.splits gval.splits)
  show tpd: "inputs_of (typed_faces m e) = []" for m e
    by (simp add: typed_faces_def)
  show "inputs_of (fact_faces d f) = []" by (simp add: fact_faces_def tx)
  show act: "inputs_of (action_faces a) = []" for a
    by (cases a) (simp_all add: action_body_faces_def Let_def url inputs_of_map)
  show "inputs_of (actions_faces m) = []"
    by (simp add: actions_faces_def inputs_of_concat act split: option.splits gval.splits)
  show opt: "inputs_of (optional_faces m k) = []" for m k
    by (simp add: optional_faces_def act split: option.splits)
  show "inputs_of (image_faces d f) = []"
    by (simp add: image_faces_def Let_def tpd url idf opt)
  show "inputs_of (inline_faces d f) = []"
    by (cases f) (simp_all add: tpd opt)
qed

lemma inputs_of_own [simp]: "inputs_of (element_own_faces el d) = []"
  by (simp add: element_own_faces_def)

lemma inputs_of_leaf:
  "inputs_of (leaf_faces el d) = (if is_input_element (str_field el ''type'') then [el] else [])"
proof -
  define t where "t = str_field el ''type''"
  show ?thesis
    using input_types [of t]
    by (auto simp: leaf_faces_def t_def [symmetric] Let_def inputs_of_concat input_faces_def)
qed

definition input_entry :: "gmap \<Rightarrow> string \<times> input_spec" where
  "input_entry el = (str_field el ''id'', input_spec_of el)"

abbreviation named_inputs :: "face list \<Rightarrow> bool" where
  "named_inputs fs \<equiv> \<forall>el \<in> set (inputs_of fs). str_field el ''id'' \<noteq> []"

lemma input_decl_entry:
  "str_field el ''id'' \<noteq> [] \<Longrightarrow> is_input_element (str_field el ''type'') \<Longrightarrow> input_decl el = [input_entry el]"
  "\<not> is_input_element (str_field el ''type'') \<Longrightarrow> input_decl el = []"
  by (simp_all add: input_decl_def input_entry_def)

lemma collect_faces:
  "named_inputs (elements_faces l d) \<Longrightarrow> collect_elements l = map input_entry (inputs_of (elements_faces l d))"
  "named_inputs (element_faces el d) \<Longrightarrow> collect_elements [GObj el] = map input_entry (inputs_of (element_faces el d))"
  "named_inputs (columns_faces l d) \<Longrightarrow> collect_columns l = map input_entry (inputs_of (columns_faces l d))"
  "named_inputs (rows_faces l d) \<Longrightarrow> collect_rows l = map input_entry (inputs_of (rows_faces l d))"
  "named_inputs (cells_faces l d) \<Longrightarrow> collect_columns l = map input_entry (inputs_of (cells_faces l d))"
proof (induction l d and el d and l d and l d and l d
    rule: elements_faces_element_faces_columns_faces_rows_faces_cells_faces.induct)
  case (2 el items d)
  then have "collect_elements [GObj el] = map input_entry (inputs_of (element_faces el d))"
    and "collect_elements items = map input_entry (inputs_of (elements_faces items d))" by simp_all
  moreover have "collect_elements (GObj el # items) = collect_elements [GObj el] @ collect_elements items"
    by simp
  ultimately show ?case by simp
next
  case (4 el d)
  define t where "t = str_field el ''type''"
  show ?case
  proof (cases "is_input_element t")
    case True
    note inp = input_types [OF True]
    have "inputs_of (element_faces el d) = [el]"
      using inp True by (simp add: element_faces.simps Let_def inputs_of_leaf t_def [symmetric])
    with 4 inp True show ?thesis
      by (simp add: input_decl_entry t_def [symmetric])
  next
    case False
    with 4 show ?thesis
      by (simp add: element_faces.simps Let_def inputs_of_leaf input_decl_entry t_def [symmetric]
          split: if_splits)
  qed
qed simp_all

text \<open>On an accepted card the declarations are the validated inputs, each identifier once.\<close>

abbreviation element_id :: "gmap \<Rightarrow> string" where
  "element_id el \<equiv> str_field el ''id''"

definition inputs_among_ids :: "face list \<Rightarrow> bool" where
  "inputs_among_ids fs = subseq (map element_id (inputs_of fs)) (ids_of fs)"

lemma ids_of_append [simp]: "ids_of [] = []" "ids_of (a @ b) = ids_of a @ ids_of b"
  by (simp_all add: ids_of_def)

lemma among_append: "inputs_among_ids a \<Longrightarrow> inputs_among_ids b \<Longrightarrow> inputs_among_ids (a @ b)"
  by (simp add: inputs_among_ids_def list_emb_append_mono)

lemma among_silent: "inputs_of a = [] \<Longrightarrow> inputs_among_ids a"
  by (simp add: inputs_among_ids_def)

lemma among_Cons: "inputs_among_ids a \<Longrightarrow> face_inputs f = [] \<Longrightarrow> inputs_among_ids (f # a)"
  using among_append [of "[f]" a] by (simp add: inputs_among_ids_def inputs_of_def ids_of_def)

abbreviation proper_inputs :: "face list \<Rightarrow> bool" where
  "proper_inputs fs \<equiv> \<forall>el \<in> set (inputs_of fs). \<not> blank (element_id el)"

lemma among_element:
  assumes "is_input_element (str_field el ''type'')" and "\<not> blank (element_id el)"
  shows "inputs_among_ids (element_faces el d)"
proof -
  have "element_faces el d = (Node d # url_faces el @ optional_faces el ''selectAction'') @
      [Ident (element_id el)] @ input_faces el"
    using assms input_types [OF assms(1)]
    by (simp add: element_faces.simps element_own_faces_def leaf_faces_def Let_def ident_faces_def)
  moreover have "inputs_of (element_faces el d) = [el]"
    using assms input_types [OF assms(1)] by (simp add: element_faces.simps Let_def inputs_of_leaf)
  moreover have "ids_of ([Ident (element_id el)] @ input_faces el) = element_id el # ids_of (input_faces el)"
    by (simp add: ids_of_def)
  ultimately show ?thesis
    by (simp only: inputs_among_ids_def ids_of_append) (simp add: list_emb_append2)
qed

lemma among_walk:
  "proper_inputs (elements_faces l d) \<Longrightarrow> inputs_among_ids (elements_faces l d)"
  "proper_inputs (element_faces el d) \<Longrightarrow> inputs_among_ids (element_faces el d)"
  "proper_inputs (columns_faces l d) \<Longrightarrow> inputs_among_ids (columns_faces l d)"
  "proper_inputs (rows_faces l d) \<Longrightarrow> inputs_among_ids (rows_faces l d)"
  "proper_inputs (cells_faces l d) \<Longrightarrow> inputs_among_ids (cells_faces l d)"
proof (induction l d and el d and l d and l d and l d
    rule: elements_faces_element_faces_columns_faces_rows_faces_cells_faces.induct)
  case (4 el d)
  define t where "t = str_field el ''type''"
  show ?case
  proof (cases "is_input_element t")
    case True
    have "inputs_of (element_faces el d) = [el]"
      using True input_types [OF True]
      by (simp add: element_faces.simps Let_def inputs_of_leaf t_def [symmetric])
    with 4 True show ?thesis by (simp add: among_element t_def [symmetric])
  next
    case False
    with 4 show ?thesis
      by (auto simp: element_faces.simps Let_def inputs_of_leaf t_def [symmetric] among_silent
          intro!: among_append split: if_splits)
  qed
qed (auto simp: among_silent intro!: among_append among_Cons)

text \<open>On an accepted card the declarations are the validated inputs, each identifier once.\<close>

lemma card_inputs:
  assumes "validate_card sv ac b = Inr ()"
  defines "decls \<equiv> collect_elements (items_at ac ''body'')"
  shows "decls = map input_entry (inputs_of (card_faces ac))"
    and "distinct (map fst decls)"
    and "\<not> b \<Longrightarrow> decls = []"
proof -
  let ?fs = "elements_faces (items_at ac ''body'') 1"
  have all: "inputs_of (card_faces ac) = inputs_of ?fs"
    by (simp add: card_faces_def)
  have mem: "el \<in> set (inputs_of fs) \<longleftrightarrow> Input el \<in> set fs" for el fs
  proof (induction fs)
    case (Cons f fs)
    then show ?case by (cases f) (auto simp: inputs_of_def)
  qed simp
  have proper: "proper_inputs ?fs"
    using card_faces_safe [OF assms(1)] mem all by fastforce
  then have named: "named_inputs ?fs" by auto
  show decls: "decls = map input_entry (inputs_of (card_faces ac))"
    unfolding decls_def all by (rule collect_faces(1) [OF named])
  have "distinct (ids_of ?fs)"
    using card_faces_facts(2) [OF assms(1)] by (simp add: card_faces_def)
  moreover have "subseq (map element_id (inputs_of ?fs)) (ids_of ?fs)"
    using among_walk(1) [OF proper] by (simp add: inputs_among_ids_def)
  ultimately have "distinct (map element_id (inputs_of ?fs))"
    by (metis in_set_subseqs subseqs_distinctD)
  then show "distinct (map fst decls)"
    unfolding decls all by (simp add: input_entry_def comp_def)
  show "decls = []" if "\<not> b"
  proof -
    have "Input el \<notin> set (card_faces ac)" for el
      using card_faces_facts(4) [OF assms(1) that] by (auto simp: list_ex_iff)
    then have "inputs_of (card_faces ac) = []" using mem by (metis list.set_intros(1) neq_Nil_conv)
    then show ?thesis by (simp add: decls)
  qed
qed

lemma spec_lookup_distinct:
  assumes "distinct (map fst specs)"
  shows "spec_lookup specs k = map_of specs k"
proof -
  have "map_of (rev specs) k = Some v \<longleftrightarrow> map_of specs k = Some v" for v
    using assms by (simp add: map_of_eq_Some_iff rev_map [symmetric])
  then show ?thesis
    unfolding spec_lookup_def by (metis option.exhaust)
qed

section \<open>Numbers the server writes itself\<close>

lemma span_digits: "list_all is_digit ds \<Longrightarrow> takeWhile is_digit ds = ds \<and> dropWhile is_digit ds = []"
  by (auto simp: list_all_iff takeWhile_eq_all_conv)

lemma digit_char_zero: "n < 10 \<Longrightarrow> digit_char n = CHR ''0'' \<longleftrightarrow> n = 0"
proof
  assume "n < 10" and "digit_char n = CHR ''0''"
  then have "byte (digit_char n) = 48" by (simp add: byte_def)
  with \<open>n < 10\<close> show "n = 0" by (simp add: byte_digit_char)
next
  assume "n = 0"
  moreover have "digit_char 0 = CHR ''0''" by (simp add: digit_char_def) code_simp
  ultimately show "digit_char n = CHR ''0''" by simp
qed

lemma show_nat_hd: "n > 0 \<Longrightarrow> \<exists>c cs. show_nat n = c # cs \<and> c \<noteq> CHR ''0'' \<and> is_digit c"
proof (induction n rule: show_nat.induct)
  case (1 n)
  show ?case
  proof (cases "n < 10")
    case True
    with 1 show ?thesis by (simp add: show_nat.simps [of n] digit_char_zero)
  next
    case False
    then have "n div 10 > 0" by simp
    from 1(1) [OF False this] False show ?thesis by (auto simp: show_nat.simps [of n])
  qed
qed

lemma num_int_show_nat: "num_int (show_nat n) = Some (show_nat n, [])"
proof (cases "n = 0")
  case True
  have "show_nat 0 = [digit_char 0]" by (simp add: show_nat.simps)
  moreover have "digit_char 0 = CHR ''0''" by (simp add: digit_char_zero)
  ultimately show ?thesis by (simp add: True)
next
  case False
  then obtain c cs where c: "show_nat n = c # cs" "c \<noteq> CHR ''0''" "is_digit c"
    using show_nat_hd by blast
  moreover have "list_all is_digit cs" using show_nat_digits [of n] c by simp
  ultimately show ?thesis using span_digits by simp
qed

lemma json_number_show_int:
  "json_number (show_int i) = Some \<lparr>jn_neg = (i < 0), jn_int = show_nat (nat \<bar>i\<bar>), jn_frac = [],
     jn_exp_neg = False, jn_exp = []\<rparr>"
proof -
  have "hd (show_nat n) \<noteq> CHR ''-''" for n
  proof -
    have "is_digit (hd (show_nat n))"
      using show_nat_digits [of n] by (cases "show_nat n") simp_all
    then show ?thesis by (auto simp: is_digit_def byte_def)
  qed
  moreover have "show_nat n \<noteq> []" for n using show_nat_digits [of n] by simp
  ultimately show ?thesis
    by (auto simp: json_number_def show_int_def num_int_show_nat Let_def)
qed

lemma json_num_value_int:
  "json_num_value \<lparr>jn_neg = (i < 0), jn_int = show_nat (nat \<bar>i\<bar>), jn_frac = [],
     jn_exp_neg = False, jn_exp = []\<rparr> = of_int i"
  by (auto simp: json_num_value_def capped_exponent_def Let_def)

lemma valid_number_show_int: "valid_number (show_int i) \<longleftrightarrow> \<bar>i\<bar> < 2 ^ 1024 - 2 ^ 970"
proof -
  have "valid_number (show_int i) \<longleftrightarrow> \<bar>of_int i :: rat\<bar> < double_overflow"
    by (simp add: valid_number_def json_number_show_int json_num_value_int)
  also have "double_overflow = of_int (2 ^ 1024 - 2 ^ 970)"
    unfolding double_overflow_def of_int_diff of_int_power of_int_numeral ..
  also have "\<bar>of_int i :: rat\<bar> < of_int (2 ^ 1024 - 2 ^ 970) \<longleftrightarrow> \<bar>i\<bar> < 2 ^ 1024 - 2 ^ 970"
    by (simp only: of_int_abs [symmetric] of_int_less_iff)
  finally show ?thesis .
qed

end
