(* ===== verification/Card_Plain.thy ===== *)
theory Card_Plain
  imports Card_Submit
begin

text \<open>
  The authoritative plain text of \<open>pkg/cardmsg/plain.go\<close>: its derivation from the card, the
  finalisation of an outgoing payload, and the one place where a card message is described to a
  reader.
\<close>

definition placeholder_card :: string where
  "placeholder_card =
     [CHR ''['', CHR 0xE5, CHR 0x8D, CHR 0xA1, CHR 0xE7, CHR 0x89, CHR 0x87, CHR '']'']"

definition placeholder_image :: string where
  "placeholder_image =
     [CHR ''['', CHR 0xE5, CHR 0x9B, CHR 0xBE, CHR 0xE7, CHR 0x89, CHR 0x87, CHR '']'']"

section \<open>Visible text of a Markdown source\<close>

definition newline :: char where "newline = CHR 0x0A"

fun md_text :: "md \<Rightarrow> string" where
  "md_text (MdText seg brk) = seg @ (if brk then [newline] else [])"
| "md_text (MdString v) = v"
| "md_text (MdAutoLink u) = u"
| "md_text (MdBlock cs) = concat (map md_text cs) @ [newline]"
| "md_text (MdLink d cs) = concat (map md_text cs)"
| "md_text (MdImage d cs) = concat (map md_text cs)"
| "md_text (MdOther cs) = concat (map md_text cs)"

definition strip_markdown :: "services \<Rightarrow> string \<Rightarrow> string" where
  "strip_markdown sv s =
     (if s = [] then [] else trim_byte newline (concat (map md_text (md_parse sv s))))"

section \<open>Segments of a body\<close>

definition seg_of :: "string \<Rightarrow> string list" where
  "seg_of t = (if t = [] then [] else [t])"

fun fact_segs :: "services \<Rightarrow> gval \<Rightarrow> string list" where
  "fact_segs sv (GObj fct) =
     (let title = strip_markdown sv (str_field fct ''title'');
          val = strip_markdown sv (str_field fct ''value'');
          line = trim_space (trim_suffix '': '' (title @ '': '' @ val))
      in if line \<noteq> [] \<and> line \<noteq> '':'' then [trim_prefix '': '' line] else [])"
| "fact_segs sv _ = []"

fun inline_text :: "gval \<Rightarrow> string" where
  "inline_text (GStr s) = s"
| "inline_text (GObj inl) = str_field inl ''text''"
| "inline_text _ = []"

definition leaf_segs :: "services \<Rightarrow> gmap \<Rightarrow> string list" where
  "leaf_segs sv el =
     (let t = str_field el ''type'' in
      if t = ''TextBlock'' then
        (let s = str_field el ''text'' in
         if s \<noteq> [] then seg_of (trim_space (strip_markdown sv s)) else [])
      else if t = ''Image'' then [placeholder_image]
      else if t = ''FactSet'' then concat (map (fact_segs sv) (items_at el ''facts''))
      else if t = ''RichTextBlock'' then
        seg_of (trim_space (concat (map inline_text (items_at el ''inlines''))))
      else if t = ''ImageSet'' then map (\<lambda>_. placeholder_image) (items_at el ''images'')
      else [])"

text \<open>\<open>collectPlain\<close>: the segments appended for a list of elements; columns and cells contribute
  their items.\<close>

function (sequential)
  collect_plain :: "services \<Rightarrow> gval list \<Rightarrow> string list"
  and plain_boxes :: "services \<Rightarrow> gval list \<Rightarrow> string list"
  and plain_rows :: "services \<Rightarrow> gval list \<Rightarrow> string list"
where
  "collect_plain sv [] = []"
| "collect_plain sv (GObj el # items) =
     (let t = str_field el ''type'' in
      if t = ''Container'' then collect_plain sv (items_at el ''items'')
      else if t = ''Table'' then plain_rows sv (items_at el ''rows'')
      else if t = ''ColumnSet'' then plain_boxes sv (items_at el ''columns'')
      else leaf_segs sv el) @
     collect_plain sv items"
| "collect_plain sv (_ # items) = collect_plain sv items"
| "plain_boxes sv [] = []"
| "plain_boxes sv (GObj col # cols) =
     collect_plain sv (items_at col ''items'') @ plain_boxes sv cols"
| "plain_boxes sv (_ # cols) = plain_boxes sv cols"
| "plain_rows sv [] = []"
| "plain_rows sv (GObj row # rs) = plain_boxes sv (items_at row ''cells'') @ plain_rows sv rs"
| "plain_rows sv (_ # rs) = plain_rows sv rs"
  by pat_completeness auto
termination
  by (relation "measure (\<lambda>x. case x of
        Inl (_, its) \<Rightarrow> size_list size its | Inr (Inl (_, cs)) \<Rightarrow> size_list size cs
      | Inr (Inr (_, rs)) \<Rightarrow> size_list size rs)")
    (auto simp: less_Suc_eq_le items_at_size items_at_size')

definition build_plain :: "services \<Rightarrow> gmap \<Rightarrow> string" where
  "build_plain sv ac =
     (let out = trim_space (str_join [newline] (collect_plain sv (items_at ac ''body''))) in
      if out = [] then placeholder_card else out)"

section \<open>Finalising a payload\<close>

definition recheck_payload_size :: "services \<Rightarrow> gmap \<Rightarrow> unit res" where
  "recheck_payload_size sv payload =
     (if \<not> is_card_payload payload then Inr ()
      else case marshal sv (GObj payload) of
             None \<Rightarrow> Inl CardMarshal
           | Some out \<Rightarrow> guard_res (length out \<le> max_payload_bytes) CardPayloadTooLarge)"

definition finalize :: "services \<Rightarrow> gmap \<Rightarrow> gmap res" where
  "finalize sv payload =
     (if \<not> is_card_payload payload then Inr payload
      else case map_of payload ''card'' of
             Some (GObj ac) \<Rightarrow>
               let payload = put payload ''plain'' (GStr (build_plain sv ac)) in
               bind_res (recheck_payload_size sv payload) (\<lambda>_. Inr payload)
           | _ \<Rightarrow> Inl CardMissing)"

section \<open>Showing a card message\<close>

text \<open>The decoding of the members \<open>plain\<close> and \<open>card\<close> of a stored payload into a struct.\<close>

fun decode_plain :: "gmap \<Rightarrow> string \<Rightarrow> string option" where
  "decode_plain [] acc = Some acc"
| "decode_plain ((k, v) # ms) acc =
     (if to_lower k = ''plain'' then
        (case v of GStr s \<Rightarrow> decode_plain ms s | GNil \<Rightarrow> decode_plain ms acc | _ \<Rightarrow> None)
      else decode_plain ms acc)"

definition push_display_text :: "services \<Rightarrow> string \<Rightarrow> string" where
  "push_display_text sv raw =
     (case members sv raw of
        None \<Rightarrow> placeholder_card
      | Some ms \<Rightarrow>
          (case (decode_plain ms [], decode_field ''card'' ms None) of
             (Some plain, Some ac) \<Rightarrow>
               (let s = trim_space plain in
                if s \<noteq> [] then s
                else if (case ac of None \<Rightarrow> [] | Some c \<Rightarrow> c) \<noteq> [] then build_plain sv (the ac)
                else placeholder_card)
           | _ \<Rightarrow> placeholder_card))"

definition display_text_for :: "services \<Rightarrow> bool \<Rightarrow> string \<Rightarrow> string" where
  "display_text_for sv sender_trusted raw =
     (if \<not> sender_trusted then placeholder_card else push_display_text sv raw)"

section \<open>Gates on edits and on deployment\<close>

definition is_card_raw_payload :: "services \<Rightarrow> string \<Rightarrow> bool" where
  "is_card_raw_payload sv raw =
     (case decode_map sv raw of None \<Rightarrow> False | Some payload \<Rightarrow> is_card_payload payload)"

definition is_card_content_edit :: "services \<Rightarrow> string \<Rightarrow> bool" where
  "is_card_content_edit sv content_edit =
     (case decode_map sv content_edit of None \<Rightarrow> False | Some payload \<Rightarrow> is_card_payload payload)"

definition rejects_card_edit :: "services \<Rightarrow> string \<Rightarrow> string \<Rightarrow> bool" where
  "rejects_card_edit sv original content_edit =
     (is_card_raw_payload sv original \<or> is_card_content_edit sv content_edit)"

definition parse_bool :: "string \<Rightarrow> bool option" where
  "parse_bool s =
     (if s \<in> {''1'', ''t'', ''T'', ''true'', ''TRUE'', ''True''} then Some True
      else if s \<in> {''0'', ''f'', ''F'', ''false'', ''FALSE'', ''False''} then Some False
      else None)"

definition enabled :: "(string \<Rightarrow> string) \<Rightarrow> bool" where
  "enabled getenv =
     (let v = getenv ''OCTO_CARD_MESSAGE_ENABLED'' in
      if v = [] then False else parse_bool v = Some True)"

definition bot_enabled :: "(string \<Rightarrow> string) \<Rightarrow> bool" where
  "bot_enabled getenv =
     (if \<not> enabled getenv then False
      else let v = getenv ''OCTO_BOT_CARD_ENABLED'' in
           if v = [] then True else case parse_bool v of None \<Rightarrow> True | Some on \<Rightarrow> on)"

section \<open>White space at the ends\<close>

lemma trim_left_fixed: "find (\<lambda>c. prefix c (trim_left s)) ws_codes = None"
proof (induction s rule: trim_left.induct)
  case (1 s)
  then show ?case by (cases "find (\<lambda>c. prefix c s) ws_codes") (simp_all add: trim_left.simps [of s])
qed

lemma trim_right_fixed: "find (\<lambda>c. suffix c (trim_right s)) ws_codes = None"
proof (induction s rule: trim_right.induct)
  case (1 s)
  then show ?case by (cases "find (\<lambda>c. suffix c s) ws_codes") (simp_all add: trim_right.simps [of s])
qed

lemma trim_space_idem [simp]: "trim_space (trim_space s) = trim_space s"
proof -
  have "find (\<lambda>c. prefix c (trim_space s)) ws_codes = None"
  proof -
    have "\<not> prefix c (trim_space s)" if "c \<in> set ws_codes" for c
    proof
      assume "prefix c (trim_space s)"
      then have "prefix c (trim_left s)"
        unfolding trim_space_def by (rule prefix_order.trans [OF _ trim_right_prefix])
      with trim_left_fixed [of s] that show False by (auto simp: find_None_iff)
    qed
    then show ?thesis by (auto simp: find_None_iff)
  qed
  then have "trim_left (trim_space s) = trim_space s" by (simp add: trim_left.simps)
  moreover have "trim_right (trim_space s) = trim_space s"
    using trim_right_fixed [of "trim_left s"]
    by (simp add: trim_space_def trim_right.simps [of "trim_right (trim_left s)"])
  ultimately show ?thesis by (simp add: trim_space_def [of "trim_space s"])
qed

lemma find_placeholder:
  "find (\<lambda>c. prefix c placeholder_card) ws_codes = None"
  "find (\<lambda>c. suffix c placeholder_card) ws_codes = None"
  by code_simp+

lemma trim_placeholder [simp]: "trim_space placeholder_card = placeholder_card"
  by (simp add: trim_space_def trim_left.simps [of placeholder_card]
      trim_right.simps [of placeholder_card] find_placeholder)

lemma placeholder_not_empty [simp]: "placeholder_card \<noteq> []"
  by (simp add: placeholder_card_def)

lemma build_plain_shape: "build_plain sv ac \<noteq> [] \<and> trim_space (build_plain sv ac) = build_plain sv ac"
  by (simp add: build_plain_def Let_def)

lemma push_display_text_shape:
  "push_display_text sv raw \<noteq> [] \<and> trim_space (push_display_text sv raw) = push_display_text sv raw"
  using build_plain_shape [of sv]
  by (auto simp: push_display_text_def Let_def split: option.splits)

lemma is_card_payload_put:
  "k \<noteq> ''type'' \<Longrightarrow> is_card_payload (put payload k v) = is_card_payload payload"
  by (simp add: is_card_payload_def has_content_type_def)

lemma finalize_result:
  assumes "finalize sv payload = Inr out" and "is_card_payload payload"
  obtains ac s where "map_of payload ''card'' = Some (GObj ac)"
    and "out = put payload ''plain'' (GStr (build_plain sv ac))"
    and "marshal sv (GObj out) = Some s" and "length s \<le> max_payload_bytes"
  using assms
  by (auto simp: finalize_def Let_def res_simps recheck_payload_size_def is_card_payload_put
      split: option.splits gval.splits)

lemma put_idem [simp]: "put (put m k v) k v = put m k v"
  by (induction m) (auto simp: put_def)

lemma finalize_idem:
  assumes "finalize sv payload = Inr out"
  shows "finalize sv out = Inr out"
proof (cases "is_card_payload payload")
  case True
  with assms obtain ac s where ac: "map_of payload ''card'' = Some (GObj ac)"
    and out: "out = put payload ''plain'' (GStr (build_plain sv ac))"
    and s: "marshal sv (GObj out) = Some s" "length s \<le> max_payload_bytes"
    by (rule finalize_result)
  have "is_card_payload out" using True by (simp add: out is_card_payload_put)
  moreover have "map_of out ''card'' = Some (GObj ac)" using ac by (simp add: out)
  moreover have "put out ''plain'' (GStr (build_plain sv ac)) = out" by (simp add: out)
  ultimately show ?thesis using s by (simp add: finalize_def recheck_payload_size_def)
next
  case False
  with assms show ?thesis by (simp add: finalize_def)
qed

end
