(* ===== verification/Card_Gate.thy ===== *)
theory Card_Gate
  imports Card_Inputs Card_Plain
begin

text \<open>
  The gates of \<open>pkg/cardmsg\<close> that a card message passes: the catalog markers of
  \<open>provenance.go\<close>, the send gate \<open>Validate\<close> and the edit gate \<open>NormalizeContentEdit\<close>, with the
  properties of the package as a whole.
\<close>

section \<open>Catalog markers\<close>

definition catalog_provenance_key :: string where
  "catalog_provenance_key = ''catalog_provenance''"

definition catalog_template_ref_key :: string where
  "catalog_template_ref_key = ''template_ref''"

record catalog_provenance =
  cp_version :: int
  cp_principal_type :: string
  cp_principal_id :: string
  cp_space_id :: string

definition provenance_validate :: "catalog_provenance \<Rightarrow> unit res" where
  "provenance_validate p =
     (if cp_version p \<noteq> 1 then Inl CatalogMarkerInvalid
      else if cp_principal_type p \<noteq> ''bot'' \<and> cp_principal_type p \<noteq> ''internal_producer'' then
        Inl CatalogMarkerInvalid
      else if cp_principal_id p = [] \<or> \<not> trimmed (cp_principal_id p) then Inl CatalogMarkerInvalid
      else if \<not> trimmed (cp_space_id p) then Inl CatalogMarkerInvalid
      else Inr ())"

definition provenance_marshal_map :: "catalog_provenance \<Rightarrow> gmap" where
  "provenance_marshal_map p =
     [(''version'', GInt (cp_version p)), (''principal_type'', GStr (cp_principal_type p)),
      (''principal_id'', GStr (cp_principal_id p)), (''space_id'', GStr (cp_space_id p))]"

definition provenance_keys :: "string list" where
  "provenance_keys = [''version'', ''principal_type'', ''principal_id'', ''space_id'']"

text \<open>\<open>provenanceVersion\<close>; a float must be integral (within the range of \<open>int64\<close>, outside which
  the conversion that the code tests with is not the identity).\<close>

fun provenance_version :: "gval \<Rightarrow> int option" where
  "provenance_version (GInt i) = Some i"
| "provenance_version (GInt64 i) = Some i"
| "provenance_version (GNumber s) = parse_int64 s"
| "provenance_version (GFloat r) =
     (if r = of_int (trunc_rat r) \<and> - (2 ^ 63) \<le> trunc_rat r \<and> trunc_rat r < 2 ^ 63
      then Some (trunc_rat r) else None)"
| "provenance_version _ = None"

definition parse_catalog_provenance :: "gval \<Rightarrow> catalog_provenance res" where
  "parse_catalog_provenance v =
     (case v of
        GObj object \<Rightarrow>
          if \<not> list_all (\<lambda>(k, _). k \<in> set provenance_keys) object then Inl CatalogMarkerInvalid
          else if \<not> list_all (has_key object) provenance_keys then Inl CatalogMarkerInvalid
          else (case (provenance_version (the (map_of object ''version'')),
                      map_of object ''principal_type'', map_of object ''principal_id'',
                      map_of object ''space_id'') of
                  (Some version, Some (GStr principal_type), Some (GStr principal_id),
                   Some (GStr space_id)) \<Rightarrow>
                    (let parsed = \<lparr>cp_version = version, cp_principal_type = principal_type,
                                   cp_principal_id = principal_id, cp_space_id = space_id\<rparr>
                     in bind_res (provenance_validate parsed) (\<lambda>_. Inr parsed))
                | _ \<Rightarrow> Inl CatalogMarkerInvalid)
      | _ \<Rightarrow> Inl CatalogMarkerInvalid)"

record catalog_template_ref =
  ctr_id :: string
  ctr_version :: string

definition parse_catalog_template_ref :: "gval \<Rightarrow> catalog_template_ref res" where
  "parse_catalog_template_ref v =
     (case v of
        GObj object \<Rightarrow>
          if length object \<noteq> 2 then Inl CatalogMarkerInvalid
          else (case (map_of object ''id'', map_of object ''version'') of
                  (Some (GStr ident), Some (GStr version)) \<Rightarrow>
                    if ident = [] \<or> version = [] \<or> \<not> trimmed ident \<or> \<not> trimmed version
                    then Inl CatalogMarkerInvalid
                    else Inr \<lparr>ctr_id = ident, ctr_version = version\<rparr>
                | _ \<Rightarrow> Inl CatalogMarkerInvalid)
      | _ \<Rightarrow> Inl CatalogMarkerInvalid)"

text \<open>\<open>FrameCatalogMarkers\<close>: the marks with their presence flags.\<close>

record frame_catalog_markers =
  fm_ref :: "catalog_template_ref option"
  fm_provenance :: "catalog_provenance option"

definition no_markers :: frame_catalog_markers where
  "no_markers = \<lparr>fm_ref = None, fm_provenance = None\<rparr>"

definition catalog_markers_from_payload ::
  "services \<Rightarrow> gmap \<Rightarrow> string option \<Rightarrow> frame_catalog_markers res" where
  "catalog_markers_from_payload sv payload raw =
     (case (map_of payload catalog_template_ref_key, map_of payload catalog_provenance_key) of
        (None, None) \<Rightarrow> Inr no_markers
      | (None, Some _) \<Rightarrow> Inl CatalogMarkerInvalid
      | (Some ref_value, prov) \<Rightarrow>
          bind_res (parse_catalog_template_ref ref_value) (\<lambda>ref.
          bind_res (case raw of
                      Some r \<Rightarrow> Inr r
                    | None \<Rightarrow> (case marshal sv (GObj payload) of
                                None \<Rightarrow> Inl CatalogMarkerInvalid | Some r \<Rightarrow> Inr r)) (\<lambda>r.
          case card_template_context sv r of
            None \<Rightarrow> Inl CatalogMarkerInvalid
          | Some template \<Rightarrow>
              if tc_id template \<noteq> ctr_id ref \<or> tc_version template \<noteq> ctr_version ref
              then Inl CatalogMarkerInvalid
              else (case prov of
                      None \<Rightarrow> Inr \<lparr>fm_ref = Some ref, fm_provenance = None\<rparr>
                    | Some v \<Rightarrow> bind_res (parse_catalog_provenance v) (\<lambda>p.
                        Inr \<lparr>fm_ref = Some ref, fm_provenance = Some p\<rparr>)))))"

definition catalog_frame_markers :: "services \<Rightarrow> string \<Rightarrow> frame_catalog_markers res" where
  "catalog_frame_markers sv raw =
     (case decode_envelope sv raw of
        None \<Rightarrow> Inr no_markers
      | Some payload \<Rightarrow>
          if \<not> is_card_payload payload then Inr no_markers
          else catalog_markers_from_payload sv payload (Some raw))"

definition validate_catalog_markers :: "services \<Rightarrow> gmap \<Rightarrow> unit res" where
  "validate_catalog_markers sv payload =
     (if \<not> has_key payload catalog_template_ref_key \<and> \<not> has_key payload catalog_provenance_key
      then Inr ()
      else bind_res (catalog_markers_from_payload sv payload None) (\<lambda>_. Inr ()))"

definition catalog_markers_preserved ::
  "frame_catalog_markers \<Rightarrow> frame_catalog_markers \<Rightarrow> unit res" where
  "catalog_markers_preserved stored next_frame =
     (if fm_ref stored \<noteq> None \<and> fm_ref next_frame = None then Inl CatalogMarkerInvalid
      else if fm_provenance stored \<noteq> None \<and> fm_provenance next_frame = None then
        Inl CatalogMarkerInvalid
      else if fm_ref stored \<noteq> None \<and> fm_ref next_frame \<noteq> None \<and> fm_ref stored \<noteq> fm_ref next_frame
        then Inl CatalogMarkerInvalid
      else if fm_provenance stored \<noteq> None \<and> fm_provenance next_frame \<noteq> None \<and>
              fm_provenance stored \<noteq> fm_provenance next_frame then Inl CatalogMarkerInvalid
      else Inr ())"

section \<open>The send gate\<close>

definition render_profile_ok :: "gmap \<Rightarrow> bool" where
  "render_profile_ok payload =
     (case map_of payload ''render_profile'' of
        None \<Rightarrow> True
      | Some (GStr p) \<Rightarrow> is_accepted_render_profile p \<and> p \<noteq> []
      | Some _ \<Rightarrow> False)"

definition validate :: "services \<Rightarrow> gmap \<Rightarrow> unit res" where
  "validate sv payload =
     (if \<not> is_card_payload payload then Inr ()
      else case marshal sv (GObj payload) of
             None \<Rightarrow> Inl CardBadShape
           | Some raw \<Rightarrow>
               if max_payload_bytes < length raw then Inl CardPayloadTooLarge
               else case interactive_by_profile (str_field payload ''profile'') of
                      None \<Rightarrow> Inl CardProfileUnsupported
                    | Some v2 \<Rightarrow>
                        if str_field payload ''card_version'' \<noteq> card_version then
                          Inl CardProfileUnsupported
                        else if \<not> render_profile_ok payload then Inl CardProfileUnsupported
                        else bind_res (validate_catalog_markers sv payload) (\<lambda>_.
                          case map_of payload ''card'' of
                            Some (GObj ac) \<Rightarrow>
                              if ac = [] then Inl CardMissing else validate_card sv ac v2
                          | _ \<Rightarrow> Inl CardMissing))"

section \<open>The edit gate\<close>

definition normalize_content_edit :: "services \<Rightarrow> string \<Rightarrow> string res" where
  "normalize_content_edit sv content_edit =
     (case decode_envelope sv content_edit of
        None \<Rightarrow> Inr content_edit
      | Some payload \<Rightarrow>
          if \<not> is_card_payload payload then Inr content_edit
          else bind_res (validate sv payload) (\<lambda>_.
               bind_res (finalize sv payload) (\<lambda>payload.
               case marshal sv (GObj payload) of
                 None \<Rightarrow> Inl CardMarshal
               | Some out \<Rightarrow> Inr out)))"

section \<open>What an accepted payload is\<close>

lemma validate_Inr:
  assumes "validate sv payload = Inr ()" and "is_card_payload payload"
  obtains raw ac v2 where "marshal sv (GObj payload) = Some raw"
    and "length raw \<le> max_payload_bytes"
    and "interactive_by_profile (str_field payload ''profile'') = Some v2"
    and "map_of payload ''card'' = Some (GObj ac)" and "ac \<noteq> []"
    and "validate_card sv ac v2 = Inr ()"
    and "validate_catalog_markers sv payload = Inr ()"
    and "str_field payload ''card_version'' = card_version" and "render_profile_ok payload"
proof -
  from assms obtain raw where r: "marshal sv (GObj payload) = Some raw"
    and l: "length raw \<le> max_payload_bytes"
    by (fastforce simp: validate_def split: option.splits if_splits)
  with assms obtain v2 where v: "interactive_by_profile (str_field payload ''profile'') = Some v2"
    and c: "str_field payload ''card_version'' = card_version" and p: "render_profile_ok payload"
    by (auto simp: validate_def split: option.splits if_splits)
  with assms r l have m: "validate_catalog_markers sv payload = Inr ()"
    and body: "(case map_of payload ''card'' of Some (GObj ac) \<Rightarrow>
      if ac = [] then Inl CardMissing else validate_card sv ac v2 | _ \<Rightarrow> Inl CardMissing) = Inr ()"
    by (auto simp: validate_def res_simps)
  then obtain ac where "map_of payload ''card'' = Some (GObj ac)" "ac \<noteq> []"
    "validate_card sv ac v2 = Inr ()"
    by (auto split: option.splits gval.splits if_splits)
  from that [OF r l v this m c p] show thesis .
qed

lemma validate_card_field:
  assumes "validate sv payload = Inr ()" and "is_card_payload payload"
  obtains v2 where "validate_card sv (obj_field payload ''card'') v2 = Inr ()"
    and "interactive_by_profile (str_field payload ''profile'') = Some v2"
  using assms by (rule validate_Inr) (auto simp: obj_field_def)

section \<open>Provenance\<close>

lemma provenance_roundtrip:
  "parse_catalog_provenance (GObj (provenance_marshal_map p)) = bind_res (provenance_validate p) (\<lambda>_. Inr p)"
  by (cases p) (simp add: parse_catalog_provenance_def provenance_marshal_map_def provenance_keys_def
      has_key_def Let_def)

end
