(* ===== verification/Card_Props.thy ===== *)
theory Card_Props
  imports Card_Gate
begin

text \<open>
  The properties of the card package, each with a concrete card or envelope at which its
  hypotheses hold.
\<close>

section \<open>Sample cards\<close>

text \<open>Services that know one stored envelope, whatever its text, and no Markdown links.\<close>

definition holding :: "gmap \<Rightarrow> services" where
  "holding payload =
     \<lparr>marshal = (\<lambda>_. Some ''{}''), unmarshal = (\<lambda>_. Some (GObj payload)),
      members = (\<lambda>_. Some payload), decode_num = (\<lambda>_. Some (GObj payload, [])),
      md_parse = (\<lambda>_. [])\<rparr>"

definition sample_form :: gmap where
  "sample_form =
     [(''type'', GStr ''AdaptiveCard''), (''version'', GStr ''1.5''),
      (''body'', GArr [
         GObj [(''type'', GStr ''TextBlock''), (''id'', GStr ''t''), (''text'', GStr ''hi'')],
         GObj [(''type'', GStr ''Image''), (''url'', GStr ''https://a.b/c'')],
         GObj [(''type'', GStr ''Container''), (''items'', GArr [
           GObj [(''type'', GStr ''Input.Text''), (''id'', GStr ''q'')]])]]),
      (''actions'', GArr [
         GObj [(''type'', GStr ''Action.Submit''), (''id'', GStr ''ok'')],
         GObj [(''type'', GStr ''Action.ToggleVisibility''),
               (''targetElements'', GArr [GStr ''t''])]])]"

definition sample_notice :: gmap where
  "sample_notice =
     [(''type'', GStr ''AdaptiveCard''),
      (''body'', GArr [GObj [(''type'', GStr ''TextBlock''), (''text'', GStr ''hi'')]])]"

definition envelope :: "string \<Rightarrow> gmap \<Rightarrow> gmap" where
  "envelope p ac =
     [(''type'', GInt 17), (''profile'', GStr p), (''card_version'', GStr ''1.5''), (''card'', GObj ac)]"

lemma envelope_fields [simp]:
  "is_card_payload (envelope p ac)" "str_field (envelope p ac) ''profile'' = p"
  "str_field (envelope p ac) ''card_version'' = card_version"
  "map_of (envelope p ac) ''card'' = Some (GObj ac)" "obj_field (envelope p ac) ''card'' = ac"
  "render_profile_ok (envelope p ac)" "validate_catalog_markers sv (envelope p ac) = Inr ()"
  by (simp_all add: envelope_def is_card_payload_def has_content_type_def str_field_def
      card_version_def obj_field_def render_profile_ok_def validate_catalog_markers_def has_key_def
      catalog_template_ref_key_def catalog_provenance_key_def)

lemma holding_fields [simp]:
  "marshal (holding p) v = Some ''{}''" "members (holding p) raw = Some p"
  "decode_num (holding p) raw = Some (GObj p, [])" "unmarshal (holding p) raw = Some (GObj p)"
  by (simp_all add: holding_def)

lemma validate_envelope:
  assumes "interactive_by_profile p = Some b" and "ac \<noteq> []"
  shows "validate (holding q) (envelope p ac) = validate_card (holding q) ac b"
  using assms by (simp add: validate_def max_payload_bytes_def)

lemma profiles: "interactive_by_profile ''octo/v1'' = Some False" "interactive_by_profile ''octo/v2'' = Some True"
  by code_simp+

lemma decode_card_envelope: "decode_card (holding (envelope p ac)) raw = Some (put_all [] ac)"
  by (simp add: decode_card_def envelope_def to_lower_def lower_char_def byte_def)

definition form_envelope :: gmap where "form_envelope = envelope ''octo/v2'' sample_form"
definition notice_envelope :: gmap where "notice_envelope = envelope ''octo/v1'' sample_notice"

lemma sample_cards:
  "validate_card (holding form_envelope) sample_form True = Inr ()"
  "validate_card (holding notice_envelope) sample_notice False = Inr ()"
  "put_all [] sample_form = sample_form" "put_all [] sample_notice = sample_notice"
  "sample_form \<noteq> []" "sample_notice \<noteq> []"
  by code_simp+

lemma sample_valid:
  "validate (holding form_envelope) form_envelope = Inr ()"
  "validate (holding notice_envelope) notice_envelope = Inr ()"
  using sample_cards profiles by (simp_all add: form_envelope_def notice_envelope_def validate_envelope)

lemma sample_decoded:
  "decode_card (holding form_envelope) raw = Some sample_form"
  "decode_card (holding notice_envelope) raw = Some sample_notice"
  using sample_cards by (simp_all add: form_envelope_def notice_envelope_def decode_card_envelope)

lemma sample_payloads:
  "is_card_payload form_envelope" "is_card_payload notice_envelope"
  "obj_field form_envelope ''card'' = sample_form" "obj_field notice_envelope ''card'' = sample_notice"
  "str_field notice_envelope ''profile'' = profile_v1"
  by (simp_all add: form_envelope_def notice_envelope_def profile_v1_def)

lemmas sample_facts = sample_valid sample_decoded sample_payloads

section \<open>The surface of an accepted card\<close>

text \<open>C1: whatever a client renders of an accepted card is safe: URLs (of opened links, backgrounds
  and icons) are absolute http(s) URLs, images may also be one of the vetted inline icons, every
  link in Markdown text is http(s), nodes lie within the depth limit, identifiers are not blank,
  copied text within its limit, and nothing is of an unknown kind.\<close>

theorem accepted_surface_safe:
  assumes "validate sv payload = Inr ()" and "is_card_payload payload"
    and "f \<in> set (card_faces (obj_field payload ''card''))"
  shows "face_safe sv f"
  using assms(1,2) by (rule validate_card_field) (rule card_faces_safe [OF _ assms(3)])

theorem accepted_surface_safe_witness:
  "face_safe (holding form_envelope) (ImageUrl ''https://a.b/c'')"
proof (rule accepted_surface_safe [where payload = form_envelope])
  show "ImageUrl ''https://a.b/c'' \<in> set (card_faces (obj_field form_envelope ''card''))"
    unfolding sample_payloads by code_simp
qed (simp_all only: sample_facts)

text \<open>An accepted card has at most 200 nodes, counting elements, columns, rows, cells, facts,
  text runs and actions.\<close>

theorem accepted_budget:
  assumes "validate sv payload = Inr ()" and "is_card_payload payload"
  shows "nodes_of (card_faces (obj_field payload ''card'')) \<le> 200"
  using assms by (rule validate_card_field) (use card_faces_facts(1) in \<open>auto simp: max_nodes_def\<close>)

theorem accepted_budget_witness:
  "nodes_of (card_faces (obj_field form_envelope ''card'')) \<le> 200"
  by (rule accepted_budget [of "holding form_envelope"]) (simp_all only: sample_facts)

text \<open>C3: in an accepted card no identifier is used twice, neither by two elements, nor by two submit
  actions, nor by an element and a submit action.\<close>

theorem accepted_ids_unique:
  assumes "validate sv payload = Inr ()" and "is_card_payload payload"
  shows "distinct (ids_of (card_faces (obj_field payload ''card'')))"
  using assms by (rule validate_card_field) (rule card_faces_facts(2))

theorem accepted_ids_unique_witness:
  "distinct (ids_of (card_faces (obj_field form_envelope ''card'')))"
  by (rule accepted_ids_unique [of "holding form_envelope"]) (simp_all only: sample_facts)

text \<open>Every target of a visibility toggle in an accepted card is the identifier of an element of
  that card, declared before or after the toggle.\<close>

theorem accepted_targets_declared:
  assumes "validate sv payload = Inr ()" and "is_card_payload payload"
    and "Target t \<in> set (card_faces (obj_field payload ''card''))"
  shows "Ident t \<in> set (card_faces (obj_field payload ''card''))"
proof -
  let ?fs = "card_faces (obj_field payload ''card'')"
  obtain v2 where "validate_card sv (obj_field payload ''card'') v2 = Inr ()"
    using assms(1,2) by (rule validate_card_field)
  then have "set (concat (map face_targets ?fs)) \<subseteq> set (concat (map face_elements ?fs))"
    by (rule card_faces_facts(3))
  moreover have "t \<in> set (concat (map face_targets ?fs))"
    using assms(3) by force
  ultimately obtain f where f: "f \<in> set ?fs" "t \<in> set (face_elements f)" by auto
  from f(2) have "f = Ident t" by (induction f) simp_all
  with f(1) show ?thesis by simp
qed

theorem accepted_targets_declared_witness:
  "Ident ''t'' \<in> set (card_faces (obj_field form_envelope ''card''))"
proof (rule accepted_targets_declared [of "holding form_envelope"])
  show "Target ''t'' \<in> set (card_faces (obj_field form_envelope ''card''))"
    unfolding sample_payloads by code_simp
qed (simp_all only: sample_facts)

section \<open>Clicks on an accepted card\<close>

text \<open>C2: the dispatch surface is the validated surface: for an accepted card, a click with a
  nonempty identifier is dispatched exactly when the card has a submit action with that identifier
  at a position the validation checked, and the data handed on is that action's static data.\<close>

theorem dispatch_exact:
  assumes "validate sv payload = Inr ()" and "is_card_payload payload"
    and "decode_card sv raw = Some (obj_field payload ''card'')" and "i \<noteq> []"
  shows "submit_action sv raw i = Some d \<longleftrightarrow>
    (\<exists>act. Submit act \<in> set (card_faces (obj_field payload ''card'')) \<and>
      str_field act ''id'' = i \<and> d = submit_data act)"
proof -
  let ?fs = "card_faces (obj_field payload ''card'')"
  obtain v2 where "validate_card sv (obj_field payload ''card'') v2 = Inr ()"
    using assms(1,2) by (rule validate_card_field)
  then have "submit_in_card (obj_field payload ''card'') i = Some d \<longleftrightarrow> (i, d) \<in> submits ?fs"
    by (rule submit_in_card_exact)
  moreover have "(i, d) \<in> submits ?fs \<longleftrightarrow>
      (\<exists>act. Submit act \<in> set ?fs \<and> str_field act ''id'' = i \<and> d = submit_data act)"
    by (rule submits_iff)
  ultimately show ?thesis using assms(3,4) by (simp add: submit_action_def)
qed

theorem dispatch_exact_witness:
  "submit_action (holding form_envelope) ''raw'' ''ok'' = Some None \<longleftrightarrow>
    (\<exists>act. Submit act \<in> set (card_faces (obj_field form_envelope ''card'')) \<and>
      str_field act ''id'' = ''ok'' \<and> None = submit_data act)"
  by (rule dispatch_exact) (simp_all add: sample_facts)

text \<open>C5: a card accepted under the display profile is inert: no click on it is dispatched and no
  input value is accepted for it.\<close>

theorem display_profile_inert:
  assumes "validate sv payload = Inr ()" and "is_card_payload payload"
    and "str_field payload ''profile'' = profile_v1"
    and "decode_card sv raw = Some (obj_field payload ''card'')"
  shows "submit_action sv raw i = None \<and>
    (inputs \<noteq> [] \<longrightarrow> validate_inputs sv raw inputs = Inl CardInputInvalid)"
proof -
  obtain v2 where c: "validate_card sv (obj_field payload ''card'') v2 = Inr ()"
    and "interactive_by_profile (str_field payload ''profile'') = Some v2"
    using assms(1,2) by (rule validate_card_field)
  then have v2: "\<not> v2"
    using assms(3) by (simp add: interactive_by_profile_def accepted_profiles_def profile_v1_def
        profile_v2_def)
  have "(i, d) \<notin> submits (card_faces (obj_field payload ''card''))" for d
    using card_faces_facts(4) [OF c v2] by (auto simp: submits_iff list_ex_iff)
  then have "submit_in_card (obj_field payload ''card'') i = None"
    using submit_in_card_exact [OF c] by (metis option.exhaust)
  then have "submit_action sv raw i = None"
    using assms(4) by (simp add: submit_action_def)
  moreover have "collect_input_specs sv raw = []"
    using card_inputs(3) [OF c v2] assms(4) by (simp add: collect_input_specs_def)
  then have "inputs \<noteq> [] \<longrightarrow> validate_inputs sv raw inputs = Inl CardInputInvalid"
    by (cases inputs) (auto simp: validate_inputs_def check_all_def check_input_def
        spec_lookup_def split: option.splits)
  ultimately show ?thesis by blast
qed

theorem display_profile_inert_witness:
  "submit_action (holding notice_envelope) ''raw'' ''ok'' = None \<and>
   validate_inputs (holding notice_envelope) ''raw'' [(''q'', GStr ''x'')] = Inl CardInputInvalid"
  using display_profile_inert [of "holding notice_envelope" notice_envelope "''raw''" "''ok''"
      "[(''q'', GStr ''x'')]"]
  by (simp add: sample_facts)

text \<open>Profiles are nested: a card the display profile accepts is accepted by the interactive one.\<close>

theorem profile_monotone:
  assumes "validate_card sv ac False = Inr ()"
  shows "validate_card sv ac True = Inr ()"
  using assms by (rule validate_card_interactive)

theorem profile_monotone_witness:
  "validate_card (holding notice_envelope) sample_notice True = Inr ()"
  by (rule profile_monotone) (rule sample_cards(2))

text \<open>C4: on an accepted card, accepted input values are sound: each key is the identifier of exactly
  one input element at a validated position and its value conforms to that element.\<close>

theorem inputs_sound:
  assumes "validate sv payload = Inr ()" and "is_card_payload payload"
    and "decode_card sv raw = Some (obj_field payload ''card'')"
    and "validate_inputs sv raw inputs = Inr ()" and "(k, v) \<in> set inputs"
  shows "\<exists>!el. el \<in> set (inputs_of (card_faces (obj_field payload ''card''))) \<and>
    str_field el ''id'' = k \<and> (\<exists>s. v = GStr s \<and> valid_input (input_spec_of el) s)"
proof -
  let ?els = "inputs_of (card_faces (obj_field payload ''card''))"
  obtain v2 where c: "validate_card sv (obj_field payload ''card'') v2 = Inr ()"
    using assms(1,2) by (rule validate_card_field)
  define decls where "decls = collect_elements (items_at (obj_field payload ''card'') ''body'')"
  have decls: "decls = map input_entry ?els" and dist: "distinct (map fst decls)"
    using card_inputs [OF c] by (simp_all add: decls_def)
  have "check_input decls (k, v) = Inr ()"
    using assms(3-5) by (auto simp: validate_inputs_def collect_input_specs_def decls_def
        res_simps split: option.splits if_splits)
  then obtain spec s where sp: "map_of decls k = Some spec" and v: "v = GStr s"
    and ok: "valid_input spec s"
    by (auto simp: check_input_def spec_lookup_distinct [OF dist] res_simps
        split: option.splits gval.splits)
  from map_of_SomeD [OF sp] obtain el where el: "el \<in> set ?els" "str_field el ''id'' = k"
    "input_spec_of el = spec" by (auto simp: decls input_entry_def)
  have only: "el' = el" if "el' \<in> set ?els" "str_field el' ''id'' = k" for el'
  proof -
    have "inj_on (\<lambda>el. str_field el ''id'') (set ?els)"
      using dist by (simp add: decls input_entry_def comp_def distinct_map)
    with that el(1,2) show ?thesis by (metis inj_onD)
  qed
  show ?thesis
  proof (rule ex1I [of _ el])
    show "el \<in> set ?els \<and> str_field el ''id'' = k \<and> (\<exists>s. v = GStr s \<and> valid_input (input_spec_of el) s)"
      using el v ok by blast
  qed (use only in blast)
qed

lemma sample_inputs: "validate_inputs (holding form_envelope) ''raw'' [(''q'', GStr ''x'')] = Inr ()"
proof -
  have "check_all (check_input (collect_elements (items_at sample_form ''body'')))
      [(''q'', GStr ''x'')] = Inr ()"
  proof -
    have "spec_lookup (collect_elements (items_at sample_form ''body'')) ''q'' =
      Some (input_spec_of [(''type'', GStr ''Input.Text''), (''id'', GStr ''q'')])"
      by code_simp
    then show ?thesis
      by (simp add: check_all_def check_input_def input_spec_of_def str_field_def valid_input_def
          max_input_text_bytes_def)
  qed
  then show ?thesis
    by (simp add: validate_inputs_def collect_input_specs_def sample_facts max_inputs_bytes_def)
qed

theorem inputs_sound_witness:
  "\<exists>!el. el \<in> set (inputs_of (card_faces (obj_field form_envelope ''card''))) \<and>
    str_field el ''id'' = ''q'' \<and> (\<exists>s. GStr ''x'' = GStr s \<and> valid_input (input_spec_of el) s)"
  by (rule inputs_sound [where payload = form_envelope, OF _ _ _ sample_inputs]) (simp_all add: sample_facts)

text \<open>The numbers a server renders as decimal integers are accepted for a number input exactly
  when they are finite as doubles.\<close>

theorem number_input_integers: "valid_number (show_int i) \<longleftrightarrow> \<bar>i\<bar> < 2 ^ 1024 - 2 ^ 970"
  by (rule valid_number_show_int)

section \<open>Capabilities\<close>

text \<open>The capability lists are complete: an element that the walker accepts has an advertised
  display type or, under the interactive profile only, an advertised input type, and an accepted
  action has an advertised type or is a submit under the interactive profile.\<close>

theorem capabilities_complete:
  "(\<forall>w'. element sv el d w = Inr w' \<longrightarrow>
      str_field el ''type'' \<in> set display_elements \<or>
      interactive w \<and> str_field el ''type'' \<in> set input_elements) \<and>
   (\<forall>w'. action (GObj act) w = Inr w' \<longrightarrow>
      str_field act ''type'' \<in> set display_actions \<or>
      interactive w \<and> str_field act ''type'' = ''Action.Submit'')"
proof (intro conjI allI impI)
  fix w' assume a: "element sv el d w = Inr w'"
  show "str_field el ''type'' \<in> set display_elements \<or>
      interactive w \<and> str_field el ''type'' \<in> set input_elements"
  proof (cases "str_field el ''type'' \<in> set display_elements")
    case False
    with a obtain w1 where h: "element_head el d w = Inr w1"
      and i: "input_element sv (str_field el ''type'') el w1 = Inr w'"
      by (auto simp: element.simps display_elements_def Let_def res_simps)
    have "interactive w1 = interactive w"
      using growth.head_steps(1) [of el d] h by (simp add: grows_def)
    with i show ?thesis
      by (auto simp: input_element_def is_input_element_def split: if_splits)
  qed simp
next
  fix w' assume a: "action (GObj act) w = Inr w'"
  show "str_field act ''type'' \<in> set display_actions \<or>
      interactive w \<and> str_field act ''type'' = ''Action.Submit''"
  proof (cases "str_field act ''type'' \<in> set display_actions")
    case False
    with a obtain w1 where b: "bump 1 w = Inr w1" and t: "str_field act ''type'' = ''Action.Submit''"
      and s: "submit_action_check act w1 = Inr w'"
      unfolding action_def gval.case Let_def bind_res_Inr display_actions_def
      by (auto split: if_splits)
    have "interactive w1" using s by (simp add: submit_action_check_def split: if_splits)
    moreover have "interactive w1 = interactive w"
      using growth.bump [of 1] b by (simp add: grows_def)
    ultimately show ?thesis using t by simp
  qed simp
qed

theorem capabilities_complete_witness:
  "''TextBlock'' \<in> set display_elements"
proof -
  let ?el = "[(''type'', GStr ''TextBlock'')]"
  have "\<exists>w'. element (holding []) ?el 1 (new_walker False) = Inr w'"
  proof -
    have "(case element (holding []) ?el 1 (new_walker False) of Inl _ \<Rightarrow> False | Inr _ \<Rightarrow> True)"
      by code_simp
    then show ?thesis by (auto split: sum.splits)
  qed
  with conjunct1 [OF capabilities_complete [of "holding []" ?el 1 "new_walker False" "[]"]]
  show ?thesis by (auto simp: str_field_def new_walker_def)
qed

section \<open>Plain text, edits and display\<close>

text \<open>C6: a finalised card payload carries a plain text that is not blank and was derived from its
  card, keeps every other field, fits the size limit as it is sent, and finalising it again changes
  nothing.\<close>

theorem finalize_sound:
  assumes "finalize sv payload = Inr out" and "is_card_payload payload"
  shows "\<not> blank (str_field out ''plain'') \<and>
    str_field out ''plain'' = build_plain sv (obj_field payload ''card'') \<and>
    (\<forall>k. k \<noteq> ''plain'' \<longrightarrow> map_of out k = map_of payload k) \<and>
    (\<exists>s. marshal sv (GObj out) = Some s \<and> length s \<le> max_payload_bytes) \<and>
    finalize sv out = Inr out"
proof -
  from assms obtain ac s where "map_of payload ''card'' = Some (GObj ac)"
    and "out = put payload ''plain'' (GStr (build_plain sv ac))"
    and "marshal sv (GObj out) = Some s" "length s \<le> max_payload_bytes"
    by (rule finalize_result)
  with build_plain_shape [of sv ac] finalize_idem [OF assms(1)] show ?thesis
    by (simp add: str_field_def obj_field_def blank_def)
qed

lemma sample_finalize:
  "finalize (holding notice_envelope) notice_envelope = Inr
    (put notice_envelope ''plain'' (GStr (build_plain (holding notice_envelope) sample_notice)))"
proof -
  have "map_of notice_envelope ''card'' = Some (GObj sample_notice)" by (simp add: notice_envelope_def)
  then show ?thesis
    by (simp add: finalize_def recheck_payload_size_def max_payload_bytes_def is_card_payload_put
        sample_facts Let_def)
qed

theorem finalize_sound_witness:
  "\<not> blank (str_field (put notice_envelope ''plain''
      (GStr (build_plain (holding notice_envelope) sample_notice))) ''plain'')"
  by (rule conjunct1 [OF finalize_sound [OF sample_finalize sample_payloads(2)]])

text \<open>What the edit gate stores for a card is the text of a payload that passed the send gate, with
  its plain text derived anew; an edit body that is not a card passes unchanged.\<close>

theorem edit_gate_sound:
  assumes "normalize_content_edit sv content_edit = Inr out"
  shows "(case decode_envelope sv content_edit of
      Some payload \<Rightarrow>
        if is_card_payload payload then
          validate sv payload = Inr () \<and>
          marshal sv (GObj (put payload ''plain''
            (GStr (build_plain sv (obj_field payload ''card''))))) = Some out
        else out = content_edit
    | None \<Rightarrow> out = content_edit)"
proof (cases "decode_envelope sv content_edit")
  case (Some payload)
  show ?thesis
  proof (cases "is_card_payload payload")
    case True
    with assms Some obtain fin where v: "validate sv payload = Inr ()"
      and f: "finalize sv payload = Inr fin" and m: "marshal sv (GObj fin) = Some out"
      by (auto simp: normalize_content_edit_def res_simps split: option.splits)
    from f True obtain ac s where "map_of payload ''card'' = Some (GObj ac)"
      and "fin = put payload ''plain'' (GStr (build_plain sv ac))" by (rule finalize_result)
    with v m True Some show ?thesis by (simp add: obj_field_def)
  next
    case False
    with assms Some show ?thesis by (simp add: normalize_content_edit_def)
  qed
qed (use assms in \<open>simp add: normalize_content_edit_def\<close>)

lemma sample_decode_envelope: "decode_envelope (holding notice_envelope) ''raw'' = Some notice_envelope"
  by (simp add: decode_envelope_def decoder_more_def)

lemma sample_normalize: "normalize_content_edit (holding notice_envelope) ''raw'' = Inr ''{}''"
  by (simp add: normalize_content_edit_def sample_decode_envelope sample_facts sample_finalize)

theorem edit_gate_sound_witness:
  "validate (holding notice_envelope) notice_envelope = Inr ()"
  using edit_gate_sound [OF sample_normalize] by (simp add: sample_decode_envelope sample_facts)

text \<open>A card message is never shown as blank text, and what an untrusted sender stored never
  shows: every payload of an untrusted sender reads the same.\<close>

theorem display_safe:
  "\<not> blank (display_text_for sv trusted raw) \<and>
    display_text_for sv False raw = display_text_for sv False raw'"
  using push_display_text_shape [of sv raw] by (simp add: display_text_for_def blank_def)

section \<open>Catalog identity\<close>

text \<open>C7: the stored form of a provenance mark is read back exactly when the mark is canonical.\<close>

theorem provenance_parse_marshal:
  "parse_catalog_provenance (GObj (provenance_marshal_map p)) =
    (if provenance_validate p = Inr () then Inr p else Inl CatalogMarkerInvalid)"
  unfolding provenance_roundtrip by (auto simp: provenance_validate_def)

fun edit_history :: "frame_catalog_markers \<Rightarrow> frame_catalog_markers list \<Rightarrow> bool" where
  "edit_history stored [] = True"
| "edit_history stored (f # fs) = (catalog_markers_preserved stored f = Inr () \<and> edit_history f fs)"

lemma preserved_keeps:
  "catalog_markers_preserved stored f = Inr () \<Longrightarrow>
    (fm_ref stored \<noteq> None \<longrightarrow> fm_ref f = fm_ref stored) \<and>
    (fm_provenance stored \<noteq> None \<longrightarrow> fm_provenance f = fm_provenance stored)"
  by (auto simp: catalog_markers_preserved_def split: if_splits)

text \<open>C8: along a history of accepted edits the catalog identity of a card is never erased or changed:
  the last frame still has the marks of the first.\<close>

theorem markers_survive_edits:
  assumes "edit_history stored fs" and "f \<in> set fs"
  shows "(fm_ref stored \<noteq> None \<longrightarrow> fm_ref f = fm_ref stored) \<and>
    (fm_provenance stored \<noteq> None \<longrightarrow> fm_provenance f = fm_provenance stored)"
  using assms
proof (induction fs arbitrary: stored)
  case (Cons g gs)
  then have g: "(fm_ref stored \<noteq> None \<longrightarrow> fm_ref g = fm_ref stored) \<and>
    (fm_provenance stored \<noteq> None \<longrightarrow> fm_provenance g = fm_provenance stored)"
    by (intro preserved_keeps) simp
  show ?case
  proof (cases "f = g")
    case False
    with Cons have "(fm_ref g \<noteq> None \<longrightarrow> fm_ref f = fm_ref g) \<and>
      (fm_provenance g \<noteq> None \<longrightarrow> fm_provenance f = fm_provenance g)" by simp
    with g show ?thesis by auto
  qed (use g in simp)
qed simp

theorem markers_survive_edits_witness:
  "let ref = \<lparr>ctr_id = ''a'', ctr_version = ''1''\<rparr>;
       f = \<lparr>fm_ref = Some ref, fm_provenance = None\<rparr>
   in fm_ref f = Some ref"
  using markers_survive_edits [of "\<lparr>fm_ref = Some \<lparr>ctr_id = ''a'', ctr_version = ''1''\<rparr>, fm_provenance = None\<rparr>"
      "[\<lparr>fm_ref = Some \<lparr>ctr_id = ''a'', ctr_version = ''1''\<rparr>, fm_provenance = None\<rparr>]"
      "\<lparr>fm_ref = Some \<lparr>ctr_id = ''a'', ctr_version = ''1''\<rparr>, fm_provenance = None\<rparr>"]
  by (simp add: catalog_markers_preserved_def)

section \<open>Two ways around the gates\<close>



text \<open>Text after the envelope is not always rejected: a stray closing bracket, and whatever follows
  it, is ignored.\<close>

theorem trailing_bracket_accepted:
  assumes "decode_num sv raw = Some (GObj payload, CHR ''}'' # junk)"
  shows "decode_envelope sv raw = Some payload"
  using assms by (simp add: decode_envelope_def decoder_more_def json_space_def)

theorem trailing_bracket_accepted_witness:
  "decode_envelope (holding []\<lparr>decode_num := \<lambda>_. Some (GObj [], ''}x'')\<rparr>) ''{}}x'' = Some []"
  by (rule trailing_bracket_accepted [where junk = "''x''"]) simp

end
