(* ===== verification/Redis_Store.thy ===== *)
theory Redis_Store
  imports Complex_Main Go_Strings "HOL-Library.AList"
begin

text \<open>
  The Redis commands that the Lua scripts of the program call.  Redis is a service: a record of
  commands over an abstract store is a parameter of every script, and the locale \<open>redis_laws\<close>
  states the documented behaviour the scripts rely on, for keys that are used with one type of
  value.  Values of hashes are byte strings, scores of sorted sets integers (the scripts only use
  millisecond times as scores).  A key's remaining life is not observed; \<open>pexpire\<close> only must not
  change what the other commands see.  The last section has an executable store that satisfies
  the laws.
\<close>

record 's redis =
  hget :: "'s \<Rightarrow> string \<Rightarrow> string \<Rightarrow> string option"
  hset :: "string \<Rightarrow> string \<Rightarrow> string \<Rightarrow> 's \<Rightarrow> 's"
  hdel :: "string \<Rightarrow> string \<Rightarrow> 's \<Rightarrow> 's"
  hincrby :: "string \<Rightarrow> string \<Rightarrow> int \<Rightarrow> 's \<Rightarrow> 's \<times> int"
  zscore :: "'s \<Rightarrow> string \<Rightarrow> string \<Rightarrow> int option"
  zadd :: "string \<Rightarrow> int \<Rightarrow> string \<Rightarrow> 's \<Rightarrow> 's"
  zrem :: "string \<Rightarrow> string \<Rightarrow> 's \<Rightarrow> 's \<times> nat"
  zupto :: "'s \<Rightarrow> string \<Rightarrow> int \<Rightarrow> string list"
  zrem_upto :: "string \<Rightarrow> int \<Rightarrow> 's \<Rightarrow> 's"
  zcard :: "'s \<Rightarrow> string \<Rightarrow> nat"
  pexpire :: "string \<Rightarrow> int \<Rightarrow> 's \<Rightarrow> 's"

text \<open>\<open>HEXISTS\<close>, and Lua's \<open>tonumber(redis.call('HGET', k, f) or '0')\<close>.\<close>

definition hexists :: "'s redis \<Rightarrow> 's \<Rightarrow> string \<Rightarrow> string \<Rightarrow> bool" where
  "hexists r s k f = (hget r s k f \<noteq> None)"

definition hget_number :: "'s redis \<Rightarrow> 's \<Rightarrow> string \<Rightarrow> string \<Rightarrow> int" where
  "hget_number r s k f =
     (case hget r s k f of None \<Rightarrow> 0
      | Some v \<Rightarrow> (case parse_int64 v of None \<Rightarrow> 0 | Some i \<Rightarrow> i))"

definition hdel_all :: "'s redis \<Rightarrow> string list \<Rightarrow> string \<Rightarrow> 's \<Rightarrow> 's" where
  "hdel_all r ks f s = fold (\<lambda>k. hdel r k f) ks s"

definition pexpire_all :: "'s redis \<Rightarrow> string list \<Rightarrow> int \<Rightarrow> 's \<Rightarrow> 's" where
  "pexpire_all r ks ttl s = fold (\<lambda>k. pexpire r k ttl) ks s"

section \<open>Documented behaviour\<close>

locale redis_laws =
  fixes r :: "'s redis"
  assumes hget_hset: "hget r (hset r k f v s) k' f' = (if k' = k \<and> f' = f then Some v else hget r s k' f')"
    and hget_hdel: "hget r (hdel r k f s) k' f' = (if k' = k \<and> f' = f then None else hget r s k' f')"
    and hget_zadd: "hget r (zadd r z x m s) k' f' = hget r s k' f'"
    and hget_zrem: "hget r (fst (zrem r z m s)) k' f' = hget r s k' f'"
    and hget_zrem_upto: "hget r (zrem_upto r z x s) k' f' = hget r s k' f'"
    and hget_pexpire: "hget r (pexpire r k ttl s) k' f' = hget r s k' f'"
    and zscore_hset: "zscore r (hset r k f v s) z' m' = zscore r s z' m'"
    and zscore_hdel: "zscore r (hdel r k f s) z' m' = zscore r s z' m'"
    and zscore_zadd: "zscore r (zadd r z x m s) z' m' = (if z' = z \<and> m' = m then Some x else zscore r s z' m')"
    and zscore_zrem: "zscore r (fst (zrem r z m s)) z' m' = (if z' = z \<and> m' = m then None else zscore r s z' m')"
    and zscore_zrem_upto: "zscore r (zrem_upto r z x s) z' m' =
      (case zscore r s z' m' of Some y \<Rightarrow> if z' = z \<and> y \<le> x then None else Some y | None \<Rightarrow> None)"
    and zscore_pexpire: "zscore r (pexpire r k ttl s) z' m' = zscore r s z' m'"
    and zrem_count: "snd (zrem r z m s) = (if zscore r s z m = None then 0 else 1)"
    and hincrby_store: "hget_number r s k f + n < 2 ^ 63 \<Longrightarrow> - (2 ^ 63) \<le> hget_number r s k f + n \<Longrightarrow>
      hincrby r k f n s =
        (hset r k f (show_int (hget_number r s k f + n)) s, hget_number r s k f + n)"
    and hget_hincrby_other: "k' \<noteq> k \<Longrightarrow> hget r (fst (hincrby r k f n s)) k' f' = hget r s k' f'"
    and zupto_set: "set (zupto r s z x) = {m. \<exists>y \<le> x. zscore r s z m = Some y}"
    and zupto_distinct: "distinct (zupto r s z x)"
    and zupto_sorted: "sorted (map (\<lambda>m. the (zscore r s z m)) (zupto r s z x))"
begin

lemmas hash_simps = hget_hset hget_hdel hget_zadd hget_zrem hget_zrem_upto hget_pexpire
lemmas zset_simps = zscore_hset zscore_hdel zscore_zadd zscore_zrem zscore_zrem_upto zscore_pexpire

lemma pexpire_all [simp]:
  "hget r (pexpire_all r ks ttl s) k f = hget r s k f"
  "zscore r (pexpire_all r ks ttl s) z m = zscore r s z m"
proof -
  have "hget r (fold (\<lambda>k. pexpire r k ttl) ks s) k f = hget r s k f \<and>
      zscore r (fold (\<lambda>k. pexpire r k ttl) ks s) z m = zscore r s z m"
    by (induction ks arbitrary: s) (simp_all add: hash_simps zset_simps)
  then show "hget r (pexpire_all r ks ttl s) k f = hget r s k f"
    "zscore r (pexpire_all r ks ttl s) z m = zscore r s z m"
    by (simp_all add: pexpire_all_def)
qed

lemma hdel_all [simp]:
  "hget r (hdel_all r ks f s) k' f' = (if k' \<in> set ks \<and> f' = f then None else hget r s k' f')"
  "zscore r (hdel_all r ks f s) z m = zscore r s z m"
proof -
  have "hget r (fold (\<lambda>k. hdel r k f) ks s) k' f' = (if k' \<in> set ks \<and> f' = f then None else hget r s k' f') \<and>
      zscore r (fold (\<lambda>k. hdel r k f) ks s) z m = zscore r s z m"
    by (induction ks arbitrary: s) (auto simp: hash_simps zset_simps)
  then show "hget r (hdel_all r ks f s) k' f' = (if k' \<in> set ks \<and> f' = f then None else hget r s k' f')"
    "zscore r (hdel_all r ks f s) z m = zscore r s z m"
    by (simp_all add: hdel_all_def)
qed

lemma zupto_hd:
  assumes "zupto r s z x = m # ms"
  shows "\<exists>y. zscore r s z m = Some y \<and> y \<le> x \<and>
    (\<forall>m' y'. zscore r s z m' = Some y' \<and> y' \<le> x \<longrightarrow> y \<le> y')"
proof -
  have "m \<in> set (zupto r s z x)" by (simp add: assms)
  then obtain y where y: "zscore r s z m = Some y" "y \<le> x" by (auto simp: zupto_set)
  have "y \<le> y'" if "zscore r s z m' = Some y'" "y' \<le> x" for m' y'
  proof -
    have "m' \<in> set (m # ms)" using that unfolding assms [symmetric] zupto_set by blast
    moreover have "sorted (map (\<lambda>m. the (zscore r s z m)) (m # ms))"
      using zupto_sorted [of s z x] by (simp add: assms)
    ultimately show ?thesis using that(1) y(1) by auto
  qed
  with y show ?thesis by blast
qed

end

section \<open>A store in memory\<close>

record mem =
  mem_hash :: "((string \<times> string) \<times> string) list"
  mem_zset :: "((string \<times> string) \<times> int) list"

definition mem_redis :: "mem redis" where
  "mem_redis =
     \<lparr>hget = (\<lambda>s k f. map_of (mem_hash s) (k, f)),
      hset = (\<lambda>k f v s. s\<lparr>mem_hash := AList.update (k, f) v (mem_hash s)\<rparr>),
      hdel = (\<lambda>k f s. s\<lparr>mem_hash := AList.delete (k, f) (mem_hash s)\<rparr>),
      hincrby = (\<lambda>k f n s.
        let i = (case map_of (mem_hash s) (k, f) of None \<Rightarrow> 0
                 | Some v \<Rightarrow> (case parse_int64 v of None \<Rightarrow> 0 | Some i \<Rightarrow> i)) + n
        in (s\<lparr>mem_hash := AList.update (k, f) (show_int i) (mem_hash s)\<rparr>, i)),
      zscore = (\<lambda>s z m. map_of (mem_zset s) (z, m)),
      zadd = (\<lambda>z x m s. s\<lparr>mem_zset := AList.update (z, m) x (mem_zset s)\<rparr>),
      zrem = (\<lambda>z m s. (s\<lparr>mem_zset := AList.delete (z, m) (mem_zset s)\<rparr>,
        if map_of (mem_zset s) (z, m) = None then 0 else 1)),
      zupto = (\<lambda>s z x. map (\<lambda>((_, m), _). m)
        (sort_key snd (filter (\<lambda>((z', _), y). z' = z \<and> y \<le> x) (AList.clearjunk (mem_zset s))))),
      zrem_upto = (\<lambda>z x s. s\<lparr>mem_zset :=
        filter (\<lambda>((z', _), y). \<not> (z' = z \<and> y \<le> x)) (AList.clearjunk (mem_zset s))\<rparr>),
      zcard = (\<lambda>s z. length (filter (\<lambda>((z', _), _). z' = z) (AList.clearjunk (mem_zset s)))),
      pexpire = (\<lambda>k ttl s. s)\<rparr>"

lemma map_of_filter_clearjunk:
  "map_of (filter (\<lambda>p. \<not> Q (fst p) (snd p)) (AList.clearjunk al)) k =
    (case map_of al k of Some y \<Rightarrow> if Q k y then None else Some y | None \<Rightarrow> None)"
proof (cases "map_of al k")
  case None
  then have "k \<notin> fst ` set (AList.clearjunk al)"
    by (metis map_of_clearjunk map_of_eq_None_iff)
  then have "map_of (filter (\<lambda>p. \<not> Q (fst p) (snd p)) (AList.clearjunk al)) k = None"
    by (auto simp: map_of_eq_None_iff)
  then show ?thesis by (simp add: None)
next
  case (Some y)
  then have m: "(k, y) \<in> set (AList.clearjunk al)"
    by (metis map_of_SomeD map_of_clearjunk)
  have d: "distinct (map fst (AList.clearjunk al))" by (rule distinct_clearjunk)
  then have df: "distinct (map fst (filter (\<lambda>p. \<not> Q (fst p) (snd p)) (AList.clearjunk al)))"
    by (rule distinct_map_filter)
  show ?thesis
  proof (cases "Q k y")
    case False
    then have "(k, y) \<in> set (filter (\<lambda>p. \<not> Q (fst p) (snd p)) (AList.clearjunk al))" using m by simp
    then show ?thesis using df False Some by (simp add: map_of_is_SomeI)
  next
    case True
    have "k \<notin> fst ` set (filter (\<lambda>p. \<not> Q (fst p) (snd p)) (AList.clearjunk al))"
    proof
      assume "k \<in> fst ` set (filter (\<lambda>p. \<not> Q (fst p) (snd p)) (AList.clearjunk al))"
      then obtain b where "(k, b) \<in> set (AList.clearjunk al)" "\<not> Q k b" by auto
      moreover have "b = y" using calculation(1) m d by (metis map_of_is_SomeI option.inject)
      ultimately show False using True by simp
    qed
    then show ?thesis using True Some by (simp add: map_of_eq_None_iff)
  qed
qed

lemma mem_zupto:
  "zupto mem_redis s z x = map (snd \<circ> fst)
    (sort_key snd (filter (\<lambda>p. fst (fst p) = z \<and> snd p \<le> x) (AList.clearjunk (mem_zset s))))"
  by (simp add: mem_redis_def comp_def case_prod_unfold)

interpretation mem: redis_laws mem_redis
proof unfold_locales
  fix s :: mem and z and x :: int
  let ?l = "filter (\<lambda>p. fst (fst p) = z \<and> snd p \<le> x) (AList.clearjunk (mem_zset s))"
  have mem: "((z', m), y) \<in> set (AList.clearjunk (mem_zset s)) \<longleftrightarrow> map_of (mem_zset s) (z', m) = Some y"
    for z' m y
    by (metis distinct_clearjunk map_of_SomeD map_of_clearjunk map_of_is_SomeI)
  show "set (zupto mem_redis s z x) = {m. \<exists>y\<le>x. zscore mem_redis s z m = Some y}"
    unfolding mem_zupto by (force simp: mem mem_redis_def image_iff)
  have d: "distinct (map fst ?l)" by (rule distinct_map_filter) (rule distinct_clearjunk)
  have inj: "inj_on (snd \<circ> fst) (set ?l)"
  proof (rule inj_onI)
    fix p q assume p: "p \<in> set ?l" and q: "q \<in> set ?l" and e: "(snd \<circ> fst) p = (snd \<circ> fst) q"
    then have "fst p = fst q" by (auto simp: prod_eq_iff)
    with p q d show "p = q" by (metis (no_types, lifting) distinct_map inj_onD)
  qed
  have "distinct ?l" using d by (simp add: distinct_map)
  with inj show "distinct (zupto mem_redis s z x)"
    unfolding mem_zupto by (simp add: distinct_map)
  have scores: "map (\<lambda>m. the (zscore mem_redis s z m)) (map (snd \<circ> fst) (sort_key snd ?l)) =
      map snd (sort_key snd ?l)"
    unfolding map_map
  proof (rule map_cong [OF refl])
    fix p assume "p \<in> set (sort_key snd ?l)"
    then have "((fst (fst p), snd (fst p)), snd p) \<in> set (AList.clearjunk (mem_zset s))"
      and "fst (fst p) = z" by auto
    then show "((\<lambda>m. the (zscore mem_redis s z m)) \<circ> (snd \<circ> fst)) p = snd p"
      unfolding mem by (simp add: mem_redis_def)
  qed
  show "sorted (map (\<lambda>m. the (zscore mem_redis s z m)) (zupto mem_redis s z x))"
    unfolding mem_zupto scores by (rule sorted_sort_key)
  show "zscore mem_redis (zrem_upto mem_redis z x s) z' m' =
      (case zscore mem_redis s z' m' of Some y \<Rightarrow> if z' = z \<and> y \<le> x then None else Some y
       | None \<Rightarrow> None)" for z' m'
    using map_of_filter_clearjunk [of "\<lambda>k y. fst k = z \<and> y \<le> x" "mem_zset s" "(z', m')"]
    by (simp add: mem_redis_def case_prod_unfold split: option.splits)
qed (auto simp: mem_redis_def update_conv' delete_conv' hget_number_def Let_def split: option.splits)

end
