(* ===== verification/Action_Queue.thy ===== *)
theory Action_Queue
  imports Redis_Store
begin

text \<open>
  The durable queue of card actions, \<open>internal/cardactiondispatch/queue.go\<close>: its Redis keys, the
  Lua scripts as functions on the store (each script runs atomically), and the abstract queue on
  maps that the scripts implement.  A script's reply is a number, and \<open>ScriptError\<close> where a
  command would raise; as in Redis, what a script wrote before the error stays written.
\<close>

section \<open>Keys\<close>

record queue_keys =
  k_ready :: string
  k_leased :: string
  k_payload :: string
  k_attempts :: string
  k_tokens :: string
  k_dlq :: string
  k_dlq_payload :: string
  k_dlq_meta :: string
  k_marker :: string

definition new_queue_keys :: "string \<Rightarrow> queue_keys" where
  "new_queue_keys pfx =
     (let base = pfx @ '':{queue}:'' in
      \<lparr>k_ready = base @ ''ready'', k_leased = base @ ''leased'', k_payload = base @ ''payload'',
       k_attempts = base @ ''attempts'', k_tokens = base @ ''tokens'', k_dlq = base @ ''dlq'',
       k_dlq_payload = base @ ''dlq_payload'', k_dlq_meta = base @ ''dlq_meta'',
       k_marker = base @ ''route_missing_since''\<rparr>)"

definition key_list :: "queue_keys \<Rightarrow> string list" where
  "key_list q = [k_ready q, k_leased q, k_payload q, k_attempts q, k_tokens q, k_dlq q,
     k_dlq_payload q, k_dlq_meta q, k_marker q]"

definition live_keys :: "queue_keys \<Rightarrow> string list" where
  "live_keys q = [k_ready q, k_leased q, k_payload q, k_attempts q, k_tokens q]"

definition dlq_keys :: "queue_keys \<Rightarrow> string list" where
  "dlq_keys q = [k_dlq q, k_dlq_payload q, k_dlq_meta q]"

lemma new_queue_keys_distinct: "distinct (key_list (new_queue_keys pfx))"
  by (simp add: key_list_def new_queue_keys_def Let_def)

section \<open>Scripts\<close>

datatype reply = Reply nat | ScriptError

definition enqueue_script ::
  "'s redis \<Rightarrow> queue_keys \<Rightarrow> string \<Rightarrow> string \<Rightarrow> int \<Rightarrow> int \<Rightarrow> 's \<Rightarrow> 's \<times> reply" where
  "enqueue_script r q i payload due ttl s =
     (if hexists r s (k_dlq_payload q) i \<or> hexists r s (k_payload q) i then (s, Reply 0)
      else
        let s = hset r (k_payload q) i payload s;
            s = hset r (k_attempts q) i ''0'' s;
            s = zadd r (k_ready q) due i s
        in (pexpire_all r (live_keys q) ttl s, Reply 1))"

text \<open>The claimed identifier, payload, attempt and token, or nothing.\<close>

definition claim_script ::
  "'s redis \<Rightarrow> queue_keys \<Rightarrow> int \<Rightarrow> int \<Rightarrow> string \<Rightarrow> int \<Rightarrow> 's
     \<Rightarrow> 's \<times> (string \<times> string \<times> int \<times> string) option" where
  "claim_script r q now until token ttl s =
     (case take 1 (zupto r s (k_ready q) now) of
        [] \<Rightarrow> (s, None)
      | i # _ \<Rightarrow>
          (case hget r s (k_payload q) i of
             None \<Rightarrow> (hdel r (k_attempts q) i (fst (zrem r (k_ready q) i s)), None)
           | Some payload \<Rightarrow>
               (let (s, n) = zrem r (k_ready q) i s in
                if n \<noteq> 1 then (s, None)
                else
                  let (s, attempt) = hincrby r (k_attempts q) i 1 s;
                      s = zadd r (k_leased q) until i s;
                      s = hset r (k_tokens q) i token s
                  in (pexpire_all r (live_keys q) ttl s, Some (i, payload, attempt, token)))))"

definition ack_script :: "'s redis \<Rightarrow> queue_keys \<Rightarrow> string \<Rightarrow> string \<Rightarrow> 's \<Rightarrow> 's \<times> reply" where
  "ack_script r q i token s =
     (if hget r s (k_tokens q) i \<noteq> Some token then (s, Reply 0)
      else
        (hdel_all r [k_payload q, k_attempts q, k_tokens q, k_marker q] i
           (fst (zrem r (k_leased q) i s)), Reply 1))"

definition renew_script ::
  "'s redis \<Rightarrow> queue_keys \<Rightarrow> string \<Rightarrow> string \<Rightarrow> int \<Rightarrow> int \<Rightarrow> 's \<Rightarrow> 's \<times> reply" where
  "renew_script r q i token until ttl s =
     (if hget r s (k_tokens q) i \<noteq> Some token then (s, Reply 0)
      else if zscore r s (k_leased q) i = None then (s, Reply 0)
      else (pexpire_all r (live_keys q) ttl (zadd r (k_leased q) until i s), Reply 1))"

definition refund :: "'s redis \<Rightarrow> queue_keys \<Rightarrow> string \<Rightarrow> 's \<Rightarrow> 's" where
  "refund r q i s =
     (if 0 < hget_number r s (k_attempts q) i then fst (hincrby r (k_attempts q) i (- 1) s) else s)"

definition defer_script ::
  "'s redis \<Rightarrow> queue_keys \<Rightarrow> string \<Rightarrow> string \<Rightarrow> int \<Rightarrow> int \<Rightarrow> 's \<Rightarrow> 's \<times> reply" where
  "defer_script r q i token due ttl s =
     (if hget r s (k_tokens q) i \<noteq> Some token then (s, Reply 0)
      else
        let (s, n) = zrem r (k_leased q) i s in
        if n \<noteq> 1 then (s, Reply 0)
        else
          let s = hdel r (k_tokens q) i s;
              s = refund r q i s;
              s = zadd r (k_ready q) due i s
          in (pexpire_all r (live_keys q) ttl s, Reply 1))"

definition drop_expired :: "'s redis \<Rightarrow> queue_keys \<Rightarrow> int \<Rightarrow> 's \<Rightarrow> 's" where
  "drop_expired r q cutoff s =
     zrem_upto r (k_dlq q) cutoff
       (fold (hdel_all r [k_dlq_payload q, k_dlq_meta q]) (zupto r s (k_dlq q) cutoff) s)"

definition nack_script ::
  "'s redis \<Rightarrow> queue_keys \<Rightarrow> string \<Rightarrow> string \<Rightarrow> int \<Rightarrow> int \<Rightarrow> string \<Rightarrow> int \<Rightarrow> int \<Rightarrow> int \<Rightarrow> int \<Rightarrow> 's
     \<Rightarrow> 's \<times> reply" where
  "nack_script r q i token due max_attempts meta ttl dlq_ttl cutoff now s =
     (if hget r s (k_tokens q) i \<noteq> Some token then (s, Reply 0)
      else
        let payload = hget r s (k_payload q) i;
            attempt = hget_number r s (k_attempts q) i;
            s = fst (zrem r (k_leased q) i s);
            s = hdel_all r [k_tokens q, k_marker q] i s
        in if max_attempts \<le> attempt then
             let s = drop_expired r q cutoff s;
                 s = hdel_all r [k_payload q, k_attempts q] i s;
                 s = zadd r (k_dlq q) now i s
             in case payload of
                  None \<Rightarrow> (s, ScriptError)
                | Some p \<Rightarrow>
                    (pexpire_all r (dlq_keys q) dlq_ttl
                       (hset r (k_dlq_meta q) i meta (hset r (k_dlq_payload q) i p s)), Reply 2)
           else (pexpire_all r (live_keys q) ttl (zadd r (k_ready q) due i s), Reply 1))"

text \<open>One expired lease of the reclaim loop.\<close>

definition reclaim_one :: "'s redis \<Rightarrow> queue_keys \<Rightarrow> int \<Rightarrow> string \<Rightarrow> 's \<Rightarrow> 's" where
  "reclaim_one r q now i s =
     (let (s, n) = zrem r (k_leased q) i s in
      if n \<noteq> 1 then s
      else
        let s = hdel r (k_tokens q) i s in
        if hexists r s (k_payload q) i then
          let s = (if hexists r s (k_marker q) i then refund r q i s else s)
          in zadd r (k_ready q) now i s
        else s)"

definition reclaim_script :: "'s redis \<Rightarrow> queue_keys \<Rightarrow> int \<Rightarrow> nat \<Rightarrow> int \<Rightarrow> 's \<Rightarrow> 's \<times> reply" where
  "reclaim_script r q now limit ttl s =
     (let ids = take limit (zupto r s (k_leased q) now);
          s = fold (reclaim_one r q now) ids s
      in (pexpire_all r (live_keys q) ttl s, Reply (length ids)))"

definition replay_dlq_script ::
  "'s redis \<Rightarrow> queue_keys \<Rightarrow> string \<Rightarrow> int \<Rightarrow> int \<Rightarrow> int \<Rightarrow> 's \<Rightarrow> 's \<times> reply" where
  "replay_dlq_script r q i due ttl cutoff s =
     (case hget r s (k_dlq_payload q) i of
        None \<Rightarrow> (s, Reply 0)
      | Some payload \<Rightarrow>
          (case zscore r s (k_dlq q) i of
             None \<Rightarrow> (s, Reply 0)
           | Some score \<Rightarrow>
               if score \<le> cutoff then (s, Reply 0)
               else
                 let s = fst (zrem r (k_dlq q) i s);
                     s = hdel_all r [k_dlq_payload q, k_dlq_meta q, k_marker q] i s;
                     s = hset r (k_payload q) i payload s;
                     s = hset r (k_attempts q) i ''0'' s;
                     s = zadd r (k_ready q) due i s
                 in (pexpire_all r (live_keys q) ttl s, Reply 1)))"

definition prune_dlq_script :: "'s redis \<Rightarrow> queue_keys \<Rightarrow> int \<Rightarrow> 's \<Rightarrow> 's \<times> reply" where
  "prune_dlq_script r q cutoff s =
     (drop_expired r q cutoff s, Reply (length (zupto r s (k_dlq q) cutoff)))"

definition route_missing_since_script ::
  "'s redis \<Rightarrow> queue_keys \<Rightarrow> string \<Rightarrow> int \<Rightarrow> int \<Rightarrow> 's \<Rightarrow> 's \<times> string" where
  "route_missing_since_script r q i now ttl s =
     (case hget r s (k_marker q) i of
        Some v \<Rightarrow> (pexpire r (k_marker q) ttl s, v)
      | None \<Rightarrow> (pexpire r (k_marker q) ttl (hset r (k_marker q) i (show_int now) s), show_int now))"

definition clear_route_missing_script ::
  "'s redis \<Rightarrow> queue_keys \<Rightarrow> string \<Rightarrow> string \<Rightarrow> 's \<Rightarrow> 's \<times> reply" where
  "clear_route_missing_script r q i token s =
     (if hget r s (k_tokens q) i \<noteq> Some token then (s, Reply 0)
      else (hdel r (k_marker q) i s, Reply 1))"

section \<open>The abstract queue\<close>

record qview =
  v_ready :: "string \<rightharpoonup> int"
  v_leased :: "string \<rightharpoonup> int"
  v_payload :: "string \<rightharpoonup> string"
  v_attempts :: "string \<rightharpoonup> string"
  v_tokens :: "string \<rightharpoonup> string"
  v_dlq :: "string \<rightharpoonup> int"
  v_dlq_payload :: "string \<rightharpoonup> string"
  v_dlq_meta :: "string \<rightharpoonup> string"
  v_marker :: "string \<rightharpoonup> string"

definition view :: "'s redis \<Rightarrow> queue_keys \<Rightarrow> 's \<Rightarrow> qview" where
  "view r q s =
     \<lparr>v_ready = zscore r s (k_ready q), v_leased = zscore r s (k_leased q),
      v_payload = hget r s (k_payload q), v_attempts = hget r s (k_attempts q),
      v_tokens = hget r s (k_tokens q), v_dlq = zscore r s (k_dlq q),
      v_dlq_payload = hget r s (k_dlq_payload q), v_dlq_meta = hget r s (k_dlq_meta q),
      v_marker = hget r s (k_marker q)\<rparr>"

definition number :: "string option \<Rightarrow> int" where
  "number v = (case v of None \<Rightarrow> 0
     | Some v \<Rightarrow> (case parse_int64 v of None \<Rightarrow> 0 | Some i \<Rightarrow> i))"

abbreviation drop_key :: "('a \<rightharpoonup> 'b) \<Rightarrow> 'a \<Rightarrow> 'a \<rightharpoonup> 'b" where
  "drop_key m k \<equiv> m(k := None)"

definition q_enqueue :: "string \<Rightarrow> string \<Rightarrow> int \<Rightarrow> qview \<Rightarrow> qview" where
  "q_enqueue i p due v = v\<lparr>v_payload := (v_payload v)(i \<mapsto> p),
     v_attempts := (v_attempts v)(i \<mapsto> ''0''), v_ready := (v_ready v)(i \<mapsto> due)\<rparr>"

definition q_orphan :: "string \<Rightarrow> qview \<Rightarrow> qview" where
  "q_orphan i v = v\<lparr>v_ready := drop_key (v_ready v) i, v_attempts := drop_key (v_attempts v) i\<rparr>"

definition q_claim :: "string \<Rightarrow> int \<Rightarrow> string \<Rightarrow> qview \<Rightarrow> qview" where
  "q_claim i until token v = v\<lparr>v_ready := drop_key (v_ready v) i,
     v_attempts := (v_attempts v)(i \<mapsto> show_int (number (v_attempts v i) + 1)),
     v_leased := (v_leased v)(i \<mapsto> until), v_tokens := (v_tokens v)(i \<mapsto> token)\<rparr>"

definition q_ack :: "string \<Rightarrow> qview \<Rightarrow> qview" where
  "q_ack i v = v\<lparr>v_leased := drop_key (v_leased v) i, v_payload := drop_key (v_payload v) i,
     v_attempts := drop_key (v_attempts v) i, v_tokens := drop_key (v_tokens v) i,
     v_marker := drop_key (v_marker v) i\<rparr>"

definition q_renew :: "string \<Rightarrow> int \<Rightarrow> qview \<Rightarrow> qview" where
  "q_renew i until v = v\<lparr>v_leased := (v_leased v)(i \<mapsto> until)\<rparr>"

definition q_refund :: "string \<Rightarrow> qview \<Rightarrow> qview" where
  "q_refund i v = (if 0 < number (v_attempts v i)
     then v\<lparr>v_attempts := (v_attempts v)(i \<mapsto> show_int (number (v_attempts v i) - 1))\<rparr> else v)"

definition q_release :: "string \<Rightarrow> qview \<Rightarrow> qview" where
  "q_release i v = v\<lparr>v_leased := drop_key (v_leased v) i, v_tokens := drop_key (v_tokens v) i\<rparr>"

definition q_ready :: "string \<Rightarrow> int \<Rightarrow> qview \<Rightarrow> qview" where
  "q_ready i due v = v\<lparr>v_ready := (v_ready v)(i \<mapsto> due)\<rparr>"

definition q_unmark :: "string \<Rightarrow> qview \<Rightarrow> qview" where
  "q_unmark i v = v\<lparr>v_marker := drop_key (v_marker v) i\<rparr>"

definition q_mark :: "string \<Rightarrow> string \<Rightarrow> qview \<Rightarrow> qview" where
  "q_mark i now v = v\<lparr>v_marker := (v_marker v)(i \<mapsto> now)\<rparr>"

text \<open>Dead letters no newer than the cutoff.\<close>

definition old_letter :: "int \<Rightarrow> qview \<Rightarrow> string \<Rightarrow> bool" where
  "old_letter cutoff v i = (case v_dlq v i of None \<Rightarrow> False | Some x \<Rightarrow> x \<le> cutoff)"

lemma old_letter_iff [simp]: "old_letter cutoff v i \<longleftrightarrow> (\<exists>x \<le> cutoff. v_dlq v i = Some x)"
  by (auto simp: old_letter_def split: option.splits)

definition q_prune :: "int \<Rightarrow> qview \<Rightarrow> qview" where
  "q_prune cutoff v =
     (let old = old_letter cutoff v in
      v\<lparr>v_dlq := (\<lambda>i. if old i then None else v_dlq v i),
        v_dlq_payload := (\<lambda>i. if old i then None else v_dlq_payload v i),
        v_dlq_meta := (\<lambda>i. if old i then None else v_dlq_meta v i)\<rparr>)"

definition q_bury :: "string \<Rightarrow> string \<Rightarrow> string \<Rightarrow> int \<Rightarrow> qview \<Rightarrow> qview" where
  "q_bury i p meta now v = v\<lparr>v_payload := drop_key (v_payload v) i,
     v_attempts := drop_key (v_attempts v) i, v_dlq := (v_dlq v)(i \<mapsto> now),
     v_dlq_payload := (v_dlq_payload v)(i \<mapsto> p), v_dlq_meta := (v_dlq_meta v)(i \<mapsto> meta)\<rparr>"

definition q_exhume :: "string \<Rightarrow> string \<Rightarrow> int \<Rightarrow> qview \<Rightarrow> qview" where
  "q_exhume i p due v = q_enqueue i p due (q_unmark i (v\<lparr>v_dlq := drop_key (v_dlq v) i,
     v_dlq_payload := drop_key (v_dlq_payload v) i, v_dlq_meta := drop_key (v_dlq_meta v) i\<rparr>))"

definition q_reclaim :: "int \<Rightarrow> string \<Rightarrow> qview \<Rightarrow> qview" where
  "q_reclaim now i v =
     (if v_leased v i = None then v
      else if v_payload v i = None then q_release i v
      else q_ready i now (if v_marker v i \<noteq> None then q_refund i (q_release i v) else q_release i v))"

lemmas q_defs = q_enqueue_def q_orphan_def q_claim_def q_ack_def q_renew_def q_refund_def
  q_release_def q_ready_def q_unmark_def q_mark_def q_prune_def q_bury_def q_exhume_def q_reclaim_def

section \<open>The scripts implement the abstract queue\<close>

definition keys_ok :: "queue_keys \<Rightarrow> bool" where
  "keys_ok q = distinct (key_list q)"

lemma view_simps [simp]:
  "v_ready (view r q s) i = zscore r s (k_ready q) i"
  "v_leased (view r q s) i = zscore r s (k_leased q) i"
  "v_payload (view r q s) i = hget r s (k_payload q) i"
  "v_attempts (view r q s) i = hget r s (k_attempts q) i"
  "v_tokens (view r q s) i = hget r s (k_tokens q) i"
  "v_dlq (view r q s) i = zscore r s (k_dlq q) i"
  "v_dlq_payload (view r q s) i = hget r s (k_dlq_payload q) i"
  "v_dlq_meta (view r q s) i = hget r s (k_dlq_meta q) i"
  "v_marker (view r q s) i = hget r s (k_marker q) i"
  by (simp_all add: view_def)

lemma view_eqI:
  assumes "\<And>i. v_ready v i = zscore r s (k_ready q) i" "\<And>i. v_leased v i = zscore r s (k_leased q) i"
    "\<And>i. v_payload v i = hget r s (k_payload q) i" "\<And>i. v_attempts v i = hget r s (k_attempts q) i"
    "\<And>i. v_tokens v i = hget r s (k_tokens q) i" "\<And>i. v_dlq v i = zscore r s (k_dlq q) i"
    "\<And>i. v_dlq_payload v i = hget r s (k_dlq_payload q) i"
    "\<And>i. v_dlq_meta v i = hget r s (k_dlq_meta q) i" "\<And>i. v_marker v i = hget r s (k_marker q) i"
  shows "view r q s = v"
  using assms by (cases v) (simp add: view_def fun_eq_iff)

lemma number_hget: "hget_number r s (k_attempts q) i = number (v_attempts (view r q s) i)"
  by (simp add: hget_number_def number_def)

text \<open>A counter in the range within which \<open>HINCRBY\<close> by one neither overflows nor underflows.\<close>

definition in_range :: "int \<Rightarrow> bool" where
  "in_range n = (- (2 ^ 63) < n \<and> n < 2 ^ 63 - 1)"

text \<open>An event is due, and no other event was due earlier: the one a claim takes.\<close>

definition due_first :: "qview \<Rightarrow> int \<Rightarrow> string \<Rightarrow> bool" where
  "due_first v now i = (\<exists>y. v_ready v i = Some y \<and> y \<le> now \<and>
     (\<forall>i' y'. v_ready v i' = Some y' \<and> y' \<le> now \<longrightarrow> y \<le> y'))"

context redis_laws
begin

lemma hincrby_in_range:
  assumes "in_range (hget_number r s k f)" and "n = 1 \<or> n = - 1"
  shows "hincrby r k f n s =
    (hset r k f (show_int (hget_number r s k f + n)) s, hget_number r s k f + n)"
  using assms by (intro hincrby_store) (auto simp: in_range_def)

lemma view_pexpire_all [simp]: "view r q (pexpire_all r ks ttl s) = view r q s"
  by (rule view_eqI) simp_all

lemma view_enqueue:
  assumes "keys_ok q"
  shows "view r q (fst (enqueue_script r q i p due ttl s)) =
    (if v_dlq_payload (view r q s) i \<noteq> None \<or> v_payload (view r q s) i \<noteq> None then view r q s
     else q_enqueue i p due (view r q s))"
  using assms
  by (auto simp: enqueue_script_def hexists_def Let_def keys_ok_def key_list_def q_enqueue_def
      hash_simps zset_simps intro!: view_eqI)

lemma view_ack:
  assumes "keys_ok q"
  shows "ack_script r q i t s =
    (if v_tokens (view r q s) i \<noteq> Some t then (s, Reply 0) else (fst (ack_script r q i t s), Reply 1))"
    and "v_tokens (view r q s) i = Some t \<Longrightarrow>
      view r q (fst (ack_script r q i t s)) = q_ack i (view r q s)"
  using assms
  by (auto simp: ack_script_def keys_ok_def key_list_def q_ack_def hash_simps zset_simps
      intro!: view_eqI)

lemma view_renew:
  assumes "keys_ok q" and "v_tokens (view r q s) i = Some t" and "v_leased (view r q s) i \<noteq> None"
  shows "view r q (fst (renew_script r q i t until ttl s)) = q_renew i until (view r q s)"
    and "snd (renew_script r q i t until ttl s) = Reply 1"
  using assms
  by (auto simp: renew_script_def keys_ok_def key_list_def q_renew_def hash_simps zset_simps
      intro!: view_eqI)

lemma view_refund:
  assumes "keys_ok q" and "in_range (number (v_attempts (view r q s) i))"
  shows "view r q (refund r q i s) = q_refund i (view r q s)"
  using assms hincrby_in_range [of s "k_attempts q" i "- 1"]
  by (auto simp: refund_def q_refund_def number_hget keys_ok_def key_list_def hash_simps zset_simps
      intro!: view_eqI)

lemma view_release:
  assumes "keys_ok q"
  shows "view r q (hdel r (k_tokens q) i (fst (zrem r (k_leased q) i s))) = q_release i (view r q s)"
  using assms
  by (auto simp: keys_ok_def key_list_def q_release_def hash_simps zset_simps intro!: view_eqI)

lemma view_ready:
  assumes "keys_ok q"
  shows "view r q (zadd r (k_ready q) due i s) = q_ready i due (view r q s)"
  using assms
  by (auto simp: keys_ok_def key_list_def q_ready_def hash_simps zset_simps intro!: view_eqI)

lemma attempts_release [simp]: "v_attempts (q_release i v) = v_attempts v"
  by (simp add: q_release_def)

lemma view_defer:
  assumes "keys_ok q" and "v_tokens (view r q s) i = Some t" and "v_leased (view r q s) i \<noteq> None"
    and "in_range (number (v_attempts (view r q s) i))"
  shows "view r q (fst (defer_script r q i t due ttl s)) =
      q_ready i due (q_refund i (q_release i (view r q s)))"
    and "snd (defer_script r q i t due ttl s) = Reply 1"
proof -
  let ?s = "hdel r (k_tokens q) i (fst (zrem r (k_leased q) i s))"
  have d: "defer_script r q i t due ttl s =
    (pexpire_all r (live_keys q) ttl (zadd r (k_ready q) due i (refund r q i ?s)), Reply 1)"
    using assms(2,3) by (simp add: defer_script_def Let_def split_beta zrem_count)
  have "view r q (refund r q i ?s) = q_refund i (q_release i (view r q s))"
    using view_refund [OF assms(1), of ?s i] assms(4) by (simp add: view_release [OF assms(1)])
  then show "view r q (fst (defer_script r q i t due ttl s)) =
      q_ready i due (q_refund i (q_release i (view r q s)))"
    by (simp add: d view_ready [OF assms(1)])
  show "snd (defer_script r q i t due ttl s) = Reply 1" by (simp add: d)
qed

lemma fold_hdel_all:
  "hget r (fold (hdel_all r ks) is s) k f = (if k \<in> set ks \<and> f \<in> set is then None else hget r s k f)"
  "zscore r (fold (hdel_all r ks) is s) z m = zscore r s z m"
  by (induction "is" arbitrary: s) auto

lemma view_drop_expired:
  assumes "keys_ok q"
  shows "view r q (drop_expired r q cutoff s) = q_prune cutoff (view r q s)"
  using assms
  by (auto simp: drop_expired_def keys_ok_def key_list_def q_prune_def hash_simps zset_simps
      fold_hdel_all zupto_set Let_def split: option.splits intro!: view_eqI)

lemma view_nack:
  assumes "keys_ok q" and "v_tokens (view r q s) i = Some t" and "v_payload (view r q s) i = Some p"
  shows "number (v_attempts (view r q s) i) < max_attempts \<Longrightarrow>
      view r q (fst (nack_script r q i t due max_attempts meta ttl dttl cutoff now s)) =
        q_ready i due (q_unmark i (q_release i (view r q s))) \<and>
      snd (nack_script r q i t due max_attempts meta ttl dttl cutoff now s) = Reply 1"
    and "max_attempts \<le> number (v_attempts (view r q s) i) \<Longrightarrow>
      view r q (fst (nack_script r q i t due max_attempts meta ttl dttl cutoff now s)) =
        q_bury i p meta now (q_prune cutoff (q_unmark i (q_release i (view r q s)))) \<and>
      snd (nack_script r q i t due max_attempts meta ttl dttl cutoff now s) = Reply 2"
proof -
  let ?s = "hdel_all r [k_tokens q, k_marker q] i (fst (zrem r (k_leased q) i s))"
  have rel: "view r q ?s = q_unmark i (q_release i (view r q s))"
    using assms(1) by (auto simp: keys_ok_def key_list_def q_release_def q_unmark_def hash_simps
        zset_simps intro!: view_eqI)
  have num: "hget_number r s (k_attempts q) i = number (v_attempts (view r q s) i)"
    by (rule number_hget)
  show "number (v_attempts (view r q s) i) < max_attempts \<Longrightarrow>
      view r q (fst (nack_script r q i t due max_attempts meta ttl dttl cutoff now s)) =
        q_ready i due (q_unmark i (q_release i (view r q s))) \<and>
      snd (nack_script r q i t due max_attempts meta ttl dttl cutoff now s) = Reply 1"
    using assms(2,3) by (simp add: nack_script_def Let_def num view_ready [OF assms(1)] rel)
  have bury: "view r q (hset r (k_dlq_meta q) i meta (hset r (k_dlq_payload q) i p
      (zadd r (k_dlq q) now i (hdel_all r [k_payload q, k_attempts q] i u)))) =
      q_bury i p meta now (view r q u)" for u
    using assms(1) by (auto simp: keys_ok_def key_list_def q_bury_def hash_simps zset_simps
        intro!: view_eqI)
  show "max_attempts \<le> number (v_attempts (view r q s) i) \<Longrightarrow>
      view r q (fst (nack_script r q i t due max_attempts meta ttl dttl cutoff now s)) =
        q_bury i p meta now (q_prune cutoff (q_unmark i (q_release i (view r q s)))) \<and>
      snd (nack_script r q i t due max_attempts meta ttl dttl cutoff now s) = Reply 2"
    using assms(2,3)
    by (simp add: nack_script_def Let_def num bury view_drop_expired [OF assms(1)] rel)
qed

lemma view_reclaim_one:
  assumes "keys_ok q" and "in_range (number (v_attempts (view r q s) i))"
  shows "view r q (reclaim_one r q now i s) = q_reclaim now i (view r q s)"
proof (cases "zscore r s (k_leased q) i")
  case None
  moreover from None have "view r q (fst (zrem r (k_leased q) i s)) = view r q s"
    by (intro view_eqI) (auto simp: hash_simps zset_simps)
  ultimately show ?thesis by (simp add: reclaim_one_def q_reclaim_def split_beta zrem_count Let_def)
next
  case (Some x)
  let ?s = "hdel r (k_tokens q) i (fst (zrem r (k_leased q) i s))"
  have v: "view r q ?s = q_release i (view r q s)" by (rule view_release [OF assms(1)])
  have h: "hexists r ?s (k_payload q) i = (v_payload (view r q s) i \<noteq> None)"
    "hexists r ?s (k_marker q) i = (v_marker (view r q s) i \<noteq> None)"
    using assms(1) by (auto simp: hexists_def hash_simps keys_ok_def key_list_def)
  have f: "view r q (refund r q i ?s) = q_refund i (q_release i (view r q s))"
    using view_refund [OF assms(1), of ?s i] assms(2) by (simp add: v)
  show ?thesis
    using Some by (simp add: reclaim_one_def q_reclaim_def split_beta zrem_count Let_def h
        view_ready [OF assms(1)] v f)
qed

lemma view_replay:
  assumes "keys_ok q"
  shows "view r q (fst (replay_dlq_script r q i due ttl cutoff s)) =
    (case (v_dlq_payload (view r q s) i, v_dlq (view r q s) i) of
       (Some p, Some x) \<Rightarrow> if x \<le> cutoff then view r q s else q_exhume i p due (view r q s)
     | _ \<Rightarrow> view r q s)"
  using assms
  by (auto simp: replay_dlq_script_def keys_ok_def key_list_def q_exhume_def q_enqueue_def
      q_unmark_def hash_simps zset_simps Let_def split: option.splits intro!: view_eqI)

lemma view_pexpire [simp]: "view r q (pexpire r k ttl s) = view r q s"
  by (rule view_eqI) (simp_all add: hash_simps zset_simps)

lemma view_mark:
  assumes "keys_ok q"
  shows "view r q (fst (route_missing_since_script r q i now ttl s)) =
    (if v_marker (view r q s) i = None then q_mark i (show_int now) (view r q s) else view r q s)"
proof (cases "hget r s (k_marker q) i")
  case None
  have "view r q (hset r (k_marker q) i (show_int now) s) = q_mark i (show_int now) (view r q s)"
    using assms by (auto simp: keys_ok_def key_list_def q_mark_def hash_simps zset_simps
        intro!: view_eqI)
  then show ?thesis by (simp add: route_missing_since_script_def None)
qed (simp add: route_missing_since_script_def)

lemma view_clear:
  assumes "keys_ok q" and "v_tokens (view r q s) i = Some t"
  shows "view r q (fst (clear_route_missing_script r q i t s)) = q_unmark i (view r q s)"
    and "snd (clear_route_missing_script r q i t s) = Reply 1"
  using assms
  by (auto simp: clear_route_missing_script_def keys_ok_def key_list_def q_unmark_def hash_simps
      zset_simps intro!: view_eqI)

lemma view_claim:
  assumes "keys_ok q" and "\<And>i. v_ready (view r q s) i \<noteq> None \<Longrightarrow> in_range (number (v_attempts (view r q s) i))"
  obtains (idle) "claim_script r q now until t ttl s = (s, None)"
      and "\<And>i y. v_ready (view r q s) i = Some y \<Longrightarrow> now < y"
  | (orphan) i where "due_first (view r q s) now i" and "v_payload (view r q s) i = None"
      and "snd (claim_script r q now until t ttl s) = None"
      and "view r q (fst (claim_script r q now until t ttl s)) = q_orphan i (view r q s)"
  | (claimed) i p where "due_first (view r q s) now i" and "v_payload (view r q s) i = Some p"
      and "snd (claim_script r q now until t ttl s) =
        Some (i, p, number (v_attempts (view r q s) i) + 1, t)"
      and "view r q (fst (claim_script r q now until t ttl s)) = q_claim i until t (view r q s)"
proof (cases "zupto r s (k_ready q) now")
  case Nil
  then have "\<forall>i y. zscore r s (k_ready q) i = Some y \<longrightarrow> now < y"
    using zupto_set [of s "k_ready q" now] by (metis (mono_tags, lifting) empty_set empty_iff
        mem_Collect_eq not_le)
  with Nil show ?thesis by (intro idle) (simp_all add: claim_script_def)
next
  case (Cons i ids)
  have first: "due_first (view r q s) now i"
    using zupto_hd [OF Cons] by (auto simp: due_first_def)
  then have ready: "zscore r s (k_ready q) i \<noteq> None" by (auto simp: due_first_def)
  show ?thesis
  proof (cases "hget r s (k_payload q) i")
    case None
    have "view r q (hdel r (k_attempts q) i (fst (zrem r (k_ready q) i s))) = q_orphan i (view r q s)"
      using assms(1) by (auto simp: keys_ok_def key_list_def q_orphan_def hash_simps zset_simps
          intro!: view_eqI)
    with first None Cons show ?thesis by (intro orphan) (simp_all add: claim_script_def)
  next
    case (Some p)
    let ?s = "fst (zrem r (k_ready q) i s)"
    let ?n = "hget_number r s (k_attempts q) i"
    have n: "hget_number r ?s (k_attempts q) i = ?n" by (simp add: hget_number_def hash_simps)
    have range: "in_range ?n" using assms(2) [of i] ready by (simp add: number_hget)
    have inc: "hincrby r (k_attempts q) i 1 ?s = (hset r (k_attempts q) i (show_int (?n + 1)) ?s, ?n + 1)"
      using hincrby_in_range [of ?s "k_attempts q" i 1] range by (simp add: n)
    have c: "claim_script r q now until t ttl s =
      (pexpire_all r (live_keys q) ttl (hset r (k_tokens q) i t (zadd r (k_leased q) until i
        (hset r (k_attempts q) i (show_int (?n + 1)) ?s))), Some (i, p, ?n + 1, t))"
      using Cons Some ready by (simp add: claim_script_def split_beta zrem_count Let_def inc)
    have "view r q (hset r (k_tokens q) i t (zadd r (k_leased q) until i
        (hset r (k_attempts q) i (show_int (?n + 1)) ?s))) = q_claim i until t (view r q s)"
      using assms(1) by (auto simp: keys_ok_def key_list_def q_claim_def number_hget hash_simps
          zset_simps intro!: view_eqI)
    with first Some show ?thesis by (intro claimed) (simp_all add: c number_hget)
  qed
qed

end

section \<open>Well-formed queues\<close>

text \<open>
  What holds of every event: it waits in at most one place; it has a payload exactly while it is
  ready or leased, a token exactly while it is leased, an attempt counter exactly with its
  payload, and a dead-letter payload and note exactly while it is dead-lettered.
\<close>

definition event_ok :: "nat \<Rightarrow> qview \<Rightarrow> string \<Rightarrow> bool" where
  "event_ok k v i \<longleftrightarrow>
     (v_ready v i = None \<or> v_leased v i = None) \<and>
     (v_payload v i \<noteq> None \<longleftrightarrow> v_ready v i \<noteq> None \<or> v_leased v i \<noteq> None) \<and>
     (v_tokens v i \<noteq> None \<longleftrightarrow> v_leased v i \<noteq> None) \<and>
     (v_dlq v i = None \<or> v_payload v i = None) \<and>
     (v_dlq_payload v i \<noteq> None \<longleftrightarrow> v_dlq v i \<noteq> None) \<and>
     (v_dlq_meta v i \<noteq> None \<longleftrightarrow> v_dlq v i \<noteq> None) \<and>
     (v_payload v i = None \<longrightarrow> v_attempts v i = None) \<and>
     (v_payload v i \<noteq> None \<longrightarrow> (\<exists>m \<le> k. v_attempts v i = Some (show_int (int m))))"

definition queue_inv :: "nat \<Rightarrow> qview \<Rightarrow> bool" where
  "queue_inv k v = (\<forall>i. event_ok k v i)"

definition empty_view :: qview where
  "empty_view = \<lparr>v_ready = Map.empty, v_leased = Map.empty, v_payload = Map.empty,
     v_attempts = Map.empty, v_tokens = Map.empty, v_dlq = Map.empty, v_dlq_payload = Map.empty,
     v_dlq_meta = Map.empty, v_marker = Map.empty\<rparr>"

lemma empty_view_inv: "queue_inv k empty_view"
  by (simp add: queue_inv_def event_ok_def empty_view_def)

lemma event_ok_mono: "event_ok k v i \<Longrightarrow> event_ok (Suc k) v i"
  unfolding event_ok_def by (meson le_SucI)

lemma number_show_int [simp]:
  "- (2 ^ 63) \<le> m \<Longrightarrow> m < 2 ^ 63 \<Longrightarrow> number (Some (show_int m)) = m"
  by (simp add: number_def)

lemma number_None [simp]: "number None = 0"
  by (simp add: number_def)

lemma number_counter:
  assumes "m \<le> k" and "k < 2 ^ 62"
  shows "number (Some (show_int (int m))) = int m" and "int m < 2 ^ 62"
proof -
  have "int m < int (2 ^ 62)" using assms by (simp only: of_nat_less_iff)
  then show "int m < 2 ^ 62" by simp
  then show "number (Some (show_int (int m))) = int m" by (intro number_show_int) simp_all
qed

lemma inv_in_range:
  assumes "queue_inv k v" and "k < 2 ^ 62"
  shows "in_range (number (v_attempts v i))" and "0 \<le> number (v_attempts v i)"
proof -
  have "event_ok k v i" using assms(1) by (simp add: queue_inv_def)
  then have "v_attempts v i = None \<or> (\<exists>m \<le> k. v_attempts v i = Some (show_int (int m)))"
    unfolding event_ok_def by blast
  then obtain m where "number (v_attempts v i) = int m" "int m < 2 ^ 62"
    using number_counter [OF _ assms(2)] by (metis number_None of_nat_0 zero_less_numeral zero_less_power)
  then show "in_range (number (v_attempts v i))" and "0 \<le> number (v_attempts v i)"
    by (simp_all add: in_range_def)
qed

text \<open>A change of one event keeps the rest.\<close>

definition same_but :: "string \<Rightarrow> qview \<Rightarrow> qview \<Rightarrow> bool" where
  "same_but i v w \<longleftrightarrow> (\<forall>j. j \<noteq> i \<longrightarrow> v_ready w j = v_ready v j \<and> v_leased w j = v_leased v j \<and>
     v_payload w j = v_payload v j \<and> v_attempts w j = v_attempts v j \<and> v_tokens w j = v_tokens v j \<and>
     v_dlq w j = v_dlq v j \<and> v_dlq_payload w j = v_dlq_payload v j \<and> v_dlq_meta w j = v_dlq_meta v j)"

lemma same_but_refl: "same_but i v v" by (simp add: same_but_def)

lemma same_but_trans: "same_but i v w \<Longrightarrow> same_but i w u \<Longrightarrow> same_but i v u"
  by (simp add: same_but_def)

lemma same_but_ops:
  "same_but i v (q_enqueue i p x v)" "same_but i v (q_orphan i v)" "same_but i v (q_claim i x t v)"
  "same_but i v (q_ack i v)" "same_but i v (q_renew i x v)" "same_but i v (q_refund i v)"
  "same_but i v (q_release i v)" "same_but i v (q_ready i x v)" "same_but i v (q_unmark i v)"
  "same_but i v (q_mark i t v)" "same_but i v (q_bury i p t x v)" "same_but i v (q_reclaim x i v)"
  "same_but i v (q_exhume i p x v)"
  by (auto simp: same_but_def q_defs)

lemma inv_by_event:
  assumes "queue_inv k v" and "same_but i v w" and "event_ok (Suc k) w i"
  shows "queue_inv (Suc k) w"
proof -
  have "event_ok (Suc k) w j" for j
  proof (cases "j = i")
    case False
    have "event_ok k v j" using assms(1) by (simp add: queue_inv_def)
    then have "event_ok (Suc k) v j" by (rule event_ok_mono)
    moreover from False assms(2) have "event_ok (Suc k) w j = event_ok (Suc k) v j"
      by (simp add: same_but_def event_ok_def)
    ultimately show ?thesis by simp
  qed (use assms(3) in simp)
  then show ?thesis by (simp add: queue_inv_def)
qed

lemma inv_prune: "queue_inv k v \<Longrightarrow> queue_inv k (q_prune x v)"
  by (auto simp: queue_inv_def event_ok_def q_prune_def Let_def)

lemma inv_event: "queue_inv k v \<Longrightarrow> event_ok k v i"
  by (simp add: queue_inv_def)

lemma inv_enqueue:
  assumes "queue_inv k v" and "v_payload v i = None" and "v_dlq_payload v i = None"
  shows "queue_inv (Suc k) (q_enqueue i p x v)"
proof (rule inv_by_event [OF assms(1) same_but_ops(1)])
  have "''0'' = show_int (int 0)" by code_simp
  then show "event_ok (Suc k) (q_enqueue i p x v) i"
    using inv_event [OF assms(1), of i] assms(2,3)
    by (auto simp: event_ok_def q_enqueue_def simp del: of_nat_0 intro!: exI [of _ 0])
qed

lemma inv_claim:
  assumes "queue_inv k v" and "v_ready v i \<noteq> None" and "v_payload v i \<noteq> None" and "k < 2 ^ 62"
  shows "queue_inv (Suc k) (q_claim i x t v)"
proof (rule inv_by_event [OF assms(1) same_but_ops(3)])
  note e = inv_event [OF assms(1), of i]
  with assms(3) obtain m where m: "m \<le> k" "v_attempts v i = Some (show_int (int m))"
    unfolding event_ok_def by blast
  then have "number (v_attempts v i) + 1 = int (Suc m)"
    using number_counter(1) [OF m(1) assms(4)] by simp
  then have "v_attempts (q_claim i x t v) i = Some (show_int (int (Suc m)))"
    by (simp add: q_claim_def add.commute)
  moreover have "Suc m \<le> Suc k" using m(1) by simp
  ultimately have "\<exists>m \<le> Suc k. v_attempts (q_claim i x t v) i = Some (show_int (int m))" by blast
  with e assms(2,3) show "event_ok (Suc k) (q_claim i x t v) i"
    by (auto simp: event_ok_def q_claim_def)
qed

lemma inv_ack:
  assumes "queue_inv k v" and "v_tokens v i = Some t"
  shows "queue_inv (Suc k) (q_ack i v)"
  using inv_event [OF assms(1), of i] assms(2)
  by (intro inv_by_event [OF assms(1) same_but_ops(4)]) (auto simp: event_ok_def q_ack_def)

lemma inv_renew:
  assumes "queue_inv k v" and "v_leased v i \<noteq> None"
  shows "queue_inv (Suc k) (q_renew i x v)"
  using event_ok_mono [OF inv_event [OF assms(1), of i]] assms(2)
  by (intro inv_by_event [OF assms(1) same_but_ops(5)]) (auto simp: event_ok_def q_renew_def)

text \<open>A live event that leaves its lease and is ready again, with its counter kept or refunded.\<close>

lemma refund_counter:
  assumes "m \<le> k" and "k < 2 ^ 62" and "v_attempts v i = Some (show_int (int m))"
  shows "\<exists>m \<le> k. v_attempts (q_refund i v) i = Some (show_int (int m))"
proof (cases m)
  case 0
  then show ?thesis using number_counter(1) [OF assms(1,2)] assms(3) by (auto simp: q_refund_def)
next
  case (Suc n)
  have "number (v_attempts v i) = int m" using number_counter(1) [OF assms(1,2)] assms(3) by simp
  then have "v_attempts (q_refund i v) i = Some (show_int (int n))" by (simp add: q_refund_def Suc)
  then show ?thesis using assms(1) Suc by (intro exI [of _ n]) simp
qed

lemma requeued_ok:
  assumes "event_ok k v i" and "v_leased v i \<noteq> None" and "k < 2 ^ 62"
    and "w = q_release i v \<or> w = q_refund i (q_release i v) \<or> w = q_unmark i (q_release i v)"
  shows "event_ok k (q_ready i x w) i"
proof -
  have p: "v_payload v i \<noteq> None" using assms(1,2) unfolding event_ok_def by blast
  then obtain m where m: "m \<le> k" "v_attempts v i = Some (show_int (int m))"
    using assms(1) unfolding event_ok_def by blast
  then have "v_attempts (q_release i v) i = Some (show_int (int m))" by simp
  from refund_counter [OF m(1) assms(3) this]
  have "\<exists>m \<le> k. v_attempts w i = Some (show_int (int m))"
    using assms(4) m by (auto simp: q_unmark_def)
  moreover have "v_ready w i = None" "v_leased w i = None" "v_tokens w i = None"
    "v_payload w i = v_payload v i" "v_dlq w i = v_dlq v i" "v_dlq_payload w i = v_dlq_payload v i"
    "v_dlq_meta w i = v_dlq_meta v i"
    using assms(1,2,4) by (auto simp: event_ok_def q_release_def q_refund_def q_unmark_def)
  ultimately show ?thesis using assms(1) p unfolding event_ok_def by (auto simp: q_ready_def)
qed

lemma inv_requeue:
  assumes "queue_inv k v" and "v_leased v i \<noteq> None" and "k < 2 ^ 62"
    and "w = q_release i v \<or> w = q_refund i (q_release i v) \<or> w = q_unmark i (q_release i v)"
  shows "queue_inv k (q_ready i x w)"
proof -
  have "same_but i v (q_ready i x w)"
    using assms(4) same_but_trans same_but_ops by (metis (no_types, lifting))
  moreover have "event_ok k (q_ready i x w) i"
    using assms by (intro requeued_ok) (auto simp: inv_event)
  ultimately show ?thesis
    using assms(1) unfolding queue_inv_def same_but_def event_ok_def by metis
qed

lemma inv_reclaim:
  assumes "queue_inv k v" and "k < 2 ^ 62"
  shows "queue_inv k (q_reclaim x i v)"
proof -
  have "v_leased v i \<noteq> None \<Longrightarrow> v_payload v i \<noteq> None"
    using inv_event [OF assms(1), of i] unfolding event_ok_def by blast
  then show ?thesis
    using assms inv_requeue [OF assms(1)] by (auto simp: q_reclaim_def)
qed

lemma inv_bury:
  assumes "queue_inv k v" and "v_leased v i \<noteq> None" and "v_payload v i = Some p"
  shows "queue_inv (Suc k) (q_bury i p t now (q_prune c (q_unmark i (q_release i v))))"
proof -
  have u: "event_ok k (q_unmark i v) j \<longleftrightarrow> event_ok k v j" for j
    by (simp add: event_ok_def q_unmark_def)
  then have p: "queue_inv k (q_prune c (q_unmark i v))"
    using assms(1) by (intro inv_prune) (simp add: queue_inv_def)
  have "q_bury i p t now (q_prune c (q_unmark i (q_release i v))) =
      q_bury i p t now (q_release i (q_prune c (q_unmark i v)))"
    by (cases v) (simp add: q_prune_def q_unmark_def q_release_def q_bury_def Let_def cong: if_cong)
  moreover have "queue_inv (Suc k) (q_bury i p t now (q_release i (q_prune c (q_unmark i v))))"
  proof (rule inv_by_event [OF p])
    show "same_but i (q_prune c (q_unmark i v)) (q_bury i p t now (q_release i (q_prune c (q_unmark i v))))"
      by (rule same_but_trans [OF same_but_ops(7) same_but_ops(11)])
    show "event_ok (Suc k) (q_bury i p t now (q_release i (q_prune c (q_unmark i v)))) i"
      using inv_event [OF p, of i] assms(2)
      by (auto simp: event_ok_def q_bury_def q_release_def q_unmark_def q_prune_def Let_def)
  qed
  ultimately show ?thesis by simp
qed

lemma inv_exhume:
  assumes "queue_inv k v" and "v_dlq_payload v i = Some p"
  shows "queue_inv (Suc k) (q_exhume i p x v)"
proof (rule inv_by_event [OF assms(1) same_but_ops(13)])
  have "''0'' = show_int (int 0)" by code_simp
  moreover have "v_payload v i = None"
    using inv_event [OF assms(1), of i] assms(2) unfolding event_ok_def by blast
  ultimately show "event_ok (Suc k) (q_exhume i p x v) i"
    using inv_event [OF assms(1), of i] assms(2)
    by (auto simp: event_ok_def q_exhume_def q_enqueue_def q_unmark_def simp del: of_nat_0
        intro!: exI [of _ 0])
qed

lemma inv_marks: "queue_inv k (q_mark i t v) = queue_inv k v" "queue_inv k (q_unmark i v) = queue_inv k v"
  by (simp_all add: queue_inv_def event_ok_def q_mark_def q_unmark_def)

lemma inv_Suc: "queue_inv k v \<Longrightarrow> queue_inv (Suc k) v"
  by (simp add: queue_inv_def event_ok_mono)

section \<open>Histories of the queue\<close>

text \<open>
  Each operation of \<open>RedisQueue\<close> runs one script; a history is the sequence of operations that
  handlers, workers, the reclaimer and operators have issued, in the order Redis ran them.
\<close>

datatype queue_op =
    OpEnqueue string string int
  | OpClaim int int string
  | OpAck string string
  | OpRenew string string int
  | OpDefer string string int
  | OpNack string string int int string int int
  | OpReclaim int nat
  | OpReplay string int int
  | OpPrune int
  | OpMark string int
  | OpClear string string

fun run_op :: "'s redis \<Rightarrow> queue_keys \<Rightarrow> int \<Rightarrow> int \<Rightarrow> queue_op \<Rightarrow> 's \<Rightarrow> 's" where
  "run_op r q ttl dttl (OpEnqueue i p due) s = fst (enqueue_script r q i p due ttl s)"
| "run_op r q ttl dttl (OpClaim now until t) s = fst (claim_script r q now until t ttl s)"
| "run_op r q ttl dttl (OpAck i t) s = fst (ack_script r q i t s)"
| "run_op r q ttl dttl (OpRenew i t until) s = fst (renew_script r q i t until ttl s)"
| "run_op r q ttl dttl (OpDefer i t due) s = fst (defer_script r q i t due ttl s)"
| "run_op r q ttl dttl (OpNack i t due m meta cutoff now) s =
     fst (nack_script r q i t due m meta ttl dttl cutoff now s)"
| "run_op r q ttl dttl (OpReclaim now limit) s = fst (reclaim_script r q now limit ttl s)"
| "run_op r q ttl dttl (OpReplay i due cutoff) s = fst (replay_dlq_script r q i due ttl cutoff s)"
| "run_op r q ttl dttl (OpPrune cutoff) s = fst (prune_dlq_script r q cutoff s)"
| "run_op r q ttl dttl (OpMark i now) s = fst (route_missing_since_script r q i now ttl s)"
| "run_op r q ttl dttl (OpClear i t) s = fst (clear_route_missing_script r q i t s)"

definition run_ops :: "'s redis \<Rightarrow> queue_keys \<Rightarrow> int \<Rightarrow> int \<Rightarrow> queue_op list \<Rightarrow> 's \<Rightarrow> 's" where
  "run_ops r q ttl dttl ops s = fold (run_op r q ttl dttl) ops s"

text \<open>Where an event's payload is: with the live events or with the dead letters.\<close>

definition kept :: "qview \<Rightarrow> string \<Rightarrow> string \<Rightarrow> bool" where
  "kept v i p = (v_payload v i = Some p \<or> v_dlq_payload v i = Some p)"

text \<open>The two ways an event leaves the queue: its owner acknowledges it, or it is dead-lettered and
  its retention has passed when dead letters are pruned.\<close>

fun op_removes :: "qview \<Rightarrow> queue_op \<Rightarrow> string \<Rightarrow> bool" where
  "op_removes v (OpAck i t) j = (i = j \<and> v_tokens v i = Some t)"
| "op_removes v (OpNack i t due m meta cutoff now) j =
     (v_tokens v i = Some t \<and> m \<le> number (v_attempts v i) \<and> old_letter cutoff v j)"
| "op_removes v (OpPrune cutoff) j = old_letter cutoff v j"
| "op_removes v _ j = False"

context redis_laws
begin

lemma view_stale:
  assumes "v_tokens (view r q s) i \<noteq> Some t"
  shows "ack_script r q i t s = (s, Reply 0)" "renew_script r q i t until ttl s = (s, Reply 0)"
    "defer_script r q i t due ttl s = (s, Reply 0)"
    "nack_script r q i t due m meta ttl dttl cutoff now s = (s, Reply 0)"
    "clear_route_missing_script r q i t s = (s, Reply 0)"
  using assms
  by (simp_all add: ack_script_def renew_script_def defer_script_def nack_script_def
      clear_route_missing_script_def)

lemma reclaim_fold:
  assumes "keys_ok q" and "queue_inv k (view r q s)" and "k < 2 ^ 62"
  shows "view r q (fold (reclaim_one r q now) is s) = fold (q_reclaim now) is (view r q s) \<and>
    queue_inv k (fold (q_reclaim now) is (view r q s))"
  using assms(2)
proof (induction "is" arbitrary: s)
  case (Cons i "is")
  have v: "view r q (reclaim_one r q now i s) = q_reclaim now i (view r q s)"
    by (rule view_reclaim_one [OF assms(1) inv_in_range(1) [OF Cons.prems assms(3)]])
  have "queue_inv k (view r q (reclaim_one r q now i s))"
    unfolding v by (rule inv_reclaim [OF Cons.prems assms(3)])
  from Cons.IH [OF this] show ?case by (simp add: v)
qed simp

lemma inv_claim_script:
  assumes "keys_ok q" and "queue_inv k (view r q s)" and "k < 2 ^ 62"
  shows "queue_inv (Suc k) (view r q (fst (claim_script r q now until t ttl s)))"
proof (cases rule: view_claim [OF assms(1) inv_in_range(1) [OF assms(2,3)], of now until t ttl])
  case 1
  then show ?thesis using assms(2) by (simp add: inv_Suc)
next
  case (2 i)
  then have "v_ready (view r q s) i \<noteq> None" by (auto simp: due_first_def)
  with 2(2) inv_event [OF assms(2), of i] show ?thesis unfolding event_ok_def by blast
next
  case (3 i p)
  then have "v_ready (view r q s) i \<noteq> None" by (auto simp: due_first_def)
  with 3 assms show ?thesis by (simp add: inv_claim)
qed

lemma inv_step:
  assumes "keys_ok q" and "queue_inv k (view r q s)" and "k < 2 ^ 62"
  shows "queue_inv (Suc k) (view r q (run_op r q ttl dttl op s))"
proof -
  note stay = inv_Suc [OF assms(2)]
  have leased: "v_leased (view r q s) i \<noteq> None \<and> v_payload (view r q s) i \<noteq> None"
    if "v_tokens (view r q s) i = Some t" for i t
    using inv_event [OF assms(2), of i] that unfolding event_ok_def by blast
  note range = inv_in_range(1) [OF assms(2,3)]
  show ?thesis
  proof (cases op)
    case (OpEnqueue i p due)
    then show ?thesis using stay inv_enqueue [OF assms(2)] by (simp add: view_enqueue [OF assms(1)])
  next
    case (OpClaim now until t)
    then show ?thesis using inv_claim_script [OF assms] by simp
  next
    case (OpAck i t)
    show ?thesis
    proof (cases "v_tokens (view r q s) i = Some t")
      case True
      then show ?thesis using OpAck inv_ack [OF assms(2) True] view_ack(2) [OF assms(1) True] by simp
    qed (use OpAck stay view_stale in simp)
  next
    case (OpRenew i t until)
    show ?thesis
    proof (cases "v_tokens (view r q s) i = Some t")
      case True
      with leased have l: "v_leased (view r q s) i \<noteq> None" by blast
      then show ?thesis
        using OpRenew inv_renew [OF assms(2) l] view_renew(1) [OF assms(1) True l] by simp
    qed (use OpRenew stay view_stale in simp)
  next
    case (OpDefer i t due)
    show ?thesis
    proof (cases "v_tokens (view r q s) i = Some t")
      case True
      with leased have l: "v_leased (view r q s) i \<noteq> None" by blast
      then have "queue_inv (Suc k) (q_ready i due (q_refund i (q_release i (view r q s))))"
        by (intro inv_Suc inv_requeue [OF assms(2) l assms(3)]) simp
      then show ?thesis using OpDefer view_defer(1) [OF assms(1) True l range] by simp
    qed (use OpDefer stay view_stale in simp)
  next
    case (OpNack i t due m meta cutoff now)
    show ?thesis
    proof (cases "v_tokens (view r q s) i = Some t")
      case True
      with leased obtain p where l: "v_leased (view r q s) i \<noteq> None"
        and p: "v_payload (view r q s) i = Some p" by blast
      have "queue_inv (Suc k) (q_ready i due (q_unmark i (q_release i (view r q s))))"
        by (intro inv_Suc inv_requeue [OF assms(2) l assms(3)]) simp
      moreover note inv_bury [OF assms(2) l p]
      ultimately show ?thesis
        using OpNack view_nack [OF assms(1) True p]
        by (cases "number (v_attempts (view r q s) i) < m") (simp_all add: not_less)
    qed (use OpNack stay view_stale in simp)
  next
    case (OpReclaim now limit)
    then show ?thesis
      using reclaim_fold [OF assms(1,2,3)] by (simp add: reclaim_script_def Let_def inv_Suc)
  next
    case (OpReplay i due cutoff)
    then show ?thesis
      using stay inv_exhume [OF assms(2)]
      by (auto simp: view_replay [OF assms(1)] split: option.splits)
  next
    case (OpPrune cutoff)
    then show ?thesis
      using inv_Suc [OF inv_prune [OF assms(2)]]
      by (simp add: prune_dlq_script_def view_drop_expired [OF assms(1)])
  next
    case (OpMark i now)
    then show ?thesis using stay by (simp add: view_mark [OF assms(1)] inv_marks)
  next
    case (OpClear i t)
    show ?thesis
    proof (cases "v_tokens (view r q s) i = Some t")
      case True
      then show ?thesis using OpClear stay view_clear(1) [OF assms(1) True] by (simp add: inv_marks)
    qed (use OpClear stay view_stale in simp)
  qed
qed

lemma inv_run:
  assumes "keys_ok q" and "queue_inv k (view r q s)" and "k + length ops < 2 ^ 62"
  shows "queue_inv (k + length ops) (view r q (run_ops r q ttl dttl ops s))"
  using assms(2,3)
proof (induction ops arbitrary: k s)
  case (Cons op ops)
  have "queue_inv (Suc k) (view r q (run_op r q ttl dttl op s))"
    using Cons.prems by (intro inv_step [OF assms(1)]) simp_all
  from Cons.IH [OF this] Cons.prems(2) show ?case by (simp add: run_ops_def)
qed (simp add: run_ops_def)

end

definition queue_op_token :: "queue_op \<Rightarrow> string option" where
  "queue_op_token op = (case op of OpClaim now until t \<Rightarrow> Some t | _ \<Rightarrow> None)"

text \<open>Whether some operation of a history, run from a store, removes an event.\<close>

fun removed_in :: "'s redis \<Rightarrow> queue_keys \<Rightarrow> int \<Rightarrow> int \<Rightarrow> queue_op list \<Rightarrow> string \<Rightarrow> 's \<Rightarrow> bool" where
  "removed_in r q ttl dttl [] i s = False"
| "removed_in r q ttl dttl (op # ops) i s =
     (op_removes (view r q s) op i \<or> removed_in r q ttl dttl ops i (run_op r q ttl dttl op s))"

end
