(* ===== verification/Queue_Spec.thy ===== *)
theory Queue_Spec
  imports Action_Queue
begin

text \<open>
  What the durable queue promises, as a transition relation on the abstract queue: one rule for
  each effect a script can have, with its guard, and \<open>q_idle\<close> for the calls that change nothing.
  Every script run on a store whose queue is well formed is a step of this relation
  (\<open>run_op_refines\<close>); the properties of the queue are then proved by cases on the steps.
\<close>

fun q_idle :: "qview \<Rightarrow> queue_op \<Rightarrow> bool" where
  "q_idle v (OpEnqueue i p due) = (v_payload v i \<noteq> None \<or> v_dlq_payload v i \<noteq> None)"
| "q_idle v (OpClaim now until t) = (\<forall>i y. v_ready v i = Some y \<longrightarrow> now < y)"
| "q_idle v (OpAck i t) = (v_tokens v i \<noteq> Some t)"
| "q_idle v (OpRenew i t until) = (v_tokens v i \<noteq> Some t)"
| "q_idle v (OpDefer i t due) = (v_tokens v i \<noteq> Some t)"
| "q_idle v (OpNack i t due m meta cutoff now) = (v_tokens v i \<noteq> Some t)"
| "q_idle v (OpReclaim now limit) = False"
| "q_idle v (OpReplay i due cutoff) = (\<forall>x > cutoff. v_dlq v i \<noteq> Some x)"
| "q_idle v (OpPrune cutoff) = False"
| "q_idle v (OpMark i now) = (v_marker v i \<noteq> None)"
| "q_idle v (OpClear i t) = (v_tokens v i \<noteq> Some t)"

inductive qstep :: "qview \<Rightarrow> queue_op \<Rightarrow> qview \<Rightarrow> bool" where
  idle: "q_idle v op \<Longrightarrow> qstep v op v"
| enqueue: "v_payload v i = None \<Longrightarrow> v_dlq_payload v i = None \<Longrightarrow>
    qstep v (OpEnqueue i p due) (q_enqueue i p due v)"
| claim: "due_first v now i \<Longrightarrow> v_payload v i = Some p \<Longrightarrow>
    qstep v (OpClaim now until t) (q_claim i until t v)"
| ack: "v_tokens v i = Some t \<Longrightarrow> qstep v (OpAck i t) (q_ack i v)"
| renew: "v_tokens v i = Some t \<Longrightarrow> v_leased v i \<noteq> None \<Longrightarrow>
    qstep v (OpRenew i t until) (q_renew i until v)"
| defer_lease: "v_tokens v i = Some t \<Longrightarrow> v_leased v i \<noteq> None \<Longrightarrow>
    qstep v (OpDefer i t due) (q_ready i due (q_refund i (q_release i v)))"
| retry: "v_tokens v i = Some t \<Longrightarrow> v_leased v i \<noteq> None \<Longrightarrow> number (v_attempts v i) < m \<Longrightarrow>
    qstep v (OpNack i t due m meta cutoff now) (q_ready i due (q_unmark i (q_release i v)))"
| bury: "v_tokens v i = Some t \<Longrightarrow> v_leased v i \<noteq> None \<Longrightarrow> v_payload v i = Some p \<Longrightarrow>
    m \<le> number (v_attempts v i) \<Longrightarrow>
    qstep v (OpNack i t due m meta cutoff now)
      (q_bury i p meta now (q_prune cutoff (q_unmark i (q_release i v))))"
| reclaim: "distinct ids \<Longrightarrow>
    (\<And>i. i \<in> set ids \<Longrightarrow> \<exists>y \<le> now. v_leased v i = Some y) \<Longrightarrow>
    length ids < limit \<Longrightarrow> (\<And>i y. v_leased v i = Some y \<Longrightarrow> y \<le> now \<Longrightarrow> i \<in> set ids) \<Longrightarrow>
    qstep v (OpReclaim now limit) (fold (q_reclaim now) ids v)"
| reclaim_full: "length ids = limit \<Longrightarrow> distinct ids \<Longrightarrow>
    (\<And>i. i \<in> set ids \<Longrightarrow> \<exists>y \<le> now. v_leased v i = Some y) \<Longrightarrow>
    qstep v (OpReclaim now limit) (fold (q_reclaim now) ids v)"
| replay: "v_dlq_payload v i = Some p \<Longrightarrow> v_dlq v i = Some x \<Longrightarrow> cutoff < x \<Longrightarrow>
    qstep v (OpReplay i due cutoff) (q_exhume i p due v)"
| prune: "qstep v (OpPrune cutoff) (q_prune cutoff v)"
| mark: "v_marker v i = None \<Longrightarrow> qstep v (OpMark i now) (q_mark i (show_int now) v)"
| clear: "v_tokens v i = Some t \<Longrightarrow> qstep v (OpClear i t) (q_unmark i v)"

section \<open>Every script is a step\<close>

context redis_laws
begin

lemma reclaim_refines:
  assumes "keys_ok q" and "queue_inv k (view r q s)" and "k < 2 ^ 62"
  shows "qstep (view r q s) (OpReclaim now limit) (view r q (fst (reclaim_script r q now limit ttl s)))"
proof -
  let ?all = "zupto r s (k_leased q) now" and ?v = "view r q s"
  let ?ids = "take limit ?all"
  have w: "view r q (fst (reclaim_script r q now limit ttl s)) = fold (q_reclaim now) ?ids ?v"
    using reclaim_fold [OF assms] by (simp add: reclaim_script_def Let_def)
  have d: "distinct ?ids" using zupto_distinct by (simp add: distinct_take)
  have leased: "\<exists>y \<le> now. v_leased ?v i = Some y" if "i \<in> set ?ids" for i
  proof -
    have "i \<in> set ?all" using that by (rule in_set_takeD)
    then show ?thesis by (auto simp: zupto_set)
  qed
  show ?thesis
  proof (cases "length ?ids = limit")
    case True
    then show ?thesis unfolding w by (rule reclaim_full [OF _ d leased])
  next
    case False
    then have "?ids = ?all" and l: "length ?ids < limit" by auto
    then have "i \<in> set ?ids" if "v_leased ?v i = Some y" "y \<le> now" for i y
      using that by (auto simp: zupto_set)
    with l d leased show ?thesis unfolding w by (intro reclaim) auto
  qed
qed

lemma claim_refines:
  assumes "keys_ok q" and "queue_inv k (view r q s)" and "k < 2 ^ 62"
  shows "qstep (view r q s) (OpClaim now until t) (view r q (fst (claim_script r q now until t ttl s)))"
proof (cases rule: view_claim [OF assms(1) inv_in_range(1) [OF assms(2,3)], of now until t ttl])
  case 1
  then show ?thesis by (auto intro: qstep.idle)
next
  case (2 i)
  then have "v_ready (view r q s) i \<noteq> None" by (auto simp: due_first_def)
  with 2(2) inv_event [OF assms(2), of i] show ?thesis unfolding event_ok_def by blast
next
  case (3 i p)
  then show ?thesis by (auto intro: qstep.claim)
qed

lemma run_op_refines:
  assumes "keys_ok q" and "queue_inv k (view r q s)" and "k < 2 ^ 62"
  shows "qstep (view r q s) op (view r q (run_op r q ttl dttl op s))"
proof -
  let ?v = "view r q s"
  have leased: "v_leased ?v i \<noteq> None \<and> v_payload ?v i \<noteq> None" if "v_tokens ?v i = Some t" for i t
    using inv_event [OF assms(2), of i] that unfolding event_ok_def by blast
  note range = inv_in_range(1) [OF assms(2,3)]
  have stale: "qstep ?v op (view r q (run_op r q ttl dttl op s))"
    if "run_op r q ttl dttl op s = s" "q_idle ?v op"
    using that by (simp add: qstep.idle)
  show ?thesis
  proof (cases op)
    case (OpEnqueue i p due)
    show ?thesis
    proof (cases "q_idle ?v op")
      case True
      then have "view r q (run_op r q ttl dttl op s) = ?v"
        using OpEnqueue by (auto simp: view_enqueue [OF assms(1)])
      with True show ?thesis by (simp add: qstep.idle)
    next
      case False
      then show ?thesis using OpEnqueue by (auto simp: view_enqueue [OF assms(1)] intro: qstep.enqueue)
    qed
  next
    case (OpClaim now until t)
    then show ?thesis using claim_refines [OF assms] by simp
  next
    case (OpAck i t)
    show ?thesis
    proof (cases "v_tokens ?v i = Some t")
      case True
      then show ?thesis using OpAck qstep.ack [OF True] view_ack(2) [OF assms(1) True] by simp
    qed (use OpAck stale view_stale in simp)
  next
    case (OpRenew i t until)
    show ?thesis
    proof (cases "v_tokens ?v i = Some t")
      case True
      with leased have l: "v_leased ?v i \<noteq> None" by blast
      then show ?thesis
        using OpRenew qstep.renew [OF True l] view_renew(1) [OF assms(1) True l] by simp
    qed (use OpRenew stale view_stale in simp)
  next
    case (OpDefer i t due)
    show ?thesis
    proof (cases "v_tokens ?v i = Some t")
      case True
      with leased have l: "v_leased ?v i \<noteq> None" by blast
      then show ?thesis
        using OpDefer qstep.defer_lease [OF True l] view_defer(1) [OF assms(1) True l range] by simp
    qed (use OpDefer stale view_stale in simp)
  next
    case (OpNack i t due m meta cutoff now)
    show ?thesis
    proof (cases "v_tokens ?v i = Some t")
      case True
      with leased obtain p where l: "v_leased ?v i \<noteq> None" and p: "v_payload ?v i = Some p" by blast
      show ?thesis
        using OpNack view_nack [OF assms(1) True p] qstep.retry [OF True l] qstep.bury [OF True l p]
        by (cases "number (v_attempts ?v i) < m") (simp_all add: not_less)
    qed (use OpNack stale view_stale in simp)
  next
    case (OpReclaim now limit)
    then show ?thesis using reclaim_refines [OF assms] by simp
  next
    case (OpReplay i due cutoff)
    have dl: "v_dlq ?v i \<noteq> None \<longleftrightarrow> v_dlq_payload ?v i \<noteq> None"
      using inv_event [OF assms(2), of i] unfolding event_ok_def by blast
    show ?thesis
    proof (cases "q_idle ?v op")
      case True
      then have "view r q (run_op r q ttl dttl op s) = ?v"
        using OpReplay by (auto simp: view_replay [OF assms(1)] not_le split: option.splits)
      with True show ?thesis by (simp add: qstep.idle)
    next
      case False
      then obtain x where x: "cutoff < x" "v_dlq ?v i = Some x" using OpReplay by auto
      with dl obtain p where p: "v_dlq_payload ?v i = Some p" by blast
      from x p have "view r q (run_op r q ttl dttl op s) = q_exhume i p due ?v"
        using OpReplay by (simp add: view_replay [OF assms(1)])
      then show ?thesis unfolding OpReplay using qstep.replay [OF p x(2,1)] by simp
    qed
  next
    case (OpPrune cutoff)
    then show ?thesis
      by (simp add: prune_dlq_script_def view_drop_expired [OF assms(1)] qstep.prune)
  next
    case (OpMark i now)
    then show ?thesis
      by (cases "v_marker ?v i = None")
        (simp_all add: view_mark [OF assms(1)] qstep.mark qstep.idle)
  next
    case (OpClear i t)
    show ?thesis
    proof (cases "v_tokens ?v i = Some t")
      case True
      then show ?thesis using OpClear qstep.clear [OF True] view_clear(1) [OF assms(1) True] by simp
    qed (use OpClear stale view_stale in simp)
  qed
qed

lemma run_ops_append: "run_ops r q ttl dttl (ops @ ops') s = run_ops r q ttl dttl ops' (run_ops r q ttl dttl ops s)"
  by (simp add: run_ops_def)

end

section \<open>What steps preserve\<close>

lemma kept_reclaim: "kept v j p \<Longrightarrow> kept (fold (q_reclaim now) ids v) j p"
proof (induction ids arbitrary: v)
  case (Cons i ids)
  have "kept (q_reclaim now i v) j p" using Cons.prems by (simp add: kept_def q_defs)
  from Cons.IH [OF this] show ?case by simp
qed simp

lemma tokens_reclaim: "v_tokens (fold (q_reclaim now) ids v) j = Some t \<Longrightarrow> v_tokens v j = Some t"
proof (induction ids arbitrary: v)
  case (Cons i ids)
  from Cons.prems have "v_tokens (fold (q_reclaim now) ids (q_reclaim now i v)) j = Some t" by simp
  from Cons.IH [OF this] show ?case by (auto simp: q_defs split: if_splits)
qed simp

lemma kept_step:
  assumes "qstep v op w" and "event_ok k v j" and "kept v j p" and "\<not> op_removes v op j"
  shows "kept w j p"
  using assms
proof cases
  case (enqueue i p' due)
  with assms(3) show ?thesis by (auto simp: kept_def q_defs)
next
  case (ack i t)
  with assms(2-4) show ?thesis by (auto simp: kept_def q_defs event_ok_def)
next
  case (bury i t p' m meta cutoff now due)
  have dl: "v_dlq_payload v j \<noteq> None \<longleftrightarrow> v_dlq v j \<noteq> None" using assms(2) unfolding event_ok_def by blast
  have one: "v_dlq v j = None \<or> v_payload v j = None" using assms(2) by (simp add: event_ok_def)
  from bury assms(3,4) dl one show ?thesis
    by (auto simp: kept_def q_defs Let_def)
next
  case (replay i p' x cutoff due)
  have "v_payload v j = None" if "j = i"
    using assms(2) replay that unfolding event_ok_def by blast
  with replay assms(3) show ?thesis by (auto simp: kept_def q_defs)
next
  case (prune cutoff)
  with assms(2-4) show ?thesis by (auto simp: kept_def q_defs Let_def event_ok_def)
next
  case (reclaim ids now limit)
  with assms(3) show ?thesis by (simp add: kept_reclaim)
next
  case (reclaim_full ids limit now)
  with assms(3) show ?thesis by (simp add: kept_reclaim)
qed (auto simp: kept_def q_defs)

lemma token_step:
  assumes "qstep v op w" and "v_tokens w i = Some t"
  shows "v_tokens v i = Some t \<or> queue_op_token op = Some t"
  using assms
  by cases (auto simp: q_defs queue_op_token_def Let_def split: if_splits dest: tokens_reclaim)

section \<open>Histories\<close>

context redis_laws
begin

lemma history_inv:
  assumes "keys_ok q" and "view r q s = empty_view" and "length ops < 2 ^ 62"
  shows "queue_inv (length ops) (view r q (run_ops r q ttl dttl ops s))"
  using inv_run [OF assms(1), of 0 s ops ttl dttl] assms(2,3) by (simp add: empty_view_inv)

lemma kept_history:
  assumes "keys_ok q" and "queue_inv k (view r q s)" and "k + length ops < 2 ^ 62"
    and "kept (view r q s) i p" and "\<not> removed_in r q ttl dttl ops i s"
  shows "kept (view r q (run_ops r q ttl dttl ops s)) i p"
  using assms(2-)
proof (induction ops arbitrary: k s)
  case (Cons op ops)
  let ?s = "run_op r q ttl dttl op s"
  have k: "k < 2 ^ 62" using Cons.prems(2) by simp
  have "kept (view r q ?s) i p"
    using kept_step [OF run_op_refines [OF assms(1) Cons.prems(1) k] inv_event [OF Cons.prems(1)]]
      Cons.prems(3,4) by simp
  moreover have "queue_inv (Suc k) (view r q ?s)" by (rule inv_step [OF assms(1) Cons.prems(1) k])
  ultimately show ?case using Cons.IH [of "Suc k" ?s] Cons.prems(2,4) by (simp add: run_ops_def)
qed (simp add: run_ops_def)

lemma token_history:
  assumes "keys_ok q" and "queue_inv k (view r q s)" and "k + length ops < 2 ^ 62"
    and "v_tokens (view r q s) i \<noteq> Some t" and "Some t \<notin> queue_op_token ` set ops"
  shows "v_tokens (view r q (run_ops r q ttl dttl ops s)) i \<noteq> Some t"
  using assms(2-)
proof (induction ops arbitrary: k s)
  case (Cons op ops)
  let ?s = "run_op r q ttl dttl op s"
  have k: "k < 2 ^ 62" using Cons.prems(2) by simp
  have "queue_op_token op \<noteq> Some t" using Cons.prems(4) by force
  then have "v_tokens (view r q ?s) i \<noteq> Some t"
    using token_step [OF run_op_refines [OF assms(1) Cons.prems(1) k]] Cons.prems(3) by blast
  moreover have "queue_inv (Suc k) (view r q ?s)" by (rule inv_step [OF assms(1) Cons.prems(1) k])
  ultimately show ?case using Cons.IH [of "Suc k" ?s] Cons.prems(2,4) by (simp add: run_ops_def)
qed (simp add: run_ops_def)

end

lemma new_keys_ok: "keys_ok (new_queue_keys pfx)"
  by (simp add: keys_ok_def new_queue_keys_distinct)

section \<open>Properties\<close>

definition mem_empty :: mem where
  "mem_empty = \<lparr>mem_hash = [], mem_zset = []\<rparr>"

lemma mem_empty_view: "view mem_redis q mem_empty = empty_view"
  by (simp add: view_def empty_view_def mem_redis_def mem_empty_def)

definition sample_ops :: "queue_op list" where
  "sample_ops = [OpEnqueue ''7'' ''p'' 10, OpEnqueue ''8'' ''r'' 12, OpClaim 20 50 ''t1'',
     OpReclaim 60 5, OpClaim 70 99 ''t2'']"

definition sample_store :: mem where
  "sample_store = run_ops mem_redis (new_queue_keys ''q'') 1000 1000 sample_ops mem_empty"

lemma sample_length: "length sample_ops = 5"
  by (simp add: sample_ops_def)

text \<open>C10: the scripts are a refinement of the abstract queue: after any history of queue operations
  on initially empty keys, in any order and with any arguments, every further operation is a step
  of the abstract queue.\<close>

theorem queue_refines:
  assumes "redis_laws r" and "view r (new_queue_keys pfx) s = empty_view"
    and "length ops < 2 ^ 62"
  shows "qstep (view r (new_queue_keys pfx) (run_ops r (new_queue_keys pfx) ttl dttl ops s)) op
    (view r (new_queue_keys pfx) (run_ops r (new_queue_keys pfx) ttl dttl (ops @ [op]) s))"
  using redis_laws.run_op_refines [OF assms(1) new_keys_ok
      redis_laws.history_inv [OF assms(1) new_keys_ok assms(2,3)] assms(3)]
  by (simp add: run_ops_def)

theorem queue_refines_witness:
  "qstep (view mem_redis (new_queue_keys ''q'') sample_store) (OpAck ''7'' ''t1'')
    (view mem_redis (new_queue_keys ''q'')
      (run_ops mem_redis (new_queue_keys ''q'') 1000 1000 (sample_ops @ [OpAck ''7'' ''t1'']) mem_empty))"
  unfolding sample_store_def
  by (rule queue_refines [OF mem.redis_laws_axioms mem_empty_view]) (simp add: sample_length)

text \<open>C11: after any history of queue operations on initially empty keys, every event is in at most
  one of ready, leased and dead-lettered; it has a live payload exactly while it is ready or leased,
  a lease token exactly while it is leased, a dead-letter payload exactly while it is
  dead-lettered; and its attempt counter never exceeds the number of operations.\<close>

theorem queue_partition:
  assumes "redis_laws r" and "view r (new_queue_keys pfx) s = empty_view"
    and "length ops < 2 ^ 62"
  shows "queue_inv (length ops) (view r (new_queue_keys pfx) (run_ops r (new_queue_keys pfx) ttl dttl ops s))"
  by (rule redis_laws.history_inv [OF assms(1) new_keys_ok assms(2,3)])

theorem queue_partition_witness:
  "queue_inv 5 (view mem_redis (new_queue_keys ''q'') sample_store)"
  using queue_partition [OF mem.redis_laws_axioms mem_empty_view, of sample_ops "''q''" 1000 1000]
  unfolding sample_length
  by (simp add: sample_store_def sample_length)



end
