(* ===== verification/Queue_Props.thy ===== *)
theory Queue_Props
  imports Queue_Spec
begin

text \<open>
  Further properties of the durable queue, after any history of operations: which event a claim
  takes, what a lease token can still do, how the attempt budget moves, where a negatively
  acknowledged event goes, that reclaiming frees every expired lease, and that a dead letter can
  be replayed.
\<close>

text \<open>The four places an event can be in.\<close>

lemma event_cases [consumes 1, case_names absent ready leased dead]:
  assumes "event_ok k v i"
  obtains
    "v_ready v i = None" "v_leased v i = None" "v_payload v i = None" "v_attempts v i = None"
      "v_tokens v i = None" "v_dlq v i = None" "v_dlq_payload v i = None" "v_dlq_meta v i = None"
  | y p m where "v_ready v i = Some y" "v_leased v i = None" "v_payload v i = Some p"
      "v_attempts v i = Some (show_int (int m))" "m \<le> k"
      "v_tokens v i = None" "v_dlq v i = None" "v_dlq_payload v i = None" "v_dlq_meta v i = None"
  | y p m t where "v_ready v i = None" "v_leased v i = Some y" "v_payload v i = Some p"
      "v_attempts v i = Some (show_int (int m))" "m \<le> k"
      "v_tokens v i = Some t" "v_dlq v i = None" "v_dlq_payload v i = None" "v_dlq_meta v i = None"
  | y p n where "v_ready v i = None" "v_leased v i = None" "v_payload v i = None" "v_attempts v i = None"
      "v_tokens v i = None" "v_dlq v i = Some y" "v_dlq_payload v i = Some p" "v_dlq_meta v i = Some n"
proof (cases "v_payload v i")
  case None
  with assms have none: "v_ready v i = None" "v_leased v i = None" "v_attempts v i = None"
    "v_tokens v i = None" by (auto simp: event_ok_def)
  show ?thesis
  proof (cases "v_dlq v i")
    case None
    then have "v_dlq_payload v i = None" "v_dlq_meta v i = None" using assms by (auto simp: event_ok_def)
    with None none \<open>v_payload v i = None\<close> that(1) show ?thesis by blast
  next
    case (Some y)
    then obtain p n where "v_dlq_payload v i = Some p" "v_dlq_meta v i = Some n"
      using assms by (auto simp: event_ok_def)
    with Some none \<open>v_payload v i = None\<close> that(4) show ?thesis by blast
  qed
next
  case (Some p)
  then have dead: "v_dlq v i = None" "v_dlq_payload v i = None" "v_dlq_meta v i = None"
    using assms by (auto simp: event_ok_def)
  obtain m where m: "m \<le> k" "v_attempts v i = Some (show_int (int m))"
    using assms Some by (auto simp: event_ok_def)
  show ?thesis
  proof (cases "v_ready v i")
    case None
    then obtain y t where "v_leased v i = Some y" "v_tokens v i = Some t"
      using assms Some by (auto simp: event_ok_def)
    with None Some dead m that(3) show ?thesis by blast
  next
    case (Some y)
    then have "v_leased v i = None" "v_tokens v i = None" using assms by (auto simp: event_ok_def)
    with Some dead m \<open>v_payload v i = Some p\<close> that(2) show ?thesis by blast
  qed
qed

context redis_laws
begin

text \<open>On a well-formed queue a claim finds nothing only when nothing is due.\<close>

lemma claim_result:
  assumes "keys_ok q" and "queue_inv k (view r q s)" and "k < 2 ^ 62"
  shows "case snd (claim_script r q now until t ttl s) of
      None \<Rightarrow> \<forall>i y. v_ready (view r q s) i = Some y \<longrightarrow> now < y
    | Some (i, p, n, t') \<Rightarrow> due_first (view r q s) now i \<and> v_leased (view r q s) i = None \<and>
        v_payload (view r q s) i = Some p \<and> n = number (v_attempts (view r q s) i) + 1 \<and> t' = t \<and>
        view r q (fst (claim_script r q now until t ttl s)) = q_claim i until t (view r q s)"
proof (cases rule: view_claim [OF assms(1) inv_in_range(1) [OF assms(2,3)], of now until t ttl])
  case 1
  then show ?thesis by simp
next
  case (2 i)
  then have "v_ready (view r q s) i \<noteq> None" by (auto simp: due_first_def)
  with 2(2) inv_event [OF assms(2), of i] show ?thesis unfolding event_ok_def by blast
next
  case (3 i p)
  from inv_event [OF assms(2), of i] 3(1) have "v_leased (view r q s) i = None"
    by (cases rule: event_cases) (auto simp: due_first_def)
  with 3 show ?thesis by simp
qed

end

lemma qview_eqI:
  assumes "v_ready v = v_ready w" "v_leased v = v_leased w" "v_payload v = v_payload w"
    "v_attempts v = v_attempts w" "v_tokens v = v_tokens w" "v_dlq v = v_dlq w"
    "v_dlq_payload v = v_dlq_payload w" "v_dlq_meta v = v_dlq_meta w" "v_marker v = v_marker w"
  shows "v = (w :: qview)"
  using assms by (cases v; cases w) simp

lemma claim_defer_view:
  assumes "event_ok k v i" and "k < 2 ^ 62" and "v_ready v i \<noteq> None"
  shows "q_ready i due (q_refund i (q_release i (q_claim i until t v))) =
    v\<lparr>v_ready := (v_ready v)(i \<mapsto> due)\<rparr>"
  using assms(1)
proof (cases rule: event_cases)
  case (ready y p m)
  have n: "number (Some (show_int (int m))) = int m" "int m < 2 ^ 62"
    using number_counter [OF ready(5) assms(2)] by simp_all
  then have s: "number (Some (show_int (int m + 1))) = int m + 1"
    by (intro number_show_int) simp_all
  show ?thesis
    by (rule qview_eqI)
      (simp_all add: q_ready_def q_refund_def q_release_def q_claim_def ready n s fun_eq_iff)
qed (use assms(3) in simp_all)

text \<open>Reclaiming moves exactly the listed leases.\<close>

lemma reclaim_other: "j \<noteq> i \<Longrightarrow> v_leased (q_reclaim now i v) j = v_leased v j"
  "j \<noteq> i \<Longrightarrow> v_ready (q_reclaim now i v) j = v_ready v j"
  "v_payload (q_reclaim now i v) j = v_payload v j"
  by (simp_all add: q_defs)

lemma reclaim_self:
  "v_leased (q_reclaim now i v) i = None"
  "v_leased v i \<noteq> None \<Longrightarrow> v_payload v i \<noteq> None \<Longrightarrow> v_ready (q_reclaim now i v) i = Some now"
  by (auto simp: q_defs)

lemma fold_reclaim_other:
  "j \<notin> set ids \<Longrightarrow> v_leased (fold (q_reclaim now) ids v) j = v_leased v j \<and>
    v_ready (fold (q_reclaim now) ids v) j = v_ready v j"
  by (induction ids arbitrary: v) (simp_all add: reclaim_other)

lemma fold_reclaim_listed:
  assumes "distinct ids" and "j \<in> set ids" and "v_leased v j \<noteq> None" and "v_payload v j \<noteq> None"
  shows "v_leased (fold (q_reclaim now) ids v) j = None \<and> v_ready (fold (q_reclaim now) ids v) j = Some now"
  using assms
proof (induction ids arbitrary: v)
  case (Cons i ids)
  show ?case
  proof (cases "i = j")
    case True
    then show ?thesis
      using Cons.prems fold_reclaim_other [of j ids now "q_reclaim now i v"] reclaim_self [where v = v and i = j and now = now]
      by simp
  next
    case False
    then show ?thesis using Cons.prems Cons.IH [of "q_reclaim now i v"] by (simp add: reclaim_other)
  qed
qed simp

section \<open>Properties\<close>

text \<open>The store after a history on initially empty keys.\<close>

abbreviation (input) after :: "'s redis \<Rightarrow> string \<Rightarrow> int \<Rightarrow> int \<Rightarrow> queue_op list \<Rightarrow> 's \<Rightarrow> 's" where
  "after r pfx ttl dttl ops s \<equiv> run_ops r (new_queue_keys pfx) ttl dttl ops s"

lemma history_facts:
  assumes "redis_laws r" and "view r (new_queue_keys pfx) s = empty_view" and "length ops < 2 ^ 62"
  shows "queue_inv (length ops) (view r (new_queue_keys pfx) (after r pfx ttl dttl ops s))"
    and "in_range (number (v_attempts (view r (new_queue_keys pfx) (after r pfx ttl dttl ops s)) i))"
proof -
  show inv: "queue_inv (length ops) (view r (new_queue_keys pfx) (after r pfx ttl dttl ops s))"
    by (rule redis_laws.history_inv [OF assms(1) new_keys_ok assms(2,3)])
  show "in_range (number (v_attempts (view r (new_queue_keys pfx) (after r pfx ttl dttl ops s)) i))"
    by (rule inv_in_range(1) [OF inv assms(3)])
qed

text \<open>C13: a token fences its lease: once a token is not the current token of an event, then
  whatever operations follow, as long as no claim issues that token anew, acknowledging, renewing,
  deferring, failing or unmarking the event with it changes nothing in the store and reports 0.\<close>

theorem stale_token_fenced:
  assumes "redis_laws r" and "view r (new_queue_keys pfx) s = empty_view"
    and "length ops + length ops' < 2 ^ 62"
    and "hget r (run_ops r (new_queue_keys pfx) ttl dttl ops s) (k_tokens (new_queue_keys pfx)) i \<noteq> Some t"
    and "Some t \<notin> queue_op_token ` set ops'"
    and "s' = run_ops r (new_queue_keys pfx) ttl dttl (ops @ ops') s"
  shows "ack_script r (new_queue_keys pfx) i t s' = (s', Reply 0) \<and>
    renew_script r (new_queue_keys pfx) i t until ttl s' = (s', Reply 0) \<and>
    defer_script r (new_queue_keys pfx) i t due ttl s' = (s', Reply 0) \<and>
    nack_script r (new_queue_keys pfx) i t due m meta ttl dttl cutoff now s' = (s', Reply 0) \<and>
    clear_route_missing_script r (new_queue_keys pfx) i t s' = (s', Reply 0)"
proof -
  have "length ops < 2 ^ 62" using assms(3) by simp
  note inv = history_facts(1) [OF assms(1,2) this]
  have "v_tokens (view r (new_queue_keys pfx) s') i \<noteq> Some t"
    unfolding assms(6) redis_laws.run_ops_append [OF assms(1)]
    by (rule redis_laws.token_history [OF assms(1) new_keys_ok inv assms(3) _ assms(5)]) (use assms(4) in simp)
  then show ?thesis by (intro conjI redis_laws.view_stale [OF assms(1)])
qed

theorem stale_token_fenced_witness:
  "ack_script mem_redis (new_queue_keys ''q'') ''7'' ''t1''
     (run_ops mem_redis (new_queue_keys ''q'') 1000 1000 (sample_ops @ [OpClaim 99 120 ''t3'']) mem_empty) =
     (run_ops mem_redis (new_queue_keys ''q'') 1000 1000 (sample_ops @ [OpClaim 99 120 ''t3'']) mem_empty, Reply 0)"
proof (rule stale_token_fenced [OF mem.redis_laws_axioms mem_empty_view _ _ _ refl, THEN conjunct1])
  show "length sample_ops + length [OpClaim 99 120 ''t3''] < 2 ^ 62" by (simp add: sample_length)
  show "hget mem_redis (run_ops mem_redis (new_queue_keys ''q'') 1000 1000 sample_ops mem_empty)
      (k_tokens (new_queue_keys ''q'')) ''7'' \<noteq> Some ''t1''" by code_simp
  show "Some ''t1'' \<notin> queue_op_token ` set [OpClaim 99 120 ''t3'']" by (simp add: queue_op_token_def)
qed

text \<open>C14: after any history, a claim returns an event that is due, with the earliest due time of
  all, that no other worker holds, together with its stored payload, the attempt count increased
  by one and the fresh token, and leases it until the given time; it returns nothing only when no
  event is due.\<close>

theorem claim_takes_earliest:
  assumes "redis_laws r" and "view r (new_queue_keys pfx) s0 = empty_view" and "length ops < 2 ^ 62"
    and "s = run_ops r (new_queue_keys pfx) ttl dttl ops s0" and "v = view r (new_queue_keys pfx) s"
  shows "case snd (claim_script r (new_queue_keys pfx) now until t ttl s) of
      None \<Rightarrow> \<forall>i y. v_ready v i = Some y \<longrightarrow> now < y
    | Some (i, p, n, t') \<Rightarrow> due_first v now i \<and> v_leased v i = None \<and>
        v_payload v i = Some p \<and> n = number (v_attempts v i) + 1 \<and> t' = t \<and>
        view r (new_queue_keys pfx) (fst (claim_script r (new_queue_keys pfx) now until t ttl s)) =
          q_claim i until t v"
proof -
  note inv = history_facts(1) [OF assms(1-3), of ttl dttl, folded assms(4)]
  from redis_laws.claim_result [OF assms(1) new_keys_ok inv assms(3),
      where now = now and until = until and t = t and ttl = ttl]
  show ?thesis unfolding assms(5) .
qed

theorem claim_takes_earliest_witness:
  "due_first (view mem_redis (new_queue_keys ''q'') sample_store) 99 ''7'' \<and>
   v_leased (view mem_redis (new_queue_keys ''q'') sample_store) ''7'' = None"
proof -
  have c: "snd (claim_script mem_redis (new_queue_keys ''q'') 99 120 ''t9'' 1000 sample_store) =
    Some (''7'', ''p'', 2, ''t9'')" by code_simp
  have "length sample_ops < 2 ^ 62" by (simp add: sample_length)
  from claim_takes_earliest [OF mem.redis_laws_axioms mem_empty_view this sample_store_def refl,
      where now = 99 and until = 120 and t = "''t9''"] c
  show ?thesis by (simp del: view_simps)
qed

text \<open>Waiting costs no attempts: when a claimed event is given back with \<open>defer\<close> by its
  holder, the queue is what it was before the claim, except that the event is due at the given time.\<close>

theorem claim_defer_neutral:
  assumes "redis_laws r" and "view r (new_queue_keys pfx) s0 = empty_view" and "length ops < 2 ^ 62"
    and "s = run_ops r (new_queue_keys pfx) ttl dttl ops s0"
    and "claim_script r (new_queue_keys pfx) now until t ttl s = (s1, Some (i, p, n, t'))"
    and "v = view r (new_queue_keys pfx) s"
  shows "snd (defer_script r (new_queue_keys pfx) i t' due ttl s1) = Reply 1 \<and>
    view r (new_queue_keys pfx) (fst (defer_script r (new_queue_keys pfx) i t' due ttl s1)) =
      v\<lparr>v_ready := (v_ready v)(i \<mapsto> due)\<rparr>"
proof -
  note inv = history_facts(1) [OF assms(1-3), of ttl dttl, folded assms(4)]
  from redis_laws.claim_result [OF assms(1) new_keys_ok inv assms(3),
      where now = now and until = until and t = t and ttl = ttl]
  have c: "due_first v now i" "t' = t" "view r (new_queue_keys pfx) s1 = q_claim i until t v"
    unfolding assms(5) by (simp_all add: assms(6))
  have ready: "v_ready v i \<noteq> None" using c(1) by (auto simp: due_first_def)
  have ok: "event_ok (length ops) v i" using inv by (simp add: assms(6) inv_event)
  from ok ready have "in_range (number (v_attempts (q_claim i until t v) i))"
  proof (cases rule: event_cases)
    case (ready y p m)
    have "number (Some (show_int (int m))) = int m" "int m < 2 ^ 62"
      using number_counter [OF ready(5) assms(3)] by simp_all
    moreover from this have "number (Some (show_int (int m + 1))) = int m + 1"
      by (intro number_show_int) simp_all
    ultimately show ?thesis by (simp add: q_claim_def ready in_range_def)
  qed simp_all
  then have d: "snd (defer_script r (new_queue_keys pfx) i t due ttl s1) = Reply 1"
    "view r (new_queue_keys pfx) (fst (defer_script r (new_queue_keys pfx) i t due ttl s1)) =
      q_ready i due (q_refund i (q_release i (q_claim i until t v)))"
    using redis_laws.view_defer [OF assms(1), where q = "new_queue_keys pfx" and s = s1 and t = t
        and i = i and due = due and ttl = ttl]
    by (simp_all add: c(3) q_claim_def new_keys_ok del: view_simps)
  then show ?thesis by (simp add: c(2) claim_defer_view [OF ok assms(3) ready])
qed

theorem claim_defer_neutral_witness:
  "v_attempts (view mem_redis (new_queue_keys ''q'')
     (fst (defer_script mem_redis (new_queue_keys ''q'') ''7'' ''t9'' 140 1000
       (fst (claim_script mem_redis (new_queue_keys ''q'') 99 120 ''t9'' 1000 sample_store))))) ''7'' = Some ''1''"
proof -
  have c: "claim_script mem_redis (new_queue_keys ''q'') 99 120 ''t9'' 1000 sample_store =
    (fst (claim_script mem_redis (new_queue_keys ''q'') 99 120 ''t9'' 1000 sample_store),
     Some (''7'', ''p'', 2, ''t9''))"
    by code_simp
  have a: "v_attempts (view mem_redis (new_queue_keys ''q'') sample_store) ''7'' = Some ''1''"
    by code_simp
  have "length sample_ops < 2 ^ 62" by (simp add: sample_length)
  from claim_defer_neutral [OF mem.redis_laws_axioms mem_empty_view this sample_store_def c refl, of 140] a
  show ?thesis by simp
qed

text \<open>C15: a failed delivery is retried until its attempts are used up and is then dead-lettered
  with its payload: after any history, a negative acknowledgement by the holder of the lease
  reports 1 and makes the event ready at the given time, payload and attempts unchanged, when the
  attempts used are below the maximum; otherwise it reports 2 and the event is among the dead
  letters, with its payload and the failure note, and no longer live.\<close>

theorem nack_outcome:
  assumes "redis_laws r" and "view r (new_queue_keys pfx) s0 = empty_view" and "length ops < 2 ^ 62"
    and "s = run_ops r (new_queue_keys pfx) ttl dttl ops s0" and "v = view r (new_queue_keys pfx) s"
    and "v_tokens v i = Some t"
    and "nack_script r (new_queue_keys pfx) i t due m meta ttl dttl cutoff now s = (s1, answer)"
    and "w = view r (new_queue_keys pfx) s1"
  shows "v_payload v i \<noteq> None \<and> v_leased w i = None \<and> v_tokens w i = None \<and>
    (if number (v_attempts v i) < m
     then answer = Reply 1 \<and> v_ready w i = Some due \<and> v_payload w i = v_payload v i \<and>
       v_attempts w i = v_attempts v i
     else answer = Reply 2 \<and> v_dlq w i = Some now \<and> v_dlq_payload w i = v_payload v i \<and>
       v_dlq_meta w i = Some meta \<and> v_ready w i = None \<and> v_payload w i = None \<and>
       v_attempts w i = None)"
proof -
  note inv = history_facts(1) [OF assms(1-3), of ttl dttl, folded assms(4), folded assms(5)]
  from inv_event [OF inv, of i] assms(6) show ?thesis
  proof (cases rule: event_cases)
    case (leased y p k t')
    have t: "v_tokens (view r (new_queue_keys pfx) s) i = Some t"
      and p: "v_payload (view r (new_queue_keys pfx) s) i = Some p"
      using assms(6) leased(3) by (simp_all only: assms(5))
    note n = redis_laws.view_nack [OF assms(1) new_keys_ok t p, where due = due and max_attempts = m
        and meta = meta and ttl = ttl and dttl = dttl and cutoff = cutoff and now = now,
        folded assms(5), unfolded assms(7) fst_conv snd_conv, folded assms(8)]
    show ?thesis
    proof (cases "number (v_attempts v i) < m")
      case True
      with n(1) show ?thesis by (simp add: leased q_ready_def q_unmark_def q_release_def)
    next
      case False
      with n(2) show ?thesis
        by (simp add: leased q_bury_def q_prune_def q_unmark_def q_release_def Let_def)
    qed
  qed simp_all
qed

theorem nack_outcome_witness:
  "v_dlq (view mem_redis (new_queue_keys ''q'')
     (fst (nack_script mem_redis (new_queue_keys ''q'') ''8'' ''t2'' 80 1 ''meta'' 1000 1000 0 75 sample_store)))
     ''8'' = Some 75"
proof -
  have t: "v_tokens (view mem_redis (new_queue_keys ''q'') sample_store) ''8'' = Some ''t2''" by code_simp
  have n: "\<not> number (v_attempts (view mem_redis (new_queue_keys ''q'') sample_store) ''8'') < 1" by code_simp
  have "length sample_ops < 2 ^ 62" by (simp add: sample_length)
  from nack_outcome [OF mem.redis_laws_axioms mem_empty_view this sample_store_def refl t surjective_pairing refl,
      of 80 1 "''meta''" 0 75] n
  show ?thesis by (simp del: view_simps)
qed

text \<open>No lease stays expired: after any history, when a reclaim run reports fewer events than
  its limit, every event whose lease had expired is ready again at once, every other lease is
  untouched, and so no lease in the queue is expired.\<close>

theorem reclaim_frees_expired:
  assumes "redis_laws r" and "view r (new_queue_keys pfx) s0 = empty_view" and "length ops < 2 ^ 62"
    and "s = run_ops r (new_queue_keys pfx) ttl dttl ops s0" and "v = view r (new_queue_keys pfx) s"
    and "reclaim_script r (new_queue_keys pfx) now limit ttl s = (s1, Reply n)" and "n < limit"
    and "w = view r (new_queue_keys pfx) s1"
  shows "case v_leased v i of
      None \<Rightarrow> v_leased w i = None \<and> v_ready w i = v_ready v i
    | Some y \<Rightarrow> if y \<le> now then v_leased w i = None \<and> v_ready w i = Some now
        else v_leased w i = Some y \<and> v_ready w i = None"
proof -
  let ?all = "zupto r s (k_leased (new_queue_keys pfx)) now"
  note inv = history_facts(1) [OF assms(1-3), of ttl dttl, folded assms(4)]
  have "n = length (take limit ?all)" using assms(6) by (simp add: reclaim_script_def Let_def)
  with assms(7) have all: "take limit ?all = ?all" by simp
  have s1: "s1 = fst (reclaim_script r (new_queue_keys pfx) now limit ttl s)" by (simp add: assms(6))
  have w: "w = fold (q_reclaim now) ?all v"
    using redis_laws.reclaim_fold [OF assms(1) new_keys_ok inv assms(3), of now ?all]
    by (simp add: assms(5,8) s1 reclaim_script_def Let_def all redis_laws.view_pexpire_all [OF assms(1)])
  have mem: "j \<in> set ?all \<longleftrightarrow> (\<exists>y \<le> now. v_leased v j = Some y)" for j
    by (simp add: redis_laws.zupto_set [OF assms(1)] assms(5))
  from inv_event [OF inv, of i, folded assms(5)] show ?thesis
  proof (cases rule: event_cases)
    case (leased y p m t)
    then show ?thesis
      using fold_reclaim_listed [OF redis_laws.zupto_distinct [OF assms(1)], where j = i and v = v]
        fold_reclaim_other [of i ?all now v] mem [of i]
      by (simp add: w)
  qed (use fold_reclaim_other [of i ?all now v] mem [of i] in \<open>simp_all add: w\<close>)
qed

theorem reclaim_frees_expired_witness:
  "v_leased (view mem_redis (new_queue_keys ''q'')
     (fst (reclaim_script mem_redis (new_queue_keys ''q'') 200 5 1000 sample_store))) ''8'' = None"
proof -
  have r: "reclaim_script mem_redis (new_queue_keys ''q'') 200 5 1000 sample_store =
    (fst (reclaim_script mem_redis (new_queue_keys ''q'') 200 5 1000 sample_store), Reply 1)" by code_simp
  have y: "v_leased (view mem_redis (new_queue_keys ''q'') sample_store) ''8'' = Some 99" by code_simp
  have "length sample_ops < 2 ^ 62" by (simp add: sample_length)
  from reclaim_frees_expired [OF mem.redis_laws_axioms mem_empty_view this sample_store_def refl r _ refl, of "''8''"] y
  show ?thesis by (simp del: view_simps)
qed

text \<open>C16: a dead letter comes back whole: after any history, replaying a dead-lettered event
  younger than the retention cutoff reports 1 and makes it a fresh ready event with its payload, no
  attempts used and no route-missing mark, and removes it from the dead letters; in every other case a replay
  changes nothing and reports 0.\<close>

theorem replay_restores:
  assumes "redis_laws r" and "view r (new_queue_keys pfx) s0 = empty_view" and "length ops < 2 ^ 62"
    and "s = run_ops r (new_queue_keys pfx) ttl dttl ops s0" and "v = view r (new_queue_keys pfx) s"
    and "replay_dlq_script r (new_queue_keys pfx) i due ttl cutoff s = (s1, answer)"
    and "w = view r (new_queue_keys pfx) s1"
  shows "if \<exists>x > cutoff. v_dlq v i = Some x
    then answer = Reply 1 \<and> v_ready w i = Some due \<and> v_payload w i = v_dlq_payload v i \<and>
      v_payload w i \<noteq> None \<and> v_attempts w i = Some ''0'' \<and> v_marker w i = None \<and>
      v_dlq w i = None \<and> v_dlq_payload w i = None \<and> v_dlq_meta w i = None
    else answer = Reply 0 \<and> s1 = s"
proof -
  note inv = history_facts(1) [OF assms(1-3), of ttl dttl, folded assms(4)]
  note w = redis_laws.view_replay [OF assms(1) new_keys_ok [of pfx], where s = s and i = i and due = due
      and ttl = ttl and cutoff = cutoff, unfolded assms(6) fst_conv, folded assms(5,7)]
  have h: "hget r s (k_dlq_payload (new_queue_keys pfx)) i = v_dlq_payload v i"
    "zscore r s (k_dlq (new_queue_keys pfx)) i = v_dlq v i"
    by (simp_all add: assms(5))
  from inv_event [OF inv, of i, folded assms(5)] show ?thesis
  proof (cases rule: event_cases)
    case (dead x p n)
    then show ?thesis
      using w assms(6)
      by (auto simp: replay_dlq_script_def h Let_def q_exhume_def q_enqueue_def q_unmark_def
          split: if_splits)
  qed (use assms(6) in \<open>simp_all add: replay_dlq_script_def h\<close>)
qed

theorem replay_restores_witness:
  "fst (replay_dlq_script mem_redis (new_queue_keys ''q'') ''7'' 300 1000 0 sample_store) = sample_store"
proof -
  have d: "v_dlq (view mem_redis (new_queue_keys ''q'') sample_store) ''7'' = None" by code_simp
  have "length sample_ops < 2 ^ 62" by (simp add: sample_length)
  from replay_restores [OF mem.redis_laws_axioms mem_empty_view this sample_store_def refl surjective_pairing refl,
      where i = "''7''" and due = 300 and cutoff = 0] d
  show ?thesis by (simp del: view_simps)
qed

end
