(* ===== verification/Action_Registry.thy ===== *)
theory Action_Registry
  imports Net_Url Go_Json "HOL-Library.List_Lexorder" "HOL-Library.Char_ord" "HOL-Library.Product_Lexorder"
begin

text \<open>
  The static routes of card actions, \<open>internal/cardactiondispatch/registry.go\<close>, their JSON
  configuration (\<open>config.go\<close>) and the choice of a finalizer (\<open>finalizer.go\<close>): the defaults and
  checks of a route specification, the registry built from the specifications and the
  environment, and its lookups.  Durations are nanoseconds.  A Go map is an association list
  whose keys the code keeps distinct; the environment is a function.
\<close>

section \<open>Names\<close>

definition is_lower :: "char \<Rightarrow> bool" where
  "is_lower c = (97 \<le> byte c \<and> byte c \<le> 122)"

definition is_upper :: "char \<Rightarrow> bool" where
  "is_upper c = (65 \<le> byte c \<and> byte c \<le> 90)"

text \<open>The pattern: one byte of the first class, then at most \<open>n\<close> of the second.\<close>

definition name_matches :: "(char \<Rightarrow> bool) \<Rightarrow> (char \<Rightarrow> bool) \<Rightarrow> nat \<Rightarrow> string \<Rightarrow> bool" where
  "name_matches first others n s =
     (case s of [] \<Rightarrow> False | c # cs \<Rightarrow> first c \<and> list_all others cs \<and> length cs \<le> n)"

definition owner_pattern :: "string \<Rightarrow> bool" where
  "owner_pattern = name_matches is_lower (\<lambda>c. is_lower c \<or> is_digit c \<or> c = CHR ''-'') 63"

definition action_type_pattern :: "string \<Rightarrow> bool" where
  "action_type_pattern = name_matches is_lower (\<lambda>c. is_lower c \<or> is_digit c \<or> c \<in> set ''_.-'') 127"

definition sender_pattern :: "string \<Rightarrow> bool" where
  "sender_pattern = name_matches (\<lambda>c. is_alpha c \<or> is_digit c)
     (\<lambda>c. is_alpha c \<or> is_digit c \<or> c \<in> set ''_.-'') 127"

definition secret_env_pattern :: "string \<Rightarrow> bool" where
  "secret_env_pattern = name_matches is_upper (\<lambda>c. is_upper c \<or> is_digit c \<or> c = CHR ''_'') 127"

section \<open>Callback URLs\<close>

text \<open>\<open>splitHostPort\<close>, the host part.\<close>

definition url_hostname :: "string \<Rightarrow> string" where
  "url_hostname h =
     (let h = (case last_index (CHR '':'') h of
                 Some i \<Rightarrow> if valid_optional_port (drop i h) then take i h else h
               | None \<Rightarrow> h)
      in if prefix ''['' h \<and> suffix '']'' h then butlast (tl h) else h)"

text \<open>The authority of a URL with a scheme, as \<open>url.Parse\<close> cuts it: after two slashes, up to the next.\<close>

definition url_authority :: "string \<Rightarrow> string option" where
  "url_authority raw =
     (case get_scheme raw of
        None \<Rightarrow> None
      | Some (sch, rest) \<Rightarrow>
          let rest = cut_query rest in
          if sch \<noteq> [] \<and> prefix ''//'' rest
          then Some (takeWhile (\<lambda>c. c \<noteq> CHR ''/'') (drop 2 rest)) else None)"

datatype route_error =
    InvalidSender | InvalidOwner | InvalidActionType | InvalidFormat | InvalidUrl | UrlFragment
  | UrlNotAbsolute | UrlCredentials | UrlQuery | InvalidSecretEnv | SecretTooShort
  | InvalidNotifyEnv | NotifyTooShort | NotifyIsSecret | TimeoutRange | AttemptsRange
  | BaseBackoffRange | MaxBackoffRange | InFlightRange

text \<open>
  \<open>validateCallbackURL\<close>.  With a host name the URL has an authority and no opaque part; its
  user information is there when the authority has an at sign, and its query when the text has a
  question mark.  The result, the URL written back, is not used by the callers.
\<close>

definition validate_callback_url :: "string \<Rightarrow> route_error + unit" where
  "validate_callback_url raw =
     (if trim_space raw \<noteq> raw \<or> raw = [] then Inl InvalidUrl
      else if CHR ''#'' \<in> set raw then Inl UrlFragment
      else (case url_parse raw of
              None \<Rightarrow> Inl UrlNotAbsolute
            | Some (sch, h) \<Rightarrow>
                if (sch \<noteq> ''https'' \<and> sch \<noteq> ''http'') \<or> url_hostname h = [] then Inl UrlNotAbsolute
                else if (case url_authority raw of Some a \<Rightarrow> CHR ''@'' \<in> set a | None \<Rightarrow> False)
                     then Inl UrlCredentials
                else if CHR ''?'' \<in> set raw then Inl UrlQuery
                else Inr ()))"

section \<open>Routes\<close>

definition millisecond :: int where "millisecond = 1000000"
definition second :: int where "second = 1000 * millisecond"
definition minute :: int where "minute = 60 * second"

record route_spec =
  s_sender :: string
  s_owner :: string
  s_action :: string
  s_url :: string
  s_secret_env :: string
  s_notify_env :: string
  s_timeout :: int
  s_max_attempts :: int
  s_base_backoff :: int
  s_max_backoff :: int
  s_max_in_flight :: int
  s_format :: string

record route =
  r_sender :: string
  r_owner :: string
  r_action :: string
  r_url :: string
  r_timeout :: int
  r_max_attempts :: int
  r_base_backoff :: int
  r_max_backoff :: int
  r_max_in_flight :: int
  r_format :: string
  r_secret :: string

definition legacy_format :: string where "legacy_format = ''legacy''"
definition octo_card_format :: string where "octo_card_format = ''octo-card-v1''"

definition with_route_defaults :: "route_spec \<Rightarrow> route_spec" where
  "with_route_defaults s =
     s\<lparr>s_timeout := if s_timeout s = 0 then 3 * second else s_timeout s,
       s_max_attempts := if s_max_attempts s = 0 then 5 else s_max_attempts s,
       s_base_backoff := if s_base_backoff s = 0 then second else s_base_backoff s,
       s_max_backoff := if s_max_backoff s = 0 then minute else s_max_backoff s,
       s_max_in_flight := if s_max_in_flight s = 0 then 8 else s_max_in_flight s,
       s_format := if s_format s = [] then legacy_format else s_format s\<rparr>"

definition validate_notify_token :: "route_spec \<Rightarrow> (string \<Rightarrow> string) \<Rightarrow> route_error + unit" where
  "validate_notify_token s getenv =
     (if s_notify_env s = [] then Inr ()
      else if \<not> secret_env_pattern (s_notify_env s) then Inl InvalidNotifyEnv
      else if length (getenv (s_notify_env s)) < 32 then Inl NotifyTooShort
      else if s_notify_env s = s_secret_env s \<or> getenv (s_notify_env s) = getenv (s_secret_env s)
      then Inl NotifyIsSecret
      else Inr ())"

definition validate_route_limits :: "route_spec \<Rightarrow> route_error + unit" where
  "validate_route_limits s =
     (if s_timeout s < 100 * millisecond \<or> 10 * second < s_timeout s then Inl TimeoutRange
      else if s_max_attempts s < 1 \<or> 10 < s_max_attempts s then Inl AttemptsRange
      else if s_base_backoff s < 100 * millisecond \<or> minute < s_base_backoff s then Inl BaseBackoffRange
      else if s_max_backoff s < s_base_backoff s \<or> 10 * minute < s_max_backoff s then Inl MaxBackoffRange
      else if s_max_in_flight s < 1 \<or> 100 < s_max_in_flight s then Inl InFlightRange
      else Inr ())"

definition validate_route_spec :: "route_spec \<Rightarrow> (string \<Rightarrow> string) \<Rightarrow> route_error + unit" where
  "validate_route_spec s getenv =
     (if \<not> sender_pattern (s_sender s) \<or> prefix ''iwh_'' (s_sender s) then Inl InvalidSender
      else if \<not> owner_pattern (s_owner s) then Inl InvalidOwner
      else if \<not> action_type_pattern (s_action s) then Inl InvalidActionType
      else if s_format s \<noteq> legacy_format \<and> s_format s \<noteq> octo_card_format then Inl InvalidFormat
      else bind_res (validate_callback_url (s_url s)) (\<lambda>_.
        if \<not> secret_env_pattern (s_secret_env s) then Inl InvalidSecretEnv
        else if length (getenv (s_secret_env s)) < 32 then Inl SecretTooShort
        else bind_res (validate_notify_token s getenv) (\<lambda>_. validate_route_limits s)))"

section \<open>The registry\<close>

type_synonym route_key = "string \<times> string \<times> string"

record notify_capability =
  cap_sender :: string
  cap_owner :: string

record notify_credential =
  cred_capability :: notify_capability
  cred_env :: string
  cred_token :: string

record registry =
  reg_routes :: "(route_key \<times> route) list"
  reg_senders :: "string list"
  reg_notify_actions :: "route_key list"
  reg_credentials :: "notify_credential list"
  reg_secrets :: "string list"

datatype registry_error =
    RouteError nat route_error
  | DuplicateRoute route_key
  | InconsistentNotifyEnv nat
  | TokenOfTwoOwners nat
  | TokenIsSecret
  | NegativeDuration
  | InvalidCallbackFormat
  | DecodeRoutes
  | TrailingRoutes

definition spec_key :: "route_spec \<Rightarrow> route_key" where
  "spec_key s = (s_sender s, s_owner s, s_action s)"

definition spec_route :: "(string \<Rightarrow> string) \<Rightarrow> route_spec \<Rightarrow> route" where
  "spec_route getenv s =
     \<lparr>r_sender = s_sender s, r_owner = s_owner s, r_action = s_action s, r_url = s_url s,
      r_timeout = s_timeout s, r_max_attempts = s_max_attempts s, r_base_backoff = s_base_backoff s,
      r_max_backoff = s_max_backoff s, r_max_in_flight = s_max_in_flight s, r_format = s_format s,
      r_secret = getenv (s_secret_env s)\<rparr>"

text \<open>The local state of \<open>NewRegistry\<close>: the registry being built and its two auxiliary maps.\<close>

record builder =
  b_registry :: registry
  b_credentials :: "(notify_capability \<times> notify_credential) list"
  b_owners :: "(string \<times> notify_capability) list"

definition empty_builder :: builder where
  "empty_builder =
     \<lparr>b_registry = \<lparr>reg_routes = [], reg_senders = [], reg_notify_actions = [], reg_credentials = [],
        reg_secrets = []\<rparr>, b_credentials = [], b_owners = []\<rparr>"

definition add_notify :: "(string \<Rightarrow> string) \<Rightarrow> nat \<Rightarrow> route_spec \<Rightarrow> builder \<Rightarrow> registry_error + builder" where
  "add_notify getenv i s b =
     (if s_notify_env s = [] then Inr b
      else
        let cap = \<lparr>cap_sender = s_sender s, cap_owner = s_owner s\<rparr>;
            cred = \<lparr>cred_capability = cap, cred_env = s_notify_env s, cred_token = getenv (s_notify_env s)\<rparr>
        in if (case map_of (b_credentials b) cap of
                 Some old \<Rightarrow> cred_env old \<noteq> cred_env cred | None \<Rightarrow> False)
           then Inl (InconsistentNotifyEnv i)
           else if (case map_of (b_owners b) (cred_token cred) of
                      Some owner \<Rightarrow> owner \<noteq> cap | None \<Rightarrow> False)
           then Inl (TokenOfTwoOwners i)
           else
             let reg = b_registry b in
             Inr (b\<lparr>b_credentials := AList.update cap cred (b_credentials b),
                    b_owners := AList.update (cred_token cred) cap (b_owners b),
                    b_registry := reg\<lparr>reg_notify_actions :=
                      List.insert (spec_key s) (reg_notify_actions reg)\<rparr>\<rparr>))"

definition add_route ::
  "(string \<Rightarrow> string) \<Rightarrow> nat \<times> route_spec \<Rightarrow> builder \<Rightarrow> registry_error + builder" where
  "add_route getenv p b =
     (case p of (i, input) \<Rightarrow>
        let s = with_route_defaults input in
        (case validate_route_spec s getenv of
           Inl e \<Rightarrow> Inl (RouteError i e)
         | Inr _ \<Rightarrow>
             let reg = b_registry b in
             if map_of (reg_routes reg) (spec_key s) \<noteq> None then Inl (DuplicateRoute (spec_key s))
             else add_notify getenv i s
               (b\<lparr>b_registry := reg\<lparr>reg_routes := AList.update (spec_key s) (spec_route getenv s) (reg_routes reg),
                  reg_secrets := List.insert (getenv (s_secret_env s)) (reg_secrets reg),
                  reg_senders := List.insert (s_sender s) (reg_senders reg)\<rparr>\<rparr>)))"

definition new_registry :: "route_spec list \<Rightarrow> (string \<Rightarrow> string) \<Rightarrow> registry_error + registry" where
  "new_registry specs getenv =
     bind_res (each (add_route getenv) (enumerate 0 specs) empty_builder) (\<lambda>b.
       let creds = map snd (b_credentials b) in
       if \<exists>c \<in> set creds. cred_token c \<in> set (reg_secrets (b_registry b)) then Inl TokenIsSecret
       else Inr ((b_registry b)\<lparr>reg_credentials :=
         sort_key (\<lambda>c. (cap_sender (cred_capability c), cap_owner (cred_capability c))) creds\<rparr>))"

datatype resolution = Callback route | BotPull | Reject

text \<open>The methods have a pointer receiver; \<open>None\<close> is the nil registry.\<close>

definition resolve :: "registry option \<Rightarrow> string \<Rightarrow> string \<Rightarrow> string \<Rightarrow> resolution" where
  "resolve r sender owner action =
     (case r of
        None \<Rightarrow> BotPull
      | Some reg \<Rightarrow>
          (case map_of (reg_routes reg) (sender, owner, action) of
             Some rt \<Rightarrow> Callback rt
           | None \<Rightarrow> if sender \<in> set (reg_senders reg) then Reject else BotPull))"

definition route_of :: "registry option \<Rightarrow> string \<Rightarrow> string \<Rightarrow> string \<Rightarrow> route option" where
  "route_of r sender owner action =
     (case r of None \<Rightarrow> None | Some reg \<Rightarrow> map_of (reg_routes reg) (sender, owner, action))"

definition resolve_notify_token :: "registry option \<Rightarrow> string \<Rightarrow> notify_capability option" where
  "resolve_notify_token r token =
     (case r of
        None \<Rightarrow> None
      | Some reg \<Rightarrow>
          if token = [] then None
          else fold (\<lambda>c found. if token = cred_token c then Some (cred_capability c) else found)
                 (reg_credentials reg) None)"

definition can_notify :: "registry option \<Rightarrow> notify_capability \<Rightarrow> string \<Rightarrow> bool" where
  "can_notify r cap action =
     (case r of
        None \<Rightarrow> False
      | Some reg \<Rightarrow> (cap_sender cap, cap_owner cap, action) \<in> set (reg_notify_actions reg))"

definition notify_producers :: "registry option \<Rightarrow> notify_capability list" where
  "notify_producers r = (case r of None \<Rightarrow> [] | Some reg \<Rightarrow> map cred_capability (reg_credentials reg))"

datatype exclusion_error = RegistryUnavailable | ActionTokenConflict | SecretConflict

definition validate_notify_token_exclusions :: "registry option \<Rightarrow> string list \<Rightarrow> exclusion_error + unit" where
  "validate_notify_token_exclusions r tokens =
     (case r of
        None \<Rightarrow> Inl RegistryUnavailable
      | Some reg \<Rightarrow>
          check_all (\<lambda>token.
            if token = [] then Inr ()
            else if resolve_notify_token r token \<noteq> None then Inl ActionTokenConflict
            else if token \<in> set (reg_secrets reg) then Inl SecretConflict
            else Inr ()) tokens)"

section \<open>Configuration\<close>

text \<open>Arithmetic on \<open>int64\<close> wraps.\<close>

definition wrap64 :: "int \<Rightarrow> int" where
  "wrap64 i = (i + 2 ^ 63) mod 2 ^ 64 - 2 ^ 63"

definition dlq_retention_from_env :: "(string \<Rightarrow> string) \<Rightarrow> int" where
  "dlq_retention_from_env getenv =
     (let raw = trim_space (getenv ''OCTO_CARD_ACTION_DLQ_RETENTION_DAYS'');
          fallback = 30 * 24 * 60 * minute
      in if raw = [] then fallback
         else (case parse_int64 raw of
                 None \<Rightarrow> fallback
               | Some days \<Rightarrow>
                   if days \<le> 0 \<or> 365 < days then fallback else days * 24 * 60 * minute))"

record route_json =
  j_sender :: string
  j_owner :: string
  j_action :: string
  j_url :: string
  j_secret_env :: string
  j_notify_env :: string
  j_timeout_ms :: int
  j_max_attempts :: int
  j_base_backoff_ms :: int
  j_max_backoff_ms :: int
  j_max_in_flight :: int
  j_format :: string

definition load_route :: "route_json \<Rightarrow> registry_error + route_spec" where
  "load_route j =
     (if j_timeout_ms j < 0 \<or> j_base_backoff_ms j < 0 \<or> j_max_backoff_ms j < 0 then Inl NegativeDuration
      else if j_format j \<noteq> [] \<and> j_format j \<noteq> legacy_format \<and> j_format j \<noteq> octo_card_format
      then Inl InvalidCallbackFormat
      else
        let ms = (\<lambda>n. if 0 < n then wrap64 (n * millisecond) else 0) in
        Inr (with_route_defaults
          \<lparr>s_sender = j_sender j, s_owner = j_owner j, s_action = j_action j, s_url = j_url j,
           s_secret_env = j_secret_env j, s_notify_env = j_notify_env j, s_timeout = ms (j_timeout_ms j),
           s_max_attempts = j_max_attempts j, s_base_backoff = ms (j_base_backoff_ms j),
           s_max_backoff = ms (j_max_backoff_ms j), s_max_in_flight = j_max_in_flight j,
           s_format = j_format j\<rparr>))"

text \<open>
  \<open>decode\<close> is one \<open>Decode\<close> of a decoder that refuses unknown fields, into a slice of routes, and
  what it leaves unread; \<open>at_eof\<close> is that the next \<open>Decode\<close> returns \<open>io.EOF\<close>.
\<close>

definition load_route_specs ::
  "(string \<Rightarrow> (route_json list \<times> string) option) \<Rightarrow> (string \<Rightarrow> bool) \<Rightarrow> string \<Rightarrow>
     registry_error + route_spec list" where
  "load_route_specs decode at_eof raw =
     (if blank raw then Inr []
      else (case decode raw of
              None \<Rightarrow> Inl DecodeRoutes
            | Some (encoded, rest) \<Rightarrow>
                if \<not> at_eof rest then Inl TrailingRoutes
                else bind_res (each (\<lambda>j out. bind_res (load_route j) (\<lambda>s. Inr (s # out))) encoded [])
                       (\<lambda>out. Inr (rev out))))"

section \<open>Finalizers\<close>

datatype finalizer_error = FallbackRequired | InvalidBinding | BindingRequired

text \<open>A finalizer is an abstract value; \<open>None\<close> is a nil one.\<close>

record 'f finalizer_registry =
  fr_fallback :: 'f
  fr_routes :: "((string \<times> string) \<times> 'f) list"

definition new_finalizer_registry ::
  "'f option \<Rightarrow> ((string \<times> string) \<times> 'f option) list \<Rightarrow> finalizer_error + 'f finalizer_registry" where
  "new_finalizer_registry fallback bindings =
     (case fallback of
        None \<Rightarrow> Inl FallbackRequired
      | Some f \<Rightarrow>
          bind_res (each (\<lambda>((owner, action), g) routes.
              if \<not> owner_pattern owner \<or> \<not> action_type_pattern action then Inl InvalidBinding
              else (case g of None \<Rightarrow> Inl BindingRequired
                    | Some g \<Rightarrow> Inr (AList.update (owner, action) g routes))) bindings [])
            (\<lambda>routes. Inr \<lparr>fr_fallback = f, fr_routes = routes\<rparr>))"

definition finalizer_for :: "'f finalizer_registry \<Rightarrow> string \<Rightarrow> string \<Rightarrow> 'f" where
  "finalizer_for r owner action =
     (case map_of (fr_routes r) (owner, action) of Some f \<Rightarrow> f | None \<Rightarrow> fr_fallback r)"

end
