(* ===== verification/Registry_Props.thy ===== *)
theory Registry_Props
  imports Action_Registry
begin

text \<open>
  What an accepted configuration guarantees: how the registry's lookups relate to the route
  specifications it was built from.  The invariant \<open>built\<close> relates the state of the building loop
  to the specifications processed so far.
\<close>

definition notifying :: "route_spec \<Rightarrow> bool" where
  "notifying s = (s_notify_env s \<noteq> [])"

definition spec_cap :: "route_spec \<Rightarrow> notify_capability" where
  "spec_cap s = \<lparr>cap_sender = s_sender s, cap_owner = s_owner s\<rparr>"

definition spec_cred :: "(string \<Rightarrow> string) \<Rightarrow> route_spec \<Rightarrow> notify_credential" where
  "spec_cred getenv s =
     \<lparr>cred_capability = spec_cap s, cred_env = s_notify_env s, cred_token = getenv (s_notify_env s)\<rparr>"

definition built :: "(string \<Rightarrow> string) \<Rightarrow> route_spec list \<Rightarrow> builder \<Rightarrow> bool" where
  "built getenv seen b \<longleftrightarrow>
     (\<forall>s \<in> set seen. validate_route_spec s getenv = Inr ()) \<and>
     (\<forall>k rt. map_of (reg_routes (b_registry b)) k = Some rt \<longleftrightarrow>
        (\<exists>s \<in> set seen. spec_key s = k \<and> rt = spec_route getenv s)) \<and>
     set (reg_secrets (b_registry b)) = (\<lambda>s. getenv (s_secret_env s)) ` set seen \<and>
     set (reg_senders (b_registry b)) = s_sender ` set seen \<and>
     set (reg_notify_actions (b_registry b)) = spec_key ` {s \<in> set seen. notifying s} \<and>
     distinct (map fst (b_credentials b)) \<and>
     (\<forall>cap c. map_of (b_credentials b) cap = Some c \<longleftrightarrow>
        (\<exists>s \<in> set seen. notifying s \<and> spec_cap s = cap \<and> c = spec_cred getenv s)) \<and>
     (\<forall>tok cap. map_of (b_owners b) tok = Some cap \<longleftrightarrow>
        (\<exists>s \<in> set seen. notifying s \<and> getenv (s_notify_env s) = tok \<and> spec_cap s = cap))"

lemma built_empty: "built getenv [] empty_builder"
  by (simp add: built_def empty_builder_def)

lemma defaults_simps [simp]:
  "s_sender (with_route_defaults s) = s_sender s" "s_owner (with_route_defaults s) = s_owner s"
  "s_action (with_route_defaults s) = s_action s" "s_secret_env (with_route_defaults s) = s_secret_env s"
  "s_notify_env (with_route_defaults s) = s_notify_env s" "spec_key (with_route_defaults s) = spec_key s"
  "spec_cap (with_route_defaults s) = spec_cap s" "notifying (with_route_defaults s) = notifying s"
  "spec_cred getenv (with_route_defaults s) = spec_cred getenv s"
  by (simp_all add: with_route_defaults_def spec_key_def spec_cap_def notifying_def spec_cred_def)

text \<open>An update of a map that a relation describes, at a key the relation agrees on.\<close>

lemma update_iff:
  assumes "\<And>k v. map_of al k = Some v \<longleftrightarrow> P k v" and "\<And>v. P k0 v \<Longrightarrow> v = v0"
  shows "map_of (AList.update k0 v0 al) k = Some v \<longleftrightarrow> P k v \<or> (k = k0 \<and> v = v0)"
  using assms by (auto simp: update_conv')

lemmas builtD =
  built_def [THEN iffD1, THEN conjunct1, rule_format]
  built_def [THEN iffD1, THEN conjunct2, THEN conjunct1, rule_format]
  built_def [THEN iffD1, THEN conjunct2, THEN conjunct2, THEN conjunct1]
  built_def [THEN iffD1, THEN conjunct2, THEN conjunct2, THEN conjunct2, THEN conjunct1]
  built_def [THEN iffD1, THEN conjunct2, THEN conjunct2, THEN conjunct2, THEN conjunct2, THEN conjunct1]
  built_def [THEN iffD1, THEN conjunct2, THEN conjunct2, THEN conjunct2, THEN conjunct2, THEN conjunct2,
    THEN conjunct1]
  built_def [THEN iffD1, THEN conjunct2, THEN conjunct2, THEN conjunct2, THEN conjunct2, THEN conjunct2,
    THEN conjunct2, THEN conjunct1, rule_format]
  built_def [THEN iffD1, THEN conjunct2, THEN conjunct2, THEN conjunct2, THEN conjunct2, THEN conjunct2,
    THEN conjunct2, THEN conjunct2, rule_format]

lemma bex_snoc: "(\<exists>x \<in> set (xs @ [y]). P x) \<longleftrightarrow> (\<exists>x \<in> set xs. P x) \<or> P y"
  by auto

lemma builtI:
  assumes "\<And>s. s \<in> set seen \<Longrightarrow> validate_route_spec s getenv = Inr ()"
    and "\<And>k rt. map_of (reg_routes (b_registry b)) k = Some rt \<longleftrightarrow>
      (\<exists>s \<in> set seen. spec_key s = k \<and> rt = spec_route getenv s)"
    and "set (reg_secrets (b_registry b)) = (\<lambda>s. getenv (s_secret_env s)) ` set seen"
    and "set (reg_senders (b_registry b)) = s_sender ` set seen"
    and "set (reg_notify_actions (b_registry b)) = spec_key ` {s \<in> set seen. notifying s}"
    and "distinct (map fst (b_credentials b))"
    and "\<And>cap c. map_of (b_credentials b) cap = Some c \<longleftrightarrow>
      (\<exists>s \<in> set seen. notifying s \<and> spec_cap s = cap \<and> c = spec_cred getenv s)"
    and "\<And>tok cap. map_of (b_owners b) tok = Some cap \<longleftrightarrow>
      (\<exists>s \<in> set seen. notifying s \<and> getenv (s_notify_env s) = tok \<and> spec_cap s = cap)"
  shows "built getenv seen b"
  unfolding built_def by (intro conjI ballI allI assms)

lemma route_update:
  assumes "built getenv seen b" and "map_of (reg_routes (b_registry b)) (spec_key s) = None"
  shows "(map_of (AList.update (spec_key s) (spec_route getenv s) (reg_routes (b_registry b))) k = Some rt) =
    (\<exists>s' \<in> set (seen @ [s]). spec_key s' = k \<and> rt = spec_route getenv s')"
proof -
  have "\<not> (\<exists>s' \<in> set seen. spec_key s' = spec_key s \<and> v = spec_route getenv s')" for v
    using builtD(2) [OF assms(1), of "spec_key s" v] assms(2) by simp
  then show ?thesis
    by (subst update_iff [where P = "\<lambda>k rt. \<exists>s \<in> set seen. spec_key s = k \<and> rt = spec_route getenv s",
          OF builtD(2) [OF assms(1)]]) auto
qed

text \<open>What one more specification adds to the simple fields.\<close>

lemma built_sets:
  assumes "built getenv seen b"
  shows "set (List.insert (getenv (s_secret_env s)) (reg_secrets (b_registry b))) =
      (\<lambda>s. getenv (s_secret_env s)) ` set (seen @ [s])"
    and "set (List.insert (s_sender s) (reg_senders (b_registry b))) = s_sender ` set (seen @ [s])"
    and "notifying s \<Longrightarrow> set (List.insert (spec_key s) (reg_notify_actions (b_registry b))) =
      spec_key ` {s' \<in> set (seen @ [s]). notifying s'}"
    and "\<not> notifying s \<Longrightarrow> set (reg_notify_actions (b_registry b)) =
      spec_key ` {s' \<in> set (seen @ [s]). notifying s'}"
    and "validate_route_spec s getenv = Inr () \<Longrightarrow> s' \<in> set (seen @ [s]) \<Longrightarrow>
      validate_route_spec s' getenv = Inr ()"
proof -
  show "set (List.insert (getenv (s_secret_env s)) (reg_secrets (b_registry b))) =
      (\<lambda>s. getenv (s_secret_env s)) ` set (seen @ [s])"
    by (simp add: builtD(3) [OF assms])
  show "set (List.insert (s_sender s) (reg_senders (b_registry b))) = s_sender ` set (seen @ [s])"
    by (simp add: builtD(4) [OF assms])
  have "{s' \<in> set (seen @ [s]). notifying s'} =
      (if notifying s then insert s {s' \<in> set seen. notifying s'} else {s' \<in> set seen. notifying s'})"
    by auto
  then show "notifying s \<Longrightarrow> set (List.insert (spec_key s) (reg_notify_actions (b_registry b))) =
      spec_key ` {s' \<in> set (seen @ [s]). notifying s'}"
    and "\<not> notifying s \<Longrightarrow> set (reg_notify_actions (b_registry b)) =
      spec_key ` {s' \<in> set (seen @ [s]). notifying s'}"
    by (simp_all add: builtD(5) [OF assms])
  show "validate_route_spec s getenv = Inr () \<Longrightarrow> s' \<in> set (seen @ [s]) \<Longrightarrow>
      validate_route_spec s' getenv = Inr ()"
    using builtD(1) [OF assms, of s'] by auto
qed

lemma built_route:
  assumes "built getenv seen b" and "validate_route_spec s getenv = Inr ()"
    and "map_of (reg_routes (b_registry b)) (spec_key s) = None" and "\<not> notifying s"
  shows "built getenv (seen @ [s]) (b\<lparr>b_registry := (b_registry b)
      \<lparr>reg_routes := AList.update (spec_key s) (spec_route getenv s) (reg_routes (b_registry b)),
       reg_secrets := List.insert (getenv (s_secret_env s)) (reg_secrets (b_registry b)),
       reg_senders := List.insert (s_sender s) (reg_senders (b_registry b))\<rparr>\<rparr>)"
proof (rule builtI, goal_cases)
  case (1 s')
  then show ?case by (rule built_sets(5) [OF assms(1,2)])
next
  case (7 cap c)
  show ?case by (simp add: bex_snoc assms(4) builtD(7) [OF assms(1)] del: set_append map_of_eq_Some_iff)
next
  case (8 tok cap)
  show ?case by (simp add: bex_snoc assms(4) builtD(8) [OF assms(1)] del: set_append map_of_eq_Some_iff)
qed (simp_all add: route_update [OF assms(1,3)] built_sets(1-4) [OF assms(1)] assms(2,4) builtD(6) [OF assms(1)]
    del: set_append set_insert)

lemma built_notify:
  assumes "built getenv seen b" and "validate_route_spec s getenv = Inr ()"
    and "map_of (reg_routes (b_registry b)) (spec_key s) = None" and "notifying s"
    and cred: "\<And>old. map_of (b_credentials b) (spec_cap s) = Some old \<Longrightarrow> cred_env old = s_notify_env s"
    and owner: "\<And>cap. map_of (b_owners b) (getenv (s_notify_env s)) = Some cap \<Longrightarrow> cap = spec_cap s"
  shows "built getenv (seen @ [s])
    (b\<lparr>b_credentials := AList.update (spec_cap s) (spec_cred getenv s) (b_credentials b),
       b_owners := AList.update (getenv (s_notify_env s)) (spec_cap s) (b_owners b),
       b_registry := (b_registry b)
      \<lparr>reg_routes := AList.update (spec_key s) (spec_route getenv s) (reg_routes (b_registry b)),
       reg_secrets := List.insert (getenv (s_secret_env s)) (reg_secrets (b_registry b)),
       reg_senders := List.insert (s_sender s) (reg_senders (b_registry b)),
       reg_notify_actions := List.insert (spec_key s) (reg_notify_actions (b_registry b))\<rparr>\<rparr>)"
proof -
  have same: "c = spec_cred getenv s"
    if "\<exists>s' \<in> set seen. notifying s' \<and> spec_cap s' = spec_cap s \<and> c = spec_cred getenv s'" for c
  proof -
    from that obtain s' where s': "spec_cap s' = spec_cap s" "c = spec_cred getenv s'" by (elim bexE conjE)
    have "map_of (b_credentials b) (spec_cap s) = Some c"
      unfolding builtD(7) [OF assms(1)] by (rule that)
    then have "cred_env c = s_notify_env s" by (rule cred)
    with s' show ?thesis by (simp add: spec_cred_def)
  qed
  have c: "(map_of (AList.update (spec_cap s) (spec_cred getenv s) (b_credentials b)) cap = Some c) =
    (\<exists>s' \<in> set (seen @ [s]). notifying s' \<and> spec_cap s' = cap \<and> c = spec_cred getenv s')" for cap c
    unfolding bex_snoc using assms(4)
      update_iff [where P = "\<lambda>cap c. \<exists>s \<in> set seen. notifying s \<and> spec_cap s = cap \<and> c = spec_cred getenv s",
        OF builtD(7) [OF assms(1)] same, where k = cap and v = c]
    by blast
  have one: "cap = spec_cap s"
    if "\<exists>s' \<in> set seen. notifying s' \<and> getenv (s_notify_env s') = getenv (s_notify_env s) \<and> spec_cap s' = cap" for cap
    by (rule owner, unfold builtD(8) [OF assms(1)]) (rule that)
  have o: "(map_of (AList.update (getenv (s_notify_env s)) (spec_cap s) (b_owners b)) tok = Some cap) =
    (\<exists>s' \<in> set (seen @ [s]). notifying s' \<and> getenv (s_notify_env s') = tok \<and> spec_cap s' = cap)" for tok cap
    unfolding bex_snoc using assms(4)
      update_iff [where P = "\<lambda>tok cap. \<exists>s \<in> set seen. notifying s \<and> getenv (s_notify_env s) = tok \<and> spec_cap s = cap",
        OF builtD(8) [OF assms(1)] one, where k = tok and v = cap]
    by blast
  have d: "distinct (map fst (AList.update (spec_cap s) (spec_cred getenv s) (b_credentials b)))"
    using builtD(6) [OF assms(1)] by (rule distinct_update)
  show ?thesis
  proof (rule builtI, goal_cases)
    case (1 s')
    then show ?case by (rule built_sets(5) [OF assms(1,2)])
  qed (simp_all add: route_update [OF assms(1,3)] built_sets(1-4) [OF assms(1)] assms(2,4) c o d
      del: set_append set_insert map_of_eq_Some_iff)
qed

lemma built_step:
  assumes "built getenv (map (\<lambda>p. with_route_defaults (snd p)) seen) b" and "add_route getenv p b = Inr b'"
  shows "built getenv (map (\<lambda>p. with_route_defaults (snd p)) (seen @ [p])) b'"
proof -
  obtain i input where p: "p = (i, input)" by force
  let ?s = "with_route_defaults input" and ?reg = "b_registry b"
  from assms(2) have v: "validate_route_spec ?s getenv = Inr ()"
    and n: "map_of (reg_routes ?reg) (spec_key ?s) = None"
    and a: "add_notify getenv i ?s
      (b\<lparr>b_registry := ?reg\<lparr>reg_routes := AList.update (spec_key ?s) (spec_route getenv ?s) (reg_routes ?reg),
         reg_secrets := List.insert (getenv (s_secret_env ?s)) (reg_secrets ?reg),
         reg_senders := List.insert (s_sender ?s) (reg_senders ?reg)\<rparr>\<rparr>) = Inr b'"
    by (auto simp: add_route_def p Let_def split: sum.splits if_splits)
  show ?thesis
  proof (cases "notifying ?s")
    case False
    then have "b' = b\<lparr>b_registry := ?reg\<lparr>reg_routes := AList.update (spec_key ?s) (spec_route getenv ?s) (reg_routes ?reg),
         reg_secrets := List.insert (getenv (s_secret_env ?s)) (reg_secrets ?reg),
         reg_senders := List.insert (s_sender ?s) (reg_senders ?reg)\<rparr>\<rparr>"
      using a by (simp add: add_notify_def notifying_def)
    then show ?thesis using built_route [OF assms(1) v n False] by (simp add: p)
  next
    case True
    note facts = a [unfolded add_notify_def Let_def, simplified, folded spec_cap_def spec_cred_def]
    have cred: "cred_env old = s_notify_env ?s" if "map_of (b_credentials b) (spec_cap ?s) = Some old" for old
      using a that True by (auto simp: add_notify_def Let_def notifying_def spec_cap_def split: if_splits)
    have owner: "cap = spec_cap ?s" if "map_of (b_owners b) (getenv (s_notify_env ?s)) = Some cap" for cap
      using a that True by (auto simp: add_notify_def Let_def notifying_def spec_cap_def split: if_splits)
    have "b' = b\<lparr>b_credentials := AList.update (spec_cap ?s) (spec_cred getenv ?s) (b_credentials b),
       b_owners := AList.update (getenv (s_notify_env ?s)) (spec_cap ?s) (b_owners b),
       b_registry := ?reg
      \<lparr>reg_routes := AList.update (spec_key ?s) (spec_route getenv ?s) (reg_routes ?reg),
       reg_secrets := List.insert (getenv (s_secret_env ?s)) (reg_secrets ?reg),
       reg_senders := List.insert (s_sender ?s) (reg_senders ?reg),
       reg_notify_actions := List.insert (spec_key ?s) (reg_notify_actions ?reg)\<rparr>\<rparr>"
      using a True
      by (auto simp: add_notify_def Let_def notifying_def spec_cap_def spec_cred_def split: if_splits)
    then show ?thesis using built_notify [OF assms(1) v n True cred owner] by (simp add: p)
  qed
qed

lemma built_all:
  assumes "each (add_route getenv) (enumerate 0 specs) empty_builder = Inr b"
  shows "built getenv (map with_route_defaults specs) b"
proof -
  have "built getenv (map (\<lambda>p. with_route_defaults (snd p)) ([] @ enumerate 0 specs)) b"
    by (rule each_seen [where P = "\<lambda>seen. built getenv (map (\<lambda>p. with_route_defaults (snd p)) seen)",
          OF built_step _ assms]) (simp_all add: built_empty)
  moreover have "map (\<lambda>p. with_route_defaults (snd p)) (enumerate 0 specs) = map with_route_defaults specs"
    by (metis (no_types, lifting) list.map_comp comp_apply map_snd_enumerate map_cong)
  ultimately show ?thesis by simp
qed

section \<open>Accepted registries\<close>

text \<open>What a specification declares, when it was accepted.\<close>

definition declares :: "route_spec list \<Rightarrow> (string \<Rightarrow> string) \<Rightarrow> string \<Rightarrow> notify_capability \<Rightarrow> string \<Rightarrow> bool" where
  "declares specs getenv token cap action =
     (\<exists>s \<in> set specs. s_notify_env s \<noteq> [] \<and> getenv (s_notify_env s) = token \<and> s_action s = action \<and>
        cap = \<lparr>cap_sender = s_sender s, cap_owner = s_owner s\<rparr>)"

lemma validate_facts:
  assumes "validate_route_spec s getenv = Inr ()"
  shows "32 \<le> length (getenv (s_secret_env s))"
    and "100 * millisecond \<le> s_timeout s" "s_timeout s \<le> 10 * second"
    and "1 \<le> s_max_attempts s" "s_max_attempts s \<le> 10"
    and "100 * millisecond \<le> s_base_backoff s" "s_base_backoff s \<le> s_max_backoff s"
      "s_max_backoff s \<le> 10 * minute"
    and "1 \<le> s_max_in_flight s" "s_max_in_flight s \<le> 100"
    and "notifying s \<Longrightarrow> 32 \<le> length (getenv (s_notify_env s))"
  using assms
  by (auto simp: validate_route_spec_def validate_notify_token_def validate_route_limits_def
      notifying_def res_simps split: if_splits)

lemma fold_last_hit:
  fixes P :: "'a \<Rightarrow> bool"
  shows "fold (\<lambda>c found. if P c then Some (f c) else found) xs None = Some y \<Longrightarrow> \<exists>c \<in> set xs. P c \<and> y = f c"
    and "c \<in> set xs \<Longrightarrow> P c \<Longrightarrow>
      \<exists>c \<in> set xs. P c \<and> fold (\<lambda>c found. if P c then Some (f c) else found) xs None = Some (f c)"
  by (induction xs rule: rev_induct) (auto split: if_splits)

lemma facts:
  assumes accepted: "new_registry specs getenv = Inr reg"
  shows "s \<in> set specs \<Longrightarrow> validate_route_spec (with_route_defaults s) getenv = Inr ()"
    and "map_of (reg_routes reg) k = Some rt \<longleftrightarrow>
      (\<exists>s \<in> set specs. spec_key s = k \<and> rt = spec_route getenv (with_route_defaults s))"
    and "set (reg_secrets reg) = (\<lambda>s. getenv (s_secret_env s)) ` set specs"
    and "set (reg_senders reg) = s_sender ` set specs"
    and "set (reg_notify_actions reg) = spec_key ` {s \<in> set specs. notifying s}"
    and "set (reg_credentials reg) = spec_cred getenv ` {s \<in> set specs. notifying s}"
    and "c \<in> set (reg_credentials reg) \<Longrightarrow> cred_token c \<notin> set (reg_secrets reg)"
    and "s \<in> set specs \<Longrightarrow> s' \<in> set specs \<Longrightarrow> notifying s \<Longrightarrow> notifying s' \<Longrightarrow>
      getenv (s_notify_env s) = getenv (s_notify_env s') \<longleftrightarrow> spec_cap s = spec_cap s'"
proof -
  obtain b where e: "each (add_route getenv) (enumerate 0 specs) empty_builder = Inr b"
    and n: "\<not> (\<exists>c \<in> set (map snd (b_credentials b)). cred_token c \<in> set (reg_secrets (b_registry b)))"
    and r: "reg = (b_registry b)\<lparr>reg_credentials :=
      sort_key (\<lambda>c. (cap_sender (cred_capability c), cap_owner (cred_capability c))) (map snd (b_credentials b))\<rparr>"
    using accepted by (auto simp: new_registry_def res_simps Let_def split: if_splits)
  note b = built_all [OF e]
  have image: "{s \<in> set (map with_route_defaults specs). notifying s} =
      with_route_defaults ` {s \<in> set specs. notifying s}"
    by auto
  show "s \<in> set specs \<Longrightarrow> validate_route_spec (with_route_defaults s) getenv = Inr ()"
    by (rule builtD(1) [OF b]) simp
  show "map_of (reg_routes reg) k = Some rt \<longleftrightarrow>
      (\<exists>s \<in> set specs. spec_key s = k \<and> rt = spec_route getenv (with_route_defaults s))"
    by (simp add: r builtD(2) [OF b])
  show "set (reg_secrets reg) = (\<lambda>s. getenv (s_secret_env s)) ` set specs"
    by (simp add: r builtD(3) [OF b] image_image)
  show "set (reg_senders reg) = s_sender ` set specs"
    by (simp add: r builtD(4) [OF b] image_image)
  show "set (reg_notify_actions reg) = spec_key ` {s \<in> set specs. notifying s}"
    using builtD(5) [OF b] unfolding image by (simp add: r image_image)
  have "set (map snd (b_credentials b)) = spec_cred getenv ` {s \<in> set specs. notifying s}"
  proof (intro equalityI subsetI)
    fix c assume "c \<in> set (map snd (b_credentials b))"
    then obtain cap where "(cap, c) \<in> set (b_credentials b)" by auto
    then have "map_of (b_credentials b) cap = Some c" by (simp add: builtD(6) [OF b])
    then show "c \<in> spec_cred getenv ` {s \<in> set specs. notifying s}"
      unfolding builtD(7) [OF b] by auto
  next
    fix c assume "c \<in> spec_cred getenv ` {s \<in> set specs. notifying s}"
    then obtain s where s: "s \<in> set specs" "notifying s" "c = spec_cred getenv s" by auto
    then have "map_of (b_credentials b) (spec_cap s) = Some c"
      unfolding builtD(7) [OF b] by (intro bexI [of _ "with_route_defaults s"]) simp_all
    then show "c \<in> set (map snd (b_credentials b))" by (force dest: map_of_SomeD)
  qed
  then show "set (reg_credentials reg) = spec_cred getenv ` {s \<in> set specs. notifying s}"
    by (simp add: r)
  show "c \<in> set (reg_credentials reg) \<Longrightarrow> cred_token c \<notin> set (reg_secrets reg)"
    using n by (auto simp: r)
  have owner: "map_of (b_owners b) (getenv (s_notify_env s)) = Some (spec_cap s)"
    if "s \<in> set specs" "notifying s" for s
    unfolding builtD(8) [OF b] using that by (intro bexI [of _ "with_route_defaults s"]) simp_all
  have cred: "map_of (b_credentials b) (spec_cap s) = Some (spec_cred getenv s)"
    if "s \<in> set specs" "notifying s" for s
    unfolding builtD(7) [OF b] using that by (intro bexI [of _ "with_route_defaults s"]) simp_all
  show "getenv (s_notify_env s) = getenv (s_notify_env s') \<longleftrightarrow> spec_cap s = spec_cap s'"
    if "s \<in> set specs" "s' \<in> set specs" "notifying s" "notifying s'"
    using owner [of s] owner [of s'] cred [of s] cred [of s'] that
    by (auto simp: spec_cred_def)
qed

lemma resolve_token:
  assumes accepted: "new_registry specs getenv = Inr reg"
  shows "resolve_notify_token (Some reg) token = Some cap \<longleftrightarrow>
    (\<exists>s \<in> set specs. notifying s \<and> getenv (s_notify_env s) = token \<and> spec_cap s = cap)"
proof -
  let ?f = "\<lambda>c found. if token = cred_token c then Some (cred_capability c) else found"
  have long: "32 \<le> length (getenv (s_notify_env s))" if "s \<in> set specs" "notifying s" for s
    using validate_facts(11) [OF facts(1) [OF accepted that(1)]] that(2) by simp
  show ?thesis
  proof
    assume "resolve_notify_token (Some reg) token = Some cap"
    then have "fold ?f (reg_credentials reg) None = Some cap"
      by (simp add: resolve_notify_token_def split: if_splits)
    then obtain c where "c \<in> set (reg_credentials reg)" "token = cred_token c" "cap = cred_capability c"
      using fold_last_hit(1) [of "\<lambda>c. token = cred_token c" cred_capability] by blast
    then show "\<exists>s \<in> set specs. notifying s \<and> getenv (s_notify_env s) = token \<and> spec_cap s = cap"
      by (auto simp: facts(6) [OF accepted] spec_cred_def)
  next
    assume "\<exists>s \<in> set specs. notifying s \<and> getenv (s_notify_env s) = token \<and> spec_cap s = cap"
    then obtain s where s: "s \<in> set specs" "notifying s" "getenv (s_notify_env s) = token" "spec_cap s = cap"
      by (elim bexE conjE)
    from s(1,2) have "spec_cred getenv s \<in> set (reg_credentials reg)" by (simp add: facts(6) [OF accepted])
    moreover have "token = cred_token (spec_cred getenv s)" by (simp add: spec_cred_def s(3))
    ultimately obtain c where c: "c \<in> set (reg_credentials reg)" "token = cred_token c"
      "fold ?f (reg_credentials reg) None = Some (cred_capability c)"
      using fold_last_hit(2) [of _ _ "\<lambda>c. token = cred_token c" cred_capability] by blast
    from c(1,2) obtain s' where
      s': "s' \<in> set specs" "notifying s'" "getenv (s_notify_env s') = token" "spec_cap s' = cred_capability c"
      by (auto simp: facts(6) [OF accepted] spec_cred_def)
    then have "cred_capability c = cap" using facts(8) [OF accepted, of s s'] s by simp
    moreover have "token \<noteq> []" using long [OF s(1,2)] s(3) by auto
    ultimately show "resolve_notify_token (Some reg) token = Some cap"
      by (simp add: resolve_notify_token_def c(3))
  qed
qed

section \<open>Properties\<close>

text \<open>A configuration with two routes of one producer, one of which it may notify.\<close>

definition sample_spec :: "string \<Rightarrow> string \<Rightarrow> route_spec" where
  "sample_spec action env =
     \<lparr>s_sender = ''bot'', s_owner = ''docs'', s_action = action, s_url = ''https://d.example/cb'',
      s_secret_env = ''S'', s_notify_env = env, s_timeout = 0, s_max_attempts = 0, s_base_backoff = 0,
      s_max_backoff = 0, s_max_in_flight = 0, s_format = []\<rparr>"

definition sample_specs :: "route_spec list" where
  "sample_specs = [sample_spec ''approve'' ''T'', sample_spec ''open'' []]"

definition sample_env :: "string \<Rightarrow> string" where
  "sample_env v = (if v = ''S'' then replicate 32 (CHR ''s'') else if v = ''T'' then replicate 32 (CHR ''t'') else [])"

definition sample_registry :: registry where
  "sample_registry = projr (new_registry sample_specs sample_env)"

lemma sample_accepted: "new_registry sample_specs sample_env = Inr sample_registry"
  by code_simp

text \<open>C17: a notification token grants exactly what the configuration declares: on an accepted
  registry, a bearer token resolves to a capability under which cards of an action may be minted
  if and only if some route names that token, that action and that capability's sender and owner.\<close>

theorem notify_grants_exact:
  assumes "new_registry specs getenv = Inr reg"
  shows "resolve_notify_token (Some reg) token = Some cap \<and> can_notify (Some reg) cap action \<longleftrightarrow>
    declares specs getenv token cap action"
proof -
  have can: "can_notify (Some reg) cap action \<longleftrightarrow>
    (\<exists>s \<in> set specs. notifying s \<and> spec_cap s = cap \<and> s_action s = action)"
    by (auto simp: can_notify_def facts(5) [OF assms] spec_key_def spec_cap_def image_iff)
  have d: "declares specs getenv token cap action \<longleftrightarrow>
    (\<exists>s \<in> set specs. notifying s \<and> getenv (s_notify_env s) = token \<and> spec_cap s = cap \<and> s_action s = action)"
    by (auto simp: declares_def notifying_def spec_cap_def)
  have "getenv (s_notify_env s) = token" if "s \<in> set specs" "notifying s" "spec_cap s = cap"
    "s' \<in> set specs" "notifying s'" "spec_cap s' = cap" "getenv (s_notify_env s') = token" for s s'
    using facts(8) [OF assms, of s s'] that by simp
  then show ?thesis unfolding resolve_token [OF assms] can d by metis
qed

theorem notify_grants_exact_witness:
  "resolve_notify_token (Some sample_registry) (sample_env ''T'') = Some \<lparr>cap_sender = ''bot'', cap_owner = ''docs''\<rparr> \<and>
   \<not> can_notify (Some sample_registry) \<lparr>cap_sender = ''bot'', cap_owner = ''docs''\<rparr> ''open''"
proof -
  have a: "declares sample_specs sample_env (sample_env ''T'') \<lparr>cap_sender = ''bot'', cap_owner = ''docs''\<rparr> ''approve''"
    and b: "\<not> declares sample_specs sample_env (sample_env ''T'') \<lparr>cap_sender = ''bot'', cap_owner = ''docs''\<rparr> ''open''"
    by code_simp+
  show ?thesis
    using notify_grants_exact [OF sample_accepted, THEN iffD2, OF a]
      notify_grants_exact [OF sample_accepted, of "sample_env ''T''" "\<lparr>cap_sender = ''bot'', cap_owner = ''docs''\<rparr>" "''open''"] b
    by blast
qed

text \<open>C18: credentials of different powers are never shared: on an accepted registry, a token that
  resolves to a notification capability has at least 32 bytes, is no route's callback secret, and
  every route that names it has that capability's sender and owner.\<close>

theorem notify_token_separate:
  assumes "new_registry specs getenv = Inr reg"
    and "resolve_notify_token (Some reg) token = Some cap"
  shows "32 \<le> length token \<and> (\<forall>s \<in> set specs. getenv (s_secret_env s) \<noteq> token \<and>
    (s_notify_env s \<noteq> [] \<and> getenv (s_notify_env s) = token \<longrightarrow>
       s_sender s = cap_sender cap \<and> s_owner s = cap_owner cap))"
proof -
  from assms(2) obtain s where s: "s \<in> set specs" "notifying s" "getenv (s_notify_env s) = token" "spec_cap s = cap"
    unfolding resolve_token [OF assms(1)] by (elim bexE conjE)
  have "32 \<le> length token"
    using validate_facts(11) [OF facts(1) [OF assms(1) s(1)]] s(2,3) by simp
  moreover have "cred_token (spec_cred getenv s) \<notin> set (reg_secrets reg)"
    by (rule facts(7) [OF assms(1)]) (use s(1,2) in \<open>simp add: facts(6) [OF assms(1)]\<close>)
  then have "token \<notin> set (reg_secrets reg)" by (simp add: spec_cred_def s(3))
  then have "getenv (s_secret_env s') \<noteq> token" if "s' \<in> set specs" for s'
    using that by (auto simp: facts(3) [OF assms(1)])
  moreover have "s_sender s' = cap_sender cap \<and> s_owner s' = cap_owner cap"
    if "s' \<in> set specs" "s_notify_env s' \<noteq> []" "getenv (s_notify_env s') = token" for s'
  proof -
    have "spec_cap s' = cap"
      using facts(8) [OF assms(1) that(1) s(1)] that(2,3) s(2-4) by (simp add: notifying_def)
    then show ?thesis by (auto simp: spec_cap_def)
  qed
  ultimately show ?thesis by blast
qed

theorem notify_token_separate_witness:
  "32 \<le> length (sample_env ''T'') \<and> sample_env ''S'' \<noteq> sample_env ''T''"
proof -
  have "resolve_notify_token (Some sample_registry) (sample_env ''T'') =
    Some \<lparr>cap_sender = ''bot'', cap_owner = ''docs''\<rparr>" by code_simp
  from notify_token_separate [OF sample_accepted this] show ?thesis
    by (simp add: sample_specs_def sample_spec_def)
qed

text \<open>Routing is what the configuration says: on an accepted registry, an action resolves to a
  callback exactly when a route for its sender, owner and type is configured, with that route's
  settings, all within their limits and its secret of at least 32 bytes; it is rejected when its
  sender has routes but none for it; and it is left to the bot only when its sender has none.\<close>

theorem resolve_exact:
  assumes "new_registry specs getenv = Inr reg"
  shows "case resolve (Some reg) sender owner action of
      Callback rt \<Rightarrow>
        (\<exists>s \<in> set specs. spec_key s = (sender, owner, action) \<and> rt = spec_route getenv (with_route_defaults s)) \<and>
        100 * millisecond \<le> r_timeout rt \<and> r_timeout rt \<le> 10 * second \<and>
        1 \<le> r_max_attempts rt \<and> r_max_attempts rt \<le> 10 \<and>
        100 * millisecond \<le> r_base_backoff rt \<and> r_base_backoff rt \<le> r_max_backoff rt \<and>
        r_max_backoff rt \<le> 10 * minute \<and> 1 \<le> r_max_in_flight rt \<and> r_max_in_flight rt \<le> 100 \<and>
        32 \<le> length (r_secret rt)
    | Reject \<Rightarrow> (\<forall>s \<in> set specs. spec_key s \<noteq> (sender, owner, action)) \<and> (\<exists>s \<in> set specs. s_sender s = sender)
    | BotPull \<Rightarrow> \<forall>s \<in> set specs. s_sender s \<noteq> sender"
proof (cases "map_of (reg_routes reg) (sender, owner, action)")
  case None
  have "spec_key s \<noteq> (sender, owner, action)" if "s \<in> set specs" for s
    using facts(2) [OF assms, of "(sender, owner, action)" "spec_route getenv (with_route_defaults s)"] None that
    by auto
  with None show ?thesis by (auto simp: resolve_def facts(4) [OF assms])
next
  case (Some rt)
  then obtain s where s: "s \<in> set specs" "spec_key s = (sender, owner, action)"
    "rt = spec_route getenv (with_route_defaults s)"
    unfolding facts(2) [OF assms] by (elim bexE conjE)
  from validate_facts [OF facts(1) [OF assms s(1)]] s Some show ?thesis
    by (auto simp: resolve_def spec_route_def)
qed

theorem resolve_exact_witness:
  "\<exists>rt. resolve (Some sample_registry) ''bot'' ''docs'' ''open'' = Callback rt \<and>
     r_timeout rt \<le> 10 * second \<and> 32 \<le> length (r_secret rt)"
proof -
  obtain rt where "resolve (Some sample_registry) ''bot'' ''docs'' ''open'' = Callback rt"
  proof -
    have "(case resolve (Some sample_registry) ''bot'' ''docs'' ''open'' of Callback rt \<Rightarrow> True | _ \<Rightarrow> False)"
      by code_simp
    then show ?thesis using that by (auto split: resolution.splits)
  qed
  with resolve_exact [OF sample_accepted, of "''bot''" "''docs''" "''open''"] show ?thesis by simp
qed

text \<open>The conversion of configured milliseconds wraps: \<open>LoadRouteSpecs\<close> accepts a timeout of
  18446744074710 milliseconds and turns it into one of 1.000448384 seconds, which passes the
  limits.\<close>

theorem huge_timeout_accepted:
  "map_sum id s_timeout (load_route \<lparr>j_sender = ''b'', j_owner = ''o'', j_action = ''a'', j_url = ''https://d/'',
     j_secret_env = ''S'', j_notify_env = [], j_timeout_ms = 18446744074710, j_max_attempts = 0,
     j_base_backoff_ms = 0, j_max_backoff_ms = 0, j_max_in_flight = 0, j_format = []\<rparr>) = Inr 1000448384 \<and>
   100 * millisecond \<le> 1000448384 \<and> 1000448384 \<le> 10 * second"
  by (simp add: load_route_def with_route_defaults_def wrap64_def millisecond_def second_def Let_def)

end
