(* ===== verification/Go_Utf8.thy ===== *)
theory Go_Utf8
  imports Go_Strings
begin

text \<open>
  \<open>unicode/utf8\<close> on byte strings: the width of the first rune, one byte for an invalid encoding,
  \<open>RuneCountInString\<close> and \<open>ValidString\<close>.
\<close>

definition cont :: "char \<Rightarrow> bool" where
  "cont c = (128 \<le> byte c \<and> byte c \<le> 191)"

text \<open>The accepted second bytes after a leading byte.\<close>

definition second_ok :: "nat \<Rightarrow> char \<Rightarrow> bool" where
  "second_ok b c =
     (if b = 224 then 160 \<le> byte c \<and> byte c \<le> 191
      else if b = 237 then 128 \<le> byte c \<and> byte c \<le> 159
      else if b = 240 then 144 \<le> byte c \<and> byte c \<le> 191
      else if b = 244 then 128 \<le> byte c \<and> byte c \<le> 143
      else cont c)"

text \<open>\<open>DecodeRuneInString\<close>: the width of the first rune, \<open>None\<close> for an invalid encoding.\<close>

definition rune_width :: "string \<Rightarrow> nat option" where
  "rune_width s =
     (case s of
        [] \<Rightarrow> None
      | a # r \<Rightarrow>
          (let b = byte a in
           if b < 128 then Some 1
           else if 194 \<le> b \<and> b \<le> 223 then
             (case r of c # _ \<Rightarrow> if cont c then Some 2 else None | _ \<Rightarrow> None)
           else if 224 \<le> b \<and> b \<le> 239 then
             (case r of c # d # _ \<Rightarrow> if second_ok b c \<and> cont d then Some 3 else None | _ \<Rightarrow> None)
           else if 240 \<le> b \<and> b \<le> 244 then
             (case r of c # d # e # _ \<Rightarrow> if second_ok b c \<and> cont d \<and> cont e then Some 4 else None | _ \<Rightarrow> None)
           else None))"

lemma rune_width_bounds: "rune_width s = Some n \<Longrightarrow> 1 \<le> n \<and> n \<le> length s \<and> n \<le> 4"
  by (auto simp: rune_width_def Let_def split: list.splits if_splits)

function rune_count :: "string \<Rightarrow> nat" where
  "rune_count s =
     (if s = [] then 0
      else Suc (rune_count (drop (case rune_width s of Some n \<Rightarrow> n | None \<Rightarrow> 1) s)))"
  by pat_completeness auto
termination
  by (relation "measure length") (auto split: option.splits dest: rune_width_bounds)

declare rune_count.simps [simp del]

function valid_utf8 :: "string \<Rightarrow> bool" where
  "valid_utf8 s =
     (if s = [] then True
      else (case rune_width s of None \<Rightarrow> False | Some n \<Rightarrow> valid_utf8 (drop n s)))"
  by pat_completeness auto
termination
proof (relation "measure length")
  fix s :: string and n assume "s \<noteq> []" "rune_width s = Some n"
  then show "(drop n s, s) \<in> measure length" using rune_width_bounds [of s n] by auto
qed simp

declare valid_utf8.simps [simp del]

lemma valid_utf8_Nil [simp]: "valid_utf8 []"
  by (simp add: valid_utf8.simps)

lemma rune_count_le: "rune_count s \<le> length s"
proof (induction s rule: rune_count.induct)
  case (1 s)
  show ?case
  proof (cases "s = []")
    case False
    let ?n = "case rune_width s of Some n \<Rightarrow> n | None \<Rightarrow> 1"
    have "1 \<le> ?n" by (auto split: option.splits dest: rune_width_bounds)
    with 1 False show ?thesis by (subst rune_count.simps) (cases s; fastforce)
  qed (simp add: rune_count.simps)
qed

text \<open>\<open>truncate\<close>: cut at the limit, and then back until the rest is valid.\<close>

fun cut_back :: "string \<Rightarrow> nat \<Rightarrow> nat" where
  "cut_back s 0 = 0"
| "cut_back s (Suc n) = (if valid_utf8 (take (Suc n) s) then Suc n else cut_back s n)"

definition truncate_string :: "string \<Rightarrow> nat \<Rightarrow> string" where
  "truncate_string s limit = (if length s \<le> limit then s else take (cut_back s limit) s)"

lemma cut_back_le: "cut_back s n \<le> n"
  by (induction n) auto

lemma truncate_string_length: "length (truncate_string s n) \<le> n" "prefix (truncate_string s n) s"
  using cut_back_le [of s n] by (auto simp: truncate_string_def take_is_prefix)

end
