(* ===== verification/Octo_Sign.thy ===== *)
theory Octo_Sign
  imports Go_Strings "HOL-Library.Word"
begin

unbundle bit_operations_syntax

text \<open>
  Request signing, \<open>pkg/octosign\<close>: the canonical string of a request and its HMAC-SHA256.  The
  hash functions of Go's standard library are written out over 32 bit words; a byte string is a
  list of characters.
\<close>

section \<open>SHA-256\<close>

type_synonym w32 = "32 word"

definition sha_k :: "w32 list" where
  "sha_k =
     [0x428A2F98, 0x71374491, 0xB5C0FBCF, 0xE9B5DBA5, 0x3956C25B, 0x59F111F1, 0x923F82A4, 0xAB1C5ED5,
      0xD807AA98, 0x12835B01, 0x243185BE, 0x550C7DC3, 0x72BE5D74, 0x80DEB1FE, 0x9BDC06A7, 0xC19BF174,
      0xE49B69C1, 0xEFBE4786, 0x0FC19DC6, 0x240CA1CC, 0x2DE92C6F, 0x4A7484AA, 0x5CB0A9DC, 0x76F988DA,
      0x983E5152, 0xA831C66D, 0xB00327C8, 0xBF597FC7, 0xC6E00BF3, 0xD5A79147, 0x06CA6351, 0x14292967,
      0x27B70A85, 0x2E1B2138, 0x4D2C6DFC, 0x53380D13, 0x650A7354, 0x766A0ABB, 0x81C2C92E, 0x92722C85,
      0xA2BFE8A1, 0xA81A664B, 0xC24B8B70, 0xC76C51A3, 0xD192E819, 0xD6990624, 0xF40E3585, 0x106AA070,
      0x19A4C116, 0x1E376C08, 0x2748774C, 0x34B0BCB5, 0x391C0CB3, 0x4ED8AA4A, 0x5B9CCA4F, 0x682E6FF3,
      0x748F82EE, 0x78A5636F, 0x84C87814, 0x8CC70208, 0x90BEFFFA, 0xA4506CEB, 0xBEF9A3F7, 0xC67178F2]"

definition sha_init :: "w32 list" where
  "sha_init =
     [0x6A09E667, 0xBB67AE85, 0x3C6EF372, 0xA54FF53A, 0x510E527F, 0x9B05688C, 0x1F83D9AB, 0x5BE0CD19]"

definition rotr :: "nat \<Rightarrow> w32 \<Rightarrow> w32" where
  "rotr n x = (drop_bit n x OR push_bit (32 - n) x)"

definition small_sigma0 :: "w32 \<Rightarrow> w32" where
  "small_sigma0 x = (rotr 7 x XOR rotr 18 x XOR drop_bit 3 x)"

definition small_sigma1 :: "w32 \<Rightarrow> w32" where
  "small_sigma1 x = (rotr 17 x XOR rotr 19 x XOR drop_bit 10 x)"

definition big_sigma0 :: "w32 \<Rightarrow> w32" where
  "big_sigma0 x = (rotr 2 x XOR rotr 13 x XOR rotr 22 x)"

definition big_sigma1 :: "w32 \<Rightarrow> w32" where
  "big_sigma1 x = (rotr 6 x XOR rotr 11 x XOR rotr 25 x)"

text \<open>The message schedule, newest word first: \<open>n\<close> more words after the sixteen of the block.\<close>

fun sha_schedule :: "nat \<Rightarrow> w32 list \<Rightarrow> w32 list" where
  "sha_schedule 0 ws = ws"
| "sha_schedule (Suc n) ws =
     sha_schedule n ((small_sigma1 (ws ! 1) + ws ! 6 + small_sigma0 (ws ! 14) + ws ! 15) # ws)"

definition sha_round :: "w32 \<times> w32 \<Rightarrow> w32 list \<Rightarrow> w32 list" where
  "sha_round kw s =
     (case s of
        [a, b, c, d, e, f, g, h] \<Rightarrow>
          let t1 = h + big_sigma1 e + ((e AND f) XOR (NOT e AND g)) + fst kw + snd kw;
              t2 = big_sigma0 a + ((a AND b) XOR (a AND c) XOR (b AND c))
          in [t1 + t2, a, b, c, d + t1, e, f, g]
      | _ \<Rightarrow> s)"

definition sha_block :: "w32 list \<Rightarrow> w32 list \<Rightarrow> w32 list" where
  "sha_block block s =
     map2 (+) s (fold sha_round (zip sha_k (rev (sha_schedule 48 (rev block)))) s)"

fun be_words :: "string \<Rightarrow> w32 list" where
  "be_words (a # b # c # d # s) =
     (push_bit 24 (of_nat (byte a)) OR push_bit 16 (of_nat (byte b)) OR push_bit 8 (of_nat (byte c)) OR
        of_nat (byte d)) # be_words s"
| "be_words _ = []"

definition be_bytes :: "nat list \<Rightarrow> 'a::len word \<Rightarrow> string" where
  "be_bytes shifts w = map (\<lambda>n. char_of (unat (drop_bit n w AND 255))) shifts"

definition sha_pad :: "string \<Rightarrow> string" where
  "sha_pad m =
     m @ [CHR 0x80] @ replicate ((119 - length m mod 64) mod 64) (CHR 0x00) @
       be_bytes [56, 48, 40, 32, 24, 16, 8, 0] (of_nat (8 * length m) :: 64 word)"

text \<open>The padded message is a whole number of blocks of sixteen words.\<close>

function sha_blocks :: "w32 list \<Rightarrow> w32 list \<Rightarrow> w32 list" where
  "sha_blocks ws s = (if length ws < 16 then s else sha_blocks (drop 16 ws) (sha_block (take 16 ws) s))"
  by pat_completeness auto
termination by (relation "measure (length \<circ> fst)") auto

declare sha_blocks.simps [simp del]

definition sha256 :: "string \<Rightarrow> string" where
  "sha256 m = concat (map (\<lambda>w. be_bytes [24, 16, 8, 0] w) (sha_blocks (be_words (sha_pad m)) sha_init))"

definition hmac_sha256 :: "string \<Rightarrow> string \<Rightarrow> string" where
  "hmac_sha256 key m =
     (let k = (if 64 < length key then sha256 key else key);
          k = k @ replicate (64 - length k) (CHR 0x00);
          pad = (\<lambda>b. map (\<lambda>c. char_of (byte c XOR b)) k)
      in sha256 (pad 0x5C @ sha256 (pad 0x36 @ m)))"

section \<open>The signature\<close>

definition hex_digit :: "nat \<Rightarrow> char" where
  "hex_digit n = (if n < 10 then char_of (48 + n) else char_of (87 + n))"

definition hex_encode :: "string \<Rightarrow> string" where
  "hex_encode s = concat (map (\<lambda>c. [hex_digit (byte c div 16), hex_digit (byte c mod 16)]) s)"

definition upper_char :: "char \<Rightarrow> char" where
  "upper_char c = (if 97 \<le> byte c \<and> byte c \<le> 122 then char_of (byte c - 32) else c)"

text \<open>\<open>strings.ToUpper\<close> on the method, a constant of ASCII letters at every call.\<close>

definition to_upper :: "string \<Rightarrow> string" where
  "to_upper = map upper_char"

definition canonical_request :: "string \<Rightarrow> string \<Rightarrow> string \<Rightarrow> string \<Rightarrow> string \<Rightarrow> string" where
  "canonical_request meth path timestamp event_id body =
     str_join [CHR 0x0A]
       [''v1'', to_upper meth, path, timestamp, event_id, hex_encode (sha256 body)]"

definition sign :: "string \<Rightarrow> string \<Rightarrow> string \<Rightarrow> string \<Rightarrow> string \<Rightarrow> string \<Rightarrow> string" where
  "sign secret meth path timestamp event_id body =
     ''v1='' @ hex_encode (hmac_sha256 secret (canonical_request meth path timestamp event_id body))"

definition verify :: "string \<Rightarrow> string \<Rightarrow> string \<Rightarrow> string \<Rightarrow> string \<Rightarrow> string \<Rightarrow> string \<Rightarrow> bool" where
  "verify secret signature meth path timestamp event_id body =
     (signature = sign secret meth path timestamp event_id body)"

section \<open>Facts\<close>

lemma sha_pad_blocks: "length (sha_pad m) mod 64 = 0"
proof -
  have "length (sha_pad m) = length m + 1 + (119 - length m mod 64) mod 64 + 8"
    by (simp add: sha_pad_def be_bytes_def)
  moreover have "(n + 1 + (119 - n mod 64) mod 64 + 8) mod 64 = 0" for n :: nat
  proof -
    obtain q t where n: "n = 64 * q + t" "t < 64" by (metis div_mult_mod_eq mod_less_divisor mult.commute zero_less_numeral)
    have t: "n mod 64 = t" using n by simp
    show ?thesis
    proof (cases "t < 56")
      case True
      then have "119 - t = (55 - t) + 64" by simp
      then have "(119 - t) mod 64 = 55 - t" by (simp only: mod_add_self2) simp
      then have "n + 1 + (119 - n mod 64) mod 64 + 8 = 64 * (q + 1)" using True n(1) by (simp add: t)
      then show ?thesis by (simp only: mod_mult_self1_is_0)
    next
      case False
      then have "n + 1 + (119 - n mod 64) mod 64 + 8 = 64 * (q + 2)" using n by (simp add: t)
      then show ?thesis by (simp only: mod_mult_self1_is_0)
    qed
  qed
  ultimately show ?thesis by (simp only:)
qed

lemma hex_digit_range: "n < 16 \<Longrightarrow> byte (hex_digit n) = (if n < 10 then 48 + n else 87 + n)"
  by (simp add: hex_digit_def byte_def)

lemma hex_digit_inj: "m < 16 \<Longrightarrow> n < 16 \<Longrightarrow> hex_digit m = hex_digit n \<Longrightarrow> m = n"
proof -
  assume m: "m < 16" and n: "n < 16" and e: "hex_digit m = hex_digit n"
  from e have "byte (hex_digit m) = byte (hex_digit n)" by simp
  then show "m = n" using m n by (auto simp: hex_digit_range split: if_splits)
qed

lemma byte_less: "byte c < 256"
  by (simp add: byte_def)

lemma byte_eq: "byte c = byte d \<Longrightarrow> c = d"
  by (simp add: byte_def)

lemma hex_encode_Cons: "hex_encode (c # s) = hex_digit (byte c div 16) # hex_digit (byte c mod 16) # hex_encode s"
  by (simp add: hex_encode_def)

lemma hex_encode_inj: "hex_encode s = hex_encode t \<Longrightarrow> s = t"
proof (induction s arbitrary: t)
  case Nil
  then show ?case by (cases t) (simp_all add: hex_encode_def)
next
  case (Cons c s)
  show ?case
  proof (cases t)
    case Nil
    with Cons.prems show ?thesis by (simp add: hex_encode_def)
  next
    case (Cons d t')
    with Cons.prems have e: "hex_digit (byte c div 16) = hex_digit (byte d div 16)"
      "hex_digit (byte c mod 16) = hex_digit (byte d mod 16)" "hex_encode s = hex_encode t'"
      by (simp_all add: hex_encode_Cons)
    have "byte c div 16 < 16" "byte d div 16 < 16" using byte_less [of c] byte_less [of d] by simp_all
    with e(1) have "byte c div 16 = byte d div 16" by (intro hex_digit_inj)
    moreover have "byte c mod 16 = byte d mod 16" using e(2) by (intro hex_digit_inj) simp_all
    ultimately have "byte c = byte d" by (metis div_mult_mod_eq)
    then show ?thesis using Cons.IH [OF e(3)] Cons by (simp add: byte_eq)
  qed
qed

text \<open>The first part of a join is determined when no part holds the separator.\<close>

lemma split_first:
  "a @ c # r = b @ c # s \<Longrightarrow> c \<notin> set a \<Longrightarrow> c \<notin> set b \<Longrightarrow> a = b \<and> r = s"
proof (induction a arbitrary: b)
  case Nil
  then show ?case by (cases b) auto
next
  case (Cons x a)
  then show ?case by (cases b) auto
qed

lemma canonical_unfold:
  "canonical_request meth path ts ev body = ''v1'' @ [CHR 0x0A] @ to_upper meth @ [CHR 0x0A] @ path @
    [CHR 0x0A] @ ts @ [CHR 0x0A] @ ev @ [CHR 0x0A] @ hex_encode (sha256 body)"
  by (simp add: canonical_request_def)

lemma upper_newline: "CHR 0x0A \<notin> set m \<Longrightarrow> CHR 0x0A \<notin> set (to_upper m)"
proof -
  have up: "upper_char c \<noteq> CHR 0x0A" if "c \<noteq> CHR 0x0A" for c
  proof
    assume u: "upper_char c = CHR 0x0A"
    show False
    proof (cases "97 \<le> byte c \<and> byte c \<le> 122")
      case True
      then have "byte (upper_char c) = (byte c - 32) mod 256" by (simp add: upper_char_def byte_def)
      moreover have "(byte c - 32) mod 256 = byte c - 32" using byte_less [of c] by simp
      moreover have "byte (CHR 0x0A) = 10" by (simp add: byte_def)
      ultimately have "byte c - 32 = 10" by (simp add: u)
      then show False using True by linarith
    next
      case False
      then have "upper_char c = c" unfolding upper_char_def by (rule if_not_P)
      with u that show False by simp
    qed
  qed
  show "CHR 0x0A \<notin> set m \<Longrightarrow> CHR 0x0A \<notin> set (to_upper m)"
    unfolding to_upper_def set_map by (metis imageE up)
qed

text \<open>C21: the signed string determines the request: for parts without line breaks, two requests
  have the same canonical string only if their methods (up to case), paths, timestamps and event
  identifiers are equal and their bodies have the same SHA-256; so a signature covers no other
  request.\<close>

theorem canonical_injective:
  assumes "canonical_request m p t e b = canonical_request m' p' t' e' b'"
    and "CHR 0x0A \<notin> set (m @ p @ t @ e)" and "CHR 0x0A \<notin> set (m' @ p' @ t' @ e')"
  shows "to_upper m = to_upper m' \<and> p = p' \<and> t = t' \<and> e = e' \<and> sha256 b = sha256 b'"
proof -
  note c = assms(1) [unfolded canonical_unfold]
  from c have "to_upper m @ CHR 0x0A # (p @ [CHR 0x0A] @ t @ [CHR 0x0A] @ e @ [CHR 0x0A] @ hex_encode (sha256 b)) =
      to_upper m' @ CHR 0x0A # (p' @ [CHR 0x0A] @ t' @ [CHR 0x0A] @ e' @ [CHR 0x0A] @ hex_encode (sha256 b'))"
    by simp
  from split_first [OF this] assms(2,3) upper_newline
  have m: "to_upper m = to_upper m'"
    and p: "p @ CHR 0x0A # (t @ [CHR 0x0A] @ e @ [CHR 0x0A] @ hex_encode (sha256 b)) =
      p' @ CHR 0x0A # (t' @ [CHR 0x0A] @ e' @ [CHR 0x0A] @ hex_encode (sha256 b'))"
    by auto
  from split_first [OF p] assms(2,3) have "p = p'"
    and t: "t @ CHR 0x0A # (e @ [CHR 0x0A] @ hex_encode (sha256 b)) =
      t' @ CHR 0x0A # (e' @ [CHR 0x0A] @ hex_encode (sha256 b'))" by auto
  from split_first [OF t] assms(2,3) have "t = t'"
    and e: "e @ CHR 0x0A # hex_encode (sha256 b) = e' @ CHR 0x0A # hex_encode (sha256 b')" by auto
  from split_first [OF e] assms(2,3) have "e = e'" "hex_encode (sha256 b) = hex_encode (sha256 b')" by auto
  with m \<open>p = p'\<close> \<open>t = t'\<close> show ?thesis by (simp add: hex_encode_inj)
qed

theorem canonical_injective_witness:
  "canonical_request ''POST'' ''/a'' ''1'' ''2'' [] \<noteq> canonical_request ''POST'' ''/a'' ''12'' [] []"
proof
  assume "canonical_request ''POST'' ''/a'' ''1'' ''2'' [] = canonical_request ''POST'' ''/a'' ''12'' [] []"
  from canonical_injective [OF this] show False by simp
qed

end
