(* ===== verification/Action_Contract.thy ===== *)
theory Action_Contract
  imports Action_Registry Go_Utf8 Octo_Sign
begin

text \<open>
  The wire contract of a card action, \<open>internal/cardactiondispatch/contract.go\<close>, and its delivery
  over HTTP, \<open>http.go\<close>: the stored event, the decision request in its two formats, the decoding
  and checking of a decision, and the classification of a delivery's outcome.  A Go map that may
  be nil is an option.  \<open>encoding/json\<close> is a parameter: \<open>marshal\<close> writes a JSON value, \<open>decode\<close>
  decodes the first value of a text into the members of its object, repeated names included and
  numbers as \<open>json.Number\<close>, with the text that follows.
\<close>

section \<open>Events\<close>

record card_context =
  cc_template :: string
  cc_version :: string
  cc_view :: string
  cc_principal_type :: string
  cc_principal :: string
  cc_space :: string

definition empty_context :: card_context where
  "empty_context = \<lparr>cc_template = [], cc_version = [], cc_view = [], cc_principal_type = [],
     cc_principal = [], cc_space = []\<rparr>"

record event =
  e_id :: int
  e_sender :: string
  e_owner :: string
  e_action_type :: string
  e_message :: string
  e_channel :: string
  e_channel_type :: int
  e_space :: string
  e_action :: string
  e_operator :: string
  e_operator_space :: string
  e_client_token :: string
  e_acted_at :: int
  e_inputs :: "gmap option"
  e_data :: "gmap option"
  e_card :: card_context

definition nil_map :: "gmap option \<Rightarrow> gmap" where
  "nil_map m = (case m of None \<Rightarrow> [] | Some m \<Rightarrow> m)"

definition json_map :: "gmap option \<Rightarrow> gval" where
  "json_map m = (case m of None \<Rightarrow> GNil | Some m \<Rightarrow> GObj m)"

text \<open>A member that the tag \<open>omitempty\<close> leaves out when it is empty.\<close>

definition opt_str :: "string \<Rightarrow> string \<Rightarrow> gmap" where
  "opt_str k s = (if s = [] then [] else [(k, GStr s)])"

definition opt_map :: "string \<Rightarrow> gmap option \<Rightarrow> gmap" where
  "opt_map k m = (if nil_map m = [] then [] else [(k, json_map m)])"

definition context_json :: "card_context \<Rightarrow> gval" where
  "context_json c = GObj (opt_str ''template_id'' (cc_template c) @ opt_str ''template_version'' (cc_version c) @
     opt_str ''view'' (cc_view c) @ opt_str ''principal_type'' (cc_principal_type c) @
     opt_str ''principal_id'' (cc_principal c) @ opt_str ''space_id'' (cc_space c))"

definition event_json :: "event \<Rightarrow> gval" where
  "event_json e = GObj
     ([(''event_id'', GInt64 (e_id e)), (''sender_uid'', GStr (e_sender e)), (''owner'', GStr (e_owner e)),
       (''action_type'', GStr (e_action_type e)), (''message_id'', GStr (e_message e)),
       (''channel_id'', GStr (e_channel e)), (''channel_type'', GInt (e_channel_type e))] @
      opt_str ''space_id'' (e_space e) @
      [(''action_id'', GStr (e_action e)), (''operator_uid'', GStr (e_operator e))] @
      opt_str ''operator_space_id'' (e_operator_space e) @ opt_str ''client_token'' (e_client_token e) @
      [(''acted_at'', GInt64 (e_acted_at e)), (''inputs'', json_map (e_inputs e))] @
      opt_map ''data'' (e_data e) @ [(''card'', context_json (e_card e))])"

section \<open>Decision requests\<close>

record decision_request =
  q_event_id :: int
  q_action :: string
  q_decision :: string
  q_operator :: string
  q_doc :: string
  q_request :: string
  q_inputs :: gmap
  q_data :: "gmap option"
  q_message :: string
  q_channel :: string
  q_channel_type :: int
  q_space :: string
  q_operator_space :: string
  q_acted_at :: int
  q_event :: "event option"

definition decision_request_from_event :: "event \<Rightarrow> decision_request" where
  "decision_request_from_event e =
     \<lparr>q_event_id = e_id e, q_action = e_action e, q_decision = str_field (nil_map (e_data e)) ''decision'',
      q_operator = e_operator e, q_doc = str_field (nil_map (e_data e)) ''doc_id'',
      q_request = str_field (nil_map (e_data e)) ''request_id'', q_inputs = nil_map (e_inputs e),
      q_data = e_data e, q_message = e_message e, q_channel = e_channel e,
      q_channel_type = e_channel_type e, q_space = e_space e, q_operator_space = e_operator_space e,
      q_acted_at = e_acted_at e, q_event = Some e\<rparr>"

definition request_json :: "decision_request \<Rightarrow> gval" where
  "request_json q = GObj
     ([(''event_id'', GStr (show_int (q_event_id q))), (''action_id'', GStr (q_action q)),
       (''decision'', GStr (q_decision q)), (''operator_uid'', GStr (q_operator q))] @
      opt_str ''doc_id'' (q_doc q) @ opt_str ''request_id'' (q_request q) @
      [(''inputs'', GObj (q_inputs q))] @ opt_map ''data'' (q_data q) @
      [(''message_id'', GStr (q_message q)), (''channel_id'', GStr (q_channel q)),
       (''channel_type'', GInt (q_channel_type q))] @
      opt_str ''space_id'' (q_space q) @ opt_str ''operator_space_id'' (q_operator_space q) @
      [(''acted_at'', GInt64 (q_acted_at q))])"

definition callback_envelope :: "event \<Rightarrow> gval" where
  "callback_envelope e = GObj
     [(''protocol'', GStr ''octo-card@1.0''), (''type'', GStr ''card.action''),
      (''action'', GObj ([(''id'', GStr (e_action e))] @ opt_map ''data'' (e_data e) @
         [(''inputs'', GObj (nil_map (e_inputs e)))])),
      (''card'', GObj [(''template_id'', GStr (cc_template (e_card e))),
         (''template_version'', GStr (cc_version (e_card e))), (''view'', GStr (cc_view (e_card e))),
         (''message_id'', GStr (e_message e)), (''channel_id'', GStr (e_channel e)),
         (''channel_type'', GInt (e_channel_type e))]),
      (''actor'', GObj ([(''uid'', GStr (e_operator e))] @ opt_str ''space_id'' (e_operator_space e))),
      (''trigger_id'', GStr (show_int (e_id e)))]"

datatype encode_error = MarshalFailed | UnsupportedFormat | IncompleteContext | NoSourceEvent

definition marshal_value :: "services \<Rightarrow> gval \<Rightarrow> encode_error + string" where
  "marshal_value sv v = (case marshal sv v of None \<Rightarrow> Inl MarshalFailed | Some s \<Rightarrow> Inr s)"

definition is_legacy :: "string \<Rightarrow> bool" where
  "is_legacy format = (format = [] \<or> format = legacy_format)"

definition marshal_callback_request :: "services \<Rightarrow> event \<Rightarrow> string \<Rightarrow> encode_error + string" where
  "marshal_callback_request sv e format =
     (if is_legacy format then marshal_value sv (request_json (decision_request_from_event e))
      else if format \<noteq> octo_card_format then Inl UnsupportedFormat
      else if e_id e \<le> 0 \<or> cc_template (e_card e) = [] \<or> cc_version (e_card e) = [] \<or> cc_view (e_card e) = []
      then Inl IncompleteContext
      else marshal_value sv (callback_envelope e))"

definition marshal_decision_request :: "services \<Rightarrow> decision_request \<Rightarrow> string \<Rightarrow> encode_error + string" where
  "marshal_decision_request sv q format =
     (if is_legacy format then marshal_value sv (request_json q)
      else (case q_event q of
              None \<Rightarrow> Inl NoSourceEvent
            | Some e \<Rightarrow>
                if format = octo_card_format \<and> e_card e = empty_context
                then marshal_value sv (request_json q)
                else marshal_callback_request sv e format))"

section \<open>Decisions\<close>

record decision_result =
  d_disposition :: string
  d_state :: string
  d_requester :: string
  d_decider :: string
  d_decider_space :: string
  d_decided_at :: int
  d_display :: "(string \<times> string) list"

definition empty_result :: decision_result where
  "empty_result = \<lparr>d_disposition = [], d_state = [], d_requester = [], d_decider = [],
     d_decider_space = [], d_decided_at = 0, d_display = []\<rparr>"

datatype decision_error =
    EmptyResponse | ReadFailed | ResponseTooLarge | DecodeFailed | TrailingResponse | InvalidEnum
  | InvalidRequester | RequesterRequired | InvalidDecider | InvalidDeciderSpace | DeciderRequired
  | InvalidDecidedAt | TooManyDisplay | InvalidDisplay

definition valid_disposition :: "string \<Rightarrow> bool" where
  "valid_disposition d = (d \<in> set [''applied'', ''replayed'', ''forbidden'', ''conflict'', ''not_found''])"

definition valid_state :: "string \<Rightarrow> bool" where
  "valid_state s = (s \<in> set [''pending'', ''approved'', ''denied'', ''cancelled''])"

definition validate_decider_ids :: "string \<Rightarrow> string \<Rightarrow> decision_error + unit" where
  "validate_decider_ids uid space =
     (if 128 < length uid \<or> trim_space uid \<noteq> uid then Inl InvalidDecider
      else if 128 < length space \<or> trim_space space \<noteq> space then Inl InvalidDeciderSpace
      else if space \<noteq> [] \<and> uid = [] then Inl DeciderRequired
      else Inr ())"

text \<open>
  How \<open>encoding/json\<close> compares a member's name with a field's: ASCII letters up to case, and the
  long s and the Kelvin sign as the letters they fold to.
\<close>

fun fold_name :: "string \<Rightarrow> string" where
  "fold_name (a # b # c # s) =
     (if byte a = 197 \<and> byte b = 191 then CHR ''s'' # fold_name (c # s)
      else if byte a = 226 \<and> byte b = 132 \<and> byte c = 170 then CHR ''k'' # fold_name s
      else lower_char a # fold_name (b # c # s))"
| "fold_name [a, b] = (if byte a = 197 \<and> byte b = 191 then ''s'' else [lower_char a, lower_char b])"
| "fold_name [a] = [lower_char a]"
| "fold_name [] = []"

text \<open>A string field keeps its value on \<open>null\<close>; any other type is an error.\<close>

definition decode_string :: "gval \<Rightarrow> string \<Rightarrow> string option" where
  "decode_string v old = (case v of GStr s \<Rightarrow> Some s | GNil \<Rightarrow> Some old | _ \<Rightarrow> None)"

definition decode_int :: "gval \<Rightarrow> int \<Rightarrow> int option" where
  "decode_int v old = (case v of GNumber s \<Rightarrow> parse_int64 s | GNil \<Rightarrow> Some old | _ \<Rightarrow> None)"

fun decode_display :: "gmap \<Rightarrow> (string \<times> string) list \<Rightarrow> (string \<times> string) list option" where
  "decode_display [] acc = Some acc"
| "decode_display ((k, v) # ms) acc =
     (case decode_string v [] of
        None \<Rightarrow> None | Some s \<Rightarrow> decode_display ms (AList.update k s acc))"

definition decode_member :: "string \<times> gval \<Rightarrow> decision_result \<Rightarrow> decision_result option" where
  "decode_member kv r =
     (case kv of (k, v) \<Rightarrow>
        let f = fold_name k in
        if f = ''disposition'' then map_option (\<lambda>s. r\<lparr>d_disposition := s\<rparr>) (decode_string v (d_disposition r))
        else if f = ''state'' then map_option (\<lambda>s. r\<lparr>d_state := s\<rparr>) (decode_string v (d_state r))
        else if f = ''requester_uid'' then map_option (\<lambda>s. r\<lparr>d_requester := s\<rparr>) (decode_string v (d_requester r))
        else if f = ''decider_uid'' then map_option (\<lambda>s. r\<lparr>d_decider := s\<rparr>) (decode_string v (d_decider r))
        else if f = ''decider_space_id''
        then map_option (\<lambda>s. r\<lparr>d_decider_space := s\<rparr>) (decode_string v (d_decider_space r))
        else if f = ''decided_at'' then map_option (\<lambda>i. r\<lparr>d_decided_at := i\<rparr>) (decode_int v (d_decided_at r))
        else if f = ''display'' then
          (case v of
             GObj m \<Rightarrow> map_option (\<lambda>d. r\<lparr>d_display := d\<rparr>) (decode_display m (d_display r))
           | GNil \<Rightarrow> Some (r\<lparr>d_display := []\<rparr>)
           | _ \<Rightarrow> None)
        else None)"

fun decode_members :: "gmap \<Rightarrow> decision_result \<Rightarrow> decision_result option" where
  "decode_members [] r = Some r"
| "decode_members (kv # ms) r =
     (case decode_member kv r of None \<Rightarrow> None | Some r \<Rightarrow> decode_members ms r)"

definition json_space :: "char \<Rightarrow> bool" where
  "json_space c = (c \<in> {CHR 0x20, CHR 0x09, CHR 0x0D, CHR 0x0A})"

definition max_decision_response_bytes :: nat where
  "max_decision_response_bytes = 65536"

definition check_decision :: "decision_result \<Rightarrow> decision_error + decision_result" where
  "check_decision r =
     (if \<not> valid_disposition (d_disposition r) \<or> \<not> valid_state (d_state r) then Inl InvalidEnum
      else if 128 < length (d_requester r) \<or> trim_space (d_requester r) \<noteq> d_requester r then Inl InvalidRequester
      else if (d_state r = ''approved'' \<or> d_state r = ''denied'') \<and> d_requester r = [] then Inl RequesterRequired
      else bind_res (validate_decider_ids (d_decider r) (d_decider_space r)) (\<lambda>_.
        if d_decided_at r < 0 then Inl InvalidDecidedAt
        else if 32 < length (d_display r) then Inl TooManyDisplay
        else if list_ex (\<lambda>(k, v). k = [] \<or> 64 < length k \<or> 500 < rune_count v) (d_display r)
        then Inl InvalidDisplay
        else Inr r))"

text \<open>The reader is nil, fails, or gives the bytes of the body.\<close>

definition decode_decision_result ::
  "(string \<Rightarrow> (gmap \<times> string) option) \<Rightarrow> (unit + string) option \<Rightarrow> decision_error + decision_result" where
  "decode_decision_result decode reader =
     (case reader of
        None \<Rightarrow> Inl EmptyResponse
      | Some (Inl _) \<Rightarrow> Inl ReadFailed
      | Some (Inr body) \<Rightarrow>
          let body = take (max_decision_response_bytes + 1) body in
          if max_decision_response_bytes < length body then Inl ResponseTooLarge
          else (case decode body of
                  None \<Rightarrow> Inl DecodeFailed
                | Some (ms, rest) \<Rightarrow>
                    (case decode_members ms empty_result of
                       None \<Rightarrow> Inl DecodeFailed
                     | Some r \<Rightarrow>
                         if \<not> list_all json_space rest then Inl TrailingResponse
                         else check_decision r)))"

section \<open>Delivery\<close>

record delivery_error =
  de_category :: string
  de_status :: int
  de_retryable :: bool

definition retryable :: "delivery_error \<Rightarrow> bool" where
  "retryable e = de_retryable e"

text \<open>\<open>EscapedPath\<close> of a parsed URL: the path as written when its bytes may stand in a path, and
  otherwise the decoded path escaped anew.\<close>

definition path_unreserved :: "char \<Rightarrow> bool" where
  "path_unreserved c = (is_alpha c \<or> is_digit c \<or> c \<in> set ''-_.~$&+,/:;=@'')"

definition path_byte :: "char \<Rightarrow> bool" where
  "path_byte c = (path_unreserved c \<or> c \<in> set ''!()*[]%'' \<or> byte c = 39)"

definition hex_upper :: "nat \<Rightarrow> char" where
  "hex_upper n = (if n < 10 then char_of (48 + n) else char_of (55 + n))"

definition path_escape :: "string \<Rightarrow> string" where
  "path_escape s = concat (map (\<lambda>c. if path_unreserved c then [c]
     else [CHR ''%'', hex_upper (byte c div 16), hex_upper (byte c mod 16)]) s)"

definition url_path :: "string \<Rightarrow> string" where
  "url_path raw =
     (let raw = fst (str_cut (CHR ''#'') raw) in
      case get_scheme raw of
        None \<Rightarrow> []
      | Some (sch, rest) \<Rightarrow>
          let rest = cut_query rest in
          if \<not> prefix ''/'' rest \<and> sch \<noteq> [] then []
          else if (sch \<noteq> [] \<or> \<not> prefix ''///'' rest) \<and> prefix ''//'' rest
          then dropWhile (\<lambda>c. c \<noteq> CHR ''/'') (drop 2 rest)
          else rest)"

definition escaped_path :: "string \<Rightarrow> string" where
  "escaped_path raw =
     (let p = url_path raw in
      if list_all path_byte p then p
      else (case unescape OtherMode p of None \<Rightarrow> p | Some d \<Rightarrow> path_escape d))"

record http_request =
  h_method :: string
  h_url :: string
  h_headers :: "(string \<times> string) list"
  h_body :: string
  h_timeout :: int

text \<open>What the transport makes of a request: no response, or a status and a body reader.\<close>

datatype http_outcome = TransportFailed | Response int "unit + string"

definition status_retryable :: "int \<Rightarrow> bool" where
  "status_retryable st = (st = 408 \<or> st = 429 \<or> 500 \<le> st)"

definition status_category :: "int \<Rightarrow> string" where
  "status_category st =
     (if 300 \<le> st \<and> st < 400 then ''redirect_rejected''
      else if 500 \<le> st then ''consumer_5xx'' else ''rejected'')"

definition outcome_result ::
  "(string \<Rightarrow> (gmap \<times> string) option) \<Rightarrow> bool \<Rightarrow> http_outcome \<Rightarrow> delivery_error + decision_result" where
  "outcome_result decode ctx_alive out =
     (case out of
        TransportFailed \<Rightarrow>
          Inl \<lparr>de_category = ''transport_failed'', de_status = 0, de_retryable = ctx_alive\<rparr>
      | Response st body \<Rightarrow>
          if st < 200 \<or> 300 \<le> st
          then Inl \<lparr>de_category = status_category st, de_status = st, de_retryable = status_retryable st\<rparr>
          else (case decode_decision_result decode (Some body) of
                  Inl _ \<Rightarrow> Inl \<lparr>de_category = ''invalid_response'', de_status = 0, de_retryable = True\<rparr>
                | Inr r \<Rightarrow> Inr r))"

text \<open>The request that is sent, signed with the route's secret at a Unix time.\<close>

definition callback_request :: "route \<Rightarrow> int \<Rightarrow> int \<Rightarrow> string \<Rightarrow> http_request" where
  "callback_request rt unix event_id body =
     (let path = (if escaped_path (r_url rt) = [] then ''/'' else escaped_path (r_url rt));
          timestamp = show_int unix; eid = show_int event_id
      in \<lparr>h_method = ''POST'', h_url = r_url rt,
          h_headers = [(''Content-Type'', ''application/json''),
            (''User-Agent'', ''octo-server/card-action-dispatch-v1''),
            (''X-Octo-Timestamp'', timestamp), (''X-Octo-Event-ID'', eid),
            (''X-Octo-Signature'', sign (r_secret rt) ''POST'' path timestamp eid body)],
          h_body = body, h_timeout = r_timeout rt\<rparr>)"

text \<open>
  \<open>Deliver\<close>, with the clock and the transport as functions of the world; \<open>ctx\<close> tells whether the
  caller's context is still alive after the exchange, and \<open>None\<close> is a nil context.  The second
  parse of the URL, by \<open>http.NewRequest\<close>, succeeds when the first one has.
\<close>

definition deliver ::
  "services \<Rightarrow> (string \<Rightarrow> (gmap \<times> string) option) \<Rightarrow> ('w \<Rightarrow> 'w \<times> int) \<Rightarrow> (http_request \<Rightarrow> 'w \<Rightarrow> 'w \<times> http_outcome) \<Rightarrow>
     ('w \<Rightarrow> bool) option \<Rightarrow> route option \<Rightarrow> decision_request \<Rightarrow> 'w \<Rightarrow> 'w \<times> (delivery_error + decision_result)" where
  "deliver sv decode clock send ctx rt q w =
     (case (ctx, rt) of
        (Some alive, Some rt) \<Rightarrow>
          (case marshal_decision_request sv q (r_format rt) of
             Inl _ \<Rightarrow> (w, Inl \<lparr>de_category = ''encode_failed'', de_status = 0, de_retryable = False\<rparr>)
           | Inr body \<Rightarrow>
               if url_parse (r_url rt) = None
               then (w, Inl \<lparr>de_category = ''invalid_route'', de_status = 0, de_retryable = False\<rparr>)
               else
                 let (w, unix) = clock w;
                     (w, out) = send (callback_request rt unix (q_event_id q) body) w
                 in (w, outcome_result decode (alive w) out))
      | _ \<Rightarrow> (w, Inl \<lparr>de_category = ''invalid_request'', de_status = 0, de_retryable = False\<rparr>))"

end
