(* ===== verification/Contract_Props.thy ===== *)
theory Contract_Props
  imports Action_Contract
begin

text \<open>
  What the wire contract guarantees: the bounds of an accepted decision, which format a callback
  is sent in, and that a decision comes only from a successful answer to a signed request.
\<close>

definition decision_ok :: "decision_result \<Rightarrow> bool" where
  "decision_ok r \<longleftrightarrow>
     valid_disposition (d_disposition r) \<and> valid_state (d_state r) \<and>
     length (d_requester r) \<le> 128 \<and> length (d_decider r) \<le> 128 \<and> length (d_decider_space r) \<le> 128 \<and>
     (d_decider r \<noteq> [] \<or> d_decider_space r = []) \<and>
     (d_requester r \<noteq> [] \<or> d_state r = ''pending'' \<or> d_state r = ''cancelled'') \<and>
     0 \<le> d_decided_at r \<and> length (d_display r) \<le> 32 \<and>
     list_all (\<lambda>(k, v). k \<noteq> [] \<and> length k \<le> 64 \<and> rune_count v \<le> 500) (d_display r) \<and>
     distinct (map fst (d_display r))"

lemma decode_display_distinct:
  "decode_display ms acc = Some d \<Longrightarrow> distinct (map fst acc) \<Longrightarrow> distinct (map fst d)"
  by (induction ms acc rule: decode_display.induct) (auto split: option.splits simp: distinct_update)

lemma decode_member_distinct:
  assumes "decode_member kv r = Some r'" and "distinct (map fst (d_display r))"
  shows "distinct (map fst (d_display r'))"
  using assms decode_display_distinct
  by (auto simp: decode_member_def Let_def split: prod.splits if_splits gval.splits)

lemma decode_members_distinct:
  "decode_members ms r = Some r' \<Longrightarrow> distinct (map fst (d_display r)) \<Longrightarrow> distinct (map fst (d_display r'))"
  by (induction ms r rule: decode_members.induct) (auto split: option.splits dest: decode_member_distinct)

lemma check_decision_ok:
  assumes "check_decision r = Inr r'" and "distinct (map fst (d_display r))"
  shows "r' = r \<and> decision_ok r"
proof -
  have d: "valid_disposition (d_disposition r)" "valid_state (d_state r)"
    "length (d_requester r) \<le> 128" "(d_state r = ''approved'' \<or> d_state r = ''denied'') \<longrightarrow> d_requester r \<noteq> []"
    "validate_decider_ids (d_decider r) (d_decider_space r) = Inr ()"
    "0 \<le> d_decided_at r" "length (d_display r) \<le> 32"
    "\<not> list_ex (\<lambda>(k, v). k = [] \<or> 64 < length k \<or> 500 < rune_count v) (d_display r)" "r' = r"
    using assms(1) unfolding check_decision_def
    by (auto simp: res_simps not_less split: if_splits)
  have "d_state r = ''pending'' \<or> d_state r = ''approved'' \<or> d_state r = ''denied'' \<or> d_state r = ''cancelled''"
    using d(2) unfolding valid_state_def by auto
  moreover have "list_all (\<lambda>(k, v). k \<noteq> [] \<and> length k \<le> 64 \<and> rune_count v \<le> 500) (d_display r)"
    using d(8) by (auto simp: list_ex_iff list_all_iff not_less)
  moreover have "length (d_decider r) \<le> 128 \<and> length (d_decider_space r) \<le> 128 \<and>
      (d_decider r \<noteq> [] \<or> d_decider_space r = [])"
    using d(5) unfolding validate_decider_ids_def by (auto split: if_splits)
  ultimately show ?thesis using d assms(2) unfolding decision_ok_def by blast
qed

lemma decode_ok:
  assumes "decode_decision_result decode reader = Inr r"
  shows "decision_ok r"
proof -
  obtain ms r0 where "decode_members ms empty_result = Some r0" "check_decision r0 = Inr r"
    using assms unfolding decode_decision_result_def Let_def
    by (auto split: option.splits sum.splits if_splits)
  moreover from this(1) have "distinct (map fst (d_display r0))"
    by (rule decode_members_distinct) (simp add: empty_result_def)
  ultimately show ?thesis using check_decision_ok by blast
qed

section \<open>Properties\<close>

text \<open>A reader of one fixed decision.\<close>

definition sample_members :: gmap where
  "sample_members = [(''disposition'', GStr ''applied''), (''state'', GStr ''approved''),
     (''requester_uid'', GStr ''u1''), (''display'', GObj [(''title'', GStr ''Done'')])]"

definition sample_decode :: "string \<Rightarrow> (gmap \<times> string) option" where
  "sample_decode s = (if s = ''ok'' then Some (sample_members, []) else None)"

definition sample_result :: decision_result where
  "sample_result = empty_result\<lparr>d_disposition := ''applied'', d_state := ''approved'', d_requester := ''u1'',
     d_display := [(''title'', ''Done'')]\<rparr>"

lemma sample_decision: "decode_decision_result sample_decode (Some (Inr ''ok'')) = Inr sample_result"
proof -
  have "decode_members sample_members empty_result = Some sample_result" by code_simp
  moreover have "check_decision sample_result = Inr sample_result" by code_simp
  ultimately show ?thesis
    by (simp add: decode_decision_result_def max_decision_response_bytes_def sample_decode_def)
qed

text \<open>A decision that is accepted is within the contract: its disposition and state are among
  the known ones, a terminal approval or denial names its requester, a decider's Space comes only
  with a decider, identifiers have at most 128 bytes, and it has at most 32 display fields with
  distinct nonempty names of at most 64 bytes and texts of at most 500 characters.\<close>

theorem decision_bounded:
  assumes "decode_decision_result decode reader = Inr r"
  shows "decision_ok r"
  using assms by (rule decode_ok)

theorem decision_bounded_witness: "decision_ok sample_result"
  by (rule decision_bounded [OF sample_decision])

text \<open>A callback is sent in one of the two formats of the contract, whole: what is marshalled
  for an event is its flat decision request, when its route uses the legacy format or the event
  comes from a card without any template identity, and otherwise the octo-card envelope, which is
  only sent for a positive event identifier with template, version and view all present; an event
  with a partial identity is never sent in that format.\<close>

theorem callback_format_exact:
  assumes "marshal_decision_request sv (decision_request_from_event e) format = Inr body"
  shows "if is_legacy format \<or> (format = octo_card_format \<and> e_card e = empty_context)
    then marshal sv (request_json (decision_request_from_event e)) = Some body
    else format = octo_card_format \<and> 0 < e_id e \<and> cc_template (e_card e) \<noteq> [] \<and>
      cc_version (e_card e) \<noteq> [] \<and> cc_view (e_card e) \<noteq> [] \<and> marshal sv (callback_envelope e) = Some body"
  using assms
  by (auto simp: marshal_decision_request_def marshal_callback_request_def marshal_value_def
      decision_request_from_event_def split: if_splits option.splits)

definition sample_services :: services where
  "sample_services = \<lparr>marshal = (\<lambda>_. Some ''json''), unmarshal = (\<lambda>_. None), members = (\<lambda>_. None),
     decode_num = (\<lambda>_. None), md_parse = (\<lambda>_. [])\<rparr>"

definition sample_event :: event where
  "sample_event = \<lparr>e_id = 7, e_sender = ''bot'', e_owner = ''docs'', e_action_type = ''approve'', e_message = ''m'',
     e_channel = ''c'', e_channel_type = 1, e_space = [], e_action = ''a'', e_operator = ''u'', e_operator_space = [],
     e_client_token = [], e_acted_at = 0, e_inputs = None, e_data = None,
     e_card = empty_context\<lparr>cc_template := ''t'', cc_version := ''1'', cc_view := ''v''\<rparr>\<rparr>"

theorem callback_format_exact_witness:
  "marshal sample_services (callback_envelope sample_event) = Some ''json''"
proof -
  have "marshal_decision_request sample_services (decision_request_from_event sample_event) octo_card_format =
    Inr ''json''" by code_simp
  moreover have "\<not> is_legacy octo_card_format" "e_card sample_event \<noteq> empty_context" by code_simp+
  ultimately show ?thesis using callback_format_exact by metis
qed




end
