(* ===== verification/Action_Dispatch.thy ===== *)
theory Action_Dispatch
  imports Action_Contract Action_Queue
begin

text \<open>
  The dispatcher of card actions, \<open>internal/cardactiondispatch/dispatcher.go\<close>, over its interfaces:
  the queue, the deliverer, the finalizer, the clock, the metrics and the in-flight slots are
  operations on an abstract world.  \<open>process_one\<close> is \<open>ProcessOne\<close> with its deferred calls.  Times
  and durations are nanoseconds.  The labels and categories of \<open>metrics.go\<close> are modelled as the
  values handed to the metrics backend.
\<close>

section \<open>Interfaces\<close>

record lease =
  l_event :: event
  l_token :: string
  l_attempt :: int

datatype nack_outcome = NackRequeued | NackDeadLettered | NackTokenMismatch

datatype queue_error =
    RedisFailed | InvalidArguments | TokenFailed | MalformedReply | DecodeEvent | EncodeEvent

record 'w queue_api =
  qa_claim :: "int \<Rightarrow> int \<Rightarrow> 'w \<Rightarrow> 'w \<times> (queue_error + lease option)"
  qa_renew :: "int \<Rightarrow> string \<Rightarrow> int \<Rightarrow> int \<Rightarrow> 'w \<Rightarrow> 'w \<times> (queue_error + bool)"
  qa_defer :: "int \<Rightarrow> string \<Rightarrow> int \<Rightarrow> 'w \<Rightarrow> 'w \<times> (queue_error + bool)"
  qa_ack :: "int \<Rightarrow> string \<Rightarrow> 'w \<Rightarrow> 'w \<times> (queue_error + bool)"
  qa_nack :: "lease \<Rightarrow> int \<Rightarrow> int \<Rightarrow> int \<Rightarrow> string \<Rightarrow> 'w \<Rightarrow> 'w \<times> (queue_error + nack_outcome)"
  qa_reclaim :: "int \<Rightarrow> int \<Rightarrow> 'w \<Rightarrow> 'w \<times> (queue_error + int)"
  qa_missing_since :: "int \<Rightarrow> int \<Rightarrow> 'w \<Rightarrow> 'w \<times> (queue_error + int)"
  qa_clear_missing :: "int \<Rightarrow> string \<Rightarrow> 'w \<Rightarrow> 'w \<times> (queue_error + bool)"
  qa_depths :: "('w \<Rightarrow> 'w \<times> (queue_error + int \<times> int \<times> int)) option"

datatype metric =
    LeaseBegin string
  | LeaseEnd string
  | Finished string string
  | ErrorSeen string string
  | RetrySeen string
  | ApplicantNotifyFailure string
  | Depths int int
  | TemplateCallback string string string string
  | LogWarn int string int string "nack_outcome option"
  | LogError int string int string "nack_outcome option"

text \<open>A finalizer's error carries its category when it has one.\<close>

datatype finalize_error = FinalizeError "string option"

record 'w env =
  en_queue :: "'w queue_api"
  en_registry :: registry
  en_deliver :: "route \<Rightarrow> decision_request \<Rightarrow> 'w \<Rightarrow> 'w \<times> (delivery_error + decision_result)"
  en_finalize :: "event \<Rightarrow> decision_result \<Rightarrow> 'w \<Rightarrow> 'w \<times> finalize_error option"
  en_clock :: "'w \<Rightarrow> 'w \<times> int"
  en_observe :: "metric \<Rightarrow> 'w \<Rightarrow> 'w"
  en_acquire :: "route_key \<Rightarrow> 'w \<Rightarrow> 'w \<times> bool"
  en_release :: "route_key \<Rightarrow> 'w \<Rightarrow> 'w"
  en_ticks :: "'w \<Rightarrow> 'w \<times> int list"
  en_lease_duration :: int
  en_poll_interval :: int

section \<open>Metrics\<close>

definition metric_owner :: "string \<Rightarrow> string" where
  "metric_owner owner = (if owner_pattern owner then owner else ''invalid'')"

definition metric_result :: "string \<Rightarrow> string" where
  "metric_result result =
     (if result \<in> set [''ok'', ''deferred'', ''retry'', ''dlq'', ''error''] then result else ''error'')"

definition metric_error_category :: "string \<Rightarrow> string" where
  "metric_error_category c =
     (if c \<in> set [''transport_failed'', ''rejected'', ''redirect_rejected'', ''invalid_response'',
        ''consumer_5xx'', ''finalize_failed'', ''applicant_notify_failed'', ''route_missing'',
        ''attempts_exhausted'', ''queue_error'', ''ack_lost''] then c else ''unknown'')"

definition observe_error :: "'w env \<Rightarrow> string \<Rightarrow> string \<Rightarrow> 'w \<Rightarrow> 'w" where
  "observe_error env owner c = en_observe env (ErrorSeen (metric_owner owner) (metric_error_category c))"

definition observe_retry :: "'w env \<Rightarrow> string \<Rightarrow> 'w \<Rightarrow> 'w" where
  "observe_retry env owner = en_observe env (RetrySeen (metric_owner owner))"

definition refresh_depth_metrics :: "'w env \<Rightarrow> 'w \<Rightarrow> 'w" where
  "refresh_depth_metrics env w =
     (case qa_depths (en_queue env) of
        None \<Rightarrow> w
      | Some depths \<Rightarrow>
          (case depths w of
             (w, Inl _) \<Rightarrow> observe_error env [] ''queue_error'' w
           | (w, Inr (ready, _, dlq)) \<Rightarrow> en_observe env (Depths ready dlq) w))"

definition result_for_nack :: "queue_error + nack_outcome \<Rightarrow> string" where
  "result_for_nack res =
     (case res of Inl _ \<Rightarrow> ''error'' | Inr NackDeadLettered \<Rightarrow> ''dlq'' | Inr _ \<Rightarrow> ''retry'')"

definition log_transition :: "'w env \<Rightarrow> lease \<Rightarrow> string \<Rightarrow> queue_error + nack_outcome \<Rightarrow> 'w \<Rightarrow> 'w" where
  "log_transition env l c res =
     (let fields = (\<lambda>level. level (e_id (l_event l)) (metric_owner (e_owner (l_event l))) (l_attempt l)
            (metric_error_category c) (case res of Inl _ \<Rightarrow> None | Inr out \<Rightarrow> Some out))
      in case res of
           Inl _ \<Rightarrow> en_observe env (fields LogError)
         | Inr NackDeadLettered \<Rightarrow> en_observe env (fields LogError)
         | Inr _ \<Rightarrow> en_observe env (fields LogWarn))"

definition record_template_callback :: "'w env \<Rightarrow> event \<Rightarrow> string \<Rightarrow> 'w \<Rightarrow> 'w" where
  "record_template_callback env e result w =
     (if cc_template (e_card e) = [] \<or> cc_version (e_card e) = [] \<or> e_action e = [] then w
      else en_observe env (TemplateCallback (cc_template (e_card e)) (cc_version (e_card e)) (e_action e) result) w)"

definition callback_metric_for_error :: "delivery_error \<Rightarrow> string" where
  "callback_metric_for_error e =
     (if 400 \<le> de_status e \<and> de_status e < 500 then ''rejected'' else ''error'')"

definition finalize_error_category :: "finalize_error \<Rightarrow> string" where
  "finalize_error_category e =
     (case e of FinalizeError (Some c) \<Rightarrow> metric_error_category c | FinalizeError None \<Rightarrow> ''finalize_failed'')"

section \<open>Backoff\<close>

definition half :: "int \<Rightarrow> int" where
  "half m = (if m < 0 then - ((- m) div 2) else m div 2)"

text \<open>The loop of \<open>retryBackoff\<close>; a returned \<open>None\<close> is the early return of the maximum.\<close>

fun backoff_loop :: "nat \<Rightarrow> int \<Rightarrow> int \<Rightarrow> int option" where
  "backoff_loop 0 delay m = Some delay"
| "backoff_loop (Suc n) delay m =
     (if \<not> delay < m then Some delay
      else if half m < delay then None
      else backoff_loop n (2 * delay) m)"

definition retry_backoff :: "int \<Rightarrow> route option \<Rightarrow> int" where
  "retry_backoff attempt rt =
     (case rt of
        None \<Rightarrow> 0
      | Some r \<Rightarrow>
          (case backoff_loop (nat (attempt - 1)) (r_base_backoff r) (r_max_backoff r) of
             None \<Rightarrow> r_max_backoff r
           | Some delay \<Rightarrow> if r_max_backoff r < delay then r_max_backoff r else delay))"

definition route_missing_max_window :: int where "route_missing_max_window = 15 * minute"
definition route_missing_defer_interval :: int where "route_missing_defer_interval = 5 * second"

definition route_missing_expired :: "int \<Rightarrow> int \<Rightarrow> bool" where
  "route_missing_expired first_seen now = (route_missing_max_window \<le> now - first_seen)"

section \<open>One event\<close>

datatype process_error =
    ContextDone
  | QueueFailed queue_error
  | LostBeforeMissingDefer
  | LostBeforeDelivery
  | LostBeforeCapacityDefer
  | LostDuringFinalization
  | LostBeforeAck

definition event_route :: "'w env \<Rightarrow> event \<Rightarrow> route option" where
  "event_route env e = route_of (Some (en_registry env)) (e_sender e) (e_owner e) (e_action_type e)"

definition nack :: "'w env \<Rightarrow> lease \<Rightarrow> int \<Rightarrow> bool \<Rightarrow> int \<Rightarrow> string \<Rightarrow> 'w \<Rightarrow> 'w \<times> (queue_error + nack_outcome)" where
  "nack env l now retry max_attempts reason =
     (let delay = (if retry then retry_backoff (l_attempt l) (event_route env (l_event l)) else 0);
          max_attempts = (if retry then max_attempts else l_attempt l)
      in qa_nack (en_queue env) l now delay max_attempts reason)"

text \<open>What a branch of the handler ends with: the result label of the metrics and the error.\<close>

type_synonym ending = "string \<times> process_error option"

definition nack_ending :: "queue_error + nack_outcome \<Rightarrow> ending" where
  "nack_ending res = (result_for_nack res, case res of Inl e \<Rightarrow> Some (QueueFailed e) | Inr _ \<Rightarrow> None)"

text \<open>A negative acknowledgement, its log entry and the depths, as every failure branch ends.\<close>

definition fail_lease ::
  "'w env \<Rightarrow> lease \<Rightarrow> bool \<Rightarrow> int \<Rightarrow> string \<Rightarrow> bool \<Rightarrow> 'w \<Rightarrow> 'w \<times> ending" where
  "fail_lease env l retry max_attempts c count_retry w =
     (let (w, now) = en_clock env w;
          (w, res) = nack env l now retry max_attempts c w;
          w = (if count_retry \<and> res = Inr NackRequeued then observe_retry env (e_owner (l_event l)) w else w);
          w = log_transition env l c res w
      in (refresh_depth_metrics env w, nack_ending res))"

text \<open>The lease is given back until a time; a lost lease is an error.\<close>

definition defer_lease :: "'w env \<Rightarrow> lease \<Rightarrow> int \<Rightarrow> process_error \<Rightarrow> 'w \<Rightarrow> 'w \<times> ending" where
  "defer_lease env l wait lost w =
     (let owner = e_owner (l_event l);
          (w, now) = en_clock env w;
          (w, res) = qa_defer (en_queue env) (e_id (l_event l)) (l_token l) (now + wait) w
      in case res of
           Inl e \<Rightarrow> (refresh_depth_metrics env (observe_error env owner ''queue_error'' w),
             ''error'', Some (QueueFailed e))
         | Inr False \<Rightarrow> (refresh_depth_metrics env (observe_error env owner ''ack_lost'' w), ''error'', Some lost)
         | Inr True \<Rightarrow> (refresh_depth_metrics env w, ''deferred'', None))"

definition handle_missing :: "'w env \<Rightarrow> lease \<Rightarrow> 'w \<Rightarrow> 'w \<times> ending" where
  "handle_missing env l w =
     (let owner = e_owner (l_event l);
          w = observe_error env owner ''route_missing'' w;
          (w, now) = en_clock env w;
          (w, seen) = qa_missing_since (en_queue env) (e_id (l_event l)) now w
      in case seen of
           Inl e \<Rightarrow> (refresh_depth_metrics env (observe_error env owner ''queue_error'' w),
             ''error'', Some (QueueFailed e))
         | Inr first_seen \<Rightarrow>
             let (w, now) = en_clock env w in
             if route_missing_expired first_seen now
             then fail_lease env l False (l_attempt l) ''route_missing'' False w
             else defer_lease env l route_missing_defer_interval LostBeforeMissingDefer w)"

text \<open>The renewals of the heartbeat, one for each tick until the handler stops it.\<close>

fun heartbeat :: "'w env \<Rightarrow> lease \<Rightarrow> int list \<Rightarrow> 'w \<Rightarrow> 'w \<times> process_error option" where
  "heartbeat env l [] w = (w, None)"
| "heartbeat env l (t # ts) w =
     (let (w, res) = qa_renew (en_queue env) (e_id (l_event l)) (l_token l) t (en_lease_duration env) w
      in case res of
           Inl e \<Rightarrow> (w, Some (QueueFailed e))
         | Inr False \<Rightarrow> (w, Some LostDuringFinalization)
         | Inr True \<Rightarrow> heartbeat env l ts w)"

definition finish_lease :: "'w env \<Rightarrow> lease \<Rightarrow> 'w \<Rightarrow> 'w \<times> ending" where
  "finish_lease env l w =
     (let owner = e_owner (l_event l);
          (w, res) = qa_ack (en_queue env) (e_id (l_event l)) (l_token l) w
      in case res of
           Inl e \<Rightarrow> (observe_error env owner ''queue_error'' w, ''error'', Some (QueueFailed e))
         | Inr False \<Rightarrow> (observe_error env owner ''ack_lost'' w, ''error'', Some LostBeforeAck)
         | Inr True \<Rightarrow> (refresh_depth_metrics env w, ''ok'', None))"

definition finalize_lease :: "'w env \<Rightarrow> lease \<Rightarrow> route \<Rightarrow> decision_result \<Rightarrow> 'w \<Rightarrow> 'w \<times> ending" where
  "finalize_lease env l rt result w =
     (let owner = e_owner (l_event l);
          w = record_template_callback env (l_event l)
            (if d_disposition result = ''applied'' \<or> d_disposition result = ''replayed'' then ''ok'' else ''rejected'') w;
          (w, err) = en_finalize env (l_event l) result w;
          (w, ticks) = en_ticks env w;
          (w, renew) = heartbeat env l ticks w
      in case renew of
           Some e \<Rightarrow> (refresh_depth_metrics env (observe_error env owner ''queue_error'' w), ''error'', Some e)
         | None \<Rightarrow>
             (case err of
                Some e \<Rightarrow>
                  let c = finalize_error_category e;
                      w = observe_error env owner c w;
                      w = (if c = ''applicant_notify_failed''
                           then en_observe env (ApplicantNotifyFailure (metric_owner owner)) w else w)
                  in fail_lease env l True (r_max_attempts rt) c True w
              | None \<Rightarrow> finish_lease env l w))"

definition deliver_lease :: "'w env \<Rightarrow> lease \<Rightarrow> route \<Rightarrow> 'w \<Rightarrow> 'w \<times> ending" where
  "deliver_lease env l rt w =
     (let (w, res) = en_deliver env rt (decision_request_from_event (l_event l)) w in
      case res of
        Inl e \<Rightarrow>
          let w = record_template_callback env (l_event l) (callback_metric_for_error e) w;
              w = observe_error env (e_owner (l_event l)) (de_category e) w
          in fail_lease env l (retryable e) (r_max_attempts rt) (de_category e) True w
      | Inr result \<Rightarrow> finalize_lease env l rt result w)"

definition handle_route :: "'w env \<Rightarrow> lease \<Rightarrow> route \<Rightarrow> 'w \<Rightarrow> 'w \<times> ending" where
  "handle_route env l rt w =
     (let owner = e_owner (l_event l);
          (w, cleared) = qa_clear_missing (en_queue env) (e_id (l_event l)) (l_token l) w
      in case cleared of
           Inl e \<Rightarrow> (refresh_depth_metrics env (observe_error env owner ''queue_error'' w),
             ''error'', Some (QueueFailed e))
         | Inr False \<Rightarrow> (refresh_depth_metrics env (observe_error env owner ''ack_lost'' w),
             ''error'', Some LostBeforeDelivery)
         | Inr True \<Rightarrow>
             if r_max_attempts rt < l_attempt l then
               let w = observe_error env owner ''attempts_exhausted'' w;
                   (w, now) = en_clock env w;
                   (w, res) = qa_nack (en_queue env) l now 0 (r_max_attempts rt) ''attempts_exhausted'' w;
                   w = log_transition env l ''attempts_exhausted'' res w
               in (refresh_depth_metrics env w, nack_ending res)
             else
               let key = (r_sender rt, r_owner rt, r_action rt);
                   (w, got) = en_acquire env key w
               in if \<not> got then defer_lease env l (en_poll_interval env) LostBeforeCapacityDefer w
                  else let (w, ending) = deliver_lease env l rt w in (en_release env key w, ending))"

text \<open>\<open>ProcessOne\<close>: whether an event was processed, and the error.\<close>

definition process_one :: "'w env \<Rightarrow> bool \<Rightarrow> int \<Rightarrow> 'w \<Rightarrow> 'w \<times> bool \<times> process_error option" where
  "process_one env cancelled now w =
     (if cancelled then (w, False, Some ContextDone)
      else
        let (w, claimed) = qa_claim (en_queue env) now (en_lease_duration env) w in
        case claimed of
          Inl e \<Rightarrow> (observe_error env [] ''queue_error'' w, False, Some (QueueFailed e))
        | Inr None \<Rightarrow> (w, False, None)
        | Inr (Some l) \<Rightarrow>
            let owner = e_owner (l_event l);
                w = en_observe env (LeaseBegin (metric_owner owner)) w;
                (w, label, err) =
                  (case event_route env (l_event l) of
                     None \<Rightarrow> handle_missing env l w | Some rt \<Rightarrow> handle_route env l rt w);
                w = en_observe env (LeaseEnd (metric_owner owner)) w;
                w = en_observe env (Finished (metric_owner owner) (metric_result label)) w
            in (w, True, err))"

section \<open>Configuration and the worker loop\<close>

record dispatcher_config =
  dc_lease :: int
  dc_poll :: int
  dc_reclaim :: int

text \<open>\<open>NewDispatcher\<close>: the configuration with its defaults and the number of workers.\<close>

definition new_dispatcher :: "registry \<Rightarrow> dispatcher_config \<Rightarrow> (dispatcher_config \<times> int) option" where
  "new_dispatcher reg cfg =
     (let cfg = \<lparr>dc_lease = if dc_lease cfg = 0 then 30 * second else dc_lease cfg,
            dc_poll = if dc_poll cfg = 0 then 250 * millisecond else dc_poll cfg,
            dc_reclaim = if dc_reclaim cfg = 0 then 5 * second else dc_reclaim cfg\<rparr>;
          workers = sum_list (map (\<lambda>kr. r_max_in_flight (snd kr)) (reg_routes reg));
          workers = (if workers < 1 then 1 else workers);
          workers = (if 100 < workers then 100 else workers)
      in if dc_lease cfg \<le> 0 \<or> dc_poll cfg \<le> 0 \<or> dc_reclaim cfg \<le> 0 then None else Some (cfg, workers))"

text \<open>
  A worker's inner loop after a poll tick: it processes events until one fails or none is due.
  \<open>nows\<close> are the readings of the clock between rounds; the loop has no bound of its own, so the
  list is the fuel, and \<open>None\<close> means that it ran out while events were still processed.
\<close>

fun drain :: "'w env \<Rightarrow> int list \<Rightarrow> 'w \<Rightarrow> ('w \<times> process_error option) option" where
  "drain env [] w = None"
| "drain env (now # nows) w =
     (case process_one env False now w of
        (w, True, None) \<Rightarrow> drain env nows w
      | (w, _, err) \<Rightarrow> Some (w, err))"

end
