(* ===== verification/Action_Redis.thy ===== *)
theory Action_Redis
  imports Action_Dispatch
begin

text \<open>
  \<open>RedisQueue\<close>, the Go side of \<open>internal/cardactiondispatch/queue.go\<close>, as an implementation of
  the dispatcher's queue interface, and the enqueueing service of \<open>service.go\<close>.  The world holds
  the Redis store and what the environment will do: whether each script call fails (before or
  after Redis ran it), the readings of the clock and the random bytes of the lease tokens.
\<close>

datatype fault = NoFault | FailBefore | FailAfter

record 's world =
  w_store :: 's
  w_faults :: "fault list"
  w_readings :: "int list"
  w_now :: int
  w_random :: "string list"
  w_slots :: "(route_key \<times> int) list"
  w_ticks :: "int list"
  w_observed :: "metric list"

record codec =
  encode_event :: "event \<Rightarrow> string option"
  decode_event :: "string \<Rightarrow> event option"
  encode_meta :: "gval \<Rightarrow> string option"

record queue_config =
  qc_prefix :: string
  qc_live_ttl :: int
  qc_dlq_retention :: int

section \<open>The environment\<close>

definition read_clock :: "'s world \<Rightarrow> 's world \<times> int" where
  "read_clock w =
     (case w_readings w of
        [] \<Rightarrow> (w, w_now w)
      | t # ts \<Rightarrow> (w\<lparr>w_readings := ts, w_now := t\<rparr>, t))"

text \<open>\<open>newLeaseToken\<close>: sixteen random bytes in hex.\<close>

definition new_lease_token :: "'s world \<Rightarrow> 's world \<times> (queue_error + string)" where
  "new_lease_token w =
     (case w_random w of
        [] \<Rightarrow> (w, Inl TokenFailed)
      | raw # rest \<Rightarrow> (w\<lparr>w_random := rest\<rparr>, Inr (hex_encode raw)))"

text \<open>One script call: Redis may not be reached, or the reply may be lost.\<close>

definition call :: "('s \<Rightarrow> 's \<times> 'a) \<Rightarrow> 's world \<Rightarrow> 's world \<times> (queue_error + 'a)" where
  "call script w =
     (let (fault, rest) = (case w_faults w of [] \<Rightarrow> (NoFault, []) | f # fs \<Rightarrow> (f, fs));
          w = w\<lparr>w_faults := rest\<rparr>;
          (s, res) = script (w_store w)
      in case fault of
           NoFault \<Rightarrow> (w\<lparr>w_store := s\<rparr>, Inr res)
         | FailBefore \<Rightarrow> (w, Inl RedisFailed)
         | FailAfter \<Rightarrow> (w\<lparr>w_store := s\<rparr>, Inl RedisFailed))"

definition unix_millis :: "int \<Rightarrow> int" where
  "unix_millis t = (if t < 0 then - ((- t) div 1000000) else t div 1000000)"

definition bool_reply :: "queue_error + reply \<Rightarrow> queue_error + bool" where
  "bool_reply res =
     (case res of Inl e \<Rightarrow> Inl e | Inr ScriptError \<Rightarrow> Inl RedisFailed | Inr (Reply n) \<Rightarrow> Inr (n = 1))"

section \<open>Construction\<close>

definition min_live_ttl :: int where
  "min_live_ttl = 4 * route_missing_defer_interval"

text \<open>The configuration checks of \<open>NewRedisQueue\<close>.\<close>

definition queue_config_ok :: "queue_config \<Rightarrow> bool" where
  "queue_config_ok cfg =
     (\<not> blank (qc_prefix cfg) \<and>
      set (qc_prefix cfg) \<inter> {CHR 0x20, CHR 0x09, CHR 0x0D, CHR 0x0A} = {} \<and>
      0 < qc_live_ttl cfg \<and> 0 < qc_dlq_retention cfg \<and> min_live_ttl \<le> qc_live_ttl cfg)"

definition cfg_keys :: "queue_config \<Rightarrow> queue_keys" where
  "cfg_keys cfg = new_queue_keys (qc_prefix cfg)"

section \<open>Operations\<close>

definition redis_enqueue ::
  "'s redis \<Rightarrow> queue_config \<Rightarrow> codec \<Rightarrow> event \<Rightarrow> int \<Rightarrow> 's world \<Rightarrow> 's world \<times> (queue_error + unit)" where
  "redis_enqueue r cfg cdc e due w =
     (if e_id e \<le> 0 \<or> e_sender e = [] \<or> e_owner e = [] \<or> e_action_type e = [] then (w, Inl InvalidArguments)
      else (case encode_event cdc e of
              None \<Rightarrow> (w, Inl EncodeEvent)
            | Some payload \<Rightarrow>
                let (w, res) = call (enqueue_script r (cfg_keys cfg) (show_int (e_id e)) payload
                      (unix_millis due) (unix_millis (qc_live_ttl cfg))) w
                in (w, case res of Inl e \<Rightarrow> Inl e | Inr ScriptError \<Rightarrow> Inl RedisFailed | Inr _ \<Rightarrow> Inr ())))"

definition redis_claim ::
  "'s redis \<Rightarrow> queue_config \<Rightarrow> codec \<Rightarrow> int \<Rightarrow> int \<Rightarrow> 's world \<Rightarrow> 's world \<times> (queue_error + lease option)" where
  "redis_claim r cfg cdc now duration w =
     (if duration \<le> 0 then (w, Inl InvalidArguments)
      else
        let (w, tok) = new_lease_token w in
        case tok of
          Inl e \<Rightarrow> (w, Inl e)
        | Inr token \<Rightarrow>
            let (w, res) = call (claim_script r (cfg_keys cfg) (unix_millis now) (unix_millis (now + duration))
                  token (unix_millis (qc_live_ttl cfg))) w
            in case res of
                 Inl e \<Rightarrow> (w, Inl e)
               | Inr None \<Rightarrow> (w, Inr None)
               | Inr (Some (i, payload, attempt, claimed)) \<Rightarrow>
                   (case decode_event cdc payload of
                      None \<Rightarrow> (w, Inl DecodeEvent)
                    | Some e \<Rightarrow>
                        if claimed = [] then (w, Inl MalformedReply)
                        else (w, Inr (Some \<lparr>l_event = e, l_token = claimed, l_attempt = attempt\<rparr>))))"

definition redis_ack :: "'s redis \<Rightarrow> queue_config \<Rightarrow> int \<Rightarrow> string \<Rightarrow> 's world \<Rightarrow> 's world \<times> (queue_error + bool)" where
  "redis_ack r cfg i token w =
     (let (w, res) = call (ack_script r (cfg_keys cfg) (show_int i) token) w in (w, bool_reply res))"

definition redis_renew ::
  "'s redis \<Rightarrow> queue_config \<Rightarrow> int \<Rightarrow> string \<Rightarrow> int \<Rightarrow> int \<Rightarrow> 's world \<Rightarrow> 's world \<times> (queue_error + bool)" where
  "redis_renew r cfg i token now duration w =
     (if i \<le> 0 \<or> token = [] \<or> duration \<le> 0 then (w, Inl InvalidArguments)
      else
        let (w, res) = call (renew_script r (cfg_keys cfg) (show_int i) token (unix_millis (now + duration))
              (unix_millis (qc_live_ttl cfg))) w
        in (w, bool_reply res))"

definition redis_defer ::
  "'s redis \<Rightarrow> queue_config \<Rightarrow> int \<Rightarrow> string \<Rightarrow> int \<Rightarrow> 's world \<Rightarrow> 's world \<times> (queue_error + bool)" where
  "redis_defer r cfg i token due w =
     (if i \<le> 0 \<or> token = [] then (w, Inl InvalidArguments)
      else
        let (w, res) = call (defer_script r (cfg_keys cfg) (show_int i) token (unix_millis due)
              (unix_millis (qc_live_ttl cfg))) w
        in (w, bool_reply res))"

definition nack_meta :: "codec \<Rightarrow> lease \<Rightarrow> string \<Rightarrow> int \<Rightarrow> string" where
  "nack_meta cdc l reason now =
     (case encode_meta cdc (GObj [(''attempt'', GInt (l_attempt l)), (''failed_at'', GInt64 (now div 1000000000)),
        (''reason'', GStr (truncate_string reason 256))]) of Some s \<Rightarrow> s | None \<Rightarrow> [])"

definition redis_nack ::
  "'s redis \<Rightarrow> queue_config \<Rightarrow> codec \<Rightarrow> lease \<Rightarrow> int \<Rightarrow> int \<Rightarrow> int \<Rightarrow> string \<Rightarrow> 's world \<Rightarrow>
     's world \<times> (queue_error + nack_outcome)" where
  "redis_nack r cfg cdc l now delay max_attempts reason w =
     (if max_attempts < 1 \<or> delay < 0 then (w, Inl InvalidArguments)
      else
        let (w, res) = call (nack_script r (cfg_keys cfg) (show_int (e_id (l_event l))) (l_token l)
              (unix_millis (now + delay)) max_attempts (nack_meta cdc l reason now)
              (unix_millis (qc_live_ttl cfg)) (unix_millis (qc_dlq_retention cfg))
              (unix_millis (now - qc_dlq_retention cfg)) (unix_millis now)) w
        in (w, case res of
                 Inl e \<Rightarrow> Inl e
               | Inr ScriptError \<Rightarrow> Inl RedisFailed
               | Inr (Reply n) \<Rightarrow>
                   if n = 0 then Inr NackTokenMismatch
                   else if n = 1 then Inr NackRequeued
                   else if n = 2 then Inr NackDeadLettered else Inl MalformedReply))"

definition redis_reclaim ::
  "'s redis \<Rightarrow> queue_config \<Rightarrow> int \<Rightarrow> int \<Rightarrow> 's world \<Rightarrow> 's world \<times> (queue_error + int)" where
  "redis_reclaim r cfg now limit w =
     (if limit < 1 \<or> 1000 < limit then (w, Inl InvalidArguments)
      else
        let (w, res) = call (reclaim_script r (cfg_keys cfg) (unix_millis now) (nat limit)
              (unix_millis (qc_live_ttl cfg))) w
        in (w, case res of Inl e \<Rightarrow> Inl e | Inr ScriptError \<Rightarrow> Inl RedisFailed | Inr (Reply n) \<Rightarrow> Inr (int n)))"

definition redis_replay ::
  "'s redis \<Rightarrow> queue_config \<Rightarrow> int \<Rightarrow> int \<Rightarrow> 's world \<Rightarrow> 's world \<times> (queue_error + bool)" where
  "redis_replay r cfg i due w =
     (let (w, res) = call (replay_dlq_script r (cfg_keys cfg) (show_int i) (unix_millis due)
            (unix_millis (qc_live_ttl cfg)) (unix_millis (due - qc_dlq_retention cfg))) w
      in (w, bool_reply res))"

definition redis_missing_since ::
  "'s redis \<Rightarrow> queue_config \<Rightarrow> int \<Rightarrow> int \<Rightarrow> 's world \<Rightarrow> 's world \<times> (queue_error + int)" where
  "redis_missing_since r cfg i now w =
     (let (w, res) = call (route_missing_since_script r (cfg_keys cfg) (show_int i) (unix_millis now)
            (unix_millis (qc_live_ttl cfg))) w
      in (w, case res of
               Inl e \<Rightarrow> Inl e
             | Inr v \<Rightarrow> (case parse_int64 v of None \<Rightarrow> Inl RedisFailed | Some ms \<Rightarrow> Inr (ms * 1000000))))"

definition redis_clear_missing ::
  "'s redis \<Rightarrow> queue_config \<Rightarrow> int \<Rightarrow> string \<Rightarrow> 's world \<Rightarrow> 's world \<times> (queue_error + bool)" where
  "redis_clear_missing r cfg i token w =
     (let (w, res) = call (clear_route_missing_script r (cfg_keys cfg) (show_int i) token) w
      in (w, bool_reply res))"

text \<open>\<open>DepthsNoPrune\<close>, and \<open>Depths\<close>, which prunes expired dead letters by the wall clock first.\<close>

definition redis_depths_no_prune ::
  "'s redis \<Rightarrow> queue_config \<Rightarrow> 's world \<Rightarrow> 's world \<times> (queue_error + int \<times> int \<times> int)" where
  "redis_depths_no_prune r cfg w =
     call (\<lambda>s. (s, (int (zcard r s (k_ready (cfg_keys cfg))), int (zcard r s (k_leased (cfg_keys cfg))),
        int (zcard r s (k_dlq (cfg_keys cfg)))))) w"

definition redis_depths ::
  "'s redis \<Rightarrow> queue_config \<Rightarrow> 's world \<Rightarrow> 's world \<times> (queue_error + int \<times> int \<times> int)" where
  "redis_depths r cfg w =
     (let (w, now) = read_clock w;
          (w, res) = call (prune_dlq_script r (cfg_keys cfg) (unix_millis (now - qc_dlq_retention cfg))) w
      in case res of Inl e \<Rightarrow> (w, Inl e) | Inr _ \<Rightarrow> redis_depths_no_prune r cfg w)"

definition redis_queue :: "'s redis \<Rightarrow> queue_config \<Rightarrow> codec \<Rightarrow> 's world queue_api" where
  "redis_queue r cfg cdc =
     \<lparr>qa_claim = redis_claim r cfg cdc, qa_renew = redis_renew r cfg, qa_defer = redis_defer r cfg,
      qa_ack = redis_ack r cfg, qa_nack = redis_nack r cfg cdc, qa_reclaim = redis_reclaim r cfg,
      qa_missing_since = redis_missing_since r cfg, qa_clear_missing = redis_clear_missing r cfg,
      qa_depths = Some (redis_depths r cfg)\<rparr>"

section \<open>The dispatcher's environment on this world\<close>

text \<open>The buffered channel of a route: a slot is taken when fewer than its capacity are in use.\<close>

definition slot_count :: "'s world \<Rightarrow> route_key \<Rightarrow> int" where
  "slot_count w key = (case map_of (w_slots w) key of None \<Rightarrow> 0 | Some n \<Rightarrow> n)"

definition acquire_slot :: "registry \<Rightarrow> route_key \<Rightarrow> 's world \<Rightarrow> 's world \<times> bool" where
  "acquire_slot reg key w =
     (case map_of (reg_routes reg) key of
        None \<Rightarrow> (w, True)
      | Some rt \<Rightarrow>
          if slot_count w key < r_max_in_flight rt
          then (w\<lparr>w_slots := AList.update key (slot_count w key + 1) (w_slots w)\<rparr>, True)
          else (w, False))"

definition release_slot :: "registry \<Rightarrow> route_key \<Rightarrow> 's world \<Rightarrow> 's world" where
  "release_slot reg key w =
     (case map_of (reg_routes reg) key of
        None \<Rightarrow> w
      | Some rt \<Rightarrow> w\<lparr>w_slots := AList.update key (slot_count w key - 1) (w_slots w)\<rparr>)"

definition redis_env ::
  "'s redis \<Rightarrow> queue_config \<Rightarrow> codec \<Rightarrow> registry \<Rightarrow>
    (route \<Rightarrow> decision_request \<Rightarrow> 's world \<Rightarrow> 's world \<times> (delivery_error + decision_result)) \<Rightarrow>
    (event \<Rightarrow> decision_result \<Rightarrow> 's world \<Rightarrow> 's world \<times> finalize_error option) \<Rightarrow>
    dispatcher_config \<Rightarrow> 's world env" where
  "redis_env r cfg cdc reg dlv fin dc =
     \<lparr>en_queue = redis_queue r cfg cdc, en_registry = reg, en_deliver = dlv, en_finalize = fin,
      en_clock = read_clock, en_observe = (\<lambda>m w. w\<lparr>w_observed := w_observed w @ [m]\<rparr>),
      en_acquire = acquire_slot reg, en_release = release_slot reg,
      en_ticks = (\<lambda>w. (w\<lparr>w_ticks := []\<rparr>, w_ticks w)),
      en_lease_duration = dc_lease dc, en_poll_interval = dc_poll dc\<rparr>"

section \<open>Enqueueing\<close>

datatype enqueue_error = EventIdSet | NoRoute | SequenceFailed | QueueRefused queue_error

text \<open>\<open>Service.Enqueue\<close>; the sequence generator is a parameter.\<close>

definition service_enqueue ::
  "'s redis \<Rightarrow> queue_config \<Rightarrow> codec \<Rightarrow> registry \<Rightarrow> ('s world \<Rightarrow> 's world \<times> int option) \<Rightarrow> event \<Rightarrow> 's world \<Rightarrow>
     's world \<times> (enqueue_error + int)" where
  "service_enqueue r cfg cdc reg gen_seq e w =
     (if e_id e \<noteq> 0 then (w, Inl EventIdSet)
      else (case resolve (Some reg) (e_sender e) (e_owner e) (e_action_type e) of
              Callback _ \<Rightarrow>
                let (w, seq) = gen_seq w in
                (case seq of
                   None \<Rightarrow> (w, Inl SequenceFailed)
                 | Some i \<Rightarrow>
                     let (w, now) = read_clock w;
                         (w, res) = redis_enqueue r cfg cdc (e\<lparr>e_id := i\<rparr>) now w
                     in (w, case res of Inl err \<Rightarrow> Inl (QueueRefused err) | Inr _ \<Rightarrow> Inr i))
            | _ \<Rightarrow> (w, Inl NoRoute)))"

end
