(* ===== verification/Dispatch_Laws.thy ===== *)
theory Dispatch_Laws
  imports Action_Redis
begin

text \<open>
  The contract between the dispatcher and its queue: which operations end a lease.  The locale
  \<open>lease_queue\<close> states it for any implementation of the interface, \<open>dispatcher\<close> adds that the
  dispatcher's bookkeeping does not create leases, and what \<open>process_one\<close> guarantees is proved
  from them.  The Redis queue satisfies both, on every store with the documented commands.
\<close>

locale lease_queue =
  fixes api :: "'w queue_api" and holds :: "int \<Rightarrow> string \<Rightarrow> 'w \<Rightarrow> bool"
  assumes defer_ends: "qa_defer api i t due w = (w', Inr True) \<Longrightarrow> \<not> holds i t w'"
    and ack_ends: "qa_ack api i t w = (w', Inr True) \<Longrightarrow> \<not> holds i t w'"
    and nack_ends: "qa_nack api l now delay m reason w = (w', Inr out) \<Longrightarrow> \<not> holds (e_id (l_event l)) (l_token l) w'"
    and depths_keep: "qa_depths api = Some depths \<Longrightarrow> holds i t (fst (depths w)) \<Longrightarrow> holds i t w"

locale dispatcher = lease_queue "en_queue env" holds
  for env :: "'w env" and holds +
  assumes observe_keeps [simp]: "holds i t (en_observe env m w) = holds i t w"
    and release_keeps [simp]: "holds i t (en_release env k w) = holds i t w"
begin

definition gone :: "lease \<Rightarrow> 'w \<Rightarrow> bool" where
  "gone l w = (\<not> holds (e_id (l_event l)) (l_token l) w)"

lemma gone_simps [simp]:
  "gone l (en_observe env m w) = gone l w" "gone l (en_release env k w) = gone l w"
  "gone l (observe_error env o' c w) = gone l w" "gone l (observe_retry env o' w) = gone l w"
  "gone l (log_transition env l' c res w) = gone l w"
  by (simp_all add: gone_def observe_error_def observe_retry_def log_transition_def Let_def
      split: sum.splits nack_outcome.splits)

lemma gone_refresh: "gone l w \<Longrightarrow> gone l (refresh_depth_metrics env w)"
proof (cases "qa_depths (en_queue env)")
  case (Some depths)
  assume "gone l w"
  then have "gone l (fst (depths w))" using depths_keep [OF Some] by (auto simp: gone_def)
  then show ?thesis
    by (auto simp: refresh_depth_metrics_def Some split: prod.splits sum.splits)
qed (simp add: refresh_depth_metrics_def)

lemma gone_nack: "nack env l now retry m c w = (w', Inr out) \<Longrightarrow> gone l w'"
  unfolding nack_def gone_def Let_def by (rule nack_ends)

lemma gone_fail:
  assumes "fail_lease env l retry m c count w = (w', label, None)"
  shows "gone l w'"
proof -
  obtain now w1 where c: "en_clock env w = (w1, now)" by force
  obtain w2 res where n: "nack env l now retry m c w1 = (w2, res)" by force
  from assms obtain out where res: "res = Inr out"
    by (auto simp: fail_lease_def Let_def c n nack_ending_def split: sum.splits)
  have "gone l w2" using gone_nack n res by blast
  then show ?thesis using assms by (auto simp: fail_lease_def Let_def c n intro!: gone_refresh)
qed

lemma gone_defer:
  assumes "defer_lease env l wait lost w = (w', label, None)"
  shows "gone l w'"
proof -
  obtain now w1 where c: "en_clock env w = (w1, now)" by force
  obtain w2 res where d: "qa_defer (en_queue env) (e_id (l_event l)) (l_token l) (now + wait) w1 = (w2, res)" by force
  from assms have res: "res = Inr True"
    by (auto simp: defer_lease_def Let_def c d split: sum.splits bool.splits)
  have "gone l w2" unfolding gone_def using defer_ends d res by blast
  then show ?thesis using assms by (auto simp: defer_lease_def Let_def c d res intro!: gone_refresh)
qed

lemma gone_finish:
  assumes "finish_lease env l w = (w', label, None)"
  shows "gone l w'"
proof -
  obtain w1 res where a: "qa_ack (en_queue env) (e_id (l_event l)) (l_token l) w = (w1, res)" by force
  from assms have res: "res = Inr True"
    by (auto simp: finish_lease_def Let_def a split: sum.splits bool.splits)
  have "gone l w1" unfolding gone_def using ack_ends a res by blast
  then show ?thesis using assms by (auto simp: finish_lease_def Let_def a res intro!: gone_refresh)
qed

lemma gone_missing:
  assumes "handle_missing env l w = (w', label, None)"
  shows "gone l w'"
  using assms gone_fail gone_defer
  by (auto simp: handle_missing_def Let_def split: prod.splits sum.splits if_splits)

lemma gone_finalize:
  assumes "finalize_lease env l rt result w = (w', label, None)"
  shows "gone l w'"
  using assms gone_fail gone_finish
  by (auto simp: finalize_lease_def Let_def split: prod.splits option.splits if_splits)

lemma gone_deliver:
  assumes "deliver_lease env l rt w = (w', label, None)"
  shows "gone l w'"
  using assms gone_fail gone_finalize
  by (auto simp: deliver_lease_def Let_def split: prod.splits sum.splits)

lemma gone_exhausted:
  assumes "qa_nack (en_queue env) l now 0 m c w = (w1, res)"
    and "(refresh_depth_metrics env (log_transition env l c res w1), nack_ending res) = (w', label, None)"
  shows "gone l w'"
proof -
  from assms(2) obtain out where "res = Inr out" by (auto simp: nack_ending_def split: sum.splits)
  then have "gone l w1" unfolding gone_def using nack_ends assms(1) by blast
  then show ?thesis using assms(2) by (auto intro: gone_refresh)
qed

lemma gone_route:
  assumes "handle_route env l rt w = (w', label, None)"
  shows "gone l w'"
  using assms gone_defer gone_deliver gone_exhausted
  by (auto simp: handle_route_def Let_def split: prod.splits sum.splits bool.splits if_splits)

lemma process_one_ends:
  assumes "process_one env cancelled now w = (w', processed, None)"
  shows "\<not> cancelled \<and>
    (if processed
     then \<exists>l w1. qa_claim (en_queue env) now (en_lease_duration env) w = (w1, Inr (Some l)) \<and> gone l w'
     else qa_claim (en_queue env) now (en_lease_duration env) w = (w', Inr None))"
proof -
  obtain w1 res where c: "qa_claim (en_queue env) now (en_lease_duration env) w = (w1, res)" by force
  have n: "\<not> cancelled" using assms by (auto simp: process_one_def)
  show ?thesis
  proof (cases res)
    case (Inl e)
    then show ?thesis using assms n by (simp add: process_one_def c)
  next
    case (Inr lo)
    show ?thesis
    proof (cases lo)
      case None
      then show ?thesis using assms n Inr by (simp add: process_one_def c)
    next
      case (Some l)
      then show ?thesis
        using assms n Inr gone_missing gone_route
        by (auto simp: process_one_def c Let_def split: prod.splits option.splits)
    qed
  qed
qed

end

section \<open>The Redis queue keeps the contract\<close>

definition redis_holds :: "'s redis \<Rightarrow> queue_config \<Rightarrow> int \<Rightarrow> string \<Rightarrow> 's world \<Rightarrow> bool" where
  "redis_holds r cfg i t w = (hget r (w_store w) (k_tokens (cfg_keys cfg)) (show_int i) = Some t)"

lemma cfg_keys_ok: "keys_ok (cfg_keys cfg)"
  by (simp add: cfg_keys_def keys_ok_def new_queue_keys_distinct)

context redis_laws
begin

lemma tokens_refund: "keys_ok q \<Longrightarrow> hget r (refund r q i s) (k_tokens q) j = hget r s (k_tokens q) j"
  by (auto simp: refund_def keys_ok_def key_list_def hget_hincrby_other)

lemma tokens_defer:
  assumes "keys_ok q" and "defer_script r q i t due ttl s = (s', Reply 1)"
  shows "hget r s' (k_tokens q) i = None"
  using assms(2)
  by (auto simp: defer_script_def Let_def hash_simps tokens_refund [OF assms(1)] split: if_splits prod.splits)

lemma tokens_ack:
  assumes "ack_script r q i t s = (s', Reply 1)"
  shows "hget r s' (k_tokens q) i = None"
  using assms by (auto simp: ack_script_def hash_simps split: if_splits)

lemma tokens_drop_expired:
  "keys_ok q \<Longrightarrow> hget r (drop_expired r q cutoff s) (k_tokens q) j = hget r s (k_tokens q) j"
  by (auto simp: drop_expired_def keys_ok_def key_list_def hash_simps fold_hdel_all)

lemma tokens_nack:
  assumes "keys_ok q" and "nack_script r q i t due m meta ttl dttl cutoff now s = (s', Reply n)"
  shows "hget r s' (k_tokens q) i \<noteq> Some t"
proof -
  have keys: "k_tokens q \<noteq> k_dlq_meta q" "k_tokens q \<noteq> k_dlq_payload q" "k_tokens q \<noteq> k_payload q"
    "k_tokens q \<noteq> k_attempts q" using assms(1) by (auto simp: keys_ok_def key_list_def)
  show ?thesis
    using assms(2)
    by (auto simp: nack_script_def Let_def hash_simps keys tokens_drop_expired [OF assms(1)]
        split: if_splits option.splits)
qed

end

locale redis_dispatcher = redis_laws r
  for r :: "'s redis" +
  fixes cfg :: queue_config and cdc :: codec and reg :: registry
    and dlv :: "route \<Rightarrow> decision_request \<Rightarrow> 's world \<Rightarrow> 's world \<times> (delivery_error + decision_result)"
    and fin :: "event \<Rightarrow> decision_result \<Rightarrow> 's world \<Rightarrow> 's world \<times> finalize_error option"
    and dc :: dispatcher_config
begin

lemma call_ok:
  assumes "call script w = (w', Inr res)"
  shows "script (w_store w) = (w_store w', res)"
proof -
  obtain f rest where "(case w_faults w of [] \<Rightarrow> (NoFault, []) | f # fs \<Rightarrow> (f, fs)) = (f, rest)" by force
  with assms show ?thesis
    by (cases f) (auto simp: call_def Let_def split: prod.splits)
qed

lemma bool_reply_True: "bool_reply res = Inr True \<Longrightarrow> res = Inr (Reply 1)"
  by (auto simp: bool_reply_def split: sum.splits reply.splits)

lemma defer_holds:
  assumes "redis_defer r cfg i t due w = (w', Inr True)"
  shows "\<not> redis_holds r cfg i t w'"
proof -
  from assms obtain res where "call (defer_script r (cfg_keys cfg) (show_int i) t (unix_millis due)
      (unix_millis (qc_live_ttl cfg))) w = (w', res)" "bool_reply res = Inr True"
    by (auto simp: redis_defer_def Let_def split: if_splits prod.splits)
  then show ?thesis
    using tokens_defer [OF cfg_keys_ok] by (auto simp: redis_holds_def dest!: bool_reply_True call_ok)
qed

lemma ack_holds:
  assumes "redis_ack r cfg i t w = (w', Inr True)"
  shows "\<not> redis_holds r cfg i t w'"
proof -
  from assms obtain res where "call (ack_script r (cfg_keys cfg) (show_int i) t) w = (w', res)"
    "bool_reply res = Inr True"
    by (auto simp: redis_ack_def Let_def split: prod.splits)
  then show ?thesis
    using tokens_ack by (auto simp: redis_holds_def dest!: bool_reply_True call_ok)
qed

lemma nack_holds:
  assumes "redis_nack r cfg cdc l now delay m reason w = (w', Inr out)"
  shows "\<not> redis_holds r cfg (e_id (l_event l)) (l_token l) w'"
proof -
  from assms obtain n where "call (nack_script r (cfg_keys cfg) (show_int (e_id (l_event l))) (l_token l)
      (unix_millis (now + delay)) m (nack_meta cdc l reason now) (unix_millis (qc_live_ttl cfg))
      (unix_millis (qc_dlq_retention cfg)) (unix_millis (now - qc_dlq_retention cfg)) (unix_millis now)) w =
      (w', Inr (Reply n))"
    by (auto simp: redis_nack_def Let_def split: if_splits prod.splits sum.splits reply.splits)
  from call_ok [OF this] show ?thesis
    unfolding redis_holds_def by (rule tokens_nack [OF cfg_keys_ok])
qed

lemma call_store: "w_store (fst (call script w)) = w_store w \<or> w_store (fst (call script w)) = fst (script (w_store w))"
proof -
  obtain f rest where "(case w_faults w of [] \<Rightarrow> (NoFault, []) | f # fs \<Rightarrow> (f, fs)) = (f, rest)" by force
  then show ?thesis by (cases f) (auto simp: call_def Let_def split: prod.splits)
qed

lemma depths_holds:
  assumes "redis_holds r cfg i t (fst (redis_depths r cfg w))"
  shows "redis_holds r cfg i t w"
proof -
  obtain now w1 where c: "read_clock w = (w1, now)" by force
  then have s1: "w_store w1 = w_store w" by (auto simp: read_clock_def split: list.splits)
  let ?p = "prune_dlq_script r (cfg_keys cfg) (unix_millis (now - qc_dlq_retention cfg))"
  obtain w2 res where p: "call ?p w1 = (w2, res)" by force
  have "w_store w2 = w_store w \<or>
      w_store w2 = drop_expired r (cfg_keys cfg) (unix_millis (now - qc_dlq_retention cfg)) (w_store w)"
    using call_store [of ?p w1, unfolded p fst_conv s1] by (simp add: prune_dlq_script_def)
  then have "hget r (w_store w2) (k_tokens (cfg_keys cfg)) j = hget r (w_store w) (k_tokens (cfg_keys cfg)) j" for j
    using tokens_drop_expired [OF cfg_keys_ok] by (elim disjE) simp_all
  moreover have "w_store (fst (redis_depths_no_prune r cfg w2)) = w_store w2"
    using call_store [of "\<lambda>s. (s, (int (zcard r s (k_ready (cfg_keys cfg))), int (zcard r s (k_leased (cfg_keys cfg))),
        int (zcard r s (k_dlq (cfg_keys cfg)))))" w2]
    by (simp add: redis_depths_no_prune_def)
  moreover have "fst (redis_depths r cfg w) = w2 \<or> fst (redis_depths r cfg w) = fst (redis_depths_no_prune r cfg w2)"
    by (auto simp: redis_depths_def c p Let_def split: sum.splits)
  ultimately show ?thesis using assms by (auto simp: redis_holds_def)
qed

end

sublocale redis_dispatcher \<subseteq> dispatcher "redis_env r cfg cdc reg dlv fin dc" "redis_holds r cfg"
proof unfold_locales
  fix i t due w w'
  show "qa_defer (en_queue (redis_env r cfg cdc reg dlv fin dc)) i t due w = (w', Inr True) \<Longrightarrow>
      \<not> redis_holds r cfg i t w'"
    by (simp add: redis_env_def redis_queue_def defer_holds)
  show "qa_ack (en_queue (redis_env r cfg cdc reg dlv fin dc)) i t w = (w', Inr True) \<Longrightarrow>
      \<not> redis_holds r cfg i t w'"
    by (simp add: redis_env_def redis_queue_def ack_holds)
  show "qa_nack (en_queue (redis_env r cfg cdc reg dlv fin dc)) l now delay m reason w = (w', Inr out) \<Longrightarrow>
      \<not> redis_holds r cfg (e_id (l_event l)) (l_token l) w'" for l now delay m reason out
    by (simp add: redis_env_def redis_queue_def nack_holds)
  show "qa_depths (en_queue (redis_env r cfg cdc reg dlv fin dc)) = Some depths \<Longrightarrow>
      redis_holds r cfg i t (fst (depths w)) \<Longrightarrow> redis_holds r cfg i t w" for depths
    by (auto simp: redis_env_def redis_queue_def depths_holds)
qed (auto simp: redis_env_def redis_holds_def release_slot_def split: option.splits)

context redis_dispatcher
begin

lemma redis_process_one:
  assumes "process_one (redis_env r cfg cdc reg dlv fin dc) cancelled now w = (w', processed, None)"
  shows "\<not> cancelled \<and>
    (if processed
     then \<exists>l w1. redis_claim r cfg cdc now (dc_lease dc) w = (w1, Inr (Some l)) \<and>
       \<not> redis_holds r cfg (e_id (l_event l)) (l_token l) w'
     else redis_claim r cfg cdc now (dc_lease dc) w = (w', Inr None))"
  using process_one_ends [OF assms]
  by (simp add: redis_env_def redis_queue_def gone_def cong: if_cong)

end

end
