(* ===== verification/Dispatch_Props.thy ===== *)
theory Dispatch_Props
  imports Dispatch_Laws
begin

text \<open>
  Properties of the dispatcher on the Redis queue: a round that reports no error leaves no lease
  behind, and the waiting time of a retry is the bounded exponential.
\<close>

section \<open>Backoff\<close>

lemma backoff_loop_min:
  assumes "0 \<le> d" and "d \<le> m"
  shows "(case backoff_loop n d m of None \<Rightarrow> m | Some x \<Rightarrow> if m < x then m else x) = min m (d * 2 ^ n)"
  using assms
proof (induction n arbitrary: d)
  case (Suc n)
  have h: "half m = m div 2" using Suc.prems by (simp add: half_def)
  consider "d = m" | "d < m" "half m < d" | "d < m" "d \<le> half m" using Suc.prems by linarith
  then show ?case
  proof cases
    case 1
    have "m * 1 \<le> m * 2 ^ Suc n" using Suc.prems by (intro mult_left_mono one_le_power) simp_all
    with 1 show ?thesis by simp
  next
    case 2
    then have "m < d * 2" by (simp add: h)
    moreover have "d * 2 * 1 \<le> d * 2 * 2 ^ n" using Suc.prems by (intro mult_left_mono one_le_power) simp_all
    ultimately have "m \<le> d * 2 ^ Suc n" by simp
    with 2 show ?thesis by simp
  next
    case 3
    then have "2 * d \<le> m" by (simp add: h)
    with 3 Suc.IH [of "2 * d"] Suc.prems show ?thesis by (simp add: ac_simps)
  qed
qed simp

section \<open>A sample dispatcher\<close>

definition plain_event :: event where
  "plain_event = \<lparr>e_id = 7, e_sender = ''bot'', e_owner = ''docs'', e_action_type = ''approve'', e_message = ''m'',
     e_channel = ''c'', e_channel_type = 1, e_space = [], e_action = ''a'', e_operator = ''u'', e_operator_space = [],
     e_client_token = [], e_acted_at = 0, e_inputs = None, e_data = None, e_card = empty_context\<rparr>"

definition plain_codec :: codec where
  "plain_codec = \<lparr>encode_event = (\<lambda>e. Some (show_int (e_id e))),
     decode_event = (\<lambda>s. if s = ''7'' then Some plain_event else None), encode_meta = (\<lambda>_. Some ''meta'')\<rparr>"

definition plain_cfg :: queue_config where
  "plain_cfg = \<lparr>qc_prefix = ''q'', qc_live_ttl = 3600 * second, qc_dlq_retention = 3600 * second\<rparr>"

definition plain_registry :: registry where
  "plain_registry = \<lparr>reg_routes = [((''bot'', ''docs'', ''approve''),
     \<lparr>r_sender = ''bot'', r_owner = ''docs'', r_action = ''approve'', r_url = ''https://d.example/cb'',
      r_timeout = 3 * second, r_max_attempts = 5, r_base_backoff = second, r_max_backoff = minute,
      r_max_in_flight = 8, r_format = ''legacy'', r_secret = ''s''\<rparr>)],
     reg_senders = [''bot''], reg_notify_actions = [], reg_credentials = [], reg_secrets = [''s'']\<rparr>"

definition plain_deliver ::
  "route \<Rightarrow> decision_request \<Rightarrow> mem world \<Rightarrow> mem world \<times> (delivery_error + decision_result)" where
  "plain_deliver rt q w = (w, Inr (empty_result\<lparr>d_disposition := ''applied'', d_state := ''pending''\<rparr>))"

definition plain_finalize :: "event \<Rightarrow> decision_result \<Rightarrow> mem world \<Rightarrow> mem world \<times> finalize_error option" where
  "plain_finalize e r w = (w, None)"

definition plain_dispatcher :: dispatcher_config where
  "plain_dispatcher = \<lparr>dc_lease = 30 * second, dc_poll = 250 * millisecond, dc_reclaim = 5 * second\<rparr>"

interpretation plain: redis_dispatcher mem_redis plain_cfg plain_codec plain_registry plain_deliver
  plain_finalize plain_dispatcher
  by unfold_locales

abbreviation plain_env :: "mem world env" where
  "plain_env \<equiv> redis_env mem_redis plain_cfg plain_codec plain_registry plain_deliver plain_finalize plain_dispatcher"

definition plain_world :: "mem world" where
  "plain_world = \<lparr>w_store = \<lparr>mem_hash = [], mem_zset = []\<rparr>, w_faults = [], w_readings = [], w_now = 2000 * second,
     w_random = [''abc''], w_slots = [], w_ticks = [2010 * second], w_observed = []\<rparr>"

definition enqueued_world :: "mem world" where
  "enqueued_world = fst (redis_enqueue mem_redis plain_cfg plain_codec plain_event (1000 * second) plain_world)"

section \<open>Properties\<close>

text \<open>C19: \<open>ProcessOne\<close> settles what it claims: when it returns without an error it was not
  cancelled, and either it claimed nothing because nothing was due, or the lease it claimed is
  no longer held in the queue: the event was acknowledged, given back, requeued or dead-lettered,
  whatever the deliverer, the finalizer, the clock and the failures of Redis did.\<close>

theorem process_one_settles:
  assumes "redis_laws r"
    and "process_one (redis_env r cfg cdc reg dlv fin dc) cancelled now w = (w', processed, None)"
  shows "\<not> cancelled \<and>
    (if processed
     then \<exists>l w1. redis_claim r cfg cdc now (dc_lease dc) w = (w1, Inr (Some l)) \<and>
       \<not> redis_holds r cfg (e_id (l_event l)) (l_token l) w'
     else redis_claim r cfg cdc now (dc_lease dc) w = (w', Inr None))"
proof -
  have d: "redis_dispatcher r" using assms(1) by (simp add: redis_dispatcher_def)
  from redis_dispatcher.redis_process_one [OF d assms(2)] show ?thesis .
qed

theorem process_one_settles_witness:
  "\<exists>w'. process_one plain_env False (1500 * second) enqueued_world = (w', True, None) \<and>
     \<not> redis_holds mem_redis plain_cfg 7 (hex_encode ''abc'') w'"
proof -
  let ?p = "process_one plain_env False (1500 * second) enqueued_world"
  have "snd ?p = (True, None)" by code_simp
  then have p: "?p = (fst ?p, True, None)" by (simp add: prod_eq_iff)
  have c: "snd (redis_claim mem_redis plain_cfg plain_codec (1500 * second) (dc_lease plain_dispatcher) enqueued_world) =
    Inr (Some \<lparr>l_event = plain_event, l_token = hex_encode ''abc'', l_attempt = 1\<rparr>)" by code_simp
  from process_one_settles [OF mem.redis_laws_axioms p] c
  have "\<not> redis_holds mem_redis plain_cfg 7 (hex_encode ''abc'') (fst ?p)"
    by (auto simp: plain_event_def)
  with p show ?thesis by blast
qed

text \<open>The wait before a retry doubles with every attempt and is capped: for a route with
  backoffs \<open>0 \<le> base \<le> max\<close>, the delay after attempt \<open>n\<close> is the smaller of \<open>max\<close> and
  \<open>base * 2 ^ (n - 1)\<close>, and no intermediate value of the computation exceeds \<open>max\<close>.\<close>

theorem backoff_exact:
  assumes "0 \<le> r_base_backoff rt" and "r_base_backoff rt \<le> r_max_backoff rt"
  shows "retry_backoff attempt (Some rt) = min (r_max_backoff rt) (r_base_backoff rt * 2 ^ nat (attempt - 1))"
  unfolding retry_backoff_def using backoff_loop_min [OF assms] by simp

theorem backoff_exact_witness:
  "retry_backoff 4 (map_of (reg_routes plain_registry) (''bot'', ''docs'', ''approve'')) = 8 * second"
proof -
  obtain rt where rt: "map_of (reg_routes plain_registry) (''bot'', ''docs'', ''approve'') = Some rt"
    "r_base_backoff rt = second" "r_max_backoff rt = minute"
    by (simp add: plain_registry_def)
  from backoff_exact [of rt 4] show ?thesis
    by (simp add: rt second_def minute_def millisecond_def)
qed

end
