(* ===== verification/Key_Lock.thy ===== *)
theory Key_Lock
  imports Go_Strings "HOL-Library.Word"
begin

text \<open>
  \<open>pkg/keylock\<close>: a mutex per key, created on first use, with a reference count that \<open>Clean\<close>
  reads to delete idle locks.  The model is a step relation over the shared state and one program
  counter per goroutine.  A section that holds \<open>l.mutex\<close> is one step: the write sections exclude
  everything else, and two read sections only look a pointer up and add to an atomic counter, which
  commute.  Blocking in \<open>sync.Mutex.Lock\<close> is a step that is not enabled; \<open>Unlock\<close> of a mutex that
  nobody holds is Go's fatal error.  The reference count is the \<open>int64\<close> of the code.
\<close>

section \<open>State\<close>

text \<open>\<open>innerLock\<close>: the count and the embedded \<open>sync.Mutex\<close>, taken or not.\<close>

record inner_lock =
  count :: "64 word"
  taken :: bool

text \<open>
  Where a goroutine stands: outside, in \<open>Lock\<close> after the read section found no entry, in \<open>Lock\<close>
  in front of \<open>keyLock.Lock()\<close> with the pointer it found, between \<open>Lock\<close> and \<open>Unlock\<close>, and in
  \<open>Unlock\<close> in front of \<open>keyLock.Unlock()\<close>.
\<close>

datatype pc =
    Outside
  | Missed string
  | Waiting string nat
  | Critical string nat
  | Leaving nat
  | Fatal

text \<open>\<open>KeyLock\<close>, with the inner locks it points to, and the goroutines.\<close>

record key_lock =
  locks :: "string \<Rightarrow> nat option"
  store :: "nat \<Rightarrow> inner_lock"
  allocated :: nat
  pcs :: "nat \<Rightarrow> pc"

definition new_inner_lock :: inner_lock where
  "new_inner_lock = \<lparr>count = 0, taken = False\<rparr>"

definition new_key_lock :: key_lock where
  "new_key_lock =
     \<lparr>locks = (\<lambda>_. None), store = (\<lambda>_. new_inner_lock), allocated = 0, pcs = (\<lambda>_. Outside)\<rparr>"

definition add :: "inner_lock \<Rightarrow> inner_lock" where
  "add il = il\<lparr>count := count il + 1\<rparr>"

definition done_lock :: "inner_lock \<Rightarrow> inner_lock" where
  "done_lock il = il\<lparr>count := count il - 1\<rparr>"

definition update_lock :: "nat \<Rightarrow> (inner_lock \<Rightarrow> inner_lock) \<Rightarrow> key_lock \<Rightarrow> key_lock" where
  "update_lock p f l = l\<lparr>store := (store l)(p := f (store l p))\<rparr>"

definition goto_pc :: "nat \<Rightarrow> pc \<Rightarrow> key_lock \<Rightarrow> key_lock" where
  "goto_pc t p l = l\<lparr>pcs := (pcs l)(t := p)\<rparr>"

lemma goto_pc_sel [simp]:
  "pcs (goto_pc t c l) = (pcs l)(t := c)" "locks (goto_pc t c l) = locks l"
  "store (goto_pc t c l) = store l" "allocated (goto_pc t c l) = allocated l"
  by (simp_all add: goto_pc_def)

lemma update_lock_sel [simp]:
  "pcs (update_lock p f l) = pcs l" "locks (update_lock p f l) = locks l"
  "store (update_lock p f l) = (store l)(p := f (store l p))"
  "allocated (update_lock p f l) = allocated l"
  by (simp_all add: update_lock_def)

lemma inner_lock_ops [simp]:
  "count (add il) = count il + 1" "taken (add il) = taken il"
  "count (done_lock il) = count il - 1" "taken (done_lock il) = taken il"
  by (simp_all add: add_def done_lock_def)

section \<open>Operations\<close>

text \<open>\<open>Lock(key)\<close>: the section under \<open>RLock\<close>, the section under \<open>Lock\<close> for a new key, and the
  wait for the inner mutex.\<close>

definition lock_lookup :: "nat \<Rightarrow> string \<Rightarrow> key_lock \<Rightarrow> key_lock" where
  "lock_lookup t key l =
     (case locks l key of
        Some p \<Rightarrow> goto_pc t (Waiting key p) (update_lock p add l)
      | None \<Rightarrow> goto_pc t (Missed key) l)"

definition alloc_lock :: "string \<Rightarrow> key_lock \<Rightarrow> key_lock" where
  "alloc_lock key l = l\<lparr>allocated := Suc (allocated l), locks := (locks l)(key := Some (allocated l)),
                       store := (store l)(allocated l := new_inner_lock)\<rparr>"

definition lock_create :: "nat \<Rightarrow> string \<Rightarrow> key_lock \<Rightarrow> key_lock" where
  "lock_create t key l =
     (case locks l key of
        Some p \<Rightarrow> goto_pc t (Waiting key p) (update_lock p add l)
      | None \<Rightarrow>
          goto_pc t (Waiting key (allocated l)) (update_lock (allocated l) add (alloc_lock key l)))"

definition lock_acquire :: "nat \<Rightarrow> string \<Rightarrow> nat \<Rightarrow> key_lock \<Rightarrow> key_lock option" where
  "lock_acquire t key p l =
     (if taken (store l p) then None
      else Some (goto_pc t (Critical key p) (update_lock p (\<lambda>il. il\<lparr>taken := True\<rparr>) l)))"

text \<open>\<open>Unlock(key)\<close>: the section under \<open>RLock\<close>, then the inner mutex.\<close>

definition unlock_lookup :: "nat \<Rightarrow> string \<Rightarrow> key_lock \<Rightarrow> key_lock" where
  "unlock_lookup t key l =
     (case locks l key of
        Some p \<Rightarrow> goto_pc t (Leaving p) (update_lock p done_lock l)
      | None \<Rightarrow> goto_pc t Outside l)"

definition unlock_release :: "nat \<Rightarrow> nat \<Rightarrow> key_lock \<Rightarrow> key_lock" where
  "unlock_release t p l =
     (if taken (store l p)
      then goto_pc t Outside (update_lock p (\<lambda>il. il\<lparr>taken := False\<rparr>) l)
      else goto_pc t Fatal l)"

text \<open>\<open>Clean()\<close>, one section under \<open>Lock\<close>.\<close>

definition clean :: "key_lock \<Rightarrow> key_lock" where
  "clean l = l\<lparr>locks := (\<lambda>k. case locks l k of
                               Some p \<Rightarrow> if count (store l p) = 0 then None else Some p
                             | None \<Rightarrow> None)\<rparr>"

text \<open>
  The steps of \<open>n\<close> goroutines.  A goroutine calls \<open>Unlock\<close> for the key it locked, as every caller
  does with \<open>defer\<close>; when it calls what, and when the cleaner runs, is open.
\<close>

inductive klstep :: "nat \<Rightarrow> key_lock \<Rightarrow> key_lock \<Rightarrow> bool" for n where
  call_lock: "t < n \<Longrightarrow> pcs l t = Outside \<Longrightarrow> klstep n l (lock_lookup t key l)"
| slow_path: "t < n \<Longrightarrow> pcs l t = Missed key \<Longrightarrow> klstep n l (lock_create t key l)"
| acquire: "t < n \<Longrightarrow> pcs l t = Waiting key p \<Longrightarrow> lock_acquire t key p l = Some l' \<Longrightarrow>
    klstep n l l'"
| call_unlock: "t < n \<Longrightarrow> pcs l t = Critical key p \<Longrightarrow> klstep n l (unlock_lookup t key l)"
| release: "t < n \<Longrightarrow> pcs l t = Leaving p \<Longrightarrow> klstep n l (unlock_release t p l)"
| cleaner: "klstep n l (clean l)"

inductive reachable :: "nat \<Rightarrow> key_lock \<Rightarrow> bool" for n where
  start: "reachable n new_key_lock"
| move: "reachable n l \<Longrightarrow> klstep n l l' \<Longrightarrow> reachable n l'"

section \<open>The invariant\<close>

text \<open>A goroutine refers to an inner lock while its \<open>add\<close> is not yet undone, and owns it while it
  has the mutex.\<close>

fun refers :: "pc \<Rightarrow> nat \<Rightarrow> bool" where
  "refers (Waiting _ p) q = (p = q)"
| "refers (Critical _ p) q = (p = q)"
| "refers _ q = False"

fun owns :: "pc \<Rightarrow> nat \<Rightarrow> bool" where
  "owns (Critical _ p) q = (p = q)"
| "owns (Leaving p) q = (p = q)"
| "owns _ q = False"

fun entry_of :: "pc \<Rightarrow> (string \<times> nat) option" where
  "entry_of (Waiting k p) = Some (k, p)"
| "entry_of (Critical k p) = Some (k, p)"
| "entry_of _ = None"

definition referrers :: "nat \<Rightarrow> (nat \<Rightarrow> pc) \<Rightarrow> nat \<Rightarrow> nat set" where
  "referrers n f p = {t. t < n \<and> refers (f t) p}"

definition counts_ok :: "nat \<Rightarrow> key_lock \<Rightarrow> bool" where
  "counts_ok n l \<longleftrightarrow> (\<forall>p. count (store l p) = of_nat (card (referrers n (pcs l) p)))"

definition entries_ok :: "key_lock \<Rightarrow> bool" where
  "entries_ok l \<longleftrightarrow> (\<forall>t k p. entry_of (pcs l t) = Some (k, p) \<longrightarrow> locks l k = Some p)"

definition owners_ok :: "key_lock \<Rightarrow> bool" where
  "owners_ok l \<longleftrightarrow>
     (\<forall>t u p. owns (pcs l t) p \<and> owns (pcs l u) p \<longrightarrow> t = u) \<and>
     (\<forall>p. taken (store l p) = (\<exists>t. owns (pcs l t) p))"

definition heap_ok :: "nat \<Rightarrow> key_lock \<Rightarrow> bool" where
  "heap_ok n l \<longleftrightarrow>
     (\<forall>k p. locks l k = Some p \<longrightarrow> p < allocated l) \<and>
     (\<forall>j k p. locks l j = Some p \<and> locks l k = Some p \<longrightarrow> j = k) \<and>
     (\<forall>t p. owns (pcs l t) p \<or> refers (pcs l t) p \<longrightarrow> p < allocated l) \<and>
     (\<forall>t. pcs l t \<noteq> Fatal) \<and> (\<forall>t\<ge>n. pcs l t = Outside)"

definition kl_inv :: "nat \<Rightarrow> key_lock \<Rightarrow> bool" where
  "kl_inv n l \<longleftrightarrow> counts_ok n l \<and> entries_ok l \<and> owners_ok l \<and> heap_ok n l"

lemmas kl_inv_defs = kl_inv_def entries_ok_def owners_ok_def heap_ok_def

lemma refers_entry: "refers c p \<longleftrightarrow> (\<exists>k. entry_of c = Some (k, p))"
  by (cases c) auto

lemma finite_referrers [simp]: "finite (referrers n f p)"
  by (simp add: referrers_def)

lemma heap_okD:
  assumes "heap_ok n l"
  shows "locks l k = Some p \<Longrightarrow> p < allocated l"
    and "locks l j = Some p \<Longrightarrow> locks l k = Some p \<Longrightarrow> j = k"
    and "owns (pcs l t) p \<Longrightarrow> p < allocated l"
    and "refers (pcs l t) p \<Longrightarrow> p < allocated l"
    and "pcs l t \<noteq> Fatal"
    and "n \<le> t \<Longrightarrow> pcs l t = Outside"
  using assms unfolding heap_ok_def by blast+

lemma referrers_upd:
  "referrers n (f(t := c)) p =
     (if t < n \<and> refers c p then insert t (referrers n f p) else referrers n f p - {t})"
  by (auto simp: referrers_def)

lemma referrers_card: "card (referrers n f p) \<le> n"
proof -
  have "referrers n f p \<subseteq> {..<n}" by (auto simp: referrers_def)
  then have "card (referrers n f p) \<le> card {..<n}" by (intro card_mono) auto
  then show ?thesis by simp
qed

text \<open>A count of zero means that nobody refers to the lock: the \<open>int64\<close> does not wrap with fewer
  than \<open>2^64\<close> goroutines.\<close>

lemma zero_count_unreferred:
  assumes "counts_ok n l" and "n < 2 ^ 64" and "count (store l p) = 0" and "t < n"
  shows "\<not> refers (pcs l t) p"
proof
  assume r: "refers (pcs l t) p"
  let ?c = "card (referrers n (pcs l) p)"
  from assms(1,3) have "(of_nat ?c :: 64 word) = 0" by (metis counts_ok_def)
  moreover have "?c < 2 ^ 64" using referrers_card [of n "pcs l" p] assms(2) by linarith
  ultimately have "?c = 0" by (auto simp: word_of_nat_eq_0_iff dest: dvd_imp_le)
  then have "referrers n (pcs l) p = {}" by simp
  with r assms(4) show False by (auto simp: referrers_def)
qed

section \<open>Every step keeps the invariant\<close>

lemma counts_same:
  assumes "counts_ok n l" and "refers c = refers (pcs l t)" and "\<And>p. count (st p) = count (store l p)"
    and "pcs l' = (pcs l)(t := c)" and "store l' = st"
  shows "counts_ok n l'"
proof -
  have "referrers n (pcs l') p = referrers n (pcs l) p" for p
    using assms(2) unfolding assms(4) referrers_def by (auto simp: fun_eq_iff)
  then show ?thesis using assms(1,3,5) by (simp add: counts_ok_def)
qed

lemma counts_gain:
  assumes "counts_ok n l" and "t < n" and "\<And>q. \<not> refers (pcs l t) q" and "\<And>q. refers c q = (q = p)"
    and "pcs l' = (pcs l)(t := c)"
    and "\<And>q. count (store l' q) = count (store l q) + (if q = p then 1 else 0)"
  shows "counts_ok n l'"
proof -
  have n: "t \<notin> referrers n (pcs l) q" for q using assms(3) by (simp add: referrers_def)
  have r: "referrers n (pcs l') q = (if q = p then insert t (referrers n (pcs l) q) else referrers n (pcs l) q)" for q
    using n assms(2,4) unfolding assms(5) referrers_upd by auto
  show ?thesis unfolding counts_ok_def
  proof
    fix q
    have "count (store l q) = of_nat (card (referrers n (pcs l) q))"
      using assms(1) by (simp add: counts_ok_def)
    then show "count (store l' q) = of_nat (card (referrers n (pcs l') q))"
      using n [of q] by (auto simp: r assms(6))
  qed
qed

lemma counts_loss:
  assumes "counts_ok n l" and "t < n" and "\<And>q. refers (pcs l t) q = (q = p)" and "\<And>q. \<not> refers c q"
    and "pcs l' = (pcs l)(t := c)"
    and "\<And>q. count (store l' q) = count (store l q) - (if q = p then 1 else 0)"
  shows "counts_ok n l'"
proof -
  have m: "t \<in> referrers n (pcs l) q \<longleftrightarrow> q = p" for q using assms(2,3) by (simp add: referrers_def)
  have r: "referrers n (pcs l') q = referrers n (pcs l) q - {t}" for q
    using assms(4) unfolding assms(5) referrers_upd by simp
  have c: "card (referrers n (pcs l) p) = Suc (card (referrers n (pcs l) p - {t}))"
    using m [of p] by (intro card.remove) simp_all
  show ?thesis unfolding counts_ok_def
  proof
    fix q
    have old: "count (store l q) = of_nat (card (referrers n (pcs l) q))"
      using assms(1) by (simp add: counts_ok_def)
    show "count (store l' q) = of_nat (card (referrers n (pcs l') q))"
    proof (cases "q = p")
      case True
      then show ?thesis using old c by (simp add: r assms(6))
    next
      case False
      then have "referrers n (pcs l) q - {t} = referrers n (pcs l) q" using m by auto
      then show ?thesis using old False by (simp add: r assms(6))
    qed
  qed
qed

lemma entries_move:
  assumes "entries_ok l" and "pcs l' = (pcs l)(t := c)"
    and "\<And>k p. entry_of c = Some (k, p) \<Longrightarrow> locks l' k = Some p"
    and "\<And>k p. locks l k = Some p \<Longrightarrow> locks l' k = Some p"
  shows "entries_ok l'"
  using assms(1,3,4) unfolding entries_ok_def assms(2) by simp

lemma entries_okD: "entries_ok l \<Longrightarrow> entry_of (pcs l t) = Some (k, p) \<Longrightarrow> locks l k = Some p"
  by (simp add: entries_ok_def)

lemma owners_okD:
  assumes "owners_ok l"
  shows "owns (pcs l t) p \<Longrightarrow> owns (pcs l u) p \<Longrightarrow> t = u"
    and "owns (pcs l t) p \<Longrightarrow> taken (store l p)"
    and "taken (store l p) \<Longrightarrow> \<exists>t. owns (pcs l t) p"
  using assms unfolding owners_ok_def by blast+

lemma owners_same:
  assumes "owners_ok l" and "pcs l' = (pcs l)(t := c)" and "owns c = owns (pcs l t)"
    and "\<And>p. taken (store l' p) = taken (store l p)"
  shows "owners_ok l'"
proof -
  have "owns (pcs l' u) = owns (pcs l u)" for u using assms(3) by (simp add: assms(2))
  then show ?thesis using assms(1,4) by (simp add: owners_ok_def)
qed

lemma heap_move:
  assumes "heap_ok n l" and "pcs l' = (pcs l)(t := c)" and "t < n" and "c \<noteq> Fatal"
    and "locks l' = locks l" and "allocated l' = allocated l"
    and "\<And>p. owns c p \<or> refers c p \<Longrightarrow> p < allocated l"
  shows "heap_ok n l'"
proof -
  note h = heap_okD [OF assms(1)]
  have "owns (pcs l' u) p \<or> refers (pcs l' u) p \<Longrightarrow> p < allocated l'" for u p
    using h(3,4) [of u p] assms(7) by (cases "u = t") (auto simp: assms(2,6))
  moreover have "pcs l' u \<noteq> Fatal" for u using h(5) [of u] assms(4) by (simp add: assms(2))
  moreover have "pcs l' u = Outside" if "n \<le> u" for u using h(6) [OF that] assms(3) that by (simp add: assms(2))
  ultimately show ?thesis using h(1,2) unfolding heap_ok_def assms(5,6) by blast
qed

lemma inv_init: "kl_inv n new_key_lock"
  by (simp add: kl_inv_defs counts_ok_def referrers_def new_key_lock_def new_inner_lock_def)

lemma inv_lookup:
  assumes "kl_inv n l" and "t < n" and "pcs l t = Outside \<or> (\<exists>k. pcs l t = Missed k)"
    and "locks l key = Some p"
  shows "kl_inv n (goto_pc t (Waiting key p) (update_lock p add l))" (is "kl_inv n ?l")
proof -
  from assms(1) have a: "counts_ok n l" "entries_ok l" "owners_ok l" "heap_ok n l"
    by (simp_all add: kl_inv_def)
  have o: "\<not> owns (pcs l t) q" "\<not> refers (pcs l t) q" for q using assms(3) by auto
  have p: "p < allocated l" by (rule heap_okD(1) [OF a(4) assms(4)])
  have "counts_ok n ?l"
    by (rule counts_gain [OF a(1) assms(2) o(2), where c = "Waiting key p" and p = p]) auto
  moreover have "entries_ok ?l"
    using assms(4) by (intro entries_move [OF a(2), where c = "Waiting key p"]) auto
  moreover have "owners_ok ?l"
    using o by (intro owners_same [OF a(3), where c = "Waiting key p"]) auto
  moreover have "heap_ok n ?l"
    using p assms(2) by (intro heap_move [OF a(4), where c = "Waiting key p"]) auto
  ultimately show ?thesis by (simp add: kl_inv_def)
qed

lemma inv_outside:
  assumes "kl_inv n l" and "t < n" and "c = Outside \<or> (\<exists>k. c = Missed k)"
    and "pcs l t = Outside \<or> (\<exists>k. pcs l t = Missed k)"
  shows "kl_inv n (goto_pc t c l)"
proof -
  from assms(1) have a: "counts_ok n l" "entries_ok l" "owners_ok l" "heap_ok n l"
    by (simp_all add: kl_inv_def)
  have c: "refers c = refers (pcs l t)" "owns c = owns (pcs l t)" "entry_of c = None" "c \<noteq> Fatal"
      "\<not> owns c q" "\<not> refers c q" for q
    using assms(3,4) by auto
  have "counts_ok n (goto_pc t c l)"
    by (rule counts_same [OF a(1) c(1), where st = "store l"]) simp_all
  moreover have "entries_ok (goto_pc t c l)"
    using c(3) by (intro entries_move [OF a(2), where c = c]) auto
  moreover have "owners_ok (goto_pc t c l)"
    using c(2) by (intro owners_same [OF a(3), where c = c]) auto
  moreover have "heap_ok n (goto_pc t c l)"
    using assms(2) c(4-6) by (intro heap_move [OF a(4), where c = c]) auto
  ultimately show ?thesis by (simp add: kl_inv_def)
qed

lemma inv_alloc:
  assumes "kl_inv n l" and "locks l key = None"
  shows "kl_inv n (alloc_lock key l)"
proof -
  from assms(1) have a: "counts_ok n l" "entries_ok l" "owners_ok l" "heap_ok n l"
    by (simp_all add: kl_inv_def)
  note h = heap_okD [OF a(4)]
  have no: "\<not> refers (pcs l t) (allocated l)" "\<not> owns (pcs l t) (allocated l)" for t
    using h(3,4) [of t "allocated l"] by auto
  have f: "locks l k \<noteq> Some (allocated l)" for k using h(1) [of k "allocated l"] by auto
  have "referrers n (pcs l) (allocated l) = {}" using no by (simp add: referrers_def)
  then have "counts_ok n (alloc_lock key l)"
    using a(1) by (simp add: counts_ok_def alloc_lock_def new_inner_lock_def)
  moreover have "entries_ok (alloc_lock key l)"
    using assms(2) by (intro entries_move [OF a(2), where t = 0 and c = "pcs l 0"])
      (use a(2) in \<open>auto simp: alloc_lock_def entries_ok_def\<close>)
  moreover have "owners_ok (alloc_lock key l)"
    using a(3) no by (simp add: owners_ok_def alloc_lock_def new_inner_lock_def)
  moreover have "heap_ok n (alloc_lock key l)"
    unfolding heap_ok_def
  proof (intro conjI allI impI)
    fix k p assume "locks (alloc_lock key l) k = Some p"
    then show "p < allocated (alloc_lock key l)"
      using h(1) [of k p] by (auto simp: alloc_lock_def split: if_splits)
  next
    fix j k p assume "locks (alloc_lock key l) j = Some p \<and> locks (alloc_lock key l) k = Some p"
    then show "j = k" using h(2) [of j p k] f by (auto simp: alloc_lock_def split: if_splits)
  next
    fix t p assume "owns (pcs (alloc_lock key l) t) p \<or> refers (pcs (alloc_lock key l) t) p"
    then show "p < allocated (alloc_lock key l)"
      using h(3,4) [of t p] by (auto simp: alloc_lock_def)
  qed (use h(5,6) in \<open>simp_all add: alloc_lock_def\<close>)
  ultimately show ?thesis by (simp add: kl_inv_def)
qed

lemma inv_lock_lookup:
  assumes "kl_inv n l" and "t < n" and "pcs l t = Outside"
  shows "kl_inv n (lock_lookup t key l)"
  using assms by (auto simp: lock_lookup_def split: option.split intro: inv_lookup inv_outside)

lemma inv_lock_create:
  assumes "kl_inv n l" and "t < n" and "pcs l t = Missed key"
  shows "kl_inv n (lock_create t key l)"
proof (cases "locks l key")
  case None
  have "kl_inv n (goto_pc t (Waiting key (allocated l)) (update_lock (allocated l) add (alloc_lock key l)))"
    using assms None by (intro inv_lookup inv_alloc) (auto simp: alloc_lock_def)
  then show ?thesis by (simp add: lock_create_def None)
next
  case (Some p)
  then show ?thesis using assms by (simp add: lock_create_def inv_lookup)
qed

lemma inv_lock_acquire:
  assumes "kl_inv n l" and "t < n" and "pcs l t = Waiting key p" and "lock_acquire t key p l = Some l'"
  shows "kl_inv n l'"
proof -
  from assms(1) have a: "counts_ok n l" "entries_ok l" "owners_ok l" "heap_ok n l"
    by (simp_all add: kl_inv_def)
  from assms(4) have free: "\<not> taken (store l p)"
    and l': "l' = goto_pc t (Critical key p) (update_lock p (\<lambda>il. il\<lparr>taken := True\<rparr>) l)"
    by (simp_all add: lock_acquire_def split: if_splits)
  have none: "\<not> owns (pcs l u) p" for u using a(3) free by (auto simp: owners_ok_def)
  have "counts_ok n l'"
    by (rule counts_same [OF a(1), where c = "Critical key p" and t = t and st = "store l'"]) (auto simp: l' assms(3) fun_eq_iff)
  moreover have "entries_ok l'"
  proof (rule entries_move [OF a(2), where t = t and c = "Critical key p"])
    show "entry_of (Critical key p) = Some (k, q) \<Longrightarrow> locks l' k = Some q" for k q
      using entries_okD [OF a(2), of t] assms(3) by (simp add: l')
  qed (simp_all add: l')
  moreover have "owners_ok l'"
    unfolding owners_ok_def
  proof (intro conjI allI impI)
    fix u v q assume "owns (pcs l' u) q \<and> owns (pcs l' v) q"
    then show "u = v" using a(3) none [of u] none [of v]
      by (auto simp: l' owners_ok_def split: if_splits)
  next
    fix q
    show "taken (store l' q) = (\<exists>u. owns (pcs l' u) q)"
    proof (cases "q = p")
      case True
      then show ?thesis by (auto simp: l' intro: exI [of _ t])
    next
      case False
      then have "owns (pcs l' u) q = owns (pcs l u) q" for u by (simp add: l' assms(3))
      then show ?thesis using False a(3) by (simp add: l' owners_ok_def)
    qed
  qed
  moreover have "heap_ok n l'"
    using heap_okD(4) [OF a(4), of t p] assms(2,3)
    by (intro heap_move [OF a(4), where c = "Critical key p" and t = t]) (auto simp: l')
  ultimately show ?thesis by (simp add: kl_inv_def)
qed

lemma inv_unlock_lookup:
  assumes "kl_inv n l" and "t < n" and "pcs l t = Critical key p"
  shows "kl_inv n (unlock_lookup t key l)" and "locks l key = Some p"
proof -
  from assms(1) have a: "counts_ok n l" "entries_ok l" "owners_ok l" "heap_ok n l"
    by (simp_all add: kl_inv_def)
  show e: "locks l key = Some p" by (rule entries_okD [OF a(2), of t]) (simp add: assms(3))
  let ?l = "goto_pc t (Leaving p) (update_lock p done_lock l)"
  have "counts_ok n ?l"
    by (rule counts_loss [OF a(1) assms(2), where c = "Leaving p" and p = p]) (auto simp: assms(3))
  moreover have "entries_ok ?l"
    by (rule entries_move [OF a(2), where c = "Leaving p"]) auto
  moreover have "owners_ok ?l"
    by (rule owners_same [OF a(3), where c = "Leaving p" and t = t]) (auto simp: assms(3) fun_eq_iff)
  moreover have "heap_ok n ?l"
    using heap_okD(4) [OF a(4), of t p] assms(2,3)
    by (intro heap_move [OF a(4), where c = "Leaving p"]) auto
  ultimately show "kl_inv n (unlock_lookup t key l)" by (simp add: kl_inv_def unlock_lookup_def e)
qed

lemma inv_unlock_release:
  assumes "kl_inv n l" and "t < n" and "pcs l t = Leaving p"
  shows "kl_inv n (unlock_release t p l)"
proof -
  from assms(1) have a: "counts_ok n l" "entries_ok l" "owners_ok l" "heap_ok n l"
    by (simp_all add: kl_inv_def)
  have w: "owns (pcs l t) p" by (simp add: assms(3))
  have t: "taken (store l p)" by (rule owners_okD(2) [OF a(3) w])
  have u: "u = t" if "owns (pcs l u) p" for u by (rule owners_okD(1) [OF a(3) that w])
  let ?l = "goto_pc t Outside (update_lock p (\<lambda>il. il\<lparr>taken := False\<rparr>) l)"
  have o: "owns (pcs ?l u) q = (owns (pcs l u) q \<and> q \<noteq> p)" for u q
    using u [of u] assms(3) by (cases "u = t") auto
  have "counts_ok n ?l"
    by (rule counts_same [OF a(1), where c = Outside and t = t and st = "store ?l"]) (auto simp: assms(3) fun_eq_iff)
  moreover have "entries_ok ?l"
    by (rule entries_move [OF a(2), where c = Outside]) auto
  moreover have "owners_ok ?l"
    unfolding owners_ok_def o
  proof (intro conjI allI impI)
    fix v w q assume "(owns (pcs l v) q \<and> q \<noteq> p) \<and> owns (pcs l w) q \<and> q \<noteq> p"
    then show "v = w" using owners_okD(1) [OF a(3)] by blast
  next
    fix q
    show "taken (store ?l q) = (\<exists>u. owns (pcs l u) q \<and> q \<noteq> p)"
      using a(3) by (cases "q = p") (simp_all add: owners_ok_def)
  qed
  moreover have "heap_ok n ?l"
    using assms(2) by (intro heap_move [OF a(4), where c = Outside]) auto
  ultimately show ?thesis by (simp add: kl_inv_def unlock_release_def t)
qed

lemma inv_clean:
  assumes "kl_inv n l" and "n < 2 ^ 64"
  shows "kl_inv n (clean l)"
proof -
  from assms(1) have a: "counts_ok n l" "entries_ok l" "owners_ok l" "heap_ok n l"
    by (simp_all add: kl_inv_def)
  have sub: "locks l k = Some p" if "locks (clean l) k = Some p" for k p
    using that by (simp add: clean_def split: option.splits if_splits)
  have same: "pcs (clean l) = pcs l" "store (clean l) = store l" "allocated (clean l) = allocated l"
    by (simp_all add: clean_def)
  have "entries_ok (clean l)"
    unfolding entries_ok_def
  proof (intro allI impI)
    fix t k p assume e: "entry_of (pcs (clean l) t) = Some (k, p)"
    then have r: "refers (pcs l t) p" by (auto simp: refers_entry same)
    then have "t < n" using heap_okD(6) [OF a(4), of t] by force
    with r have "count (store l p) \<noteq> 0" using zero_count_unreferred [OF a(1) assms(2)] by blast
    then show "locks (clean l) k = Some p"
      using a(2) e by (simp add: entries_ok_def clean_def)
  qed
  moreover have "heap_ok n (clean l)"
    using heap_okD [OF a(4)] sub unfolding heap_ok_def same by blast
  ultimately show ?thesis using a by (simp add: kl_inv_def counts_ok_def owners_ok_def same)
qed

lemma klstep_inv: "klstep n l l' \<Longrightarrow> n < 2 ^ 64 \<Longrightarrow> kl_inv n l \<Longrightarrow> kl_inv n l'"
  by (induction rule: klstep.induct)
    (auto intro: inv_lock_lookup inv_lock_create inv_lock_acquire inv_unlock_lookup inv_unlock_release inv_clean)

lemma reachable_inv: "reachable n l \<Longrightarrow> n < 2 ^ 64 \<Longrightarrow> kl_inv n l"
  by (induction rule: reachable.induct) (auto intro: inv_init klstep_inv)

section \<open>What the package promises\<close>

text \<open>\<open>Clean\<close> keeps exactly the locks that a goroutine holds or waits for.\<close>

lemma clean_exact:
  assumes "reachable n l" and "n < 2 ^ 64"
  shows "locks (clean l) k = Some p \<longleftrightarrow> locks l k = Some p \<and> referrers n (pcs l) p \<noteq> {}"
proof -
  have c: "counts_ok n l" using reachable_inv [OF assms] by (simp add: kl_inv_def)
  have "count (store l p) = 0 \<longleftrightarrow> referrers n (pcs l) p = {}"
  proof
    assume "count (store l p) = 0"
    then show "referrers n (pcs l) p = {}"
      using zero_count_unreferred [OF c assms(2)] by (auto simp: referrers_def)
  next
    assume "referrers n (pcs l) p = {}"
    then show "count (store l p) = 0" using c by (simp add: counts_ok_def)
  qed
  then show ?thesis by (auto simp: clean_def split: option.splits)
qed

text \<open>C22: mutual exclusion.  However goroutines call \<open>Lock\<close> and \<open>Unlock\<close> and whenever \<open>Clean\<close>
  runs, two goroutines that are both between \<open>Lock\<close> and \<open>Unlock\<close> of the same key are the same;
  the entry of a held key is still in the table, and no \<open>Unlock\<close> hits a mutex that is not locked.\<close>

theorem key_exclusion:
  assumes "reachable n l" and "n < 2 ^ 64" and "pcs l t = Critical k p" and "pcs l u = Critical k q"
  shows "t = u \<and> locks (clean l) k = Some p \<and> pcs l v \<noteq> Fatal"
proof -
  have i: "entries_ok l" "owners_ok l" "heap_ok n l"
    using reachable_inv [OF assms(1,2)] by (simp_all add: kl_inv_def)
  have p: "locks l k = Some p" by (rule entries_okD [OF i(1), of t]) (simp add: assms(3))
  have "locks l k = Some q" by (rule entries_okD [OF i(1), of u]) (simp add: assms(4))
  with p have "owns (pcs l t) p" "owns (pcs l u) p" by (simp_all add: assms(3,4))
  then have "t = u" by (rule owners_okD(1) [OF i(2)])
  moreover have "t < n" using heap_okD(6) [OF i(3), of t] assms(3) by force
  then have "referrers n (pcs l) p \<noteq> {}" using assms(3) by (force simp: referrers_def)
  then have "locks (clean l) k = Some p" by (simp add: clean_exact [OF assms(1,2)] p)
  ultimately show ?thesis using heap_okD(5) [OF i(3)] by simp
qed

definition two_goroutines :: key_lock where
  "two_goroutines =
     lock_lookup 1 ''k'' (the (lock_acquire 0 ''k'' 0 (lock_create 0 ''k'' (lock_lookup 0 ''k'' new_key_lock))))"

lemmas run_defs = two_goroutines_def lock_lookup_def lock_create_def lock_acquire_def alloc_lock_def
  new_key_lock_def new_inner_lock_def

lemma two_goroutines_pcs:
  "pcs two_goroutines 0 = Critical ''k'' 0" "pcs two_goroutines 1 = Waiting ''k'' 0"
  by (simp_all add: run_defs)

lemma two_goroutines_reachable: "reachable 2 two_goroutines"
proof -
  have "reachable 2 (lock_lookup 0 ''k'' new_key_lock)"
    by (rule reachable.move [OF reachable.start], rule klstep.call_lock) (simp_all add: new_key_lock_def)
  then have "reachable 2 (lock_create 0 ''k'' (lock_lookup 0 ''k'' new_key_lock))"
    by (rule reachable.move, intro klstep.slow_path) (simp_all add: run_defs)
  then have "reachable 2 (the (lock_acquire 0 ''k'' 0 (lock_create 0 ''k'' (lock_lookup 0 ''k'' new_key_lock))))"
    by (rule reachable.move, intro klstep.acquire [where t = 0 and key = "''k''" and p = 0]) (simp_all add: run_defs)
  then show ?thesis unfolding two_goroutines_def
    by (rule reachable.move, intro klstep.call_lock) (simp_all add: run_defs)
qed

lemma key_exclusion_witness:
  "(0::nat) = 0 \<and> locks (clean two_goroutines) ''k'' = Some 0 \<and> pcs two_goroutines 1 \<noteq> Fatal"
  using key_exclusion [OF two_goroutines_reachable, of 0 "''k''" 0 0 0 1] two_goroutines_pcs by simp

lemma owner_leaves:
  assumes "reachable n l" and "n < 2 ^ 64" and "owns (pcs l u) p"
  obtains (left) l' where "(klstep n)\<^sup>*\<^sup>* l l'" and "\<not> taken (store l' p)" and "\<And>v. v \<noteq> u \<Longrightarrow> pcs l' v = pcs l v"
proof -
  have i: "kl_inv n l" by (rule reachable_inv [OF assms(1,2)])
  then have h: "heap_ok n l" and o: "owners_ok l" by (simp_all add: kl_inv_def)
  have u: "u < n" using heap_okD(6) [OF h, of u] assms(3) by force
  have t: "taken (store l p)" by (rule owners_okD(2) [OF o assms(3)])
  have leave: thesis if r: "(klstep n)\<^sup>*\<^sup>* l m" and pc: "pcs m u = Leaving p" and tk: "taken (store m p)"
      and same: "\<And>v. v \<noteq> u \<Longrightarrow> pcs m v = pcs l v" for m
  proof (rule left)
    show "(klstep n)\<^sup>*\<^sup>* l (unlock_release u p m)"
      using r klstep.release [OF u pc] by (rule rtranclp.rtrancl_into_rtrancl)
    show "\<not> taken (store (unlock_release u p m) p)" using tk by (simp add: unlock_release_def)
    show "v \<noteq> u \<Longrightarrow> pcs (unlock_release u p m) v = pcs l v" for v
      using tk same by (simp add: unlock_release_def)
  qed
  show thesis
  proof (cases "pcs l u")
    case (Critical key q)
    then have q: "q = p" using assms(3) by simp
    have e: "locks l key = Some p" using inv_unlock_lookup(2) [OF i u Critical] q by simp
    show thesis
    proof (rule leave)
      show "(klstep n)\<^sup>*\<^sup>* l (unlock_lookup u key l)"
        using klstep.call_unlock [OF u Critical] by (rule r_into_rtranclp)
    qed (simp_all add: unlock_lookup_def e t)
  next
    case (Leaving q)
    then show thesis using assms(3) t by (intro leave [of l]) simp_all
  qed (use assms(3) in simp_all)
qed

text \<open>C23: no goroutine waits for good.  Whenever one waits for a key's mutex, the mutex is free or
  the steps its owner has left (its \<open>Unlock\<close>) free it while the waiting one is still there, and then it
  enters.\<close>

theorem key_progress:
  assumes "reachable n l" and "n < 2 ^ 64" and "pcs l t = Waiting k p"
  shows "\<exists>l' l''. (klstep n)\<^sup>*\<^sup>* l l' \<and> lock_acquire t k p l' = Some l'' \<and> klstep n l' l'' \<and>
           pcs l'' t = Critical k p"
proof -
  have o: "owners_ok l" and h: "heap_ok n l"
    using reachable_inv [OF assms(1,2)] by (simp_all add: kl_inv_def)
  have t: "t < n" using heap_okD(6) [OF h, of t] assms(3) by force
  obtain l' where r: "(klstep n)\<^sup>*\<^sup>* l l'" and f: "\<not> taken (store l' p)" and w: "pcs l' t = Waiting k p"
  proof (cases "taken (store l p)")
    case False
    then show ?thesis using that [of l] assms(3) by simp
  next
    case True
    then obtain u where u: "owns (pcs l u) p" using owners_okD(3) [OF o] by blast
    then have "u \<noteq> t" using assms(3) by auto
    then show ?thesis using owner_leaves [OF assms(1,2) u] that assms(3) by metis
  qed
  from f obtain l'' where a: "lock_acquire t k p l' = Some l''" and c: "pcs l'' t = Critical k p"
    by (simp add: lock_acquire_def)
  show ?thesis using r a c klstep.acquire [OF t w a] by blast
qed

lemma key_progress_witness:
  "\<exists>l' l''. (klstep 2)\<^sup>*\<^sup>* two_goroutines l' \<and> lock_acquire 1 ''k'' 0 l' = Some l'' \<and> klstep 2 l' l'' \<and>
     pcs l'' 1 = Critical ''k'' 0"
  using key_progress [OF two_goroutines_reachable _ two_goroutines_pcs(2)] by simp

end
