(* ===== verification/Mention.thy ===== *)
theory Mention
  imports Complex_Main Go_Strings "HOL-Library.AList"
begin

text \<open>
  \<open>pkg/mentionrewrite\<close>: the normalisation of a message's \<open>mention\<close> at the three places where messages
  enter.  \<open>CloneForExpansion\<close> exists because Go's maps and slices are shared by reference and
  \<open>ExpandAisToBotUIDs\<close> writes through them, so the model has an explicit heap: maps and backing
  arrays live at addresses, a slice is an array with offset, length and capacity, and \<open>append\<close>
  writes into the backing array while the capacity lasts.
\<close>

section \<open>Values and the heap\<close>

text \<open>
  The dynamic types that the code tells apart.  The integer kinds (\<open>int\<close> to \<open>uint64\<close>) are their value, the
  two float kinds the rational they denote; every other type is \<open>GoOther\<close>.
\<close>

record slice =
  arr :: nat
  off :: nat
  len :: nat
  capa :: nat

datatype gov =
    GoNil
  | GoBool bool
  | GoInt int
  | GoFloat rat
  | GoNumber string
  | GoStr string
  | GoMap nat
  | GoSlice slice
  | GoOther nat

record heap =
  maps :: "nat \<Rightarrow> (string \<times> gov) list"
  arrays :: "nat \<Rightarrow> gov list"
  next_map :: nat
  next_array :: nat

definition elems :: "heap \<Rightarrow> slice \<Rightarrow> gov list" where
  "elems h s = take (len s) (drop (off s) (arrays h (arr s)))"

text \<open>\<open>m[k] = v\<close>, \<open>make\<close> and copy of a map, \<open>make\<close> and copy of a slice.\<close>

definition map_put :: "nat \<Rightarrow> string \<Rightarrow> gov \<Rightarrow> heap \<Rightarrow> heap" where
  "map_put p k v h = h\<lparr>maps := (maps h)(p := AList.update k v (maps h p))\<rparr>"

definition map_clone :: "nat \<Rightarrow> heap \<Rightarrow> nat \<times> heap" where
  "map_clone p h =
     (next_map h, h\<lparr>maps := (maps h)(next_map h := maps h p), next_map := Suc (next_map h)\<rparr>)"

definition new_array :: "gov list \<Rightarrow> heap \<Rightarrow> nat \<times> heap" where
  "new_array xs h =
     (next_array h, h\<lparr>arrays := (arrays h)(next_array h := xs), next_array := Suc (next_array h)\<rparr>)"

definition slice_clone :: "slice \<Rightarrow> heap \<Rightarrow> slice \<times> heap" where
  "slice_clone s h =
     (let (a, h) = new_array (elems h s) h
      in (\<lparr>arr = a, off = 0, len = len s, capa = len s\<rparr>, h))"

text \<open>
  \<open>append(s, v)\<close>; \<open>None\<close> is the nil slice.  The runtime chooses the capacity of a grown slice:
  \<open>grow n\<close> is the room it adds to a slice of length \<open>n\<close>, filled with nil.
\<close>

definition append1 :: "(nat \<Rightarrow> nat) \<Rightarrow> slice option \<Rightarrow> gov \<Rightarrow> heap \<Rightarrow> slice \<times> heap" where
  "append1 grow so v h =
     (case so of
        None \<Rightarrow>
          (let (a, h) = new_array (v # replicate (grow 0) GoNil) h
           in (\<lparr>arr = a, off = 0, len = 1, capa = Suc (grow 0)\<rparr>, h))
      | Some s \<Rightarrow>
          if len s < capa s
          then (s\<lparr>len := Suc (len s)\<rparr>,
                h\<lparr>arrays := (arrays h)(arr s := (arrays h (arr s))[off s + len s := v])\<rparr>)
          else
            (let (a, h) = new_array (elems h s @ v # replicate (grow (len s)) GoNil) h
             in (\<lparr>arr = a, off = 0, len = Suc (len s), capa = Suc (len s + grow (len s))\<rparr>, h)))"

section \<open>Operations\<close>

text \<open>\<open>RewriteMention\<close>, a pass-through since the inference of \<open>ais\<close> from \<open>all\<close> was removed; a nil map is
  \<open>None\<close>.\<close>

definition rewrite_mention :: "heap \<Rightarrow> nat option \<Rightarrow> nat option" where
  "rewrite_mention h payload =
     (case payload of
        None \<Rightarrow> None
      | Some p \<Rightarrow>
          (case map_of (maps h p) ''mention'' of
             None \<Rightarrow> Some p
           | Some GoNil \<Rightarrow> Some p
           | Some (GoMap m) \<Rightarrow> Some p
           | Some _ \<Rightarrow> Some p))"

fun is_truthy_one :: "gov \<Rightarrow> bool" where
  "is_truthy_one GoNil = False"
| "is_truthy_one (GoNumber s) = (parse_int64 s = Some 1)"
| "is_truthy_one (GoFloat r) = (r = 1)"
| "is_truthy_one (GoInt i) = (i = 1)"
| "is_truthy_one (GoBool b) = b"
| "is_truthy_one _ = False"

definition clone_for_expansion :: "nat option \<Rightarrow> heap \<Rightarrow> nat option \<times> heap" where
  "clone_for_expansion payload h =
     (case payload of
        None \<Rightarrow> (None, h)
      | Some p \<Rightarrow>
          (let (q, h) = map_clone p h in
           case map_of (maps h q) ''mention'' of
             Some (GoMap m) \<Rightarrow>
               (let (c, h) = map_clone m h;
                    h = (case map_of (maps h c) ''uids'' of
                           Some (GoSlice s) \<Rightarrow>
                             (let (s', h) = slice_clone s h in map_put c ''uids'' (GoSlice s') h)
                         | _ \<Rightarrow> h)
                in (Some q, map_put q ''mention'' (GoMap c) h))
           | _ \<Rightarrow> (Some q, h)))"

text \<open>The loop over the bots: \<open>seen\<close>, the slice so far, whether anything was appended.\<close>

fun add_bots :: "(nat \<Rightarrow> nat) \<Rightarrow> string list \<Rightarrow> string set \<Rightarrow> slice option \<Rightarrow> heap
    \<Rightarrow> (slice option \<times> bool) \<times> heap" where
  "add_bots grow [] seen so h = ((so, False), h)"
| "add_bots grow (u # us) seen so h =
     (if u = [] then add_bots grow us seen so h
      else if u \<in> seen then add_bots grow us seen so h
      else
        (let (s, h) = append1 grow so (GoStr u) h;
             ((so, _), h) = add_bots grow us (insert u seen) (Some s) h
         in ((so, True), h)))"

definition strings_of :: "gov list \<Rightarrow> string set" where
  "strings_of xs = {s. GoStr s \<in> set xs \<and> s \<noteq> []}"

lemma strings_of_simps [code, simp]:
  "strings_of [] = {}"
  "strings_of (x # xs) = (case x of GoStr s \<Rightarrow> if s = [] then strings_of xs else insert s (strings_of xs)
                          | _ \<Rightarrow> strings_of xs)"
  by (auto simp: strings_of_def split: gov.splits)

text \<open>
  \<open>ExpandAisToBotUIDs(payload, channelType, channelID, fetchBotUIDs)\<close>; a nil callback is \<open>None\<close>, an
  error of the callback is \<open>None\<close>, and \<open>common.ChannelTypeGroup\<close> is 2.  The payload map itself is returned.
\<close>

definition expand_ais_to_bot_uids ::
    "(nat \<Rightarrow> nat) \<Rightarrow> nat option \<Rightarrow> nat \<Rightarrow> string \<Rightarrow> (string \<Rightarrow> string list option) option \<Rightarrow> heap
     \<Rightarrow> nat option \<times> heap" where
  "expand_ais_to_bot_uids grow payload channel_type channel_id fetch h =
     (payload,
      case payload of
        None \<Rightarrow> h
      | Some p \<Rightarrow>
          if channel_type \<noteq> 2 then h
          else if channel_id = [] then h
          else
            (case map_of (maps h p) ''mention'' of
               Some (GoMap m) \<Rightarrow>
                 if \<not> (case map_of (maps h m) ''ais'' of None \<Rightarrow> False | Some v \<Rightarrow> is_truthy_one v) then h
                 else
                   (case (case map_of (maps h m) ''uids'' of
                            None \<Rightarrow> Some None
                          | Some GoNil \<Rightarrow> Some None
                          | Some (GoSlice s) \<Rightarrow> Some (Some s)
                          | Some _ \<Rightarrow> None) of
                      None \<Rightarrow> h
                    | Some existing \<Rightarrow>
                        (case fetch of
                           None \<Rightarrow> h
                         | Some f \<Rightarrow>
                             (case f channel_id of
                                None \<Rightarrow> h
                              | Some [] \<Rightarrow> h
                              | Some bots \<Rightarrow>
                                  (let seen = (case existing of None \<Rightarrow> {} | Some s \<Rightarrow> strings_of (elems h s));
                                       ((so, appended), h') = add_bots grow bots seen existing h
                                   in if \<not> appended then h'
                                      else (case so of
                                              Some s \<Rightarrow> map_put m ''uids'' (GoSlice s) h'
                                            | None \<Rightarrow> h')))))
             | _ \<Rightarrow> h))"

section \<open>Views of a payload\<close>

definition mention_key :: "heap \<Rightarrow> nat \<Rightarrow> string \<Rightarrow> gov option" where
  "mention_key h p k =
     (case map_of (maps h p) ''mention'' of Some (GoMap m) \<Rightarrow> map_of (maps h m) k | _ \<Rightarrow> None)"

definition uids_view :: "heap \<Rightarrow> nat \<Rightarrow> gov list" where
  "uids_view h p = (case mention_key h p ''uids'' of Some (GoSlice s) \<Rightarrow> elems h s | _ \<Rightarrow> [])"

text \<open>The broadcast gate and the bots that a broadcast adds: those not yet mentioned, once each, in the
  order of the lookup.\<close>

definition broadcast :: "heap \<Rightarrow> nat \<Rightarrow> nat \<Rightarrow> string \<Rightarrow> bool" where
  "broadcast h p channel_type channel_id \<longleftrightarrow>
     channel_type = 2 \<and> channel_id \<noteq> [] \<and>
     (case mention_key h p ''ais'' of None \<Rightarrow> False | Some v \<Rightarrow> is_truthy_one v) \<and>
     (case mention_key h p ''uids'' of
        None \<Rightarrow> True | Some GoNil \<Rightarrow> True | Some (GoSlice s) \<Rightarrow> True | Some _ \<Rightarrow> False)"

fun fresh_bots :: "string list \<Rightarrow> string set \<Rightarrow> string list" where
  "fresh_bots [] seen = []"
| "fresh_bots (u # us) seen =
     (if u = [] \<or> u \<in> seen then fresh_bots us seen else u # fresh_bots us (insert u seen))"

definition bots_to_add :: "heap \<Rightarrow> nat \<Rightarrow> nat \<Rightarrow> string \<Rightarrow> (string \<Rightarrow> string list option) option
    \<Rightarrow> string list" where
  "bots_to_add h p channel_type channel_id fetch =
     (if broadcast h p channel_type channel_id
      then (case fetch of
              None \<Rightarrow> []
            | Some f \<Rightarrow>
                (case f channel_id of
                   None \<Rightarrow> []
                 | Some bots \<Rightarrow> fresh_bots bots (strings_of (uids_view h p))))
      else [])"

lemma fresh_bots_set: "set (fresh_bots us seen) = {u \<in> set us. u \<noteq> [] \<and> u \<notin> seen}"
  by (induction us seen rule: fresh_bots.induct) auto

lemma fresh_bots_distinct: "distinct (fresh_bots us seen)"
  by (induction us seen rule: fresh_bots.induct) (auto simp: fresh_bots_set)

lemma strings_of_append: "strings_of (xs @ ys) = strings_of xs \<union> strings_of ys"
  by (auto simp: strings_of_def)

lemma fresh_bots_again: "fresh_bots us (strings_of (xs @ map GoStr (fresh_bots us (strings_of xs)))) = []"
proof -
  have "set (fresh_bots us (strings_of (xs @ map GoStr (fresh_bots us (strings_of xs))))) = {}"
    by (auto simp: fresh_bots_set strings_of_def image_iff)
  then show ?thesis by simp
qed

section \<open>Slices\<close>

definition wf_slice :: "heap \<Rightarrow> slice \<Rightarrow> bool" where
  "wf_slice h s \<longleftrightarrow>
     arr s < next_array h \<and> len s \<le> capa s \<and> off s + capa s \<le> length (arrays h (arr s))"

definition wf_slice_opt :: "heap \<Rightarrow> slice option \<Rightarrow> bool" where
  "wf_slice_opt h so = (case so of None \<Rightarrow> True | Some s \<Rightarrow> wf_slice h s)"

definition elems_opt :: "heap \<Rightarrow> slice option \<Rightarrow> gov list" where
  "elems_opt h so = (case so of None \<Rightarrow> [] | Some s \<Rightarrow> elems h s)"

text \<open>Appending to the slice does not write into an array below \<open>a\<close>: it is full, or its array is newer.\<close>

definition detached :: "nat \<Rightarrow> slice option \<Rightarrow> bool" where
  "detached a so = (case so of None \<Rightarrow> True | Some s \<Rightarrow> len s = capa s \<or> a \<le> arr s)"

lemma length_elems: "wf_slice h s \<Longrightarrow> length (elems h s) = len s"
  by (auto simp: wf_slice_def elems_def)

lemma take_drop_update:
  "o' + n < length xs \<Longrightarrow> take (Suc n) (drop o' (xs[o' + n := v])) = take n (drop o' xs) @ [v]"
  by (simp add: take_Suc_conv_app_nth drop_update_swap)

lemma append1_spec:
  assumes "append1 grow so v h = (s, h')" and "wf_slice_opt h so"
  shows "elems h' s = elems_opt h so @ [v]" and "wf_slice h' s"
    and "maps h' = maps h" and "next_map h' = next_map h" and "next_array h \<le> next_array h'"
    and "detached a so \<Longrightarrow> a \<le> next_array h \<Longrightarrow> a \<le> arr s \<and> (\<forall>b<a. arrays h' b = arrays h b)"
proof -
  have "elems h' s = elems_opt h so @ [v] \<and> wf_slice h' s \<and> maps h' = maps h \<and> next_map h' = next_map h \<and>
      next_array h \<le> next_array h' \<and>
      (detached a so \<longrightarrow> a \<le> next_array h \<longrightarrow> a \<le> arr s \<and> (\<forall>b<a. arrays h' b = arrays h b))"
  proof (cases so)
    case None
    then show ?thesis using assms
      by (auto simp: append1_def new_array_def elems_def elems_opt_def wf_slice_def)
  next
    case (Some t)
    then have w: "wf_slice h t" using assms(2) by (simp add: wf_slice_opt_def)
    show ?thesis
    proof (cases "len t < capa t")
      case True
      then show ?thesis using assms(1) w Some
        by (auto simp: append1_def elems_def elems_opt_def wf_slice_def take_drop_update detached_def)
    next
      case False
      then show ?thesis using assms(1) w Some length_elems [OF w]
        by (auto simp: append1_def new_array_def elems_def elems_opt_def wf_slice_def)
    qed
  qed
  then show "elems h' s = elems_opt h so @ [v]" and "wf_slice h' s"
    and "maps h' = maps h" and "next_map h' = next_map h" and "next_array h \<le> next_array h'"
    and "detached a so \<Longrightarrow> a \<le> next_array h \<Longrightarrow> a \<le> arr s \<and> (\<forall>b<a. arrays h' b = arrays h b)"
    by simp_all
qed

lemma add_bots_spec:
  assumes "add_bots grow us seen so h = ((so', done'), h')" and "wf_slice_opt h so"
  shows "elems_opt h' so' = elems_opt h so @ map GoStr (fresh_bots us seen) \<and> wf_slice_opt h' so' \<and>
    maps h' = maps h \<and> next_map h' = next_map h \<and> next_array h \<le> next_array h' \<and>
    (done' \<longleftrightarrow> fresh_bots us seen \<noteq> []) \<and> (done' \<longrightarrow> so' \<noteq> None) \<and> (\<not> done' \<longrightarrow> so' = so \<and> h' = h) \<and>
    (\<forall>a. detached a so \<and> a \<le> next_array h \<longrightarrow> (\<forall>b<a. arrays h' b = arrays h b))"
  using assms
proof (induction us arbitrary: seen so h so' done' h')
  case Nil
  then show ?case by simp
next
  case (Cons u us)
  show ?case
  proof (cases "u = [] \<or> u \<in> seen")
    case True
    then have f: "fresh_bots (u # us) seen = fresh_bots us seen" by simp
    from True Cons.prems(1) have "add_bots grow us seen so h = ((so', done'), h')"
      by (simp only: add_bots.simps) (metis (full_types))
    from Cons.IH [OF this Cons.prems(2)] show ?thesis unfolding f .
  next
    case False
    obtain s h1 where a: "append1 grow so (GoStr u) h = (s, h1)" by (cases "append1 grow so (GoStr u) h")
    obtain so2 d2 h2 where b: "add_bots grow us (insert u seen) (Some s) h1 = ((so2, d2), h2)"
      by (metis prod.collapse)
    note ap = append1_spec [OF a Cons.prems(2)]
    have e: "so' = so2" "done'" "h' = h2" using Cons.prems(1) False a b by auto
    have w: "wf_slice_opt h1 (Some s)" using ap(2) by (simp add: wf_slice_opt_def)
    note ih = Cons.IH [OF b w]
    have s2: "so2 \<noteq> None" using ih by auto
    have fr: "arrays h2 b = arrays h b" if "detached a so" "a \<le> next_array h" "b < a" for a b
    proof -
      from ap(6) [OF that(1,2)] have "a \<le> arr s" "arrays h1 b = arrays h b" using that(3) by auto
      moreover then have "detached a (Some s)" by (simp add: detached_def)
      moreover have "a \<le> next_array h1" using that(2) ap(5) by simp
      ultimately show ?thesis using ih that(3) by metis
    qed
    have "elems_opt h2 so2 = elems_opt h so @ map GoStr (fresh_bots (u # us) seen)"
      using ih ap(1) False by (simp add: elems_opt_def)
    moreover have "\<forall>a. detached a so \<and> a \<le> next_array h \<longrightarrow> (\<forall>b<a. arrays h2 b = arrays h b)"
      using fr by blast
    ultimately show ?thesis using ih ap(3-5) False s2 e(2) unfolding e(1,3) by simp
  qed
qed

section \<open>The expansion\<close>

definition uids_slice :: "heap \<Rightarrow> nat \<Rightarrow> slice option" where
  "uids_slice h p = (case mention_key h p ''uids'' of Some (GoSlice s) \<Rightarrow> Some s | _ \<Rightarrow> None)"

lemma uids_view_slice: "uids_view h p = elems_opt h (uids_slice h p)"
  by (simp add: uids_view_def uids_slice_def elems_opt_def split: option.split gov.split)

lemma elems_strings: "strings_of (elems_opt h so) = (case so of None \<Rightarrow> {} | Some s \<Rightarrow> strings_of (elems h s))"
  by (simp add: elems_opt_def split: option.split)

lemma expand_closed:
  assumes "\<not> broadcast h p ct ch"
  shows "expand_ais_to_bot_uids grow (Some p) ct ch fetch h = (Some p, h)"
  using assms unfolding broadcast_def expand_ais_to_bot_uids_def mention_key_def
  by (auto split: option.splits gov.splits)

lemma expand_open:
  assumes "broadcast h p ct ch"
  obtains m where "map_of (maps h p) ''mention'' = Some (GoMap m)"
    and "\<And>grow fetch. expand_ais_to_bot_uids grow (Some p) ct ch fetch h =
      (Some p,
       case fetch of
         None \<Rightarrow> h
       | Some f \<Rightarrow>
           (case f ch of
              None \<Rightarrow> h
            | Some bots \<Rightarrow>
                (let ((so, appended), h') = add_bots grow bots (strings_of (uids_view h p)) (uids_slice h p) h
                 in if \<not> appended then h'
                    else (case so of Some s \<Rightarrow> map_put m ''uids'' (GoSlice s) h' | None \<Rightarrow> h'))))"
proof -
  from assms obtain m where m: "map_of (maps h p) ''mention'' = Some (GoMap m)"
    unfolding broadcast_def mention_key_def by (auto split: option.splits gov.splits)
  have k: "mention_key h p k = map_of (maps h m) k" for k by (simp add: mention_key_def m)
  have ais: "(case map_of (maps h m) ''ais'' of None \<Rightarrow> False | Some v \<Rightarrow> is_truthy_one v)"
    and ct: "ct = 2" "ch \<noteq> []"
    using assms by (simp_all add: broadcast_def k)
  have ex: "(case map_of (maps h m) ''uids'' of None \<Rightarrow> Some None | Some GoNil \<Rightarrow> Some None
              | Some (GoSlice s) \<Rightarrow> Some (Some s) | Some _ \<Rightarrow> None) = Some (uids_slice h p)"
    using assms unfolding broadcast_def k uids_slice_def by (auto split: option.splits gov.splits)
  show ?thesis
  proof (rule that [OF m])
    fix grow fetch
    show "expand_ais_to_bot_uids grow (Some p) ct ch fetch h =
      (Some p,
       case fetch of
         None \<Rightarrow> h
       | Some f \<Rightarrow>
           (case f ch of
              None \<Rightarrow> h
            | Some bots \<Rightarrow>
                (let ((so, appended), h') = add_bots grow bots (strings_of (uids_view h p)) (uids_slice h p) h
                 in if \<not> appended then h'
                    else (case so of Some s \<Rightarrow> map_put m ''uids'' (GoSlice s) h' | None \<Rightarrow> h'))))"
      unfolding expand_ais_to_bot_uids_def using ais ct
      by (simp add: m ex uids_view_slice elems_strings split: option.split list.split)
  qed
qed

lemma expand_cases:
  assumes "expand_ais_to_bot_uids grow (Some p) ct ch fetch h = (w, h')"
    and "wf_slice_opt h (uids_slice h p)"
  obtains (same) "bots_to_add h p ct ch fetch = []" "h' = h" "w = Some p"
    | (added) m bots s h1 where "map_of (maps h p) ''mention'' = Some (GoMap m)" "w = Some p"
        "bots_to_add h p ct ch fetch = fresh_bots bots (strings_of (uids_view h p))"
        "add_bots grow bots (strings_of (uids_view h p)) (uids_slice h p) h = ((Some s, True), h1)"
        "h' = map_put m ''uids'' (GoSlice s) h1" "broadcast h p ct ch"
proof (cases "broadcast h p ct ch")
  case False
  show ?thesis
  proof (rule same)
    show "h' = h" "w = Some p" using assms(1) unfolding expand_closed [OF False] by simp_all
    show "bots_to_add h p ct ch fetch = []" using False by (simp add: bots_to_add_def)
  qed
next
  case True
  obtain m where m: "map_of (maps h p) ''mention'' = Some (GoMap m)"
    and e0: "expand_ais_to_bot_uids grow (Some p) ct ch fetch h =
      (Some p, case fetch of None \<Rightarrow> h | Some f \<Rightarrow> (case f ch of None \<Rightarrow> h | Some bots \<Rightarrow>
              (let ((so, appended), h') = add_bots grow bots (strings_of (uids_view h p)) (uids_slice h p) h
               in if \<not> appended then h'
                  else (case so of Some s \<Rightarrow> map_put m ''uids'' (GoSlice s) h' | None \<Rightarrow> h'))))"
    by (rule expand_open [OF True]) blast
  have e: "(w, h') = (Some p, case fetch of None \<Rightarrow> h | Some f \<Rightarrow> (case f ch of None \<Rightarrow> h | Some bots \<Rightarrow>
              (let ((so, appended), h') = add_bots grow bots (strings_of (uids_view h p)) (uids_slice h p) h
               in if \<not> appended then h'
                  else (case so of Some s \<Rightarrow> map_put m ''uids'' (GoSlice s) h' | None \<Rightarrow> h'))))"
    by (rule trans [OF assms(1) [symmetric] e0])
  then have w: "w = Some p" by simp
  show ?thesis
  proof (cases "\<exists>f bots. fetch = Some f \<and> f ch = Some bots")
    case False
    then have "h' = h" "bots_to_add h p ct ch fetch = []"
      using e by (auto simp: bots_to_add_def split: option.splits)
    then show ?thesis using w by (intro same)
  next
    case ok: True
    then obtain f bots where f: "fetch = Some f" "f ch = Some bots" by blast
    then have add: "bots_to_add h p ct ch fetch = fresh_bots bots (strings_of (uids_view h p))"
      using True by (simp add: bots_to_add_def)
    obtain so d h1 where ab: "add_bots grow bots (strings_of (uids_view h p)) (uids_slice h p) h = ((so, d), h1)"
      by (metis prod.collapse)
    have h': "h' = (if \<not> d then h1 else case so of Some s \<Rightarrow> map_put m ''uids'' (GoSlice s) h1 | None \<Rightarrow> h1)"
      using e f ab by simp
    note sp = add_bots_spec [OF ab assms(2)]
    show ?thesis
    proof (cases d)
      case False
      then show ?thesis using h' sp w add by (intro same) simp_all
    next
      case d: True
      then obtain s where "so = Some s" using sp by auto
      then show ?thesis using h' ab d True m w add by (intro added [of m bots s h1]) simp_all
    qed
  qed
qed

text \<open>What the expansion does to the heap: it writes one key of the mention map and one array.\<close>

lemma expand_spec:
  assumes "expand_ais_to_bot_uids grow (Some p) ct ch fetch h = (w, h')"
    and "wf_slice_opt h (uids_slice h p)"
  shows "w = Some p" and "bots_to_add h p ct ch fetch = [] \<Longrightarrow> h' = h"
    and "uids_view h' p = uids_view h p @ map GoStr (bots_to_add h p ct ch fetch)"
    and "k \<noteq> ''uids'' \<Longrightarrow> mention_key h' p k = mention_key h p k"
    and "map_of (maps h p) ''mention'' \<noteq> Some (GoMap q) \<Longrightarrow> maps h' q = maps h q"
    and "k \<noteq> ''uids'' \<Longrightarrow> map_of (maps h' q) k = map_of (maps h q) k"
    and "detached a (uids_slice h p) \<Longrightarrow> a \<le> next_array h \<Longrightarrow> b < a \<Longrightarrow> arrays h' b = arrays h b"
    and "broadcast h p ct ch \<Longrightarrow> broadcast h' p ct ch"
    and "next_map h' = next_map h" and "next_array h \<le> next_array h'"
    and "wf_slice_opt h' (uids_slice h' p)"
proof -
  let ?so = "uids_slice h p" and ?add = "bots_to_add h p ct ch fetch"
  from assms  have "w = Some p \<and> (?add = [] \<longrightarrow> h' = h) \<and> uids_view h' p = uids_view h p @ map GoStr ?add \<and>
      (k \<noteq> ''uids'' \<longrightarrow> mention_key h' p k = mention_key h p k) \<and>
      (map_of (maps h p) ''mention'' \<noteq> Some (GoMap q) \<longrightarrow> maps h' q = maps h q) \<and>
      (k \<noteq> ''uids'' \<longrightarrow> map_of (maps h' q) k = map_of (maps h q) k) \<and>
      (detached a ?so \<longrightarrow> a \<le> next_array h \<longrightarrow> b < a \<longrightarrow> arrays h' b = arrays h b) \<and>
      (broadcast h p ct ch \<longrightarrow> broadcast h' p ct ch) \<and> next_map h' = next_map h \<and> next_array h \<le> next_array h' \<and>
      wf_slice_opt h' (uids_slice h' p)"
  proof (cases rule: expand_cases)
    case same
    then show ?thesis using assms(2) by simp
  next
    case (added m bots s h1)
    note sp = add_bots_spec [OF added(4) assms(2)]
    have mp: "map_of (maps h' x) y = (if x = m \<and> y = ''uids'' then Some (GoSlice s) else map_of (maps h x) y)" for x y
      using sp by (simp add: added(5) map_put_def update_conv')
    have me: "map_of (maps h' p) ''mention'' = Some (GoMap m)" using added(1) by (simp add: mp)
    have mk: "mention_key h' p y = (if y = ''uids'' then Some (GoSlice s) else mention_key h p y)" for y
      using added(1) me by (simp add: mention_key_def mp)
    have el: "elems h' s = elems h1 s" by (simp add: added(5) map_put_def elems_def)
    have uv: "uids_view h' p = uids_view h p @ map GoStr ?add"
      using sp by (simp add: uids_view_slice [of h] uids_view_def [of h'] mk el elems_opt_def added(3))
    have bc: "broadcast h' p ct ch" using added(6) by (simp add: broadcast_def mk)
    have ar: "arrays h' = arrays h1" "next_map h' = next_map h1" "next_array h' = next_array h1"
      by (simp_all add: added(5) map_put_def)
    have us: "uids_slice h' p = Some s" by (simp add: uids_slice_def mk)
    have ws: "wf_slice_opt h' (uids_slice h' p)"
      using sp by (simp add: us wf_slice_opt_def wf_slice_def ar)
    have ma: "maps h' q = maps h q" if "m \<noteq> q" using sp that by (simp add: added(5) map_put_def)
    show ?thesis using sp added(1,2,3) uv bc ws ma unfolding ar by (simp add: mk mp)
  qed
  then show "w = Some p" and "?add = [] \<Longrightarrow> h' = h"
    and "uids_view h' p = uids_view h p @ map GoStr ?add"
    and "k \<noteq> ''uids'' \<Longrightarrow> mention_key h' p k = mention_key h p k"
    and "map_of (maps h p) ''mention'' \<noteq> Some (GoMap q) \<Longrightarrow> maps h' q = maps h q"
    and "k \<noteq> ''uids'' \<Longrightarrow> map_of (maps h' q) k = map_of (maps h q) k"
    and "detached a ?so \<Longrightarrow> a \<le> next_array h \<Longrightarrow> b < a \<Longrightarrow> arrays h' b = arrays h b"
    and "broadcast h p ct ch \<Longrightarrow> broadcast h' p ct ch"
    and "next_map h' = next_map h" and "next_array h \<le> next_array h'"
    and "wf_slice_opt h' (uids_slice h' p)"
    by simp_all
qed

section \<open>The clone\<close>

text \<open>Everything allocated in \<open>h\<close> is as it was.\<close>

definition extends :: "heap \<Rightarrow> heap \<Rightarrow> bool" where
  "extends h h' \<longleftrightarrow>
     next_map h \<le> next_map h' \<and> next_array h \<le> next_array h' \<and>
     (\<forall>p < next_map h. maps h' p = maps h p) \<and> (\<forall>a < next_array h. arrays h' a = arrays h a)"

definition wf_payload :: "heap \<Rightarrow> nat \<Rightarrow> bool" where
  "wf_payload h p \<longleftrightarrow>
     p < next_map h \<and>
     (case map_of (maps h p) ''mention'' of Some (GoMap m) \<Rightarrow> m < next_map h | _ \<Rightarrow> True) \<and>
     wf_slice_opt h (uids_slice h p)"

lemma slice_clone_spec:
  assumes "slice_clone s h = (s', h')" and "wf_slice h s"
  shows "elems h' s' = elems h s" and "wf_slice h' s'" and "len s' = capa s'" and "extends h h'"
    and "maps h' = maps h" and "next_map h' = next_map h"
  using assms length_elems [OF assms(2)]
  by (auto simp: slice_clone_def new_array_def elems_def wf_slice_def extends_def)

lemma clone_no_mention:
  assumes "wf_payload h p" and "\<nexists>m. map_of (maps h p) ''mention'' = Some (GoMap m)"
  shows "clone_for_expansion (Some p) h =
     (Some (next_map h), h\<lparr>maps := (maps h)(next_map h := maps h p), next_map := Suc (next_map h)\<rparr>)"
  using assms by (auto simp: clone_for_expansion_def map_clone_def split: option.split gov.split)

definition cloned :: "heap \<Rightarrow> nat \<Rightarrow> nat \<Rightarrow> heap \<Rightarrow> bool" where
  "cloned h p q h' \<longleftrightarrow>
     extends h h' \<and> next_map h \<le> q \<and>
     (\<forall>k. k \<noteq> ''mention'' \<longrightarrow> map_of (maps h' q) k = map_of (maps h p) k) \<and>
     (\<forall>m. map_of (maps h' q) ''mention'' = Some (GoMap m) \<longrightarrow> next_map h \<le> m \<and> m \<noteq> q) \<and>
     (\<forall>k. k \<noteq> ''uids'' \<longrightarrow> mention_key h' q k = mention_key h p k) \<and>
     uids_view h' q = uids_view h p \<and> broadcast h' q = broadcast h p \<and>
     wf_slice_opt h' (uids_slice h' q) \<and> detached (next_array h) (uids_slice h' q)"

lemma clone_spec:
  assumes "wf_payload h p"
  obtains q h' where "clone_for_expansion (Some p) h = (Some q, h')" and "cloned h p q h'"
proof (cases "\<exists>m. map_of (maps h p) ''mention'' = Some (GoMap m)")
  case False
  let ?h = "h\<lparr>maps := (maps h)(next_map h := maps h p), next_map := Suc (next_map h)\<rparr>"
  have mk: "mention_key h p k = None" "mention_key ?h (next_map h) k = None" for k
    using False by (auto simp: mention_key_def split: option.splits gov.splits)
  show ?thesis
  proof (rule that [OF clone_no_mention [OF assms False]])
    show "cloned h p (next_map h) ?h"
      unfolding cloned_def uids_view_def uids_slice_def broadcast_def mk using False
      by (simp add: extends_def wf_slice_opt_def detached_def)
  qed
next
  case True
  then obtain m where m: "map_of (maps h p) ''mention'' = Some (GoMap m)" by blast
  have b: "p < next_map h" "m < next_map h" "wf_slice_opt h (uids_slice h p)"
    using assms m by (simp_all add: wf_payload_def)
  have mk: "mention_key h p k = map_of (maps h m) k" for k by (simp add: mention_key_def m)
  let ?q = "next_map h" and ?c = "Suc (next_map h)"
  let ?h2 = "h\<lparr>maps := (maps h)(?q := maps h p, ?c := maps h m), next_map := Suc ?c\<rparr>"
  show ?thesis
  proof (cases "uids_slice h p")
    case None
    let ?h' = "map_put ?q ''mention'' (GoMap ?c) ?h2"
    have ns: "map_of (maps h m) ''uids'' \<noteq> Some (GoSlice s)" for s
      using None unfolding uids_slice_def mk by (auto split: option.splits gov.splits)
    have mk': "mention_key ?h' ?q k = mention_key h p k" for k
      by (simp add: mention_key_def m map_put_def update_conv')
    have bc: "broadcast ?h' ?q = broadcast h p" by (simp add: broadcast_def fun_eq_iff mk')
    show ?thesis
    proof (rule that)
      show "clone_for_expansion (Some p) h = (Some ?q, ?h')"
        using ns m b(1,2) by (auto simp: clone_for_expansion_def map_clone_def split: option.split gov.split)
      show "cloned h p ?q ?h'"
        unfolding cloned_def uids_view_slice using None mk' bc
        by (simp add: extends_def uids_slice_def elems_opt_def detached_def wf_slice_opt_def
            map_put_def update_conv')
    qed
  next
    case (Some s)
    then have u: "map_of (maps h m) ''uids'' = Some (GoSlice s)"
      unfolding uids_slice_def mk by (auto split: option.splits gov.splits)
    obtain s' h3 where sc: "slice_clone s ?h2 = (s', h3)" by (cases "slice_clone s ?h2")
    have "wf_slice ?h2 s" using b(3) Some by (simp add: wf_slice_opt_def wf_slice_def)
    note sp = slice_clone_spec [OF sc this]
    define h4 where "h4 = map_put ?q ''mention'' (GoMap ?c) (map_put ?c ''uids'' (GoSlice s') h3)"
    have mk': "mention_key h4 ?q k = (if k = ''uids'' then Some (GoSlice s') else mention_key h p k)" for k
      using sp(5) by (simp add: h4_def mention_key_def m map_put_def update_conv')
    have us: "uids_slice h4 ?q = Some s'" by (simp add: uids_slice_def mk')
    have el: "elems h4 s' = elems h s" "wf_slice h4 s'"
      using sp(1,2) by (simp_all add: h4_def elems_def map_put_def wf_slice_def)
    have mq: "map_of (maps h4 ?q) k = (if k = ''mention'' then Some (GoMap ?c) else map_of (maps h p) k)" for k
      using sp(5) by (simp add: h4_def map_put_def update_conv')
    have ex: "extends h h4" using sp(4,5,6) by (simp add: h4_def extends_def map_put_def)
    have bc: "broadcast h4 ?q = broadcast h p" using u by (simp add: broadcast_def fun_eq_iff mk' mk)
    show ?thesis
    proof (rule that)
      show "clone_for_expansion (Some p) h = (Some ?q, h4)"
        using m b(1,2) u sc by (simp add: h4_def clone_for_expansion_def map_clone_def Let_def)
      show "cloned h p ?q h4"
        using sp(3) el Some ex bc
        by (simp add: cloned_def mk' us mq uids_view_slice elems_opt_def wf_slice_opt_def detached_def)
    qed
  qed
qed

text \<open>C24: the wire copy.  Cloning a payload and expanding the clone leaves every map and array of the
  original as it was; the copy is a new map, equal to the payload in all keys but \<open>mention.uids\<close>, which
  lists the old entries and then, on an AI broadcast to a group, exactly the bots not yet listed,
  once each; and expanding again changes nothing.
\<close>

theorem wire_isolated:
  assumes "wf_payload h p"
  shows "\<exists>q h' h''. clone_for_expansion (Some p) h = (Some q, h') \<and>
     expand_ais_to_bot_uids grow (Some q) ct ch fetch h' = (Some q, h'') \<and>
     extends h h'' \<and> next_map h \<le> q \<and>
     (k \<noteq> ''mention'' \<longrightarrow> map_of (maps h'' q) k = map_of (maps h p) k) \<and>
     (k \<noteq> ''uids'' \<longrightarrow> mention_key h'' q k = mention_key h p k) \<and>
     uids_view h'' q = uids_view h p @ map GoStr (bots_to_add h p ct ch fetch) \<and>
     expand_ais_to_bot_uids grow (Some q) ct ch fetch h'' = (Some q, h'')"
proof -
  obtain q h' where cl: "clone_for_expansion (Some p) h = (Some q, h')" and c: "cloned h p q h'"
    by (rule clone_spec [OF assms])
  obtain w h'' where ex: "expand_ais_to_bot_uids grow (Some q) ct ch fetch h' = (w, h'')"
    by (cases "expand_ais_to_bot_uids grow (Some q) ct ch fetch h'")
  have ext: "extends h h'" and wf: "wf_slice_opt h' (uids_slice h' q)" and q: "next_map h \<le> q"
    and det: "detached (next_array h) (uids_slice h' q)"
    using c by (simp_all add: cloned_def)
  note sp = expand_spec [OF ex wf]
  have same: "bots_to_add h' q ct ch fetch = bots_to_add h p ct ch fetch"
  proof -
    have "uids_view h' q = uids_view h p" "broadcast h' q = broadcast h p" using c by (simp_all add: cloned_def)
    then show ?thesis by (simp only: bots_to_add_def)
  qed
  have old: "maps h'' x = maps h' x" if "x < next_map h \<or> x = q" for x
    using that c by (intro sp(5)) (auto simp: cloned_def)
  have ext2: "extends h h''"
    using ext sp(7) [OF det] sp(9,10) old by (simp add: extends_def)
  have none: "bots_to_add h'' q ct ch fetch = []"
  proof (cases "broadcast h' q ct ch")
    case True
    then show ?thesis using sp(3)
      by (auto simp: bots_to_add_def fresh_bots_again split: option.splits)
  next
    case False
    then show ?thesis using sp(2) by (simp add: bots_to_add_def)
  qed
  obtain w2 h3 where again: "expand_ais_to_bot_uids grow (Some q) ct ch fetch h'' = (w2, h3)"
    by (cases "expand_ais_to_bot_uids grow (Some q) ct ch fetch h''")
  have "w2 = Some q" "h3 = h''"
    using expand_spec(1,2) [OF again sp(11)] none by simp_all
  moreover have "k \<noteq> ''mention'' \<Longrightarrow> map_of (maps h'' q) k = map_of (maps h p) k"
    using old [of q] c by (simp add: cloned_def)
  moreover have "k \<noteq> ''uids'' \<Longrightarrow> mention_key h'' q k = mention_key h p k"
    using sp(4) c by (simp add: cloned_def)
  moreover have "uids_view h'' q = uids_view h p @ map GoStr (bots_to_add h p ct ch fetch)"
    using sp(3) same c by (simp add: cloned_def)
  ultimately show ?thesis using cl ex sp(1) again ext2 q by blast
qed

definition group_payload :: heap where
  "group_payload =
     \<lparr>maps = (\<lambda>p. if p = 0 then [(''type'', GoInt 1), (''mention'', GoMap 1)]
               else [(''ais'', GoNumber ''1''), (''uids'', GoSlice \<lparr>arr = 0, off = 0, len = 1, capa = 4\<rparr>)]),
      arrays = (\<lambda>_. [GoStr ''u_alice'', GoNil, GoNil, GoNil]), next_map = 2, next_array = 1\<rparr>"

lemma group_payload_bots:
  "uids_view group_payload 0 = [GoStr ''u_alice'']"
  "bots_to_add group_payload 0 2 ''ch_1'' (Some (\<lambda>_. Some [''bot_a'', ''u_alice'', ''bot_a''])) = [''bot_a'']"
proof -
  have mk: "mention_key group_payload 0 k = map_of [(''ais'', GoNumber ''1''), (''uids'', GoSlice \<lparr>arr = 0, off = 0, len = 1, capa = 4\<rparr>)] k" for k
    by (simp add: mention_key_def group_payload_def)
  have one: "parse_int64 ''1'' = Some 1" by code_simp
  show v: "uids_view group_payload 0 = [GoStr ''u_alice'']"
    by (simp add: uids_view_def mk) (simp add: elems_def group_payload_def)
  show "bots_to_add group_payload 0 2 ''ch_1'' (Some (\<lambda>_. Some [''bot_a'', ''u_alice'', ''bot_a''])) = [''bot_a'']"
    by (simp add: bots_to_add_def broadcast_def mk v one)
qed

lemma wire_isolated_witness:
  "\<exists>q h' h''. clone_for_expansion (Some 0) group_payload = (Some q, h') \<and>
     expand_ais_to_bot_uids (\<lambda>n. n) (Some q) 2 ''ch_1'' (Some (\<lambda>_. Some [''bot_a'', ''u_alice'', ''bot_a''])) h' = (Some q, h'') \<and>
     extends group_payload h'' \<and> uids_view h'' q = [GoStr ''u_alice'', GoStr ''bot_a'']"
proof -
  have "wf_payload group_payload 0"
    by (simp add: wf_payload_def wf_slice_opt_def uids_slice_def mention_key_def wf_slice_def group_payload_def)
  from wire_isolated [OF this, where grow = "\<lambda>n. n" and ct = 2 and ch = "''ch_1''"
      and fetch = "Some (\<lambda>_. Some [''bot_a'', ''u_alice'', ''bot_a''])" and k = "''type''"]
  show ?thesis unfolding group_payload_bots by auto
qed

end
