(* ===== verification/Rate_Limit.thy ===== *)
theory Rate_Limit
  imports Complex_Main Go_Strings
begin

text \<open>
  \<open>pkg/ratelimit\<close>: a token bucket in Redis behind a limiter whose parameters are read at every check.
  Redis is a service: the commands that the bucket script calls are a parameter, and the locale
  \<open>bucket_laws\<close> states their documented behaviour, the expiry of keys included.  Numbers of the script and
  times are exact rationals in seconds where the code has doubles; the configured rate is a \<open>float64\<close>
  with its NaN and infinities, since the code guards against them.
\<close>

section \<open>Redis commands of the script\<close>

record 's bucket_redis =
  hmget :: "'s \<Rightarrow> rat \<Rightarrow> string \<Rightarrow> rat option \<times> rat option"
  hmset :: "string \<Rightarrow> rat \<Rightarrow> rat \<Rightarrow> 's \<Rightarrow> 's"
  expire :: "rat \<Rightarrow> string \<Rightarrow> int \<Rightarrow> 's \<Rightarrow> 's"

text \<open>
  \<open>hmget r s t k\<close> reads \<open>tokens\<close> and \<open>ts\<close> at time \<open>t\<close>.  What was written with a time to live is read
  back until it has run out, and from then on it may be gone; other keys are not touched.
\<close>

locale bucket_laws =
  fixes r :: "'s bucket_redis"
  assumes read_back: "t \<le> t' \<Longrightarrow> t' < t + of_int ttl \<Longrightarrow>
      hmget r (expire r t k ttl (hmset r k a b s)) t' k = (Some a, Some b)"
    and read_or_gone: "t \<le> t' \<Longrightarrow>
      hmget r (expire r t k ttl (hmset r k a b s)) t' k \<in> {(Some a, Some b), (None, None)}"
    and read_other: "k' \<noteq> k \<Longrightarrow> hmget r (expire r t k ttl (hmset r k a b s)) t' k' = hmget r s t' k'"

section \<open>The bucket\<close>

text \<open>\<open>tokenBucketScript\<close> at Redis time \<open>clk\<close>; the reply is allowed, remaining, retry after.\<close>

definition token_bucket_script ::
    "'s bucket_redis \<Rightarrow> rat \<Rightarrow> string \<Rightarrow> rat \<Rightarrow> int \<Rightarrow> rat \<Rightarrow> 's \<Rightarrow> 's \<times> int \<times> int \<times> int" where
  "token_bucket_script r clk key rate burst now s =
     (if rate \<le> 0 then (s, 0, 0, 1)
      else
        let fill_time = of_int burst / rate;
            ttl = max 1 \<lceil>fill_time * 2\<rceil>;
            (st1, st2) = hmget r s clk key;
            tokens = (case st1 of None \<Rightarrow> of_int burst | Some x \<Rightarrow> x);
            ts = (case st2 of None \<Rightarrow> now | Some x \<Rightarrow> x);
            delta = max 0 (now - ts);
            filled = min (of_int burst) (tokens + delta * rate)
        in if 1 \<le> filled
           then (expire r clk key ttl (hmset r key (filled - 1) now s), 1, \<lfloor>filled - 1\<rfloor>, 0)
           else
             (if st2 = None then expire r clk key ttl (hmset r key filled now s) else s,
              0, \<lfloor>filled\<rfloor>, max 1 \<lceil>(1 - filled) / rate\<rceil>))"

text \<open>What one run of the script ends with: its reply, an error before or after it took effect, or a
  reply of another shape.\<close>

datatype fault = NoFault | FailsBefore | FailsAfter | WrongShape

record 's world =
  redis :: 's
  clock :: rat
  last_degrade_warn :: int
  warnings :: nat

text \<open>\<open>logDegrade\<close>: at most one warning per 30 seconds; \<open>cas\<close> is whether the swap succeeds.\<close>

definition log_degrade :: "bool \<Rightarrow> 's world \<Rightarrow> 's world" where
  "log_degrade cas w =
     (let now = \<lfloor>clock w\<rfloor>; prev = last_degrade_warn w
      in if now - prev < 30 then w
         else if \<not> cas then w
         else w\<lparr>last_degrade_warn := now, warnings := Suc (warnings w)\<rparr>)"

record bucket_result =
  allowed :: bool
  remaining :: int
  retry_after :: int
  degraded :: bool

text \<open>\<open>allow\<close>: Redis errors and malformed replies fail open, marked as degraded.\<close>

definition bucket_allow ::
    "'s bucket_redis \<Rightarrow> fault \<Rightarrow> bool \<Rightarrow> string \<Rightarrow> string \<Rightarrow> rat \<Rightarrow> int \<Rightarrow> 's world
     \<Rightarrow> bucket_result \<times> 's world" where
  "bucket_allow r fl cas pre key rps burst w =
     (let now = clock w;
          (s', a, rem, ra) = token_bucket_script r now (pre @ key) rps burst now (redis w);
          open_result = \<lparr>allowed = True, remaining = burst, retry_after = 0, degraded = True\<rparr>
      in case fl of
           FailsBefore \<Rightarrow> (open_result, log_degrade cas w)
         | FailsAfter \<Rightarrow> (open_result, log_degrade cas (w\<lparr>redis := s'\<rparr>))
         | WrongShape \<Rightarrow> (open_result, log_degrade cas (w\<lparr>redis := s'\<rparr>))
         | NoFault \<Rightarrow>
             (\<lparr>allowed = (a = 1),
               remaining = (if rem < 0 then 0 else if burst < rem then burst else rem),
               retry_after = ra, degraded = False\<rparr>,
              w\<lparr>redis := s'\<rparr>))"

datatype f64 = Finite rat | PosInf | NegInf | NaN

text \<open>\<open>SanitizeRPS\<close> and \<open>SanitizeBurst\<close>.\<close>

definition sanitize_rps :: "f64 \<Rightarrow> rat \<Rightarrow> rat" where
  "sanitize_rps v fallback = (case v of Finite x \<Rightarrow> if x \<le> 0 then fallback else x | _ \<Rightarrow> fallback)"

definition sanitize_burst :: "int \<Rightarrow> int \<Rightarrow> int" where
  "sanitize_burst v fallback = (if v \<le> 0 then fallback else v)"

section \<open>The limiter\<close>

datatype outcome = Bypassed | Allowed | WouldDeny | Denied | Degraded | NoKey

fun outcome_string :: "outcome \<Rightarrow> string" where
  "outcome_string Bypassed = ''bypassed''"
| "outcome_string Allowed = ''allowed''"
| "outcome_string WouldDeny = ''would_deny''"
| "outcome_string Denied = ''denied''"
| "outcome_string Degraded = ''degraded''"
| "outcome_string NoKey = ''no_key''"

record params =
  enabled :: bool
  dry_run :: bool
  p_rps :: f64
  p_burst :: int

record result =
  outcome :: outcome
  r_remaining :: int
  r_retry_after :: int
  r_burst :: int
  r_dry_run :: bool

definition should_reject :: "result \<Rightarrow> bool" where
  "should_reject res = (outcome res = Denied)"

definition should_set_headers :: "result \<Rightarrow> bool" where
  "should_set_headers res =
     (if r_dry_run res then False else outcome res = Allowed \<or> outcome res = Denied)"

text \<open>\<open>Limiter\<close>; the fallback parameters are the code's own defaults.\<close>

record limiter =
  key_prefix :: string
  class_name :: string
  fallback_rps :: rat
  fallback_burst :: int
  has_observer :: bool

type_synonym observations = "(string \<times> string \<times> outcome) list"

definition observe :: "limiter \<Rightarrow> string \<Rightarrow> outcome \<Rightarrow> observations \<Rightarrow> observations" where
  "observe l key o' obs = (if has_observer l then obs @ [(class_name l, key, o')] else obs)"

text \<open>\<open>Check\<close>, with the parameters that \<open>l.params()\<close> returned.\<close>

definition check ::
    "'s bucket_redis \<Rightarrow> limiter \<Rightarrow> params \<Rightarrow> fault \<Rightarrow> bool \<Rightarrow> string \<Rightarrow> 's world \<times> observations
     \<Rightarrow> result \<times> 's world \<times> observations" where
  "check r l p fl cas key = (\<lambda>(w, obs).
     let none = \<lparr>outcome = Bypassed, r_remaining = 0, r_retry_after = 0, r_burst = 0, r_dry_run = False\<rparr>
     in if \<not> enabled p then (none, w, observe l key Bypassed obs)
        else if key = [] then (none\<lparr>outcome := NoKey\<rparr>, w, observe l key NoKey obs)
        else
          let rps = sanitize_rps (p_rps p) (fallback_rps l);
              burst = sanitize_burst (p_burst p) (fallback_burst l);
              (br, w) = bucket_allow r fl cas (key_prefix l) key rps burst w
          in if degraded br
             then (\<lparr>outcome = Degraded, r_remaining = remaining br, r_retry_after = 0, r_burst = burst,
                    r_dry_run = dry_run p\<rparr>, w, observe l key Degraded obs)
             else if allowed br
             then (\<lparr>outcome = Allowed, r_remaining = remaining br, r_retry_after = 0, r_burst = burst,
                    r_dry_run = dry_run p\<rparr>, w, observe l key Allowed obs)
             else if dry_run p
             then (\<lparr>outcome = WouldDeny, r_remaining = remaining br, r_retry_after = retry_after br,
                    r_burst = burst, r_dry_run = True\<rparr>, w, observe l key WouldDeny obs)
             else (\<lparr>outcome = Denied, r_remaining = remaining br, r_retry_after = retry_after br,
                    r_burst = burst, r_dry_run = False\<rparr>, w, observe l key Denied obs))"

text \<open>A sequence of checks: each at its time, with what goes wrong in it.\<close>

record call =
  called_at :: rat
  who :: string
  goes_wrong :: fault
  swaps :: bool

fun check_all :: "'s bucket_redis \<Rightarrow> limiter \<Rightarrow> params \<Rightarrow> call list \<Rightarrow> 's world \<times> observations
    \<Rightarrow> result list \<times> 's world \<times> observations" where
  "check_all r l p [] st = ([], st)"
| "check_all r l p (c # cs) (w, obs) =
     (let (res, st) = check r l p (goes_wrong c) (swaps c) (who c) (w\<lparr>clock := called_at c\<rparr>, obs);
          (rs, st) = check_all r l p cs st
      in (res # rs, st))"

fun admitted :: "string \<Rightarrow> call list \<Rightarrow> result list \<Rightarrow> nat" where
  "admitted k (c # cs) (res # rs) =
     (if who c = k \<and> outcome res = Allowed then 1 else 0) + admitted k cs rs"
| "admitted k _ _ = 0"

text \<open>A shadow limiter does not reject and sends no headers; a disabled one does not reach Redis.\<close>

lemma shadow_invisible:
  assumes "dry_run p" and "check r l p fl cas key (w, obs) = (res, st)"
  shows "\<not> should_reject res" and "\<not> should_set_headers res"
  using assms unfolding should_reject_def should_set_headers_def
  by (auto simp: check_def Let_def split: if_splits prod.splits)

lemma disabled_bypasses:
  "\<not> enabled p \<Longrightarrow> check r l p fl cas key (w, obs) = (res, w', obs') \<Longrightarrow>
     w' = w \<and> \<not> should_reject res \<and> \<not> should_set_headers res"
  by (auto simp: check_def Let_def should_reject_def should_set_headers_def)

lemma rejects_only_over_limit:
  assumes "check r l p fl cas key (w, obs) = (res, st)" and "should_reject res"
  shows "enabled p \<and> \<not> dry_run p \<and> key \<noteq> [] \<and> fl = NoFault"
  using assms
  by (auto simp: check_def bucket_allow_def should_reject_def Let_def split: if_splits prod.splits fault.splits)

section \<open>The level of a bucket\<close>

text \<open>The tokens that a bucket holds at time \<open>t\<close> when \<open>tok\<close> were written at \<open>ts\<close>.\<close>

definition level :: "rat \<Rightarrow> int \<Rightarrow> rat \<Rightarrow> rat \<Rightarrow> rat \<Rightarrow> rat" where
  "level rate burst tok ts t = min (of_int burst) (tok + (t - ts) * rate)"

text \<open>A key whose reads, from \<open>now\<close> on, are the bucket \<open>tok\<close> at \<open>ts\<close>, or nothing once that is full.\<close>

definition bucket_ok :: "'s bucket_redis \<Rightarrow> rat \<Rightarrow> int \<Rightarrow> string \<Rightarrow> rat \<Rightarrow> rat \<Rightarrow> rat \<Rightarrow> 's \<Rightarrow> bool" where
  "bucket_ok r rate burst k now tok ts s \<longleftrightarrow>
     0 \<le> tok \<and> tok \<le> of_int burst \<and> ts \<le> now \<and>
     (\<forall>t\<ge>now. hmget r s t k = (Some tok, Some ts) \<or>
               hmget r s t k = (None, None) \<and> of_int burst \<le> tok + (t - ts) * rate)"

lemma level_later:
  assumes "0 < rate" and "t \<le> t'"
  shows "level rate burst tok ts t' \<le> level rate burst tok ts t + (t' - t) * rate"
proof -
  have "0 \<le> (t' - t) * rate" using assms by simp
  moreover have "(t' - ts) * rate = (t - ts) * rate + (t' - t) * rate" by (simp add: algebra_simps)
  ultimately show ?thesis by (simp add: level_def min_def)
qed

lemma level_nonneg:
  "bucket_ok r rate burst k now tok ts s \<Longrightarrow> 0 < rate \<Longrightarrow> now \<le> t \<Longrightarrow> 0 \<le> level rate burst tok ts t"
  by (auto simp: level_def bucket_ok_def intro!: add_nonneg_nonneg)

lemma sorted_le_last: "sorted (map f xs) \<Longrightarrow> x \<in> set xs \<Longrightarrow> f x \<le> f (last xs)"
  by (induction xs) auto

lemma ttl_refills:
  fixes rate tok t t' :: rat
  assumes "0 < rate" and "0 \<le> burst" and "0 \<le> tok" and "of_int (max 1 \<lceil>of_int burst / rate * 2\<rceil>) \<le> t' - t"
  shows "of_int burst \<le> tok + (t' - t) * rate"
proof -
  have "of_int burst / rate * 2 \<le> t' - t"
    using assms(4) by (metis (no_types) le_of_int_ceiling of_int_le_iff max.cobounded2 order_trans)
  then have "of_int burst / rate * 2 * rate \<le> (t' - t) * rate"
    using assms(1) by (intro mult_right_mono) auto
  moreover have "(0::rat) \<le> of_int burst" using assms(2) by simp
  ultimately show ?thesis using assms(1,3) by (simp add: field_simps)
qed

lemma level_written: "x \<le> of_int burst \<Longrightarrow> level rate burst x t t = x"
  by (simp add: level_def)

context bucket_laws
begin

lemma script_step:
  assumes "0 < rate" and "1 \<le> burst" and "bucket_ok r rate burst k now tok ts s" and "now \<le> t"
    and "token_bucket_script r t k rate burst t s = (s', a, rem, ra)"
  shows "(a = 1 \<and> 1 \<le> level rate burst tok ts t \<and> bucket_ok r rate burst k t (level rate burst tok ts t - 1) t s') \<or>
    (a = 0 \<and> level rate burst tok ts t < 1 \<and> s' = s \<and> bucket_ok r rate burst k t tok ts s)"
proof -
  let ?ttl = "max 1 \<lceil>of_int burst / rate * 2\<rceil>"
  let ?lvl = "level rate burst tok ts t"
  have tok: "0 \<le> tok" "tok \<le> of_int burst" "ts \<le> now"
    and read: "hmget r s t k = (Some tok, Some ts) \<or>
      hmget r s t k = (None, None) \<and> of_int burst \<le> tok + (t - ts) * rate"
    using assms(3,4) by (auto simp: bucket_ok_def)
  have keep: "bucket_ok r rate burst k t tok ts s"
    using assms(3,4) by (auto simp: bucket_ok_def)
  have delta: "max 0 (t - ts) = t - ts" using tok(3) assms(4) by simp
  have none: "?lvl = of_int burst" if "of_int burst \<le> tok + (t - ts) * rate"
    using that by (simp add: level_def)
  have b1: "(1::rat) \<le> of_int burst" using assms(2) by simp
  have script: "token_bucket_script r t k rate burst t s =
      (if 1 \<le> ?lvl then (expire r t k ?ttl (hmset r k (?lvl - 1) t s), 1, \<lfloor>?lvl - 1\<rfloor>, 0)
       else (s, 0, \<lfloor>?lvl\<rfloor>, max 1 \<lceil>(1 - ?lvl) / rate\<rceil>))"
    using read
  proof
    assume "hmget r s t k = (Some tok, Some ts)"
    then show ?thesis using assms(1) delta by (simp add: token_bucket_script_def level_def Let_def)
  next
    assume n: "hmget r s t k = (None, None) \<and> of_int burst \<le> tok + (t - ts) * rate"
    then have "?lvl = of_int burst" using none by blast
    with n b1 assms(1) show ?thesis by (simp add: token_bucket_script_def Let_def)
  qed
  show ?thesis
  proof (cases "1 \<le> ?lvl")
    case True
    then have s': "s' = expire r t k ?ttl (hmset r k (?lvl - 1) t s)" "a = 1" using script assms(5) by simp_all
    have "bucket_ok r rate burst k t (?lvl - 1) t s'"
      unfolding bucket_ok_def
    proof (intro conjI allI impI)
      show "0 \<le> ?lvl - 1" using True by simp
      show "?lvl - 1 \<le> of_int burst" by (simp add: level_def min_def)
      fix t' assume "t \<le> t'"
      have "of_int burst \<le> (?lvl - 1) + (t' - t) * rate" if "\<not> t' < t + of_int ?ttl"
        using that True assms(1,2) by (intro ttl_refills) auto
      then show "hmget r s' t' k = (Some (?lvl - 1), Some t) \<or>
          hmget r s' t' k = (None, None) \<and> of_int burst \<le> ?lvl - 1 + (t' - t) * rate"
        using read_back [OF \<open>t \<le> t'\<close>] read_or_gone [OF \<open>t \<le> t'\<close>, where ttl = ?ttl and k = k and a = "?lvl - 1" and b = t and s = s]
        unfolding s' by (cases "t' < t + of_int ?ttl") auto
    qed simp
    then show ?thesis using True s' by simp
  next
    case False
    then show ?thesis using script assms(5) keep by simp
  qed
qed

lemma script_other:
  assumes "token_bucket_script r c j rate' burst' now' s = (s', q)" and "j \<noteq> k"
    and "bucket_ok r rate burst k now tok ts s"
  shows "bucket_ok r rate burst k now tok ts s'"
proof -
  have "hmget r s' t k = hmget r s t k" for t
    using assms(1,2) by (auto simp: token_bucket_script_def Let_def read_other split: if_splits prod.splits)
  then show ?thesis using assms(3) by (simp add: bucket_ok_def)
qed

lemma check_step:
  assumes "check r l p fl cas key (w, obs) = (res, w', obs')"
    and "rate = sanitize_rps (p_rps p) (fallback_rps l)" and "burst = sanitize_burst (p_burst p) (fallback_burst l)"
    and "0 < rate" and "1 \<le> burst" and "bucket_ok r rate burst (key_prefix l @ k) now tok ts (redis w)"
    and "now \<le> clock w"
  shows "\<exists>tok' ts'. bucket_ok r rate burst (key_prefix l @ k) (clock w) tok' ts' (redis w') \<and>
    level rate burst tok' ts' (clock w) + (if key = k \<and> outcome res = Allowed then 1 else 0)
      \<le> level rate burst tok ts (clock w)"
proof -
  let ?kk = "key_prefix l @ k"
  have keep: "bucket_ok r rate burst ?kk (clock w) tok ts (redis w)"
    using assms(6,7) by (auto simp: bucket_ok_def)
  obtain s' a rem ra where sc: "token_bucket_script r (clock w) (key_prefix l @ key) rate burst (clock w) (redis w) = (s', a, rem, ra)"
    by (metis prod_cases4)
  have red: "redis w' = redis w \<or> redis w' = s'"
    using assms(1) sc unfolding assms(2,3)
    by (auto simp: check_def bucket_allow_def log_degrade_def Let_def split: if_splits prod.splits fault.splits)
  have al: "a = 1 \<and> redis w' = s'" if "outcome res = Allowed"
    using assms(1) sc that unfolding assms(2,3)
    by (auto simp: check_def bucket_allow_def log_degrade_def Let_def split: if_splits prod.splits fault.splits)
  show ?thesis
  proof (cases "key = k")
    case False
    have "bucket_ok r rate burst ?kk (clock w) tok ts (redis w')"
      using red keep script_other [OF sc _ keep] False by auto
    then show ?thesis using False by auto
  next
    case True
    from script_step [OF assms(4,5) assms(6,7)] sc True
    have st: "(a = 1 \<and> 1 \<le> level rate burst tok ts (clock w) \<and>
        bucket_ok r rate burst ?kk (clock w) (level rate burst tok ts (clock w) - 1) (clock w) s') \<or>
      (a = 0 \<and> level rate burst tok ts (clock w) < 1 \<and> s' = redis w \<and> bucket_ok r rate burst ?kk (clock w) tok ts (redis w))"
      by metis
    then consider (took) "a = 1" "bucket_ok r rate burst ?kk (clock w) (level rate burst tok ts (clock w) - 1) (clock w) s'"
      | (left) "a = 0" "s' = redis w" by blast
    then show ?thesis
    proof cases
      case took
      have "level rate burst (level rate burst tok ts (clock w) - 1) (clock w) (clock w) = level rate burst tok ts (clock w) - 1"
        by (rule level_written) (simp add: level_def min_def)
      then show ?thesis using red keep took al by (cases "outcome res = Allowed") (force, force)
    next
      case left
      then show ?thesis using red keep al by auto
    qed
  qed
qed

lemma admitted_bound:
  assumes "check_all r l p cs (w, obs) = (rs, w', obs')"
    and "rate = sanitize_rps (p_rps p) (fallback_rps l)" and "burst = sanitize_burst (p_burst p) (fallback_burst l)"
    and "0 < rate" and "1 \<le> burst" and "bucket_ok r rate burst (key_prefix l @ k) now tok ts (redis w)"
    and "sorted (map called_at cs)" and "\<And>c. c \<in> set cs \<Longrightarrow> now \<le> called_at c \<and> called_at c \<le> t1" and "now \<le> t1"
  shows "of_nat (admitted k cs rs) \<le> level rate burst tok ts now + (t1 - now) * rate"
    and "\<exists>tok' ts'. bucket_ok r rate burst (key_prefix l @ k) (if cs = [] then now else called_at (last cs)) tok' ts' (redis w')"
proof -
  have "of_nat (admitted k cs rs) \<le> level rate burst tok ts now + (t1 - now) * rate \<and>
    (\<exists>tok' ts'. bucket_ok r rate burst (key_prefix l @ k) (if cs = [] then now else called_at (last cs)) tok' ts' (redis w'))"
    using assms(1,6-9)
  proof (induction cs arbitrary: w obs rs now tok ts)
    case Nil
    then have "0 \<le> (t1 - now) * rate" using assms(4) by simp
    moreover have "0 \<le> level rate burst tok ts now" using level_nonneg [OF Nil(2) assms(4)] by simp
    ultimately show ?case using Nil by auto
  next
    case (Cons c cs)
    obtain res w1 obs1 where ch: "check r l p (goes_wrong c) (swaps c) (who c) (w\<lparr>clock := called_at c\<rparr>, obs) = (res, w1, obs1)"
      by (metis prod_cases3)
    obtain rs1 where ca: "check_all r l p cs (w1, obs1) = (rs1, w', obs')" and rs: "rs = res # rs1"
      using Cons.prems(1) ch by (auto split: prod.splits)
    have t: "now \<le> called_at c" "called_at c \<le> t1" using Cons.prems(4) [of c] by simp_all
    have bo: "bucket_ok r rate burst (key_prefix l @ k) now tok ts (redis (w\<lparr>clock := called_at c\<rparr>))"
      using Cons.prems(2) by simp
    obtain tok' ts' where ok: "bucket_ok r rate burst (key_prefix l @ k) (called_at c) tok' ts' (redis w1)"
      and lv: "level rate burst tok' ts' (called_at c) + (if who c = k \<and> outcome res = Allowed then 1 else 0)
        \<le> level rate burst tok ts (called_at c)"
      using check_step [OF ch assms(2-5) bo] t by auto
    have rest: "called_at c \<le> called_at d \<and> called_at d \<le> t1" if "d \<in> set cs" for d
      using Cons.prems(3,4) that by auto
    have so: "sorted (map called_at cs)" using Cons.prems(3) by simp
    have ih: "of_nat (admitted k cs rs1) \<le> level rate burst tok' ts' (called_at c) + (t1 - called_at c) * rate \<and>
        (\<exists>tok' ts'. bucket_ok r rate burst (key_prefix l @ k) (if cs = [] then called_at c else called_at (last cs)) tok' ts' (redis w'))"
      by (rule Cons.IH [OF ca ok so rest t(2)])
    have "level rate burst tok ts (called_at c) \<le> level rate burst tok ts now + (called_at c - now) * rate"
      by (rule level_later [OF assms(4) t(1)])
    with ih lv have "of_nat (admitted k (c # cs) rs) \<le> level rate burst tok ts now + (t1 - now) * rate"
      unfolding rs by (auto simp: algebra_simps split: if_splits)
    then show ?case using ih by (cases "cs = []") simp_all
  qed
  then show "of_nat (admitted k cs rs) \<le> level rate burst tok ts now + (t1 - now) * rate"
    and "\<exists>tok' ts'. bucket_ok r rate burst (key_prefix l @ k) (if cs = [] then now else called_at (last cs)) tok' ts' (redis w')"
    by simp_all
qed

end

section \<open>A store in memory\<close>

type_synonym mem = "(string \<times> rat \<times> rat \<times> rat option) list"

definition mem_buckets :: "mem bucket_redis" where
  "mem_buckets =
     \<lparr>hmget = (\<lambda>s t k.
         case map_of s k of
           None \<Rightarrow> (None, None)
         | Some (a, b, e) \<Rightarrow>
             if (case e of None \<Rightarrow> True | Some x \<Rightarrow> t \<le> x) then (Some a, Some b) else (None, None)),
      hmset = (\<lambda>k a b s.
         (k, a, b, case map_of s k of None \<Rightarrow> None | Some (_, _, e) \<Rightarrow> e) # s),
      expire = (\<lambda>t k ttl s.
         case map_of s k of None \<Rightarrow> s | Some (a, b, _) \<Rightarrow> (k, a, b, Some (t + of_int ttl)) # s)\<rparr>"

interpretation mem_buckets: bucket_laws mem_buckets
  by unfold_locales (auto simp: mem_buckets_def)

section \<open>The rate\<close>

text \<open>C25: a limit is a limit.  Take any run of checks from an empty bucket, with other keys, Redis
  failures and key expiry in between.  In every later stretch of it, a key is admitted by the limiter at
  most \<open>burst\<close> times plus \<open>rps\<close> times the length of the stretch, whatever was configured: a NaN, an
  infinity or a non-positive value only brings in the code's own default.
\<close>

theorem admitted_window:
  assumes "bucket_laws r" and "0 < fallback_rps l" and "1 \<le> fallback_burst l"
    and "\<forall>t. hmget r (redis w) t (key_prefix l @ k) = (None, None)"
    and "check_all r l p before (w, obs) = (rs0, st)" and "check_all r l p (c # cs) st = (rs, st')"
    and "sorted (map called_at (before @ c # cs))"
  shows "of_nat (admitted k (c # cs) rs) \<le>
    of_int (sanitize_burst (p_burst p) (fallback_burst l)) +
      (called_at (last (c # cs)) - called_at c) * sanitize_rps (p_rps p) (fallback_rps l)"
proof -
  define rate where "rate = sanitize_rps (p_rps p) (fallback_rps l)"
  define burst where "burst = sanitize_burst (p_burst p) (fallback_burst l)"
  have pos: "0 < rate" "1 \<le> burst" using assms(2,3)
    by (auto simp: rate_def burst_def sanitize_rps_def sanitize_burst_def split: f64.split)
  define t0 where "t0 = called_at (hd (before @ c # cs))"
  have t0: "t0 \<le> called_at d" if "d \<in> set (before @ c # cs)" for d
    using assms(7) that by (cases before) (auto simp: t0_def)
  have start: "bucket_ok r rate burst (key_prefix l @ k) t0 (of_int burst) t0 (redis w)"
    using assms(4) pos by (auto simp: bucket_ok_def intro!: mult_nonneg_nonneg)
  obtain w1 obs1 where st: "st = (w1, obs1)" by (cases st)
  let ?t = "if before = [] then t0 else called_at (last before)"
  have le: "called_at d \<le> called_at (last before)" if "d \<in> set before" for d
    using assms(7) that by (intro sorted_le_last) (auto simp: sorted_append)
  have "sorted (map called_at before)" using assms(7) by (simp add: sorted_append)
  moreover have "t0 \<le> called_at d \<and> called_at d \<le> ?t" if "d \<in> set before" for d
    using t0 [of d] le [OF that] that by auto
  moreover have "t0 \<le> ?t" using t0 [of "last before"] by simp
  ultimately obtain tok ts where mid: "bucket_ok r rate burst (key_prefix l @ k) ?t tok ts (redis w1)"
    using bucket_laws.admitted_bound(2) [OF assms(1) assms(5) [unfolded st] rate_def burst_def pos start, of ?t]
    by blast
  have "?t \<le> called_at c" using assms(7) t0 [of c] by (auto simp: sorted_append)
  then have ok: "bucket_ok r rate burst (key_prefix l @ k) (called_at c) tok ts (redis w1)"
    using mid by (auto simp: bucket_ok_def)
  obtain w2 obs2 where st': "st' = (w2, obs2)" by (cases st')
  let ?e = "called_at (last (c # cs))"
  have so: "sorted (map called_at (c # cs))" using assms(7) by (simp add: sorted_append)
  have bounds: "called_at c \<le> called_at d \<and> called_at d \<le> ?e" if "d \<in> set (c # cs)" for d
    using so that sorted_le_last [OF so that] by auto
  have "of_nat (admitted k (c # cs) rs) \<le> level rate burst tok ts (called_at c) + (?e - called_at c) * rate"
    by (rule bucket_laws.admitted_bound(1) [OF assms(1) assms(6) [unfolded st st'] rate_def burst_def pos ok so bounds])
      (use bounds [of c] in simp_all)
  moreover have "level rate burst tok ts (called_at c) \<le> of_int burst" by (simp add: level_def)
  ultimately show ?thesis unfolding rate_def burst_def by linarith
qed

definition bot_limiter :: limiter where
  "bot_limiter = \<lparr>key_prefix = ''ratelimit:bot:'', class_name = ''business'', fallback_rps = 1,
                  fallback_burst = 2, has_observer = True\<rparr>"

definition bot_params :: params where
  "bot_params = \<lparr>enabled = True, dry_run = False, p_rps = NaN, p_burst = 0\<rparr>"

definition bot_calls :: "call list" where
  "bot_calls = map (\<lambda>t. \<lparr>called_at = t, who = ''b'', goes_wrong = NoFault, swaps = True\<rparr>) [10, 10, 10, 11]"

definition empty_world :: "mem world" where
  "empty_world = \<lparr>redis = [], clock = 0, last_degrade_warn = 0, warnings = 0\<rparr>"

lemma bot_outcomes:
  "map outcome (fst (check_all mem_buckets bot_limiter bot_params bot_calls (empty_world, []))) =
     [Allowed, Allowed, Denied, Allowed]"
  by (simp add: bot_limiter_def bot_params_def bot_calls_def empty_world_def mem_buckets_def check_def
      bucket_allow_def token_bucket_script_def sanitize_rps_def sanitize_burst_def observe_def)

lemma admitted_window_witness:
  "of_nat (admitted ''b'' bot_calls (fst (check_all mem_buckets bot_limiter bot_params bot_calls (empty_world, []))))
     \<le> (of_int 2 + (11 - 10) * 1 :: rat)"
proof -
  obtain c cs where c: "bot_calls = c # cs" "called_at c = 10" "called_at (last (c # cs)) = 11"
    by (simp add: bot_calls_def)
  obtain rs st' where run: "check_all mem_buckets bot_limiter bot_params (c # cs) (empty_world, []) = (rs, st')"
    by (cases "check_all mem_buckets bot_limiter bot_params (c # cs) (empty_world, [])")
  have "sorted (map called_at bot_calls)" by (simp add: bot_calls_def)
  then have "of_nat (admitted ''b'' (c # cs) rs) \<le> of_int (sanitize_burst (p_burst bot_params) (fallback_burst bot_limiter)) +
      (called_at (last (c # cs)) - called_at c) * sanitize_rps (p_rps bot_params) (fallback_rps bot_limiter)"
    by (intro admitted_window [OF mem_buckets.bucket_laws_axioms _ _ _ _ run, where before = "[]" and w = empty_world and obs = "[]"])
      (simp_all add: bot_limiter_def empty_world_def mem_buckets_def c)
  then show ?thesis using run
    unfolding c by (simp add: bot_limiter_def bot_params_def sanitize_rps_def sanitize_burst_def)
qed

end
