(* ===== verification/Cutover.thy ===== *)
theory Cutover
  imports Go_Strings "HOL-Library.Word"
begin

text \<open>
  \<open>pkg/cutover\<close>: the one-way switch of a data path, a singleton row in MySQL that an operator flips
  from the inactive to the active mode, and the guard that a deployment sets on the expected mode.
  MySQL is the row and, for each statement of a flip, whether it fails; a commit can also take effect
  and lose its acknowledgement.  The pinned connection is its session lock-wait timeout and what becomes of
  it.  Go's joined errors are the list of their causes, \<open>nil\<close> the empty list.
\<close>

section \<open>The state row\<close>

text \<open>The table: not migrated, not seeded, or the row with mode, epoch and floor.\<close>

datatype table = NoTable | NoRow | Row int "64 word" int

datatype cutover_error =
    NilSession
  | StateMissing
  | StateTableMissing
  | Failed string
  | UnknownMode int
  | FloorTooLow int int
  | FloorTooHigh int int
  | FlipInvariant int

text \<open>\<open>errors.Is(err, ErrStateMissing)\<close>: the missing table wraps the missing row.\<close>

fun is_state_missing :: "cutover_error \<Rightarrow> bool" where
  "is_state_missing StateMissing = True"
| "is_state_missing StateTableMissing = True"
| "is_state_missing _ = False"

definition mode_inactive :: int where "mode_inactive = 0"
definition mode_active :: int where "mode_active = 1"

record state =
  mode :: int
  epoch :: "64 word"
  floor_at :: int

definition active :: "state \<Rightarrow> bool" where
  "active s = (mode s = mode_active)"

text \<open>\<open>ReadState\<close>; \<open>db\<close> is \<open>None\<close> for a nil session, and \<open>fails\<close> a failure of the query.\<close>

definition read_state :: "bool \<Rightarrow> table option \<Rightarrow> cutover_error + state" where
  "read_state fails db =
     (case db of
        None \<Rightarrow> Inl NilSession
      | Some t \<Rightarrow>
          if fails then Inl (Failed ''read'')
          else (case t of
                  NoTable \<Rightarrow> Inl StateTableMissing
                | NoRow \<Rightarrow> Inl StateMissing
                | Row m e f \<Rightarrow> Inr \<lparr>mode = m, epoch = e, floor_at = f\<rparr>))"

section \<open>The guard\<close>

record expected_mode =
  is_set :: bool
  malformed :: bool
  asserted :: int

datatype guard_verdict = GuardOK | GuardMalformed | GuardMismatch

definition parse_expected_mode :: "string \<Rightarrow> (string \<times> int) list \<Rightarrow> expected_mode" where
  "parse_expected_mode raw values =
     (if raw = [] then \<lparr>is_set = False, malformed = False, asserted = 0\<rparr>
      else (case map_of values (trim_space raw) of
              Some m \<Rightarrow> \<lparr>is_set = True, malformed = False, asserted = m\<rparr>
            | None \<Rightarrow> \<lparr>is_set = True, malformed = True, asserted = 0\<rparr>))"

definition is_malformed :: "expected_mode \<Rightarrow> bool" where
  "is_malformed e = (is_set e \<and> malformed e)"

definition expected :: "expected_mode \<Rightarrow> int \<times> bool" where
  "expected e = (asserted e, is_set e \<and> \<not> malformed e)"

definition guard_check :: "expected_mode \<Rightarrow> int \<Rightarrow> guard_verdict" where
  "guard_check e resolved =
     (if \<not> is_set e then GuardOK
      else if malformed e then GuardMalformed
      else if resolved \<noteq> asserted e then GuardMismatch
      else GuardOK)"

text \<open>The guard lets a mode pass when nothing was typed, or when what was typed names that mode.\<close>

lemma guard_exact:
  "guard_check (parse_expected_mode raw values) m = GuardOK \<longleftrightarrow>
     raw = [] \<or> map_of values (trim_space raw) = Some m"
  by (auto simp: guard_check_def parse_expected_mode_def split: option.splits)

section \<open>The flip\<close>

text \<open>\<open>FlipSpec\<close>; \<open>observe\<close> is the function or nil, and what it returns under the lock.\<close>

record flip_spec =
  floor_req :: int
  max_floor :: int
  must_exceed :: bool
  observe :: "(cutover_error + int) option"
  lock_wait_seconds :: int

datatype commit_result = Committed | AckLost | NotCommitted

text \<open>What fails in one call of \<open>Flip\<close>.\<close>

record faults =
  conn_fails :: bool
  read_timeout_fails :: bool
  set_timeout_fails :: bool
  begin_fails :: bool
  lock_fails :: bool
  update_fails :: bool
  rows_fails :: bool
  restore_fails :: bool
  detached_restore_fails :: bool
  close_fails :: bool
  commit :: commit_result

text \<open>What becomes of the pinned connection: none was pinned, back to the pool with its session
  timeout, or discarded.\<close>

datatype conn_end = Unpinned | Pooled int | Discarded

text \<open>\<open>restoreLockWaitTimeout\<close>, before the commit or detached: the session value after it and its error.\<close>

definition restore_lock_wait_timeout :: "bool \<Rightarrow> int \<Rightarrow> int \<Rightarrow> int \<times> cutover_error list" where
  "restore_lock_wait_timeout fails previous session =
     (if fails then (session, [Failed ''restore'']) else (previous, []))"

definition close_flip_connection :: "faults \<Rightarrow> bool \<Rightarrow> int \<Rightarrow> conn_end \<times> cutover_error list" where
  "close_flip_connection fl discard session =
     (if discard then (Discarded, if close_fails fl then [Failed ''close''] else [])
      else (Pooled session, if close_fails fl then [Failed ''close''] else []))"

text \<open>\<open>flipTx\<close>: pinned or not, the session value, the previous one, and \<open>restored\<close>.\<close>

record flip_tx =
  pinned :: bool
  session :: int
  previous :: int
  restored :: bool

definition begin_flip_tx :: "faults \<Rightarrow> int \<Rightarrow> int \<Rightarrow> (conn_end \<times> cutover_error list) + flip_tx" where
  "begin_flip_tx fl lock_wait timeout =
     (if lock_wait \<le> 0 then
        (if begin_fails fl then Inl (Unpinned, [Failed ''begin''])
         else Inr \<lparr>pinned = False, session = 0, previous = 0, restored = True\<rparr>)
      else if conn_fails fl then Inl (Unpinned, [Failed ''conn''])
      else if read_timeout_fails fl then Inl (Pooled timeout, [Failed ''read timeout''])
      else if set_timeout_fails fl then Inl (Pooled timeout, [Failed ''set timeout''])
      else if begin_fails fl then
        (let (s, re) = restore_lock_wait_timeout (detached_restore_fails fl) timeout lock_wait;
             (c, ce) = close_flip_connection fl (re \<noteq> []) s
         in Inl (c, Failed ''begin'' # re @ ce))
      else Inr \<lparr>pinned = True, session = lock_wait, previous = timeout, restored = False\<rparr>)"

definition restore_before_commit :: "faults \<Rightarrow> flip_tx \<Rightarrow> flip_tx \<times> cutover_error list" where
  "restore_before_commit fl tx =
     (if restored tx then (tx, [])
      else
        (let (s, e) = restore_lock_wait_timeout (restore_fails fl) (previous tx) (session tx)
         in (tx\<lparr>session := s, restored := (e = [])\<rparr>, e)))"

definition cleanup :: "faults \<Rightarrow> flip_tx \<Rightarrow> conn_end \<times> cutover_error list" where
  "cleanup fl tx =
     (if \<not> pinned tx then (Unpinned, [])
      else
        (let (s, re) = (if restored tx then (session tx, [])
                        else restore_lock_wait_timeout (detached_restore_fails fl) (previous tx) (session tx));
             (c, ce) = close_flip_connection fl (re \<noteq> []) s
         in (c, re @ ce)))"

text \<open>The floor checks of \<open>Flip\<close>, in its order.\<close>

definition check_floor :: "flip_spec \<Rightarrow> cutover_error + unit" where
  "check_floor sp =
     (case (case observe sp of
              None \<Rightarrow> Inr ()
            | Some (Inl e) \<Rightarrow> Inl e
            | Some (Inr observed) \<Rightarrow>
                if (if must_exceed sp then floor_req sp \<le> observed else floor_req sp < observed)
                then Inl (FloorTooLow (floor_req sp) observed) else Inr ()) of
        Inl e \<Rightarrow> Inl e
      | Inr _ \<Rightarrow>
          if 0 < max_floor sp \<and> max_floor sp < floor_req sp
          then Inl (FloorTooHigh (floor_req sp) (max_floor sp)) else Inr ())"

text \<open>
  The conditional \<open>UPDATE\<close>: the table after it and the number of rows that it matched.
\<close>

definition update_row :: "64 word \<Rightarrow> int \<Rightarrow> table \<Rightarrow> table \<times> int" where
  "update_row e f t =
     (case t of Row m _ _ \<Rightarrow> if m = mode_inactive then (Row mode_active e f, 1) else (t, 0) | _ \<Rightarrow> (t, 0))"

record flip_result =
  flipped :: bool
  new_epoch :: "64 word"
  errs :: "cutover_error list"
  conn :: conn_end

text \<open>The body of \<open>Flip\<close> between \<open>beginFlipTx\<close> and the deferred cleanup: the table, the transaction and
  the named results.\<close>

definition flip_body :: "faults \<Rightarrow> flip_spec \<Rightarrow> flip_tx \<Rightarrow> table
    \<Rightarrow> table \<times> flip_tx \<times> bool \<times> 64 word \<times> cutover_error list" where
  "flip_body fl sp tx t =
     (let fail = (\<lambda>e. (t, tx, False, 0, [e])) in
      if t = NoTable then fail StateTableMissing
      else if lock_fails fl then fail (Failed ''lock'')
      else (case t of
        Row m e f \<Rightarrow>
          if m = mode_active then (t, tx, False, e, [])
          else if m \<noteq> mode_inactive then fail (UnknownMode m)
          else (case check_floor sp of
            Inl err \<Rightarrow> fail err
          | Inr _ \<Rightarrow>
              if update_fails fl then fail (Failed ''update'')
              else
                let (t', affected) = update_row (e + 1) (floor_req sp) t
                in if rows_fails fl then fail (Failed ''rows'')
                   else if affected \<noteq> 1 then fail (FlipInvariant affected)
                   else
                     let (tx, re) = restore_before_commit fl tx
                     in if re \<noteq> [] then (t, tx, False, 0, re)
                        else (case commit fl of
                          Committed \<Rightarrow> (t', tx, True, e + 1, [])
                        | AckLost \<Rightarrow> (t', tx, False, 0, [Failed ''commit''])
                        | NotCommitted \<Rightarrow> (t, tx, False, 0, [Failed ''commit''])))
      | _ \<Rightarrow> fail StateMissing))"

definition flip :: "faults \<Rightarrow> flip_spec \<Rightarrow> int \<Rightarrow> table \<Rightarrow> table \<times> flip_result" where
  "flip fl sp timeout t =
     (case begin_flip_tx fl (lock_wait_seconds sp) timeout of
        Inl (c, es) \<Rightarrow> (t, \<lparr>flipped = False, new_epoch = 0, errs = es, conn = c\<rparr>)
      | Inr tx \<Rightarrow>
          (let (t', tx, ok, e, es) = flip_body fl sp tx t;
               (c, ce) = cleanup fl tx
           in (t', \<lparr>flipped = ok, new_epoch = e, errs = es @ ce, conn = c\<rparr>)))"

text \<open>Operators run the command again and again, each time with its own floor and its own failures.\<close>

fun flips :: "(faults \<times> flip_spec \<times> int) list \<Rightarrow> table \<Rightarrow> table \<times> flip_result list" where
  "flips [] t = (t, [])"
| "flips ((fl, sp, timeout) # xs) t =
     (let (t, res) = flip fl sp timeout t; (t, rs) = flips xs t in (t, res # rs))"

section \<open>One flip\<close>

lemmas flip_defs = flip_def flip_body_def begin_flip_tx_def restore_before_commit_def cleanup_def
  restore_lock_wait_timeout_def close_flip_connection_def update_row_def

lemma modes [simp]: "mode_inactive \<noteq> mode_active" "mode_active \<noteq> mode_inactive"
  by (simp_all add: mode_active_def mode_inactive_def)

text \<open>The transaction of a flip that began: what is restored is the value that was there.\<close>

definition tx_ok :: "int \<Rightarrow> flip_tx \<Rightarrow> bool" where
  "tx_ok timeout tx \<longleftrightarrow> pinned tx \<longrightarrow> previous tx = timeout \<and> (restored tx \<longrightarrow> session tx = timeout)"

lemma begin_ok: "begin_flip_tx fl lw timeout = Inr tx \<Longrightarrow> tx_ok timeout tx"
  by (auto simp: begin_flip_tx_def tx_ok_def Let_def split: if_splits prod.splits)

lemma begin_conn: "begin_flip_tx fl lw timeout = Inl (Pooled v, es) \<Longrightarrow> v = timeout"
  by (auto simp: begin_flip_tx_def restore_lock_wait_timeout_def close_flip_connection_def Let_def
      split: if_splits)

lemma restore_ok: "tx_ok timeout tx \<Longrightarrow> restore_before_commit fl tx = (tx', es) \<Longrightarrow> tx_ok timeout tx'"
  by (auto simp: restore_before_commit_def restore_lock_wait_timeout_def tx_ok_def Let_def split: if_splits)

lemma cleanup_conn: "tx_ok timeout tx \<Longrightarrow> cleanup fl tx = (Pooled v, es) \<Longrightarrow> v = timeout"
  by (auto simp: cleanup_def restore_lock_wait_timeout_def close_flip_connection_def tx_ok_def Let_def
      split: if_splits)

lemma body_cases:
  assumes "flip_body fl sp tx t = (t', tx', ok, e', es)" and "tx_ok timeout tx"
  shows "tx_ok timeout tx'"
    and "t' = t \<and> \<not> ok \<or>
      (\<exists>e f. t = Row mode_inactive e f \<and> t' = Row mode_active (e + 1) (floor_req sp) \<and>
        check_floor sp = Inr () \<and> (ok \<longrightarrow> e' = e + 1 \<and> es = []))"
    and "\<not> ok \<Longrightarrow> es = [] \<Longrightarrow> t' = t \<and> (\<exists>f. t = Row mode_active e' f)"
  using assms restore_ok [OF assms(2)]
  by (auto simp: flip_body_def update_row_def Let_def split: table.splits if_splits sum.splits prod.splits
      commit_result.splits)

lemma flip_cases:
  assumes "flip fl sp timeout t = (t', res)"
  shows "t' = t \<and> \<not> flipped res \<or>
      (\<exists>e f. t = Row mode_inactive e f \<and> t' = Row mode_active (e + 1) (floor_req sp) \<and>
        check_floor sp = Inr () \<and> (flipped res \<longrightarrow> new_epoch res = e + 1))"
    and "conn res = Pooled v \<Longrightarrow> v = timeout"
    and "\<not> flipped res \<Longrightarrow> errs res = [] \<Longrightarrow> t' = t \<and> (\<exists>f. t = Row mode_active (new_epoch res) f)"
proof -
  have "(t' = t \<and> \<not> flipped res \<or>
      (\<exists>e f. t = Row mode_inactive e f \<and> t' = Row mode_active (e + 1) (floor_req sp) \<and>
        check_floor sp = Inr () \<and> (flipped res \<longrightarrow> new_epoch res = e + 1))) \<and>
    (conn res = Pooled v \<longrightarrow> v = timeout) \<and>
    (\<not> flipped res \<longrightarrow> errs res = [] \<longrightarrow> t' = t \<and> (\<exists>f. t = Row mode_active (new_epoch res) f))"
  proof (cases "begin_flip_tx fl (lock_wait_seconds sp) timeout")
    case (Inl x)
    then obtain c es where x: "begin_flip_tx fl (lock_wait_seconds sp) timeout = Inl (c, es)" by (cases x) simp
    then have "es \<noteq> []"
      by (auto simp: begin_flip_tx_def Let_def split: if_splits prod.splits)
    then show ?thesis using assms x begin_conn [of fl _ timeout v es] by (auto simp: flip_def)
  next
    case (Inr tx)
    obtain t1 tx1 ok e es where b: "flip_body fl sp tx t = (t1, tx1, ok, e, es)" by (metis prod_cases5)
    obtain c ce where cl: "cleanup fl tx1 = (c, ce)" by (cases "cleanup fl tx1")
    have r: "t' = t1" "flipped res = ok" "new_epoch res = e" "errs res = es @ ce" "conn res = c"
      using assms Inr b cl by (auto simp: flip_def)
    note bc = body_cases [OF b begin_ok [OF Inr]]
    show ?thesis unfolding r using bc cleanup_conn [OF bc(1), of fl v ce] cl by blast
  qed
  then show "t' = t \<and> \<not> flipped res \<or>
      (\<exists>e f. t = Row mode_inactive e f \<and> t' = Row mode_active (e + 1) (floor_req sp) \<and>
        check_floor sp = Inr () \<and> (flipped res \<longrightarrow> new_epoch res = e + 1))"
    and "conn res = Pooled v \<Longrightarrow> v = timeout"
    and "\<not> flipped res \<Longrightarrow> errs res = [] \<Longrightarrow> t' = t \<and> (\<exists>f. t = Row mode_active (new_epoch res) f)"
    by blast+
qed

text \<open>An active row stays, whatever is run.\<close>

lemma active_stays:
  assumes "flips xs (Row mode_active e f) = (t', rs)"
  shows "t' = Row mode_active e f \<and> filter flipped rs = []"
  using assms
proof (induction xs arbitrary: rs)
  case Nil
  then show ?case by simp
next
  case (Cons x xs)
  obtain fl sp tm where x: "x = (fl, sp, tm)" by (cases x)
  obtain t1 res where f: "flip fl sp tm (Row mode_active e f) = (t1, res)" by (metis prod.collapse)
  have t1: "t1 = Row mode_active e f" "\<not> flipped res" using flip_cases(1) [OF f] by auto
  obtain rs1 where "flips xs (Row mode_active e f) = (t', rs1)" and rs: "rs = res # rs1"
    using Cons.prems f t1 by (auto simp: x split: prod.splits)
  then show ?case using Cons.IH t1 by simp
qed

lemma flips_sessions:
  assumes "flips xs t = (t', rs)" and "i < length rs" and "conn (rs ! i) = Pooled v"
  shows "v = snd (snd (xs ! i))"
  using assms
proof (induction xs arbitrary: t rs i)
  case Nil
  then show ?case by simp
next
  case (Cons x xs)
  obtain fl sp tm where x: "x = (fl, sp, tm)" by (cases x)
  obtain t1 res where f: "flip fl sp tm t = (t1, res)" by (metis prod.collapse)
  obtain rs1 where c: "flips xs t1 = (t', rs1)" and rs: "rs = res # rs1"
    using Cons.prems(1) f by (auto simp: x split: prod.splits)
  show ?case
  proof (cases i)
    case 0
    then show ?thesis using Cons.prems(3) flip_cases(2) [OF f] by (simp add: rs x)
  next
    case (Suc j)
    then show ?thesis using Cons.IH [OF c] Cons.prems(2,3) by (simp add: rs)
  qed
qed

text \<open>C26: the cutover is one-way and happens at most once.  However often operators run it, with whatever
  floors and whatever failures of the database, the row is as it was seeded or it is active, one
  epoch later, with a floor that one of the runs asked for and that passed its checks; at most one run
  reports that it flipped; and a pinned connection goes back to the pool only with its own timeout.
\<close>

theorem flips_once:
  assumes "flips xs (Row mode_inactive e f) = (t, rs)"
  shows "(t = Row mode_inactive e f \<and> filter flipped rs = [] \<or>
      (\<exists>fl sp tm. (fl, sp, tm) \<in> set xs \<and> check_floor sp = Inr () \<and> t = Row mode_active (e + 1) (floor_req sp) \<and>
        length (filter flipped rs) \<le> 1)) \<and>
    (i < length rs \<and> conn (rs ! i) = Pooled v \<longrightarrow> v = snd (snd (xs ! i)))"
proof -
  have "t = Row mode_inactive e f \<and> filter flipped rs = [] \<or>
      (\<exists>fl sp tm. (fl, sp, tm) \<in> set xs \<and> check_floor sp = Inr () \<and> t = Row mode_active (e + 1) (floor_req sp) \<and>
        length (filter flipped rs) \<le> 1)"
    using assms
  proof (induction xs arbitrary: rs)
    case Nil
    then show ?case by simp
  next
    case (Cons x xs)
    obtain fl sp tm where x: "x = (fl, sp, tm)" by (cases x)
    obtain t1 res where fp: "flip fl sp tm (Row mode_inactive e f) = (t1, res)" by (metis prod.collapse)
    obtain rs1 where c: "flips xs t1 = (t, rs1)" and rs: "rs = res # rs1"
      using Cons.prems fp by (auto simp: x split: prod.splits)
    from flip_cases(1) [OF fp] show ?case
    proof
      assume k: "t1 = Row mode_inactive e f \<and> \<not> flipped res"
      then show ?thesis using Cons.IH [of rs1] c by (auto simp: rs)
    next
      assume "\<exists>e' f'. Row mode_inactive e f = Row mode_inactive e' f' \<and>
        t1 = Row mode_active (e' + 1) (floor_req sp) \<and> check_floor sp = Inr () \<and> (flipped res \<longrightarrow> new_epoch res = e' + 1)"
      then have t1: "t1 = Row mode_active (e + 1) (floor_req sp)" and fl: "check_floor sp = Inr ()" by auto
      from active_stays [OF c [unfolded t1]] show ?thesis using fl by (auto simp: rs x)
    qed
  qed
  then show ?thesis using flips_sessions [OF assms] by blast
qed

definition no_faults :: faults where
  "no_faults = \<lparr>conn_fails = False, read_timeout_fails = False, set_timeout_fails = False, begin_fails = False,
     lock_fails = False, update_fails = False, rows_fails = False, restore_fails = False,
     detached_restore_fails = False, close_fails = False, commit = Committed\<rparr>"

definition ask :: "int \<Rightarrow> flip_spec" where
  "ask f = \<lparr>floor_req = f, max_floor = 1000, must_exceed = True, observe = Some (Inr 41), lock_wait_seconds = 5\<rparr>"

definition three_runs :: "(faults \<times> flip_spec \<times> int) list" where
  "three_runs = [(no_faults, ask 41, 50), (no_faults\<lparr>commit := AckLost\<rparr>, ask 42, 50), (no_faults, ask 60, 50)]"

lemma three_runs_result:
  "flips three_runs (Row mode_inactive 6 0) =
     (Row mode_active 7 42,
      [\<lparr>flipped = False, new_epoch = 0, errs = [FloorTooLow 41 41], conn = Pooled 50\<rparr>,
       \<lparr>flipped = False, new_epoch = 0, errs = [Failed ''commit''], conn = Pooled 50\<rparr>,
       \<lparr>flipped = False, new_epoch = 7, errs = [], conn = Pooled 50\<rparr>])"
  by (simp add: three_runs_def ask_def no_faults_def flip_defs check_floor_def)

lemma flips_once_witness:
  "(\<exists>fl sp tm. (fl, sp, tm) \<in> set three_runs \<and> check_floor sp = Inr () \<and>
      (Row mode_active 7 42 :: table) = Row mode_active (6 + 1) (floor_req sp)) \<and> (50 :: int) = snd (snd (three_runs ! 1))"
  using flips_once [OF three_runs_result, of 1 50] by auto

end
