(* ===== verification/Msg_Extra_Seq.thy ===== *)
theory Msg_Extra_Seq
  imports Prelude Cutover
begin

text \<open>
  \<open>internal/msgextraseq\<close>: the allocator of message_extra versions, the sync cursors of clients.  A
  version below a cursor that a client already has is never seen, so versions of a channel must grow in
  the order of their commits.  Modelled are a reservation inside a caller's transaction, the operator's
  activation (over \<open>Cutover\<close>), and the transactions of any number of replicas as a step relation with
  the row locks that the statements take.  MySQL is the tables; each statement can fail, and reads
  without a lock see a snapshot that can be any older state.  The legacy allocator \<open>GenSeq\<close> is library
  code: its values are a parameter, at most the block boundary that it stores.
\<close>

section \<open>Tables and errors\<close>

datatype channel = Channel (channel_id: string) (channel_type: nat)

text \<open>The state row, the sequence rows, \<open>message_extra\<close> and the block boundaries of \<open>seq\<close> by channel id.\<close>

record db =
  state_row :: table
  seqs :: "channel \<Rightarrow> int option"
  extras :: "(channel \<times> int) list"
  boundaries :: "(string \<times> int) list"

datatype seq_error =
    InvalidCount
  | Overflow
  | UnknownAllocatorMode
  | ExpectedModeMismatch
  | InvariantViolation
  | StateRowMissing
  | StateTableAbsent
  | BelowObserved
  | AboveMaximum
  | StatementFailed string

definition max_reserve_count :: int where "max_reserve_count = 1000"
definition max_safe_integer :: int where "max_safe_integer = 2 ^ 53 - 1"
definition max_cutover_floor :: int where "max_cutover_floor = max_safe_integer - max_reserve_count"

definition expected_mode_spellings :: "(string \<times> int) list" where
  "expected_mode_spellings = [(''legacy'', mode_inactive), (''transactional'', mode_active)]"

text \<open>Which statements of a reservation fail, and whether \<open>RowsAffected\<close> does.\<close>

record statement_faults =
  state_fails :: bool
  read_fails :: bool
  max_extra_fails :: bool
  legacy_read_fails :: bool
  insert_fails :: bool
  for_update_fails :: bool
  advance_fails :: bool
  affected_fails :: bool

section \<open>A reservation\<close>

definition assert_expected_mode :: "expected_mode \<Rightarrow> int \<Rightarrow> seq_error + unit" where
  "assert_expected_mode guard m =
     (case guard_check guard m of GuardOK \<Rightarrow> Inr () | _ \<Rightarrow> Inl ExpectedModeMismatch)"

text \<open>\<open>readStateForShare\<close>: mode, epoch and floor; a missing row is legacy, a missing table an error.\<close>

definition read_state_for_share :: "statement_faults \<Rightarrow> expected_mode \<Rightarrow> table \<Rightarrow> seq_error + state" where
  "read_state_for_share fl guard t =
     bind_res
       (if state_fails fl then Inl (StatementFailed ''read state'')
        else (case t of
                NoTable \<Rightarrow> Inl (StatementFailed ''read state'')
              | NoRow \<Rightarrow> Inr \<lparr>mode = mode_inactive, epoch = 0, floor_at = 0\<rparr>
              | Row m e f \<Rightarrow>
                  if m \<noteq> mode_inactive \<and> m \<noteq> mode_active then Inl UnknownAllocatorMode
                  else Inr \<lparr>mode = m, epoch = e, floor_at = f\<rparr>))
       (\<lambda>st. bind_res (assert_expected_mode guard (mode st)) (\<lambda>_. Inr st))"

definition store_mode :: "statement_faults \<Rightarrow> expected_mode \<Rightarrow> table \<Rightarrow> seq_error + int" where
  "store_mode fl guard t = bind_res (read_state_for_share fl guard t) (\<lambda>st. Inr (mode st))"

text \<open>\<open>computeBootstrap\<close>, on the snapshot.\<close>

definition max_or_zero :: "int list \<Rightarrow> int" where
  "max_or_zero xs = (if xs = [] then 0 else Max (set xs))"

definition compute_bootstrap :: "statement_faults \<Rightarrow> db \<Rightarrow> channel \<Rightarrow> int \<Rightarrow> seq_error + int" where
  "compute_bootstrap fl snap c floor =
     (if max_extra_fails fl then Inl (StatementFailed ''bootstrap max message_extra'')
      else
        let max_extra = max_or_zero (map snd (filter (\<lambda>(c', _). c' = c) (extras snap)));
            baseline = (if floor < max_extra then max_extra else floor)
        in if legacy_read_fails fl then Inl (StatementFailed ''bootstrap legacy seq'')
           else
             let legacy_min = (case map_of (boundaries snap) (channel_id c) of None \<Rightarrow> 0 | Some b \<Rightarrow> b)
             in Inr (if baseline < legacy_min then legacy_min else baseline))"

text \<open>
  \<open>lockSequenceRow\<close>: \<open>rows\<close> are the sequence rows as the locking statements of this transaction see
  them.  The first read does not lock, so it sees the snapshot; the upsert keeps a row that exists.
\<close>

definition upsert_row :: "channel \<Rightarrow> int \<Rightarrow> (channel \<Rightarrow> int option) \<Rightarrow> channel \<Rightarrow> int option" where
  "upsert_row c baseline rows = (case rows c of None \<Rightarrow> rows(c := Some baseline) | Some _ \<Rightarrow> rows)"

definition lock_sequence_row ::
    "statement_faults \<Rightarrow> db \<Rightarrow> channel \<Rightarrow> int \<Rightarrow> (channel \<Rightarrow> int option)
     \<Rightarrow> seq_error + int \<times> (channel \<Rightarrow> int option)" where
  "lock_sequence_row fl snap c floor rows =
     bind_res
       (if read_fails fl then Inl (StatementFailed ''read sequence'')
        else if seqs snap c \<noteq> None then Inr rows
        else
          bind_res (compute_bootstrap fl snap c floor) (\<lambda>baseline.
            if insert_fails fl then Inl (StatementFailed ''initialize sequence'')
            else Inr (upsert_row c baseline rows)))
       (\<lambda>rows.
          if for_update_fails fl then Inl (StatementFailed ''lock sequence'')
          else (case rows c of None \<Rightarrow> Inl InvariantViolation | Some cur \<Rightarrow> Inr (cur, rows)))"

text \<open>\<open>reserveTransactional\<close>: the versions and the rows as this transaction has written them.\<close>

definition reserve_transactional ::
    "statement_faults \<Rightarrow> db \<Rightarrow> channel \<Rightarrow> nat \<Rightarrow> int \<Rightarrow> (channel \<Rightarrow> int option)
     \<Rightarrow> seq_error + int list \<times> (channel \<Rightarrow> int option)" where
  "reserve_transactional fl snap c n floor rows =
     bind_res (lock_sequence_row fl snap c floor rows) (\<lambda>(cur, rows).
       let cur = (if cur < floor then floor else cur)
       in if max_safe_integer - int n < cur then Inl Overflow
          else
            let next = cur + int n
            in if advance_fails fl then Inl (StatementFailed ''advance sequence'')
               else
                 let affected = (if rows c = None then 0 else 1 :: int);
                     rows = (if rows c = None then rows else rows(c := Some next))
                 in if \<not> affected_fails fl \<and> affected = 0 then Inl InvariantViolation
                    else Inr (map (\<lambda>i. cur + int i + 1) [0..<n], rows))"

text \<open>\<open>reserveLegacy\<close>: one call of \<open>GenSeq\<close> per version; \<open>gen\<close> are its results, \<open>None\<close> an error.\<close>

fun reserve_legacy :: "nat \<Rightarrow> int option list \<Rightarrow> seq_error + int list" where
  "reserve_legacy 0 gen = Inr []"
| "reserve_legacy (Suc n) (Some v # gen) = bind_res (reserve_legacy n gen) (\<lambda>vs. Inr (v # vs))"
| "reserve_legacy (Suc n) _ = Inl (StatementFailed ''legacy GenSeq'')"

text \<open>\<open>ReserveTx\<close>: the versions, whether they are transactional, and the rows.\<close>

definition reserve_tx ::
    "statement_faults \<Rightarrow> expected_mode \<Rightarrow> int option list \<Rightarrow> db \<Rightarrow> table \<Rightarrow> channel \<Rightarrow> int
     \<Rightarrow> (channel \<Rightarrow> int option) \<Rightarrow> seq_error + int list \<times> bool \<times> (channel \<Rightarrow> int option)" where
  "reserve_tx fl guard gen snap row c n rows =
     (if n \<le> 0 \<or> max_reserve_count < n then Inl InvalidCount
      else
        bind_res (read_state_for_share fl guard row) (\<lambda>st.
          if mode st = mode_inactive
          then bind_res (reserve_legacy (nat n) gen) (\<lambda>vs. Inr (vs, False, rows))
          else if mode st = mode_active
          then bind_res (reserve_transactional fl snap c (nat n) (floor_at st) rows)
                 (\<lambda>(vs, rows). Inr (vs, True, rows))
          else Inl UnknownAllocatorMode))"

section \<open>Activation\<close>

text \<open>The Redis cursors as the scan returns them: per key the pages of field and value entries.\<close>

record cursor_evidence =
  max_cursor :: int
  key_count :: int
  field_count :: int
  invalid_count :: int

definition count_cursor :: "int \<Rightarrow> string \<Rightarrow> cursor_evidence \<Rightarrow> cursor_evidence" where
  "count_cursor max_issued v ev =
     (let ev = ev\<lparr>field_count := field_count ev + 1\<rparr>
      in case parse_int64 v of
           None \<Rightarrow> ev\<lparr>invalid_count := invalid_count ev + 1\<rparr>
         | Some cursor \<Rightarrow>
             if cursor < 0 \<or> max_issued < cursor then ev\<lparr>invalid_count := invalid_count ev + 1\<rparr>
             else if max_cursor ev < cursor then ev\<lparr>max_cursor := cursor\<rparr>
             else ev)"

fun count_entries :: "int \<Rightarrow> string list \<Rightarrow> cursor_evidence \<Rightarrow> cursor_evidence" where
  "count_entries m (_ # v # es) ev = count_entries m es (count_cursor m v ev)"
| "count_entries m _ ev = ev"

definition observe_redis_cursors ::
    "int \<Rightarrow> (string \<times> string list list) list \<Rightarrow> bool \<Rightarrow> seq_error + cursor_evidence" where
  "observe_redis_cursors max_issued found fails =
     (if fails then Inl (StatementFailed ''scan'')
      else
        each (\<lambda>(_, pages) ev.
          each (\<lambda>es ev.
              if odd (length es) then Inl (StatementFailed ''odd entry count'')
              else Inr (count_entries (if max_issued < 0 then 0 else max_issued) es ev))
            pages (ev\<lparr>key_count := key_count ev + 1\<rparr>))
          found \<lparr>max_cursor = 0, key_count = 0, field_count = 0, invalid_count = 0\<rparr>)"

definition observed_maxima :: "db \<Rightarrow> int \<times> int" where
  "observed_maxima d = (max_or_zero (map snd (extras d)), max_or_zero (map snd (boundaries d)))"

definition observe_under_drain_barrier ::
    "db \<Rightarrow> bool \<Rightarrow> (string \<times> string list list) list \<Rightarrow> bool \<Rightarrow> seq_error + int" where
  "observe_under_drain_barrier d maxima_fail found scan_fails =
     (if maxima_fail then Inl (StatementFailed ''observe maxima'')
      else
        let (max_version, max_seq) = observed_maxima d;
            observed = (if max_version < max_seq then max_seq else max_version)
        in bind_res (observe_redis_cursors observed found scan_fails) (\<lambda>ev.
             Inr (if observed < max_cursor ev then max_cursor ev else observed)))"

text \<open>The \<open>FlipSpec\<close> that \<open>Activate\<close> builds; an error of \<open>Observe\<close> is passed through.\<close>

definition activation_spec :: "int \<Rightarrow> seq_error + int \<Rightarrow> flip_spec" where
  "activation_spec floor observed =
     \<lparr>floor_req = floor, max_floor = max_cutover_floor, must_exceed = False,
      observe = Some (case observed of Inl _ \<Rightarrow> Inl (Failed ''observe'') | Inr x \<Rightarrow> Inr x),
      lock_wait_seconds = 3\<rparr>"

text \<open>
  The error that \<open>Activate\<close> returns: when the flip happened, the causes as they are; otherwise the first
  case of its \<open>switch\<close> that one of the joined causes matches, or the causes.
\<close>

fun raw_error :: "cutover_error \<Rightarrow> seq_error" where
  "raw_error (Failed s) = StatementFailed s"
| "raw_error _ = StatementFailed ''cutover''"

definition activation_errors :: "bool \<Rightarrow> cutover_error list \<Rightarrow> seq_error list" where
  "activation_errors ok es =
     (if ok then map raw_error es
      else if es = [] then []
      else if list_ex is_state_missing es then [StateRowMissing]
      else if list_ex (\<lambda>e. case e of UnknownMode _ \<Rightarrow> True | _ \<Rightarrow> False) es then [UnknownAllocatorMode]
      else if list_ex (\<lambda>e. case e of FloorTooHigh _ _ \<Rightarrow> True | _ \<Rightarrow> False) es then [AboveMaximum]
      else if list_ex (\<lambda>e. case e of FloorTooLow _ _ \<Rightarrow> True | _ \<Rightarrow> False) es then [BelowObserved]
      else if list_ex (\<lambda>e. case e of FlipInvariant _ \<Rightarrow> True | _ \<Rightarrow> False) es then [InvariantViolation]
      else map raw_error es)"

definition activate ::
    "faults \<Rightarrow> int \<Rightarrow> int \<Rightarrow> bool \<Rightarrow> (string \<times> string list list) list \<Rightarrow> bool \<Rightarrow> db
     \<Rightarrow> db \<times> bool \<times> seq_error list" where
  "activate fl floor timeout maxima_fail found scan_fails d =
     (let (row, res) = flip fl (activation_spec floor (observe_under_drain_barrier d maxima_fail found scan_fails))
                         timeout (state_row d)
      in (d\<lparr>state_row := row\<rparr>, flipped res, activation_errors (flipped res) (errs res)))"

definition current_state :: "bool \<Rightarrow> table \<Rightarrow> seq_error + state" where
  "current_state fails t =
     (case read_state fails (Some t) of
        Inl StateTableMissing \<Rightarrow> Inl StateTableAbsent
      | Inl StateMissing \<Rightarrow> Inl StateRowMissing
      | Inl _ \<Rightarrow> Inl (StatementFailed ''read state'')
      | Inr st \<Rightarrow> Inr st)"

record preflight_result =
  current :: state
  max_message_extra_version :: int
  max_legacy_seq_boundary :: int
  redis_evidence :: cursor_evidence
  recommended_floor :: int

definition preflight ::
    "bool \<Rightarrow> bool \<Rightarrow> (string \<times> string list list) list \<Rightarrow> bool \<Rightarrow> db \<Rightarrow> seq_error + preflight_result" where
  "preflight fails maxima_fail found scan_fails d =
     (case read_state fails (Some (state_row d)) of
        Inl e \<Rightarrow> Inl (if is_state_missing e then StateRowMissing else StatementFailed ''preflight read state'')
      | Inr st \<Rightarrow>
          if maxima_fail then Inl (StatementFailed ''observe maxima'')
          else
            let (max_version, max_seq) = observed_maxima d;
                issued = (if max_version < max_seq then max_seq else max_version)
            in bind_res (observe_redis_cursors issued found scan_fails) (\<lambda>ev.
                 Inr \<lparr>current = st, max_message_extra_version = max_version, max_legacy_seq_boundary = max_seq,
                      redis_evidence = ev,
                      recommended_floor = (if issued < max_cursor ev then max_cursor ev else issued)\<rparr>))"

text \<open>A floor that a preflight recommends passes the activation's check of the same evidence.\<close>

lemma preflight_accepted:
  assumes "preflight fails False found False d = Inr res" and "recommended_floor res \<le> max_cutover_floor"
  shows "check_floor (activation_spec (recommended_floor res) (observe_under_drain_barrier d False found False)) = Inr ()"
  using assms
  by (auto simp: preflight_def observe_under_drain_barrier_def check_floor_def activation_spec_def Let_def bind_res_Inr
      split: sum.splits prod.splits if_splits)

end
