(* ===== verification/Msg_Extra_Props.thy ===== *)
theory Msg_Extra_Props
  imports Msg_Extra_Seq
begin

text \<open>
  Transactions of any number of replicas over the version allocator, and that versions grow in commit
  order.  A transaction's first reservation takes the state row \<open>FOR SHARE\<close> and, in transactional mode,
  the channel's sequence row \<open>FOR UPDATE\<close>; both are kept until it commits or rolls back.
\<close>

section \<open>Transactions\<close>

text \<open>
  The committed tables; per transaction the sequence rows that it has locked and written, whether it
  holds the state row, and the versions it was given (channel, version, transactional or legacy); and
  the versions of committed transactions, in commit order.
\<close>

type_synonym issue = "channel \<times> int \<times> bool"

record sys =
  tables :: db
  written :: "nat \<Rightarrow> channel \<Rightarrow> int option"
  holds :: "nat \<Rightarrow> bool"
  pending :: "nat \<Rightarrow> issue list"
  issued :: "issue list"

definition rows_seen :: "sys \<Rightarrow> nat \<Rightarrow> channel \<Rightarrow> int option" where
  "rows_seen s t c = (case written s t c of None \<Rightarrow> seqs (tables s) c | Some v \<Rightarrow> Some v)"

definition reserved :: "sys \<Rightarrow> nat \<Rightarrow> channel \<Rightarrow> int list \<Rightarrow> bool \<Rightarrow> (channel \<Rightarrow> int option)
    \<Rightarrow> (string \<times> int) list \<Rightarrow> sys" where
  "reserved s t c vs tr rows bs =
     s\<lparr>tables := (tables s)\<lparr>boundaries := bs\<rparr>,
       written := (if tr then (written s)(t := (written s t)(c := rows c)) else written s),
       holds := (holds s)(t := True),
       pending := (pending s)(t := pending s t @ map (\<lambda>v. (c, v, tr)) vs)\<rparr>"

definition ended :: "sys \<Rightarrow> nat \<Rightarrow> sys" where
  "ended s t = s\<lparr>written := (written s)(t := (\<lambda>_. None)), holds := (holds s)(t := False),
                 pending := (pending s)(t := [])\<rparr>"

definition committed :: "sys \<Rightarrow> nat \<Rightarrow> (channel \<times> int) list \<Rightarrow> sys" where
  "committed s t xs =
     (ended s t)\<lparr>tables := (tables s)\<lparr>seqs := rows_seen s t, extras := xs\<rparr>, issued := issued s @ pending s t\<rparr>"

text \<open>The stored boundary of a channel id never falls, and bounds what \<open>GenSeq\<close> has returned.\<close>

definition boundaries_grow :: "(string \<times> int) list \<Rightarrow> (string \<times> int) list \<Rightarrow> bool" where
  "boundaries_grow bs bs' \<longleftrightarrow> (\<forall>k b. map_of bs k = Some b \<longrightarrow> (\<exists>b'. map_of bs' k = Some b' \<and> b \<le> b'))"

definition below_boundary :: "(string \<times> int) list \<Rightarrow> string \<Rightarrow> int \<Rightarrow> bool" where
  "below_boundary bs k v \<longleftrightarrow> (\<exists>b. map_of bs k = Some b \<and> v \<le> b)"

inductive mstep :: "sys \<Rightarrow> sys \<Rightarrow> bool" where
  reserve: "reserve_tx fl guard gen snap (state_row (tables s)) c n (rows_seen s t) = Inr (vs, tr, rows) \<Longrightarrow>
    (\<And>u. u \<noteq> t \<Longrightarrow> tr \<Longrightarrow> written s u c = None) \<Longrightarrow>
    boundaries_grow (boundaries (tables s)) bs \<Longrightarrow>
    (\<And>v. v \<in> set vs \<Longrightarrow> \<not> tr \<Longrightarrow> below_boundary bs (channel_id c) v) \<Longrightarrow>
    mstep s (reserved s t c vs tr rows bs)"
| commit: "mstep s (committed s t xs)"
| roll_back: "mstep s (ended s t)"
| operator: "(\<And>t. \<not> holds s t) \<Longrightarrow> activate fl floor timeout mf found sf (tables s) = (d, ok, es) \<Longrightarrow>
    mstep s (s\<lparr>tables := d\<rparr>)"

definition first_sys :: "db \<Rightarrow> sys" where
  "first_sys d = \<lparr>tables = d, written = (\<lambda>_ _. None), holds = (\<lambda>_. False), pending = (\<lambda>_. []), issued = []\<rparr>"

inductive mreach :: "db \<Rightarrow> sys \<Rightarrow> bool" for d where
  mstart: "mreach d (first_sys d)"
| mnext: "mreach d s \<Longrightarrow> mstep s s' \<Longrightarrow> mreach d s'"

section \<open>One reservation\<close>

lemma compute_bootstrap_floor: "compute_bootstrap fl snap c floor = Inr b \<Longrightarrow> floor \<le> b"
  by (auto simp: compute_bootstrap_def Let_def split: if_splits option.splits)

lemma lock_sequence_row_spec:
  assumes "lock_sequence_row fl snap c floor rows = Inr (cur, rows')"
  shows "rows' c = Some cur" and "rows c = Some x \<Longrightarrow> cur = x"
  using assms
  by (auto simp: lock_sequence_row_def upsert_row_def bind_res_Inr split: if_splits option.splits)

lemma reserve_transactional_spec:
  assumes "reserve_transactional fl snap c n floor rows = Inr (vs, rows')"
  obtains base where "vs = map (\<lambda>i. base + int i + 1) [0..<n]" and "rows' c = Some (base + int n)"
    and "floor \<le> base" and "\<And>x. rows c = Some x \<Longrightarrow> x \<le> base" and "base + int n \<le> max_safe_integer"
proof -
  from assms obtain cur rows1 where l: "lock_sequence_row fl snap c floor rows = Inr (cur, rows1)"
    by (auto simp: reserve_transactional_def bind_res_Inr)
  note sp = lock_sequence_row_spec [OF l]
  show ?thesis
    by (rule that [of "if cur < floor then floor else cur"])
      (use assms l sp in \<open>auto simp: reserve_transactional_def Let_def split: if_splits\<close>)
qed

lemma reserve_tx_spec:
  assumes "reserve_tx fl guard gen snap row c n rows = Inr (vs, tr, rows')"
  obtains (legacy) "\<not> tr" "rows' = rows" "\<And>e f. row \<noteq> Row mode_active e f"
  | (transactional) base e f where "tr" "row = Row mode_active e f"
      "vs = map (\<lambda>i. base + int i + 1) [0..<nat n]" "rows' c = Some (base + n)" "f \<le> base" "0 < n"
      "\<And>x. rows c = Some x \<Longrightarrow> x \<le> base" "base + n \<le> max_safe_integer"
proof -
  from assms obtain st where st: "read_state_for_share fl guard row = Inr st" and n: "0 < n"
    by (auto simp: reserve_tx_def bind_res_Inr split: if_splits)
  then have row: "(row = NoRow \<and> mode st = mode_inactive) \<or> row = Row (mode st) (epoch st) (floor_at st)"
    by (auto simp: read_state_for_share_def bind_res_Inr split: if_splits table.splits)
  show ?thesis
  proof (cases "mode st = mode_inactive")
    case True
    with assms st n row show ?thesis
      by (intro legacy) (auto simp: reserve_tx_def bind_res_Inr split: if_splits)
  next
    case False
    with assms st n have m: "mode st = mode_active" and tr: "tr"
      and rt: "reserve_transactional fl snap c (nat n) (floor_at st) rows = Inr (vs, rows')"
      by (auto simp: reserve_tx_def bind_res_Inr split: if_splits)
    from rt show ?thesis
    proof (rule reserve_transactional_spec)
      fix base
      assume "vs = map (\<lambda>i. base + int i + 1) [0..<nat n]" "rows' c = Some (base + int (nat n))"
        "floor_at st \<le> base" "\<And>x. rows c = Some x \<Longrightarrow> x \<le> base" "base + int (nat n) \<le> max_safe_integer"
      then show ?thesis using row m tr n False by (intro transactional) auto
    qed
  qed
qed

section \<open>The invariant\<close>

definition versions :: "bool \<Rightarrow> channel \<Rightarrow> issue list \<Rightarrow> int list" where
  "versions tr c is = map (\<lambda>(_, v, _). v) (filter (\<lambda>(c', _, tr'). c' = c \<and> tr' = tr) is)"

lemma versions_append [simp]: "versions tr c (xs @ ys) = versions tr c xs @ versions tr c ys"
  by (simp add: versions_def)

lemma versions_Nil [simp]: "versions tr c [] = []"
  by (simp add: versions_def)

lemma versions_new [simp]:
  "versions tr c (map (\<lambda>v. (c', v, tr')) vs) = (if c' = c \<and> tr' = tr then vs else [])"
  by (induction vs) (auto simp: versions_def)

definition locks_ok :: "sys \<Rightarrow> bool" where
  "locks_ok s \<longleftrightarrow>
     (\<forall>t u c. written s t c \<noteq> None \<and> written s u c \<noteq> None \<longrightarrow> t = u) \<and>
     (\<forall>t c. pending s t \<noteq> [] \<or> written s t c \<noteq> None \<longrightarrow> holds s t)"

definition legacy_ok :: "sys \<Rightarrow> bool" where
  "legacy_ok s \<longleftrightarrow>
     (\<forall>t c. written s t c = None \<and> versions True c (pending s t) = []) \<and>
     (\<forall>c. versions True c (issued s) = []) \<and>
     (\<forall>t c v. v \<in> set (versions False c (pending s t)) \<longrightarrow> below_boundary (boundaries (tables s)) (channel_id c) v) \<and>
     (\<forall>c v. v \<in> set (versions False c (issued s)) \<longrightarrow> below_boundary (boundaries (tables s)) (channel_id c) v)"

definition pending_ok :: "sys \<Rightarrow> int \<Rightarrow> nat \<Rightarrow> channel \<Rightarrow> bool" where
  "pending_ok s f t c \<longleftrightarrow>
     sorted_wrt (<) (versions True c (pending s t)) \<and> versions False c (pending s t) = [] \<and>
     (\<forall>v \<in> set (versions True c (pending s t)).
        f < v \<and> v \<le> max_safe_integer \<and> (\<exists>x. written s t c = Some x \<and> v \<le> x) \<and>
        (\<forall>y. seqs (tables s) c = Some y \<longrightarrow> y < v)) \<and>
     (\<forall>x y. written s t c = Some x \<and> seqs (tables s) c = Some y \<longrightarrow> y \<le> x)"

definition issued_ok :: "sys \<Rightarrow> int \<Rightarrow> channel \<Rightarrow> bool" where
  "issued_ok s f c \<longleftrightarrow>
     sorted_wrt (<) (versions True c (issued s)) \<and>
     (\<forall>v \<in> set (versions False c (issued s)). v \<le> f) \<and>
     (\<forall>v \<in> set (versions True c (issued s)).
        f < v \<and> v \<le> max_safe_integer \<and> (\<exists>x. seqs (tables s) c = Some x \<and> v \<le> x))"

definition seq_inv :: "sys \<Rightarrow> bool" where
  "seq_inv s \<longleftrightarrow> locks_ok s \<and>
     (case state_row (tables s) of
        Row m e f \<Rightarrow>
          if m = mode_active then (\<forall>t c. pending_ok s f t c) \<and> (\<forall>c. issued_ok s f c) else legacy_ok s
      | _ \<Rightarrow> legacy_ok s)"

lemma seq_inv_active:
  "state_row (tables s) = Row mode_active e f \<Longrightarrow>
     seq_inv s \<longleftrightarrow> locks_ok s \<and> (\<forall>t c. pending_ok s f t c) \<and> (\<forall>c. issued_ok s f c)"
  by (simp add: seq_inv_def)

lemma seq_inv_legacy:
  "(\<And>e f. state_row (tables s) \<noteq> Row mode_active e f) \<Longrightarrow> seq_inv s \<longleftrightarrow> locks_ok s \<and> legacy_ok s"
  by (auto simp: seq_inv_def split: table.splits)

lemma locks_okD:
  assumes "locks_ok s"
  shows "written s t c = Some x \<Longrightarrow> t \<noteq> u \<Longrightarrow> written s u c = None"
    and "\<not> holds s t \<Longrightarrow> written s t c = None"
    and "\<not> holds s t \<Longrightarrow> pending s t = []"
  using assms unfolding locks_ok_def by (metis not_None_eq)+

lemma legacy_okD:
  assumes "legacy_ok s"
  shows "written s t c = None" and "versions True c (pending s t) = []" and "versions True c (issued s) = []"
    and "v \<in> set (versions False c (pending s t)) \<Longrightarrow> below_boundary (boundaries (tables s)) (channel_id c) v"
    and "v \<in> set (versions False c (issued s)) \<Longrightarrow> below_boundary (boundaries (tables s)) (channel_id c) v"
  using assms unfolding legacy_ok_def by blast+

lemma pending_okD:
  assumes "pending_ok s f t c"
  shows "sorted_wrt (<) (versions True c (pending s t))" and "versions False c (pending s t) = []"
    and "v \<in> set (versions True c (pending s t)) \<Longrightarrow> f < v \<and> v \<le> max_safe_integer"
    and "v \<in> set (versions True c (pending s t)) \<Longrightarrow> \<exists>x. written s t c = Some x \<and> v \<le> x"
    and "v \<in> set (versions True c (pending s t)) \<Longrightarrow> seqs (tables s) c = Some y \<Longrightarrow> y < v"
    and "written s t c = Some x \<Longrightarrow> seqs (tables s) c = Some y \<Longrightarrow> y \<le> x"
  using assms unfolding pending_ok_def by blast+

lemma issued_okD:
  assumes "issued_ok s f c"
  shows "sorted_wrt (<) (versions True c (issued s))"
    and "v \<in> set (versions False c (issued s)) \<Longrightarrow> v \<le> f"
    and "v \<in> set (versions True c (issued s)) \<Longrightarrow> f < v \<and> v \<le> max_safe_integer"
    and "v \<in> set (versions True c (issued s)) \<Longrightarrow> \<exists>x. seqs (tables s) c = Some x \<and> v \<le> x"
  using assms unfolding issued_ok_def by blast+

lemma sorted_new: "sorted_wrt (<) (map (\<lambda>i. base + int i + 1) [0..<n])"
  by (induction n) (simp_all add: sorted_wrt_append)

lemma inv_first: "seq_inv (first_sys d)"
  by (auto simp: seq_inv_def first_sys_def locks_ok_def legacy_ok_def pending_ok_def issued_ok_def split: table.split)

lemma reserved_sel [simp]:
  "seqs (tables (reserved s t c vs tr rows bs)) = seqs (tables s)"
  "state_row (tables (reserved s t c vs tr rows bs)) = state_row (tables s)"
  "boundaries (tables (reserved s t c vs tr rows bs)) = bs"
  "issued (reserved s t c vs tr rows bs) = issued s"
  "pending (reserved s t c vs tr rows bs) u = (if u = t then pending s t @ map (\<lambda>v. (c, v, tr)) vs else pending s u)"
  "written (reserved s t c vs tr rows bs) u d = (if tr \<and> u = t \<and> d = c then rows c else written s u d)"
  "holds (reserved s t c vs tr rows bs) u = (u = t \<or> holds s u)"
  by (auto simp: reserved_def)

lemma ended_sel [simp]:
  "tables (ended s t) = tables s" "issued (ended s t) = issued s"
  "pending (ended s t) u = (if u = t then [] else pending s u)"
  "written (ended s t) u c = (if u = t then None else written s u c)"
  "holds (ended s t) u = (u \<noteq> t \<and> holds s u)"
  by (auto simp: ended_def)

lemma committed_sel [simp]:
  "seqs (tables (committed s t xs)) = rows_seen s t" "state_row (tables (committed s t xs)) = state_row (tables s)"
  "boundaries (tables (committed s t xs)) = boundaries (tables s)"
  "issued (committed s t xs) = issued s @ pending s t"
  "pending (committed s t xs) = pending (ended s t)" "written (committed s t xs) = written (ended s t)"
  "holds (committed s t xs) = holds (ended s t)"
  by (auto simp: committed_def)

lemma below_grows: "below_boundary bs k v \<Longrightarrow> boundaries_grow bs bs' \<Longrightarrow> below_boundary bs' k v"
  unfolding below_boundary_def boundaries_grow_def by (meson order_trans)

lemma locks_reserved:
  assumes "locks_ok s" and "\<And>u. u \<noteq> t \<Longrightarrow> tr \<Longrightarrow> written s u c = None"
  shows "locks_ok (reserved s t c vs tr rows bs)"
  using assms unfolding locks_ok_def by (auto split: if_splits) blast+

lemma locks_ended: "locks_ok s \<Longrightarrow> locks_ok (ended s t)"
  unfolding locks_ok_def by (auto split: if_splits)

section \<open>Every step keeps it\<close>

lemma legacy_okI:
  assumes "\<And>t c. written s t c = None" and "\<And>t c. versions True c (pending s t) = []"
    and "\<And>c. versions True c (issued s) = []"
    and "\<And>t c v. v \<in> set (versions False c (pending s t)) \<Longrightarrow> below_boundary (boundaries (tables s)) (channel_id c) v"
    and "\<And>c v. v \<in> set (versions False c (issued s)) \<Longrightarrow> below_boundary (boundaries (tables s)) (channel_id c) v"
  shows "legacy_ok s"
  using assms unfolding legacy_ok_def by blast

lemma inv_reserve:
  assumes "seq_inv s" and "reserve_tx fl guard gen snap (state_row (tables s)) c n (rows_seen s t) = Inr (vs, tr, rows)"
    and "\<And>u. u \<noteq> t \<Longrightarrow> tr \<Longrightarrow> written s u c = None" and "boundaries_grow (boundaries (tables s)) bs"
    and "\<And>v. v \<in> set vs \<Longrightarrow> \<not> tr \<Longrightarrow> below_boundary bs (channel_id c) v"
  shows "seq_inv (reserved s t c vs tr rows bs)" (is "seq_inv ?s")
proof -
  have lo: "locks_ok s" using assms(1) by (simp add: seq_inv_def)
  have lk: "locks_ok ?s" by (rule locks_reserved [OF lo assms(3)])
  from assms(2) show ?thesis
  proof (cases rule: reserve_tx_spec)
    case legacy
    have lg: "legacy_ok s" using assms(1) legacy(3) by (simp add: seq_inv_legacy)
    note lD = legacy_okD [OF lg]
    have "legacy_ok ?s"
    proof (rule legacy_okI)
      fix u d v
      show "written ?s u d = None" "versions True d (pending ?s u) = []" "versions True d (issued ?s) = []"
        using lD(1-3) legacy(1) by auto
      show "below_boundary (boundaries (tables ?s)) (channel_id d) v" if "v \<in> set (versions False d (issued ?s))"
        using that lD(5) [of v d] below_grows [OF _ assms(4)] by simp
      show "below_boundary (boundaries (tables ?s)) (channel_id d) v" if "v \<in> set (versions False d (pending ?s u))"
        using that lD(4) [of v d u] below_grows [OF _ assms(4)] assms(5) [of v] legacy(1) by (auto split: if_splits)
    qed
    then show ?thesis using lk legacy(3) by (simp add: seq_inv_legacy)
  next
    case (transactional base e f)
    have ok: "\<And>t c. pending_ok s f t c" "\<And>c. issued_ok s f c"
      using assms(1) transactional(2) by (simp_all add: seq_inv_active)
    have old: "v \<le> base" if "v \<in> set (versions True c (pending s t))" for v
    proof -
      from ok(1) [of t c] that obtain x where "written s t c = Some x" "v \<le> x" by (auto simp: pending_ok_def)
      then show ?thesis using transactional(7) [of x] by (simp add: rows_seen_def)
    qed
    have row: "y \<le> base" if "seqs (tables s) c = Some y" for y
    proof (cases "written s t c")
      case None
      then show ?thesis using transactional(7) that by (simp add: rows_seen_def)
    next
      case (Some x)
      then have "y \<le> x" using ok(1) [of t c] that by (simp add: pending_ok_def)
      then show ?thesis using transactional(7) [of x] Some by (simp add: rows_seen_def)
    qed
    have new: "base < v \<and> v \<le> base + n" if "v \<in> set vs" for v
      using that transactional(6) by (auto simp: transactional(3))
    have "pending_ok ?s f u d" for u d
    proof (cases "u = t \<and> d = c")
      case True
      have "sorted_wrt (<) (versions True c (pending s t) @ vs)"
        unfolding sorted_wrt_append
      proof (intro conjI ballI)
        show "sorted_wrt (<) (versions True c (pending s t))" using ok(1) [of t c] by (simp add: pending_ok_def)
        show "sorted_wrt (<) vs" unfolding transactional(3) by (rule sorted_new)
        show "v < w" if "v \<in> set (versions True c (pending s t))" "w \<in> set vs" for v w
          using old [OF that(1)] new [OF that(2)] by simp
      qed
      moreover have "f < v \<and> v \<le> max_safe_integer \<and> v \<le> base + n \<and> (\<forall>y. seqs (tables s) c = Some y \<longrightarrow> y < v)"
        if "v \<in> set (versions True c (pending s t)) \<union> set vs" for v
        using that ok(1) [of t c] old [of v] new [of v] row transactional(5,6,8)
        by (fastforce simp: pending_ok_def)
      ultimately show ?thesis using True ok(1) [of t c] row transactional(1,4,6)
        by (force simp: pending_ok_def)
    next
      case False
      then show ?thesis using ok(1) [of u d] transactional(1) by (auto simp: pending_ok_def)
    qed
    moreover have "issued_ok ?s f d" for d using ok(2) [of d] by (simp add: issued_ok_def)
    ultimately show ?thesis using lk transactional(2) by (simp add: seq_inv_active)
  qed
qed

lemma legacy_ended:
  assumes "legacy_ok s"
  shows "legacy_ok (ended s t)"
proof -
  note lD = legacy_okD [OF assms]
  show ?thesis by (rule legacy_okI) (use lD in \<open>auto split: if_splits\<close>)
qed

lemma legacy_committed:
  assumes "legacy_ok s"
  shows "legacy_ok (committed s t xs)"
proof -
  note lD = legacy_okD [OF assms]
  show ?thesis by (rule legacy_okI) (use lD in \<open>auto split: if_splits\<close>)
qed

lemma inv_ended:
  assumes "seq_inv s"
  shows "seq_inv (ended s t)"
proof -
  have lk: "locks_ok (ended s t)" using assms locks_ended by (simp add: seq_inv_def)
  show ?thesis
  proof (cases "\<exists>e f. state_row (tables s) = Row mode_active e f")
    case False
    then show ?thesis using assms lk legacy_ended by (simp add: seq_inv_legacy)
  next
    case True
    then obtain e f where row: "state_row (tables s) = Row mode_active e f" by blast
    have p: "pending_ok s f u c" and i: "issued_ok s f c" for u c
      using assms row by (simp_all add: seq_inv_active)
    have "pending_ok (ended s t) f u c" for u c using p [of u c] by (simp add: pending_ok_def)
    moreover have "issued_ok (ended s t) f c" for c using i [of c] by (simp add: issued_ok_def)
    ultimately show ?thesis using lk row by (simp add: seq_inv_active)
  qed
qed

lemma inv_commit:
  assumes "seq_inv s"
  shows "seq_inv (committed s t xs)" (is "seq_inv ?s")
proof -
  have lo: "locks_ok s" using assms by (simp add: seq_inv_def)
  have lk: "locks_ok ?s" using locks_ended [OF lo, of t] by (simp add: locks_ok_def)
  show ?thesis
  proof (cases "\<exists>e f. state_row (tables s) = Row mode_active e f")
    case False
    then have "legacy_ok s" using assms by (simp add: seq_inv_legacy)
    then have "legacy_ok ?s" by (rule legacy_committed)
    then show ?thesis using lk False by (simp add: seq_inv_legacy)
  next
    case True
    then obtain e f where row: "state_row (tables s) = Row mode_active e f" by blast
    have p: "pending_ok s f u c" and i: "issued_ok s f c" for u c
      using assms row by (simp_all add: seq_inv_active)
    have "issued_ok ?s f c" for c
    proof -
      note pD = pending_okD [OF p [of t c]] and iD = issued_okD [OF i [of c]]
      have lt: "v < w" if "v \<in> set (versions True c (issued s))" "w \<in> set (versions True c (pending s t))" for v w
        using iD(4) [OF that(1)] pD(5) [OF that(2)] by force
      have "\<exists>x. rows_seen s t c = Some x \<and> v \<le> x" if "v \<in> set (versions True c (issued s))" for v
        using iD(4) [OF that] pD(6) by (cases "written s t c") (auto simp: rows_seen_def intro: order_trans)
      moreover have "\<exists>x. rows_seen s t c = Some x \<and> v \<le> x" if "v \<in> set (versions True c (pending s t))" for v
        using pD(4) [OF that] by (auto simp: rows_seen_def)
      ultimately show ?thesis using iD(1-3) pD(1-3) lt
        by (auto simp: issued_ok_def sorted_wrt_append)
    qed
    moreover have "pending_ok ?s f u c" for u c
    proof (cases "u = t")
      case True
      then show ?thesis by (simp add: pending_ok_def)
    next
      case False
      note pD = pending_okD [OF p [of u c]]
      show ?thesis
      proof (cases "written s t c")
        case None
        then have "rows_seen s t c = seqs (tables s) c" by (simp add: rows_seen_def)
        then show ?thesis using False p [of u c] by (simp add: pending_ok_def)
      next
        case (Some x)
        then have "written s u c = None" using locks_okD(1) [OF lo Some, of u] False by simp
        then show ?thesis using False pD(1,2,4) by (force simp: pending_ok_def)
      qed
    qed
    ultimately show ?thesis using lk row by (simp add: seq_inv_active)
  qed
qed

lemma below_observed:
  assumes "observe_under_drain_barrier d mf found sf = Inr x" and "below_boundary (boundaries d) k v"
  shows "v \<le> x"
proof -
  from assms(2) obtain b where "map_of (boundaries d) k = Some b" and v: "v \<le> b"
    by (auto simp: below_boundary_def)
  then have "b \<in> set (map snd (boundaries d))" by (force dest: map_of_SomeD)
  then have "b \<le> max_or_zero (map snd (boundaries d))" by (auto simp: max_or_zero_def)
  moreover have "max_or_zero (map snd (boundaries d)) \<le> x"
    using assms(1) by (auto simp: observe_under_drain_barrier_def observed_maxima_def Let_def bind_res_Inr split: if_splits)
  ultimately show ?thesis using v by simp
qed

lemma activation_floor:
  "check_floor (activation_spec floor obs) = Inr () \<Longrightarrow>
     \<exists>x. obs = Inr x \<and> x \<le> floor \<and> floor \<le> max_cutover_floor"
  by (cases obs)
    (auto simp: check_floor_def activation_spec_def max_cutover_floor_def max_safe_integer_def max_reserve_count_def
      split: if_splits)

lemma inv_operator:
  assumes "seq_inv s" and "\<And>t. \<not> holds s t" and "activate fl floor timeout mf found sf (tables s) = (d, ok, es)"
  shows "seq_inv (s\<lparr>tables := d\<rparr>)"
proof -
  let ?spec = "activation_spec floor (observe_under_drain_barrier (tables s) mf found sf)"
  obtain row res where fp: "flip fl ?spec timeout (state_row (tables s)) = (row, res)"
    by (metis prod.collapse)
  have d: "d = (tables s)\<lparr>state_row := row\<rparr>" using assms(3) fp by (auto simp: activate_def)
  have lo: "locks_ok s" using assms(1) by (simp add: seq_inv_def)
  have lk: "locks_ok (s\<lparr>tables := d\<rparr>)" using lo by (simp add: locks_ok_def)
  have none: "written s t c = None" "pending s t = []" for t c
    using locks_okD(2,3) [OF lo assms(2)] by simp_all
  from flip_cases(1) [OF fp] consider (same) "row = state_row (tables s)"
    | (flipped) e f where "state_row (tables s) = Row mode_inactive e f"
        "row = Row mode_active (e + 1) (floor_req ?spec)" "check_floor ?spec = Inr ()" by blast
  then show ?thesis
  proof cases
    case same
    then have "s\<lparr>tables := d\<rparr> = s" by (simp add: d)
    then show ?thesis using assms(1) by simp
  next
    case (flipped e f)
    then have lg: "legacy_ok s" using assms(1) by (simp add: seq_inv_legacy)
    have fr: "floor_req ?spec = floor" by (simp add: activation_spec_def)
    obtain x where x: "observe_under_drain_barrier (tables s) mf found sf = Inr x" "x \<le> floor"
      using activation_floor [OF flipped(3)] by blast
    have "v \<le> floor" if "v \<in> set (versions False c (issued s))" for c v
    proof -
      have "below_boundary (boundaries (tables s)) (channel_id c) v" by (rule legacy_okD(5) [OF lg that])
      from below_observed [OF x(1) this] show ?thesis using x(2) by simp
    qed
    then have "issued_ok (s\<lparr>tables := d\<rparr>) floor c" for c
      using legacy_okD(3) [OF lg] by (simp add: issued_ok_def)
    moreover have "pending_ok (s\<lparr>tables := d\<rparr>) floor t c" for t c using none by (simp add: pending_ok_def)
    ultimately show ?thesis using lk flipped(2) fr by (simp add: seq_inv_active d)
  qed
qed

lemma mstep_inv: "mstep s s' \<Longrightarrow> seq_inv s \<Longrightarrow> seq_inv s'"
  by (cases rule: mstep.cases) (auto intro: inv_reserve inv_commit inv_ended inv_operator)

lemma mreach_inv: "mreach d s \<Longrightarrow> seq_inv s"
  by (induction rule: mreach.induct) (auto intro: inv_first mstep_inv)

section \<open>Commit order is version order\<close>

text \<open>C27: however transactions of any number of replicas interleave, fail and retry, and whenever an operator
  activates the new allocator, the versions that committed transactions got from it grow strictly, per
  channel, in the order of the commits; they lie above every version that the legacy allocator gave out for
  the channel, and a JavaScript client can represent them.\<close>

theorem versions_ordered:
  assumes "mreach d s"
  shows "sorted_wrt (<) (versions True c (issued s)) \<and>
    (v \<in> set (versions False c (issued s)) \<and> w \<in> set (versions True c (issued s)) \<longrightarrow> v < w) \<and>
    (w \<in> set (versions True c (issued s)) \<longrightarrow> w \<le> 2 ^ 53 - 1)"
proof (cases "\<exists>e f. state_row (tables s) = Row mode_active e f")
  case True
  then obtain e f where "state_row (tables s) = Row mode_active e f" by blast
  then have "issued_ok s f c" using mreach_inv [OF assms] by (simp add: seq_inv_active)
  from issued_okD [OF this] show ?thesis by (force simp: max_safe_integer_def)
next
  case False
  then have "legacy_ok s" using mreach_inv [OF assms] by (simp add: seq_inv_legacy)
  then show ?thesis by (simp add: legacy_okD(3))
qed

definition no_statement_faults :: statement_faults where
  "no_statement_faults =
     \<lparr>state_fails = False, read_fails = False, max_extra_fails = False, legacy_read_fails = False, insert_fails = False,
      for_update_fails = False, advance_fails = False, affected_fails = False\<rparr>"

definition group_db :: "table \<Rightarrow> db" where
  "group_db row = \<lparr>state_row = row, seqs = (\<lambda>_. None), extras = [], boundaries = [(''g'', 1000)]\<rparr>"

definition no_guard :: expected_mode where
  "no_guard = parse_expected_mode [] expected_mode_spellings"

lemmas run_simps = no_statement_faults_def no_guard_def parse_expected_mode_def reserve_tx_def
  read_state_for_share_def assert_expected_mode_def guard_check_def reserve_transactional_def lock_sequence_row_def
  compute_bootstrap_def upsert_row_def max_or_zero_def group_db_def max_reserve_count_def max_safe_integer_def
  below_boundary_def boundaries_grow_def

lemma example_run:
  "\<exists>s. mreach (group_db (Row mode_inactive 0 0)) s \<and>
     versions False (Channel ''g'' 2) (issued s) = [5] \<and> versions True (Channel ''g'' 2) (issued s) = [1001, 1002]"
proof -
  let ?c = "Channel ''g'' 2" and ?bs = "[(''g'', 1000)]" and ?d = "group_db (Row mode_inactive 0 0)"
  define s0 where "s0 = first_sys ?d"
  define s1 where "s1 = reserved s0 0 ?c [5] False (rows_seen s0 0) ?bs"
  define s2 where "s2 = committed s1 0 [(?c, 5)]"
  define s3 where "s3 = s2\<lparr>tables := (tables s2)\<lparr>state_row := Row mode_active 1 1000\<rparr>\<rparr>"
  define s4 where "s4 = reserved s3 1 ?c [1001, 1002] True ((\<lambda>_. None)(?c := Some 1002)) ?bs"
  define s5 where "s5 = committed s4 1 [(?c, 5), (?c, 1002)]"
  have t: "tables s0 = ?d" "written s0 = (\<lambda>_ _. None)" "holds s0 = (\<lambda>_. False)" "issued s0 = []" "pending s0 = (\<lambda>_. [])"
    by (simp_all add: s0_def first_sys_def)
  have "reserve_tx no_statement_faults no_guard [Some 5] ?d (state_row (tables s0)) ?c 1 (rows_seen s0 0) = Inr ([5], False, rows_seen s0 0)"
    by (simp add: t run_simps)
  then have "mstep s0 s1" unfolding s1_def
    by (rule mstep.reserve) (simp_all add: t run_simps)
  moreover have "mstep s1 s2" unfolding s2_def by (rule mstep.commit)
  moreover have "mstep s2 s3" unfolding s3_def
  proof (rule mstep.operator)
    show "\<not> holds s2 u" for u by (auto simp: s2_def s1_def t)
    have row: "state_row (tables s2) = Row mode_inactive 0 0" "boundaries (tables s2) = ?bs" "extras (tables s2) = [(?c, 5)]"
      by (simp_all add: s2_def s1_def t committed_def group_db_def)
    show "activate no_faults 1000 50 False [] False (tables s2) =
        ((tables s2)\<lparr>state_row := Row mode_active 1 1000\<rparr>, True, [])"
      by (simp add: activate_def activation_errors_def row activation_spec_def observe_under_drain_barrier_def observed_maxima_def
          observe_redis_cursors_def max_or_zero_def max_cutover_floor_def max_safe_integer_def max_reserve_count_def
          flip_defs check_floor_def no_faults_def)
  qed
  moreover have "mstep s3 s4"
  proof -
    have z: "rows_seen s3 1 = (\<lambda>_. None)"
      by (simp add: rows_seen_def fun_eq_iff s3_def s2_def s1_def t committed_def group_db_def)
    have "reserve_tx no_statement_faults no_guard [] ?d (state_row (tables s3)) ?c 2 (rows_seen s3 1) =
        Inr ([1001, 1002], True, (\<lambda>_. None)(?c := Some 1002))"
      unfolding z by (simp add: s3_def run_simps upt_rec)
    then show ?thesis unfolding s4_def
      by (rule mstep.reserve) (simp_all add: s3_def s2_def s1_def t run_simps)
  qed
  moreover have "mstep s4 s5" unfolding s5_def by (rule mstep.commit)
  moreover have "mreach ?d s0" unfolding s0_def by (rule mreach.mstart)
  ultimately have "mreach ?d s5" by (meson mreach.mnext)
  moreover have "issued s5 = [(?c, 5, False), (?c, 1001, True), (?c, 1002, True)]"
    by (simp add: s5_def s4_def s3_def s2_def s1_def t)
  ultimately show ?thesis by (intro exI [of _ s5]) (simp add: versions_def)
qed

lemma versions_ordered_witness:
  "\<exists>s. mreach (group_db (Row mode_inactive 0 0)) s \<and> sorted_wrt (<) (versions True (Channel ''g'' 2) (issued s)) \<and>
     (5 :: int) < 1001 \<and> (1001 :: int) \<le> 2 ^ 53 - 1 \<and> versions True (Channel ''g'' 2) (issued s) = [1001, 1002]"
proof -
  obtain s where s: "mreach (group_db (Row mode_inactive 0 0)) s"
    "versions False (Channel ''g'' 2) (issued s) = [5]" "versions True (Channel ''g'' 2) (issued s) = [1001, 1002]"
    using example_run by blast
  show ?thesis
    using versions_ordered [OF s(1), of "Channel ''g'' 2" 5 1001] s by (intro exI [of _ s]) simp
qed

end
