(* ===== verification/Session_Token.thy ===== *)
theory Session_Token
  imports Complex_Main Octo_Sign Go_Utf8 Net_Url "HOL-Library.AList"
begin

text \<open>
  User sessions, the values: \<open>pkg/auth\<close> tokeninfo.go and session_policy.go, and the records that
  session_v3.go and session_store.go keep in Redis.  A token payload is the text \<open>v2:\<close> or \<open>v3:\<close>
  followed by a JSON object, or the legacy \<open>uid@name[@role]\<close>.  \<open>encoding/json\<close> and Lua's \<open>cjson\<close>
  are parameters of the model: the record \<open>codec\<close> has one function per use, and the locale
  \<open>codec_laws\<close> states what the code relies on.
\<close>

section \<open>Token payloads\<close>

record token_info =
  uid :: string
  display_name :: string
  role :: string
  language :: string
  issued_at :: int
  expires_at :: int
  device_flag :: int
  device_id :: string
  session_generation :: string
  session_revision :: nat

text \<open>The JSON objects; \<open>omitempty\<close> fields read back as the empty string.\<close>

record token_v2 =
  v2_uid :: string
  v2_name :: string
  v2_role :: string
  v2_lang :: string

record gen_record =
  generation :: string
  revision :: nat
  gen_state :: string
  last_event_version :: nat
  last_event_id :: string
  last_revoked_generation :: string

text \<open>
  What \<open>cjson.decode\<close> gives the rotation script: a field is \<open>nil\<close> when the text does not have it,
  and \<open>tonumber\<close> has been applied to the numbers.
\<close>

record lua_gen =
  lua_generation :: "string option"
  lua_revision :: "nat option"
  lua_state :: "string option"
  lua_event_version :: "nat option"
  lua_event_id :: "string option"
  lua_revoked :: "string option"

text \<open>\<open>sessionIndexMember\<close>.\<close>

record index_member =
  m_token :: string
  m_device_flag :: int
  m_device_id :: string

record codec =
  marshal_v2 :: "token_v2 \<Rightarrow> string"
  unmarshal_v2 :: "string \<Rightarrow> token_v2 option"
  marshal_v3 :: "token_info \<Rightarrow> string"
  unmarshal_v3 :: "string \<Rightarrow> token_info option"
  marshal_gen :: "gen_record \<Rightarrow> string"
  unmarshal_gen :: "string \<Rightarrow> gen_record option"
  lua_encode :: "gen_record \<Rightarrow> string"
  lua_decode :: "string \<Rightarrow> lua_gen option"
  marshal_member :: "index_member \<Rightarrow> string"
  raw_fields :: "string \<Rightarrow> (string \<times> string) list option option"
  marshal_fields :: "(string \<times> string) list \<Rightarrow> string"
  marshal_string :: "string \<Rightarrow> string"
  unmarshal_owner :: "string \<Rightarrow> string option"

datatype auth_error =
    EmptyToken | InvalidToken
  | TokenMissing | TokenNotFound | TokenInvalid
  | V3Disabled | LimitReached | FenceChanged | AlreadyApplied | GenerationInactive
  | LegacyDenied | TokenCollision | VersionDowngrade
  | LeaseLost | CapUnavailable
  | BadArguments | UidMismatch | FlagMismatch | TooFrequent | NoNextSecond
  | Cancelled | RandFailed | RedisFailed | BadReply | BadRecord | BadPayload
  | BadState | NotJoined | Unpublished | Joined auth_error auth_error

text \<open>\<open>strings.HasPrefix(raw, v2Prefix)\<close> and its relatives cut the same three bytes.\<close>

definition v2_prefix :: string where "v2_prefix = ''v2:''"
definition v3_prefix :: string where "v3_prefix = ''v3:''"

definition encode :: "codec \<Rightarrow> token_info \<Rightarrow> auth_error + string" where
  "encode J info =
     (if uid info = [] then Inl InvalidToken
      else Inr (v2_prefix @ marshal_v2 J \<lparr>v2_uid = uid info, v2_name = display_name info,
             v2_role = role info, v2_lang = language info\<rparr>))"

text \<open>The checks that \<open>EncodeV3\<close> and \<open>decodeV3\<close> share.\<close>

definition v3_valid :: "token_info \<Rightarrow> bool" where
  "v3_valid info \<longleftrightarrow>
     uid info \<noteq> [] \<and> 0 < issued_at info \<and> issued_at info < expires_at info \<and>
     \<not> blank (session_generation info) \<and> session_revision info \<noteq> 0"

definition encode_v3 :: "codec \<Rightarrow> token_info \<Rightarrow> auth_error + string" where
  "encode_v3 J info =
     (if v3_valid info then Inr (v3_prefix @ marshal_v3 J info) else Inl InvalidToken)"

definition empty_info :: token_info where
  "empty_info = \<lparr>uid = [], display_name = [], role = [], language = [], issued_at = 0,
     expires_at = 0, device_flag = 0, device_id = [], session_generation = [],
     session_revision = 0\<rparr>"

definition decode_v2 :: "codec \<Rightarrow> string \<Rightarrow> auth_error + token_info" where
  "decode_v2 J payload =
     (case unmarshal_v2 J payload of
        None \<Rightarrow> Inl InvalidToken
      | Some v \<Rightarrow>
          if v2_uid v = [] then Inl InvalidToken
          else Inr (empty_info\<lparr>uid := v2_uid v, display_name := v2_name v, role := v2_role v,
                 language := v2_lang v\<rparr>))"

definition decode_v3 :: "codec \<Rightarrow> string \<Rightarrow> auth_error + token_info" where
  "decode_v3 J payload =
     (case unmarshal_v3 J payload of
        None \<Rightarrow> Inl InvalidToken
      | Some info \<Rightarrow> if v3_valid info then Inr info else Inl InvalidToken)"

definition decode_legacy :: "string \<Rightarrow> auth_error + token_info" where
  "decode_legacy raw =
     (let parts = str_split (CHR ''@'') raw in
      if length parts < 2 \<or> 3 < length parts \<or> parts ! 0 = [] then Inl InvalidToken
      else Inr (empty_info\<lparr>uid := parts ! 0, display_name := parts ! 1,
             role := (if length parts = 3 then parts ! 2 else [])\<rparr>))"

definition decode :: "codec \<Rightarrow> string \<Rightarrow> auth_error + token_info" where
  "decode J raw =
     (if raw = [] then Inl EmptyToken
      else if prefix v2_prefix raw then decode_v2 J (drop 3 raw)
      else if prefix v3_prefix raw then decode_v3 J (drop 3 raw)
      else decode_legacy raw)"

definition is_v3 :: "token_info \<Rightarrow> bool" where
  "is_v3 i \<longleftrightarrow> 0 < issued_at i \<and> 0 < expires_at i \<and> session_generation i \<noteq> [] \<and> 0 < session_revision i"

text \<open>\<open>decodeSessionGeneration\<close>.\<close>

definition decode_gen :: "codec \<Rightarrow> string \<Rightarrow> auth_error + gen_record" where
  "decode_gen J raw =
     (case unmarshal_gen J raw of
        None \<Rightarrow> Inl BadRecord
      | Some g \<Rightarrow>
          if blank (generation g) \<or> revision g = 0 \<or> blank (gen_state g) then Inl BadRecord
          else Inr g)"

section \<open>The owner mark of a fresh payload\<close>

definition issued_owner_field :: string where "issued_owner_field = ''_octo_issue_owner''"

definition session_subject :: "string \<Rightarrow> string" where
  "session_subject s = hex_encode (sha256 s)"

definition issue_owner :: "string \<Rightarrow> string" where
  "issue_owner token = hex_encode (sha256 token)"

definition versioned_payload_json :: "codec \<Rightarrow> string \<Rightarrow> auth_error + string \<times> string" where
  "versioned_payload_json J payload =
     (if prefix v2_prefix payload then Inr (v2_prefix, trim_prefix v2_prefix payload)
      else if prefix v3_prefix payload then Inr (v3_prefix, trim_prefix v3_prefix payload)
      else bind_res (decode J payload) (\<lambda>info.
           bind_res (encode J info) (\<lambda>encoded.
           Inr (v2_prefix, trim_prefix v2_prefix encoded))))"

definition mark_issued_payload :: "codec \<Rightarrow> string \<Rightarrow> string \<Rightarrow> auth_error + string" where
  "mark_issued_payload J payload token =
     bind_res (versioned_payload_json J payload) (\<lambda>(pre, body).
     case raw_fields J body of
       None \<Rightarrow> Inl BadPayload
     | Some None \<Rightarrow> Inl BadPayload
     | Some (Some fs) \<Rightarrow>
         Inr (pre @ marshal_fields J (AList.update issued_owner_field
                (marshal_string J (issue_owner token)) fs)))"

definition issued_payload_owner :: "codec \<Rightarrow> string \<Rightarrow> string option" where
  "issued_payload_owner J payload =
     (case versioned_payload_json J payload of
        Inl _ \<Rightarrow> None
      | Inr (_, body) \<Rightarrow>
          (case unmarshal_owner J body of
             None \<Rightarrow> None
           | Some o' \<Rightarrow> if o' = [] then None else Some o'))"


section \<open>Rollout modes\<close>

text \<open>A \<open>SessionMode\<close> is a string; \<open>OtherMode []\<close> is its zero value.\<close>

datatype session_mode = Expand | V3Write | Revoke | Bounded | Enforce | OtherMode string

fun mode_of :: "string \<Rightarrow> session_mode" where
  "mode_of s =
     (if s = ''expand'' then Expand
      else if s = ''v3-write'' then V3Write
      else if s = ''revoke'' then Revoke
      else if s = ''bounded'' then Bounded
      else if s = ''enforce'' then Enforce
      else OtherMode s)"

fun mode_valid :: "session_mode \<Rightarrow> bool" where
  "mode_valid (OtherMode _) = False"
| "mode_valid _ = True"

fun rank :: "session_mode \<Rightarrow> nat" where
  "rank Expand = 1"
| "rank V3Write = 2"
| "rank Revoke = 3"
| "rank Bounded = 4"
| "rank Enforce = 5"
| "rank (OtherMode _) = 0"

fun next_mode :: "session_mode \<Rightarrow> session_mode" where
  "next_mode Expand = V3Write"
| "next_mode V3Write = Revoke"
| "next_mode Revoke = Bounded"
| "next_mode Bounded = Enforce"
| "next_mode _ = Enforce"

definition writes_v3 :: "session_mode \<Rightarrow> bool" where
  "writes_v3 m = (rank V3Write \<le> rank m)"

definition revokes_sessions :: "session_mode \<Rightarrow> bool" where
  "revokes_sessions m = (rank Revoke \<le> rank m)"

definition checks_legacy_deny :: "session_mode \<Rightarrow> bool" where
  "checks_legacy_deny m = (rank V3Write \<le> rank m \<and> m \<noteq> Enforce)"

definition session_max_per_uid_limit :: int where "session_max_per_uid_limit = 10000"

text \<open>\<open>s.maxPerUID <= 0 || s.maxPerUID > sessionMaxPerUIDLimit\<close>, negated.\<close>

definition cap_usable :: "int \<Rightarrow> bool" where
  "cap_usable c = (0 < c \<and> c \<le> session_max_per_uid_limit)"

datatype policy_warning =
    DeprecatedMode | IgnoredMode string | DeprecatedCap | IgnoredCap string | UnusedFloor
  | IgnoredWriters string

record session_policy =
  legacy_mode :: session_mode
  legacy_max_per_uid :: int
  canary_ahead :: bool
  expect_writers :: int
  auto_advance :: bool
  policy_warnings :: "policy_warning list"

text \<open>\<open>strconv.ParseInt(s, 10, 32)\<close>.\<close>

definition parse_int32 :: "string \<Rightarrow> int option" where
  "parse_int32 s =
     (case parse_int64 s of
        Some i \<Rightarrow> if - (2 ^ 31) \<le> i \<and> i < 2 ^ 31 then Some i else None
      | None \<Rightarrow> None)"

definition env_flag :: "(string \<Rightarrow> string option) \<Rightarrow> string \<Rightarrow> bool \<Rightarrow> bool" where
  "env_flag env name fallback =
     (case env name of
        None \<Rightarrow> fallback
      | Some raw \<Rightarrow>
          let v = to_lower (trim_space raw) in
          if v \<in> {''1'', ''true'', ''yes'', ''on''} then True
          else if v \<in> {''0'', ''false'', ''no'', ''off'', []} then False
          else fallback)"

definition session_policy_from_env :: "(string \<Rightarrow> string option) \<Rightarrow> session_policy" where
  "session_policy_from_env env =
     (let p = \<lparr>legacy_mode = OtherMode [], legacy_max_per_uid = 0, canary_ahead = False,
                expect_writers = 0, auto_advance = False, policy_warnings = []\<rparr>;
          p = (case env ''OCTO_AUTH_SESSION_MODE'' of
                 None \<Rightarrow> p
               | Some raw \<Rightarrow>
                   let v = trim_space raw; m = mode_of v in
                   if mode_valid m
                   then p\<lparr>legacy_mode := m, policy_warnings := policy_warnings p @ [DeprecatedMode]\<rparr>
                   else p\<lparr>policy_warnings := policy_warnings p @ [IgnoredMode v]\<rparr>);
          p = (case env ''OCTO_AUTH_SESSION_MAX_PER_UID'' of
                 None \<Rightarrow> p
               | Some raw \<Rightarrow>
                   let v = trim_space raw in
                   case parse_int32 v of
                     Some n \<Rightarrow>
                       if cap_usable n
                       then p\<lparr>legacy_max_per_uid := n,
                              policy_warnings := policy_warnings p @ [DeprecatedCap]\<rparr>
                       else p\<lparr>policy_warnings := policy_warnings p @ [IgnoredCap v]\<rparr>
                   | None \<Rightarrow> p\<lparr>policy_warnings := policy_warnings p @ [IgnoredCap v]\<rparr>);
          p = (case env ''OCTO_AUTH_SESSION_REQUIRED_FLOOR'' of
                 None \<Rightarrow> p
               | Some _ \<Rightarrow> p\<lparr>policy_warnings := policy_warnings p @ [UnusedFloor]\<rparr>);
          p = p\<lparr>canary_ahead := env_flag env ''OCTO_AUTH_SESSION_CANARY_AHEAD'' False,
                auto_advance := env_flag env ''OCTO_AUTH_SESSION_AUTO_ADVANCE'' False\<rparr>
      in case env ''OCTO_AUTH_SESSION_EXPECT_WRITERS'' of
           None \<Rightarrow> p
         | Some raw \<Rightarrow>
             let v = trim_space raw in
             case parse_int32 v of
               Some n \<Rightarrow>
                 if 0 < n then p\<lparr>expect_writers := n\<rparr>
                 else p\<lparr>policy_warnings := policy_warnings p @ [IgnoredWriters v]\<rparr>
             | None \<Rightarrow> p\<lparr>policy_warnings := policy_warnings p @ [IgnoredWriters v]\<rparr>)"

section \<open>What the code relies on\<close>

text \<open>Go's types bound the numbers; JSON texts keep a string exactly when it is valid UTF-8.\<close>

definition info_ok :: "token_info \<Rightarrow> bool" where
  "info_ok i \<longleftrightarrow>
     valid_utf8 (uid i) \<and> valid_utf8 (display_name i) \<and> valid_utf8 (role i) \<and>
     valid_utf8 (language i) \<and> valid_utf8 (device_id i) \<and> valid_utf8 (session_generation i) \<and>
     - (2 ^ 63) \<le> issued_at i \<and> issued_at i < 2 ^ 63 \<and>
     - (2 ^ 63) \<le> expires_at i \<and> expires_at i < 2 ^ 63 \<and>
     - (2 ^ 63) \<le> device_flag i \<and> device_flag i < 2 ^ 63 \<and> session_revision i < 2 ^ 64"

definition v2_ok :: "token_v2 \<Rightarrow> bool" where
  "v2_ok v \<longleftrightarrow>
     valid_utf8 (v2_uid v) \<and> valid_utf8 (v2_name v) \<and> valid_utf8 (v2_role v) \<and> valid_utf8 (v2_lang v)"

definition gen_ok :: "gen_record \<Rightarrow> bool" where
  "gen_ok g \<longleftrightarrow>
     valid_utf8 (generation g) \<and> valid_utf8 (gen_state g) \<and> valid_utf8 (last_event_id g) \<and>
     valid_utf8 (last_revoked_generation g)"

text \<open>The fields that the rotation script sees: \<open>omitempty\<close> drops the last three when empty.\<close>

definition go_fields :: "gen_record \<Rightarrow> lua_gen" where
  "go_fields g = \<lparr>lua_generation = Some (generation g), lua_revision = Some (revision g),
     lua_state = Some (gen_state g),
     lua_event_version = (if last_event_version g = 0 then None else Some (last_event_version g)),
     lua_event_id = (if last_event_id g = [] then None else Some (last_event_id g)),
     lua_revoked = (if last_revoked_generation g = [] then None
       else Some (last_revoked_generation g))\<rparr>"

definition lua_fields :: "gen_record \<Rightarrow> lua_gen" where
  "lua_fields g = \<lparr>lua_generation = Some (generation g), lua_revision = Some (revision g),
     lua_state = Some (gen_state g), lua_event_version = Some (last_event_version g),
     lua_event_id = Some (last_event_id g), lua_revoked = Some (last_revoked_generation g)\<rparr>"

text \<open>
  \<open>cjson\<close> writes numbers with fourteen digits, so larger revisions or versions do not read back
  as the same number; whatever is read back has the generation that was written.
\<close>

locale codec_laws =
  fixes J :: codec
  assumes v2_roundtrip: "v2_ok v \<Longrightarrow> unmarshal_v2 J (marshal_v2 J v) = Some v"
    and v3_roundtrip: "info_ok i \<Longrightarrow> unmarshal_v3 J (marshal_v3 J i) = Some i"
    and gen_roundtrip: "gen_ok g \<Longrightarrow> revision g < 2 ^ 64 \<Longrightarrow> last_event_version g < 2 ^ 64 \<Longrightarrow>
      unmarshal_gen J (marshal_gen J g) = Some g"
    and gen_kept: "valid_utf8 (generation g) \<Longrightarrow> unmarshal_gen J (marshal_gen J g) = Some g' \<Longrightarrow>
      generation g' = generation g"
    and lua_roundtrip: "gen_ok g \<Longrightarrow> revision g < 10 ^ 14 \<Longrightarrow> last_event_version g < 10 ^ 14 \<Longrightarrow>
      unmarshal_gen J (lua_encode J g) = Some g"
    and lua_kept: "valid_utf8 (generation g) \<Longrightarrow> unmarshal_gen J (lua_encode J g) = Some g' \<Longrightarrow>
      generation g' = generation g"
    and lua_of_go: "gen_ok g \<Longrightarrow> revision g < 2 ^ 53 \<Longrightarrow> last_event_version g < 2 ^ 53 \<Longrightarrow>
      lua_decode J (marshal_gen J g) = Some (go_fields g)"
    and lua_of_lua: "gen_ok g \<Longrightarrow> revision g < 10 ^ 14 \<Longrightarrow> last_event_version g < 10 ^ 14 \<Longrightarrow>
      lua_decode J (lua_encode J g) = Some (lua_fields g)"
    and v3_decoded: "unmarshal_v3 J s = Some i \<Longrightarrow> info_ok i"
    and v3_fields: "info_ok i \<Longrightarrow> \<exists>fs. raw_fields J (marshal_v3 J i) = Some (Some fs)"
    and v3_marked: "info_ok i \<Longrightarrow> raw_fields J (marshal_v3 J i) = Some (Some fs) \<Longrightarrow>
      unmarshal_v3 J (marshal_fields J (AList.update issued_owner_field x fs)) = Some i"
    and v3_owner: "info_ok i \<Longrightarrow> raw_fields J (marshal_v3 J i) = Some (Some fs) \<Longrightarrow> valid_utf8 x \<Longrightarrow>
      unmarshal_owner J (marshal_fields J (AList.update issued_owner_field (marshal_string J x) fs)) =
        Some x"
begin

lemma decode_encode_v3:
  assumes "info_ok i" and "v3_valid i"
  shows "encode_v3 J i = Inr (v3_prefix @ marshal_v3 J i)"
    and "decode J (v3_prefix @ marshal_v3 J i) = Inr i"
  using assms by (simp_all add: encode_v3_def decode_def decode_v3_def v3_roundtrip v3_prefix_def v2_prefix_def)

lemma decode_encode_v2:
  assumes "info_ok i" and "uid i \<noteq> []"
  shows "\<exists>p. encode J i = Inr p \<and> decode J p =
    Inr (empty_info\<lparr>uid := uid i, display_name := display_name i, role := role i, language := language i\<rparr>)"
proof -
  let ?v = "\<lparr>v2_uid = uid i, v2_name = display_name i, v2_role = role i, v2_lang = language i\<rparr>"
  have "v2_ok ?v" using assms(1) by (simp add: v2_ok_def info_ok_def)
  then show ?thesis using assms(2)
    by (simp add: encode_def decode_def decode_v2_def v2_roundtrip v2_prefix_def)
qed

text \<open>The mark does not change what a reader sees, and is found again.\<close>

lemma marked_payload:
  assumes ok: "info_ok i" and v: "v3_valid i"
  obtains p where "mark_issued_payload J (v3_prefix @ marshal_v3 J i) token = Inr p"
    and "decode J p = Inr i" and "prefix v3_prefix p"
proof -
  from v3_fields [OF ok] obtain fs where fs: "raw_fields J (marshal_v3 J i) = Some (Some fs)" by blast
  let ?p = "v3_prefix @ marshal_fields J (AList.update issued_owner_field
    (marshal_string J (issue_owner token)) fs)"
  have "mark_issued_payload J (v3_prefix @ marshal_v3 J i) token = Inr ?p"
    by (simp add: mark_issued_payload_def versioned_payload_json_def trim_prefix_def v3_prefix_def
        v2_prefix_def fs)
  moreover have "decode J ?p = Inr i"
    using v by (simp add: decode_def decode_v3_def v3_marked [OF ok fs] v3_prefix_def v2_prefix_def)
  ultimately show ?thesis by (rule that) simp
qed

end

end
