(* ===== verification/Session_Redis.thy ===== *)
theory Session_Redis
  imports Session_Token
begin

text \<open>
  User sessions, the Redis side: the commands and Lua scripts of session_store.go and session_v3.go,
  and programs as trees of the calls they make.  Redis is a service: its commands at a time of its
  clock (milliseconds) are a parameter, the record \<open>kv\<close>, and the locale \<open>kv_laws\<close> states their
  documented behaviour for keys that are used with one type of value, expiry included.  Lua's
  numbers are exact below \<open>2\<^sup>5\<^sup>3\<close>, which versions, revisions and millisecond times stay below.
\<close>

section \<open>Redis commands\<close>

record 's kv =
  kv_get :: "'s \<Rightarrow> int \<Rightarrow> string \<Rightarrow> string option"
  kv_pttl :: "'s \<Rightarrow> int \<Rightarrow> string \<Rightarrow> int"
  kv_set :: "int \<Rightarrow> string \<Rightarrow> string \<Rightarrow> int option \<Rightarrow> 's \<Rightarrow> 's"
  kv_del :: "int \<Rightarrow> string \<Rightarrow> 's \<Rightarrow> 's"
  kv_pexpire :: "int \<Rightarrow> string \<Rightarrow> int \<Rightarrow> 's \<Rightarrow> 's"
  kv_zscore :: "'s \<Rightarrow> int \<Rightarrow> string \<Rightarrow> string \<Rightarrow> int option"
  kv_zcard :: "'s \<Rightarrow> int \<Rightarrow> string \<Rightarrow> nat"
  kv_zadd :: "int \<Rightarrow> string \<Rightarrow> int \<Rightarrow> string \<Rightarrow> 's \<Rightarrow> 's"
  kv_zrem :: "int \<Rightarrow> string \<Rightarrow> string \<Rightarrow> 's \<Rightarrow> 's"
  kv_zrem_upto :: "int \<Rightarrow> string \<Rightarrow> int \<Rightarrow> 's \<Rightarrow> 's"

text \<open>
  Every command acts at its time; \<open>get_later\<close>, \<open>get_kept\<close> and \<open>pttl_later\<close> say what the passage of
  time does to a key that nobody writes.
\<close>

locale kv_laws =
  fixes r :: "'s kv"
  assumes get_later: "t \<le> t' \<Longrightarrow> kv_get r s t' k = None \<or> kv_get r s t' k = kv_get r s t k"
    and get_kept: "t \<le> t' \<Longrightarrow> kv_pttl r s t k = -1 \<or> t' < t + kv_pttl r s t k \<Longrightarrow>
      kv_get r s t' k = kv_get r s t k"
    and pttl_later: "t \<le> t' \<Longrightarrow> kv_get r s t' k \<noteq> None \<Longrightarrow>
      kv_pttl r s t' k = (if kv_pttl r s t k = -1 then -1 else kv_pttl r s t k - (t' - t))"
    and get_set: "pred_option (\<lambda>d. 0 < d) ttl \<Longrightarrow>
      kv_get r (kv_set r t k v ttl s) t k' = (if k' = k then Some v else kv_get r s t k')"
    and pttl_set: "pred_option (\<lambda>d. 0 < d) ttl \<Longrightarrow>
      kv_pttl r (kv_set r t k v ttl s) t k' =
        (if k' = k then (case ttl of None \<Rightarrow> -1 | Some d \<Rightarrow> d) else kv_pttl r s t k')"
    and get_del: "kv_get r (kv_del r t k s) t k' = (if k' = k then None else kv_get r s t k')"
    and pttl_del: "k' \<noteq> k \<Longrightarrow> kv_pttl r (kv_del r t k s) t k' = kv_pttl r s t k'"
    and get_pexpire: "kv_get r (kv_pexpire r t k d s) t k' =
      (if k' = k \<and> d \<le> 0 then None else kv_get r s t k')"
    and pttl_pexpire: "kv_pttl r (kv_pexpire r t k d s) t k' =
      (if k' = k \<and> 0 < d \<and> kv_pttl r s t k \<noteq> -2 then d
       else if k' = k \<and> d \<le> 0 then -2 else kv_pttl r s t k')"
    and get_zset: "kv_get r (kv_zadd r t z x m s) t k' = kv_get r s t k'"
      "kv_get r (kv_zrem r t z m s) t k' = kv_get r s t k'"
      "kv_get r (kv_zrem_upto r t z x s) t k' = kv_get r s t k'"
    and pttl_zset: "k' \<noteq> z \<Longrightarrow> kv_pttl r (kv_zadd r t z x m s) t k' = kv_pttl r s t k'"
      "k' \<noteq> z \<Longrightarrow> kv_pttl r (kv_zrem r t z m s) t k' = kv_pttl r s t k'"
      "k' \<noteq> z \<Longrightarrow> kv_pttl r (kv_zrem_upto r t z x s) t k' = kv_pttl r s t k'"
    and pttl_range: "kv_get r s t k \<noteq> None \<Longrightarrow> -1 \<le> kv_pttl r s t k"
    and zscore_later: "t \<le> t' \<Longrightarrow> kv_zscore r s t' k m = None \<or> kv_zscore r s t' k m = kv_zscore r s t k m"
    and zscore_set: "kv_zscore r (kv_set r t k v ttl s) t z m = (if z = k then None else kv_zscore r s t z m)"
    and zscore_del: "kv_zscore r (kv_del r t k s) t z m = (if z = k then None else kv_zscore r s t z m)"
    and zscore_pexpire: "kv_zscore r (kv_pexpire r t k d s) t z m =
      (if z = k \<and> d \<le> 0 then None else kv_zscore r s t z m)"
    and zscore_zadd: "kv_zscore r (kv_zadd r t z x m s) t z' m' =
      (if z' = z \<and> m' = m then Some x else kv_zscore r s t z' m')"
    and zscore_zrem: "kv_zscore r (kv_zrem r t z m s) t z' m' =
      (if z' = z \<and> m' = m then None else kv_zscore r s t z' m')"
    and zscore_zrem_upto: "kv_zscore r (kv_zrem_upto r t z x s) t z' m' =
      (case kv_zscore r s t z' m' of Some y \<Rightarrow> if z' = z \<and> y \<le> x then None else Some y | None \<Rightarrow> None)"
    and zset_finite: "finite {m. kv_zscore r s t z m \<noteq> None}"
    and zcard_card: "kv_zcard r s t z = card {m. kv_zscore r s t z m \<noteq> None}"
    and gone_later: "t \<le> t' \<Longrightarrow> kv_get r s t' k \<noteq> None \<Longrightarrow> kv_pttl r s t k \<noteq> -1 \<Longrightarrow>
      t' \<le> t + kv_pttl r s t k"

section \<open>Commands and scripts\<close>

datatype reply = RFail | RNil | RBulk string | RInt int | RMulti "reply list"

text \<open>Durations of the client are nanoseconds, arguments of the scripts milliseconds.\<close>

datatype cmd =
    CGet string
  | CExists string
  | CDel string
  | CSet string string int
  | CSetNX string string int
  | CZRem string string
  | ReadTokenS string
  | UpdatePayloadS string string int
  | CompareDeleteS string string
  | EnsureGenS string string int
  | AddIndexS string int string int int int
  | RotateS string string nat string int
  | ExtendS string string nat int
  | CasReplaceS string string string int

definition nil_or :: "string option \<Rightarrow> reply" where
  "nil_or v = (case v of None \<Rightarrow> RNil | Some x \<Rightarrow> RBulk x)"

text \<open>\<open>SET\<close> with an expiration: 0 is none, and Redis refuses \<open>PX 0\<close>.\<close>

definition client_set :: "'s kv \<Rightarrow> int \<Rightarrow> string \<Rightarrow> string \<Rightarrow> int \<Rightarrow> 's \<Rightarrow> 's option" where
  "client_set r t k v ns s =
     (if ns = 0 then Some (kv_set r t k v None s)
      else if ns div 1000000 \<le> 0 then None
      else Some (kv_set r t k v (Some (ns div 1000000)) s))"

definition read_token_script :: "'s kv \<Rightarrow> int \<Rightarrow> string \<Rightarrow> 's \<Rightarrow> reply" where
  "read_token_script r t k s =
     (case kv_get r s t k of
        None \<Rightarrow> RMulti [RNil, RInt (-2)]
      | Some v \<Rightarrow> RMulti [RBulk v, RInt (kv_pttl r s t k)])"

definition update_payload_script :: "'s kv \<Rightarrow> int \<Rightarrow> string \<Rightarrow> string \<Rightarrow> int \<Rightarrow> 's \<Rightarrow> 's \<times> reply" where
  "update_payload_script r t k payload cap s =
     (case kv_get r s t k of
        None \<Rightarrow> (s, RMulti [RInt (-2), RInt 0])
      | Some current \<Rightarrow>
          let ttl = kv_pttl r s t k;
              keep = (\<lambda>ms persistent.
                if ms \<le> 0 then (s, RFail)
                else (kv_set r t k payload (Some ms) s, RMulti [RInt ms, RInt persistent]))
          in if ttl = -2 then (s, RMulti [RInt (-2), RInt 0])
             else if take 3 current = ''v3:'' \<and> take 3 payload \<noteq> ''v3:''
             then (s, RMulti [RInt (-3), RInt 0])
             else if ttl = -1 then keep cap 1
             else if ttl \<le> 0 then (s, RMulti [RInt (-2), RInt 0])
             else if cap < ttl then keep cap 0
             else keep ttl 0)"

definition compare_delete_script :: "'s kv \<Rightarrow> int \<Rightarrow> string \<Rightarrow> string \<Rightarrow> 's \<Rightarrow> 's \<times> reply" where
  "compare_delete_script r t k v s =
     (if kv_get r s t k = Some v then (kv_del r t k s, RInt 1) else (s, RInt 0))"

definition ensure_generation_script :: "'s kv \<Rightarrow> int \<Rightarrow> string \<Rightarrow> string \<Rightarrow> int \<Rightarrow> 's \<Rightarrow> 's \<times> reply" where
  "ensure_generation_script r t k candidate ms s =
     (let (s, current) =
            (case kv_get r s t k of
               Some v \<Rightarrow> (s, Some v)
             | None \<Rightarrow>
                 if ms \<le> 0 then (s, None)
                 else let s = kv_set r t k candidate (Some ms) s in (s, kv_get r s t k))
      in case current of
           None \<Rightarrow> (s, RFail)
         | Some v \<Rightarrow>
             let ttl = kv_pttl r s t k
             in (if 0 \<le> ttl \<and> ttl < ms then kv_pexpire r t k ms s else s, RBulk v))"

definition add_session_index_script ::
    "'s kv \<Rightarrow> int \<Rightarrow> string \<Rightarrow> int \<Rightarrow> string \<Rightarrow> int \<Rightarrow> int \<Rightarrow> int \<Rightarrow> 's \<Rightarrow> 's \<times> reply" where
  "add_session_index_script r t k now member score cap ms s =
     (let s = kv_zrem_upto r t k now s
      in if kv_zscore r s t k member = None \<and> cap \<le> int (kv_zcard r s t k)
         then (s, RInt (-1))
         else
           let s = kv_zadd r t k score member s;
               ttl = kv_pttl r s t k
           in (if 0 \<le> ttl \<and> ttl < ms then kv_pexpire r t k ms s
               else if ttl = -1 then kv_pexpire r t k ms s
               else s, RInt 1))"

definition rotated :: "string \<Rightarrow> nat \<Rightarrow> string \<Rightarrow> nat \<Rightarrow> string \<Rightarrow> gen_record" where
  "rotated next_gen version event old previous =
     \<lparr>generation = next_gen, revision = old + 1, gen_state = ''active'',
      last_event_version = version, last_event_id = event, last_revoked_generation = previous\<rparr>"

definition or_empty :: "string option \<Rightarrow> string" where
  "or_empty v = (case v of None \<Rightarrow> [] | Some x \<Rightarrow> x)"

definition or_zero :: "nat option \<Rightarrow> nat" where
  "or_zero v = (case v of None \<Rightarrow> 0 | Some x \<Rightarrow> x)"

definition rotate_generation_script ::
    "'s kv \<Rightarrow> codec \<Rightarrow> int \<Rightarrow> string \<Rightarrow> string \<Rightarrow> nat \<Rightarrow> string \<Rightarrow> int \<Rightarrow> 's \<Rightarrow> 's \<times> reply" where
  "rotate_generation_script r J t k next_gen version event ms s =
     (let store = (\<lambda>old previous ttl.
            let v = lua_encode J (rotated next_gen version event old previous)
            in if ttl = -1 then (kv_set r t k v None s, RMulti [RInt 1, RBulk previous])
               else if max ttl ms \<le> 0 then (s, RFail)
               else (kv_set r t k v (Some (max ttl ms)) s, RMulti [RInt 1, RBulk previous]))
      in case kv_get r s t k of
           None \<Rightarrow> store 0 [] (-2)
         | Some current \<Rightarrow>
             (case lua_decode J current of
                None \<Rightarrow> (s, RFail)
              | Some d \<Rightarrow>
                  if version \<le> or_zero (lua_event_version d)
                  then if or_zero (lua_event_version d) = version \<and> lua_event_id d = Some event
                       then (s, RMulti [RInt 0, RBulk (or_empty (lua_revoked d))])
                       else (s, RMulti [RInt (-1), RBulk []])
                  else store (or_zero (lua_revision d)) (or_empty (lua_generation d))
                         (kv_pttl r s t k)))"

definition extend_generation_script ::
    "'s kv \<Rightarrow> codec \<Rightarrow> int \<Rightarrow> string \<Rightarrow> string \<Rightarrow> nat \<Rightarrow> int \<Rightarrow> 's \<Rightarrow> 's \<times> reply" where
  "extend_generation_script r J t k gen rv ms s =
     (case kv_get r s t k of
        None \<Rightarrow> (s, RInt 0)
      | Some current \<Rightarrow>
          (case lua_decode J current of
             None \<Rightarrow> (s, RFail)
           | Some d \<Rightarrow>
               if lua_generation d \<noteq> Some gen \<or> lua_revision d \<noteq> Some rv \<or>
                  lua_state d \<noteq> Some ''active''
               then (s, RInt 0)
               else let ttl = kv_pttl r s t k
                    in (if 0 \<le> ttl \<and> ttl < ms then kv_pexpire r t k ms s else s, RInt 1)))"

definition cas_replace_script ::
    "'s kv \<Rightarrow> int \<Rightarrow> string \<Rightarrow> string \<Rightarrow> string \<Rightarrow> int \<Rightarrow> 's \<Rightarrow> 's \<times> reply" where
  "cas_replace_script r t k expected payload cap s =
     (case kv_get r s t k of
        None \<Rightarrow> (s, RMulti [RInt (-2), RInt 0, RInt 0])
      | Some current \<Rightarrow>
          if current \<noteq> expected then (s, RMulti [RInt (-4), RInt 0, RInt 0])
          else
            let ttl = kv_pttl r s t k;
                keep = (\<lambda>ms persistent.
                  if ms \<le> 0 then (s, RFail)
                  else (kv_set r t k payload (Some ms) s, RMulti [RInt 1, RInt ms, RInt persistent]))
            in if ttl = -1 then keep cap 1
               else if ttl \<le> 0 then (s, RMulti [RInt (-2), RInt 0, RInt 0])
               else if cap < ttl then keep cap 0
               else keep ttl 0)"

fun exec :: "'s kv \<Rightarrow> codec \<Rightarrow> int \<Rightarrow> cmd \<Rightarrow> 's \<Rightarrow> 's \<times> reply" where
  "exec r J t (CGet k) s = (s, nil_or (kv_get r s t k))"
| "exec r J t (CExists k) s = (s, RInt (if kv_get r s t k = None then 0 else 1))"
| "exec r J t (CDel k) s = (kv_del r t k s, RInt (if kv_get r s t k = None then 0 else 1))"
| "exec r J t (CSet k v ns) s =
     (case client_set r t k v ns s of None \<Rightarrow> (s, RFail) | Some s' \<Rightarrow> (s', RBulk ''OK''))"
| "exec r J t (CSetNX k v ns) s =
     (if kv_get r s t k \<noteq> None then (s, RInt 0)
      else (case client_set r t k v ns s of None \<Rightarrow> (s, RFail) | Some s' \<Rightarrow> (s', RInt 1)))"
| "exec r J t (CZRem k m) s =
     (kv_zrem r t k m s, RInt (if kv_zscore r s t k m = None then 0 else 1))"
| "exec r J t (ReadTokenS k) s = (s, read_token_script r t k s)"
| "exec r J t (UpdatePayloadS k p ms) s = update_payload_script r t k p ms s"
| "exec r J t (CompareDeleteS k v) s = compare_delete_script r t k v s"
| "exec r J t (EnsureGenS k c ms) s = ensure_generation_script r t k c ms s"
| "exec r J t (AddIndexS k now m x cap ms) s = add_session_index_script r t k now m x cap ms s"
| "exec r J t (RotateS k g v e ms) s = rotate_generation_script r J t k g v e ms s"
| "exec r J t (ExtendS k g v ms) s = extend_generation_script r J t k g v ms s"
| "exec r J t (CasReplaceS k a b ms) s = cas_replace_script r t k a b ms s"

end
