(* ===== verification/Session_Text.thy ===== *)
theory Session_Text
  imports Session_Token
begin

text \<open>Strings that are not blank: white space never takes a printable ASCII character away.\<close>

definition printable :: "char \<Rightarrow> bool" where
  "printable c \<longleftrightarrow> (\<forall>w \<in> set ws_codes. c \<notin> set w)"

lemma printable_trim_left:
  assumes "printable c"
  shows "c \<in> set s \<Longrightarrow> c \<in> set (trim_left s)"
proof (induction s rule: trim_left.induct)
  case (1 s)
  show ?case
  proof (cases "find (\<lambda>w. prefix w s) ws_codes")
    case None
    with 1 show ?thesis by (simp add: trim_left.simps [of s])
  next
    case (Some w)
    then have w: "prefix w s" "w \<in> set ws_codes" by (auto simp: find_Some_iff)
    then have "c \<notin> set w" using assms by (simp add: printable_def)
    with w 1(2) have "c \<in> set (drop (length w) s)" by (auto simp: prefix_def)
    with 1(1) [OF Some] Some show ?thesis by (simp add: trim_left.simps [of s])
  qed
qed

lemma printable_trim_right:
  assumes "printable c"
  shows "c \<in> set s \<Longrightarrow> c \<in> set (trim_right s)"
proof (induction s rule: trim_right.induct)
  case (1 s)
  show ?case
  proof (cases "find (\<lambda>w. suffix w s) ws_codes")
    case None
    with 1 show ?thesis by (simp add: trim_right.simps [of s])
  next
    case (Some w)
    then have w: "suffix w s" "w \<in> set ws_codes" by (auto simp: find_Some_iff)
    then have "c \<notin> set w" using assms by (simp add: printable_def)
    with w 1(2) have "c \<in> set (take (length s - length w) s)" by (auto simp: suffix_def)
    with 1(1) [OF Some] Some show ?thesis by (simp add: trim_right.simps [of s])
  qed
qed

lemma printable_not_blank: "printable c \<Longrightarrow> c \<in> set s \<Longrightarrow> \<not> blank s"
  using printable_trim_left printable_trim_right unfolding blank_def trim_space_def
  by (metis empty_iff list.set(1))

lemma printable_v: "printable (CHR ''v'')"
  by (simp add: printable_def ws_codes_def)

lemma versioned_not_blank [simp]: "\<not> blank (v3_prefix @ s)" "\<not> blank (v2_prefix @ s)"
  by (auto intro!: printable_not_blank [OF printable_v] simp: v3_prefix_def v2_prefix_def)

lemma not_blank_append: "\<not> blank (p @ s)" if "printable c" and "c \<in> set p"
  using that printable_not_blank [of c "p @ s"] by simp

end
