(* ===== verification/Session_Store.thy ===== *)
theory Session_Store
  imports Session_Redis Session_Text
begin

text \<open>
  User sessions, the operations of \<open>RedisSessionStore\<close>: session_store.go and session_v3.go, and the
  validator of validator.go and parser.go.  An operation is a tree of the calls it makes: Redis
  commands with every reply they may get, readings of the clock (nanoseconds since the epoch), of
  the random source, of the rollout state, of the write lease, and checks of the context.  Errors
  that the code wraps keep their sentinel; message texts, logs and metrics are left out.
\<close>

section \<open>Programs\<close>

record rollout =
  mode :: session_mode
  max_per_uid :: int
  version :: int

datatype 'a prog =
    Return 'a
  | Call cmd "reply \<Rightarrow> 'a prog"
  | Clock "int \<Rightarrow> 'a prog"
  | Random "string option \<Rightarrow> 'a prog"
  | Load "rollout \<Rightarrow> 'a prog"
  | Lease "bool \<Rightarrow> 'a prog"
  | Context "bool \<Rightarrow> 'a prog"

type_synonym 'a act = "(auth_error + 'a) prog"

primrec pbind :: "'a prog \<Rightarrow> ('a \<Rightarrow> 'b prog) \<Rightarrow> 'b prog" where
  "pbind (Return a) f = f a"
| "pbind (Call c k) f = Call c (\<lambda>x. pbind (k x) f)"
| "pbind (Clock k) f = Clock (\<lambda>x. pbind (k x) f)"
| "pbind (Random k) f = Random (\<lambda>x. pbind (k x) f)"
| "pbind (Load k) f = Load (\<lambda>x. pbind (k x) f)"
| "pbind (Lease k) f = Lease (\<lambda>x. pbind (k x) f)"
| "pbind (Context k) f = Context (\<lambda>x. pbind (k x) f)"

definition fail :: "auth_error \<Rightarrow> 'a act" where "fail e = Return (Inl e)"
definition ok :: "'a \<Rightarrow> 'a act" where "ok a = Return (Inr a)"

text \<open>\<open>if err != nil { return err }\<close>\<close>

definition and_then :: "'a act \<Rightarrow> ('a \<Rightarrow> 'b act) \<Rightarrow> 'b act" where
  "and_then p f = pbind p (\<lambda>x. case x of Inl e \<Rightarrow> fail e | Inr a \<Rightarrow> f a)"

definition of_res :: "auth_error + 'a \<Rightarrow> 'a act" where "of_res x = Return x"

text \<open>\<open>if err := ctx.Err(); err != nil { return err }\<close>\<close>

definition check_ctx :: "'a act \<Rightarrow> 'a act" where
  "check_ctx p = Context (\<lambda>done. if done then fail Cancelled else p)"

definition need :: "bool \<Rightarrow> auth_error \<Rightarrow> 'a act \<Rightarrow> 'a act" where
  "need b e p = (if b then p else fail e)"

text \<open>A Redis call whose error ends the operation.\<close>

definition call :: "cmd \<Rightarrow> (reply \<Rightarrow> 'a act) \<Rightarrow> 'a act" where
  "call c k = Call c (\<lambda>rep. if rep = RFail then fail RedisFailed else k rep)"

fun redis_integer :: "reply \<Rightarrow> auth_error + int" where
  "redis_integer (RInt i) = Inr i"
| "redis_integer (RBulk s) = (case parse_int64 s of None \<Rightarrow> Inl BadReply | Some i \<Rightarrow> Inr i)"
| "redis_integer _ = Inl BadReply"

fun redis_string :: "reply \<Rightarrow> auth_error + string" where
  "redis_string (RBulk s) = Inr s"
| "redis_string _ = Inl BadReply"

fun multi_of :: "nat \<Rightarrow> reply \<Rightarrow> auth_error + reply list" where
  "multi_of n (RMulti xs) = (if length xs = n then Inr xs else Inl BadReply)"
| "multi_of n _ = Inl BadReply"

section \<open>Keys and times\<close>

record session_cfg =
  token_prefix :: string
  uid_token_prefix :: string
  max_ttl :: int

definition token_key :: "session_cfg \<Rightarrow> string \<Rightarrow> string" where
  "token_key C token = token_prefix C @ token"

definition uid_token_key :: "session_cfg \<Rightarrow> string \<Rightarrow> int \<Rightarrow> string" where
  "uid_token_key C u flag = uid_token_prefix C @ show_int flag @ u"

definition generation_key :: "session_cfg \<Rightarrow> string \<Rightarrow> string" where
  "generation_key C u = uid_token_prefix C @ ''auth:generation:'' @ session_subject u"

definition session_index_key :: "session_cfg \<Rightarrow> string \<Rightarrow> string \<Rightarrow> string" where
  "session_index_key C u g =
     uid_token_prefix C @ ''auth:sessions:'' @ session_subject u @ '':'' @ session_subject g"

definition legacy_deny_key :: "session_cfg \<Rightarrow> string \<Rightarrow> string" where
  "legacy_deny_key C u = uid_token_prefix C @ ''auth:legacy-deny:'' @ session_subject u"

definition second_ns :: int where "second_ns = 1000000000"
definition milli_ns :: int where "milli_ns = 1000000"

text \<open>\<open>d.Milliseconds()\<close> truncates towards zero.\<close>

definition millis :: "int \<Rightarrow> int" where
  "millis d = (if d < 0 then - ((- d) div milli_ns) else d div milli_ns)"

text \<open>\<open>t.Unix()\<close>, and \<open>time.Unix(sec, 0).Sub(now)\<close>, which saturates.\<close>

definition unix :: "int \<Rightarrow> int" where "unix now = now div second_ns"

definition until :: "int \<Rightarrow> int \<Rightarrow> int" where
  "until sec now = max (- (2 ^ 63)) (min (2 ^ 63 - 1) (sec * second_ns - now))"

text \<open>\<open>time.Duration(ms) * time.Millisecond\<close> wraps.\<close>

definition of_millis :: "int \<Rightarrow> int" where
  "of_millis ms = (ms * milli_ns + 2 ^ 63) mod 2 ^ 64 - 2 ^ 63"

section \<open>Reading tokens\<close>

record token_record =
  payload :: string
  ttl :: int

definition read_token :: "string \<Rightarrow> token_record act" where
  "read_token k =
     need (\<not> blank k) BadArguments (check_ctx (call (ReadTokenS k) (\<lambda>rep.
     and_then (of_res (multi_of 2 rep)) (\<lambda>parts.
     and_then (of_res (redis_integer (parts ! 1))) (\<lambda>ms.
     if ms = -2 then ok \<lparr>payload = [], ttl = -2\<rparr>
     else case parts ! 0 of
            RBulk p \<Rightarrow> ok \<lparr>payload = p, ttl = (if ms = -1 then -1 else of_millis ms)\<rparr>
          | _ \<Rightarrow> fail BadReply)))))"

text \<open>\<open>client.Get(k).Result()\<close> with its three outcomes.\<close>

definition client_get :: "string \<Rightarrow> (string option \<Rightarrow> 'a act) \<Rightarrow> 'a act" where
  "client_get k f = call (CGet k) (\<lambda>rep. case rep of RBulk v \<Rightarrow> f (Some v) | _ \<Rightarrow> f None)"

section \<open>The rollout state and the write lease\<close>

definition writable_state :: "rollout act" where
  "writable_state = Lease (\<lambda>may. if \<not> may then fail LeaseLost else Load (\<lambda>st.
     if writes_v3 (mode st) \<and> \<not> cap_usable (max_per_uid st) then fail CapUnavailable else ok st))"

section \<open>The compatibility writer\<close>

definition compare_delete_device_index :: "session_cfg \<Rightarrow> string \<Rightarrow> string \<Rightarrow> int \<Rightarrow> unit act" where
  "compare_delete_device_index C token u flag =
     call (CompareDeleteS (uid_token_key C u flag) token) (\<lambda>_. ok ())"

definition issue_new :: "codec \<Rightarrow> session_cfg \<Rightarrow> string \<Rightarrow> string \<Rightarrow> string \<Rightarrow> int \<Rightarrow> unit act" where
  "issue_new J C token pl u flag =
     and_then writable_state (\<lambda>_.
     need (\<not> blank token \<and> \<not> blank pl \<and> \<not> blank u \<and> 0 \<le> flag) BadArguments (check_ctx (
     and_then (of_res (mark_issued_payload J pl token)) (\<lambda>owned.
     call (CSetNX (token_key C token) owned (max_ttl C)) (\<lambda>rep.
     if rep = RInt 0 then fail TokenCollision
     else Call (CSet (uid_token_key C u flag) token (max_ttl C)) (\<lambda>rep.
       if rep = RFail
       then Call (CompareDeleteS (token_key C token) owned) (\<lambda>_. fail RedisFailed)
       else ok ()))))))"

definition update_payload_keep :: "session_cfg \<Rightarrow> string \<Rightarrow> string \<Rightarrow> (int \<times> bool) act" where
  "update_payload_keep C token pl =
     check_ctx (call (UpdatePayloadS (token_key C token) pl (millis (max_ttl C))) (\<lambda>rep.
     and_then (of_res (multi_of 2 rep)) (\<lambda>parts.
     and_then (of_res (redis_integer (parts ! 0))) (\<lambda>ms.
     and_then (of_res (redis_integer (parts ! 1))) (\<lambda>persistent.
     if ms = -2 then ok (0, False)
     else if ms = -3 then fail VersionDowngrade
     else if ms \<le> 0 then fail BadReply
     else ok (of_millis ms, True))))))"

text \<open>An operation with the results \<open>(ok bool, err error)\<close>, both of which may be set.\<close>

definition reuse_existing ::
    "session_cfg \<Rightarrow> string \<Rightarrow> string \<Rightarrow> string \<Rightarrow> int \<Rightarrow> (bool \<times> auth_error option) prog" where
  "reuse_existing C token pl u flag =
     pbind
       (and_then writable_state (\<lambda>_.
        need (\<not> blank token \<and> \<not> blank pl \<and> \<not> blank u \<and> 0 \<le> flag) BadArguments
        (update_payload_keep C token pl)))
       (\<lambda>x. case x of
              Inl e \<Rightarrow> Return (False, Some e)
            | Inr (d, found) \<Rightarrow>
                if \<not> found then Return (False, None)
                else Call (CSet (uid_token_key C u flag) token d) (\<lambda>rep.
                  Return (True, if rep = RFail then Some RedisFailed else None)))"

definition update_payload_keep_deadline :: "session_cfg \<Rightarrow> string \<Rightarrow> string \<Rightarrow> bool act" where
  "update_payload_keep_deadline C token pl =
     need (\<not> blank token \<and> \<not> blank pl) BadArguments
     (and_then (update_payload_keep C token pl) (\<lambda>(_, found). ok found))"

definition device_token :: "session_cfg \<Rightarrow> string \<Rightarrow> int \<Rightarrow> string act" where
  "device_token C u flag =
     need (\<not> blank u \<and> 0 \<le> flag) BadArguments (check_ctx
     (client_get (uid_token_key C u flag) (\<lambda>v. ok (case v of None \<Rightarrow> [] | Some t \<Rightarrow> t))))"

definition delete_token :: "session_cfg \<Rightarrow> string \<Rightarrow> unit act" where
  "delete_token C token =
     need (\<not> blank token) BadArguments (check_ctx (call (CDel (token_key C token)) (\<lambda>_. ok ())))"

definition index_member_of :: "codec \<Rightarrow> string \<Rightarrow> int \<Rightarrow> string \<Rightarrow> string" where
  "index_member_of J token flag dev =
     marshal_member J \<lparr>m_token = token, m_device_flag = flag, m_device_id = dev\<rparr>"

definition revoke_issued :: "codec \<Rightarrow> session_cfg \<Rightarrow> string \<Rightarrow> string \<Rightarrow> int \<Rightarrow> unit act" where
  "revoke_issued J C token u flag =
     need (\<not> blank token \<and> \<not> blank u \<and> 0 \<le> flag) BadArguments (check_ctx
     (client_get (token_key C token) (\<lambda>v. case v of
        None \<Rightarrow> compare_delete_device_index C token u flag
      | Some current \<Rightarrow>
          if issued_payload_owner J current \<noteq> Some (issue_owner token) then ok ()
          else
            let finish = (\<lambda>index.
                  call (CompareDeleteS (token_key C token) current) (\<lambda>rep.
                  and_then (of_res (redis_integer rep)) (\<lambda>deleted.
                  if deleted = 0 then ok ()
                  else pbind (compare_delete_device_index C token u flag) (\<lambda>dev.
                    case index of
                      None \<Rightarrow> Return dev
                    | Some (k, m) \<Rightarrow> Call (CZRem k m) (\<lambda>rep.
                        case dev of
                          Inl e \<Rightarrow> fail (if rep = RFail then Joined e RedisFailed else e)
                        | Inr _ \<Rightarrow> if rep = RFail then fail RedisFailed else ok ())))))
            in if prefix v3_prefix current
               then and_then (of_res (decode J current)) (\<lambda>info.
                 need (uid info = u \<and> device_flag info = flag) UidMismatch
                 (finish (Some (session_index_key C (uid info) (session_generation info),
                    index_member_of J token (device_flag info) (device_id info)))))
               else finish None)))"

section \<open>Generations and fences\<close>

record issue_fence =
  f_generation :: string
  f_revision :: nat

definition session_generation_active :: string where "session_generation_active = ''active''"

definition begin_issue :: "codec \<Rightarrow> session_cfg \<Rightarrow> string \<Rightarrow> issue_fence act" where
  "begin_issue J C u =
     Load (\<lambda>st.
     need (writes_v3 (mode st)) V3Disabled (
     need (\<not> blank u) BadArguments (check_ctx (
     Random (\<lambda>rnd. case rnd of None \<Rightarrow> fail RandFailed | Some g \<Rightarrow>
     call (EnsureGenS (generation_key C u)
             (marshal_gen J \<lparr>generation = g, revision = 1, gen_state = session_generation_active,
                last_event_version = 0, last_event_id = [], last_revoked_generation = []\<rparr>)
             (millis (max_ttl C))) (\<lambda>rep.
     and_then (of_res (redis_string rep)) (\<lambda>raw.
     and_then (of_res (decode_gen J raw)) (\<lambda>rec.
     need (gen_state rec = session_generation_active) GenerationInactive
     (ok \<lparr>f_generation = generation rec, f_revision = revision rec\<rparr>)))))))))"

definition current_generation :: "codec \<Rightarrow> session_cfg \<Rightarrow> string \<Rightarrow> string act" where
  "current_generation J C u =
     need (\<not> blank u) BadArguments (check_ctx
     (client_get (generation_key C u) (\<lambda>v. case v of
        None \<Rightarrow> ok []
      | Some raw \<Rightarrow>
          and_then (of_res (decode_gen J raw)) (\<lambda>rec.
          need (gen_state rec = session_generation_active) GenerationInactive
          (ok (generation rec))))))"

definition require_fence :: "codec \<Rightarrow> session_cfg \<Rightarrow> string \<Rightarrow> issue_fence \<Rightarrow> unit act" where
  "require_fence J C u fence =
     check_ctx (client_get (generation_key C u) (\<lambda>v. case v of
        None \<Rightarrow> fail FenceChanged
      | Some raw \<Rightarrow>
          and_then (of_res (decode_gen J raw)) (\<lambda>rec.
          need (gen_state rec = session_generation_active \<and> generation rec = f_generation fence \<and>
             revision rec = f_revision fence) FenceChanged (ok ()))))"

definition extend_fence_deadline ::
    "session_cfg \<Rightarrow> string \<Rightarrow> issue_fence \<Rightarrow> int \<Rightarrow> unit act" where
  "extend_fence_deadline C u fence deadline =
     check_ctx (Clock (\<lambda>now.
     let d = until deadline now in
     need (0 < d) FenceChanged (
     call (ExtendS (generation_key C u) (f_generation fence) (f_revision fence) (millis d)) (\<lambda>rep.
     and_then (of_res (redis_integer rep)) (\<lambda>code. need (code = 1) FenceChanged (ok ()))))))"

definition validate_legacy_session ::
    "session_cfg \<Rightarrow> token_info \<Rightarrow> token_record \<Rightarrow> unit act" where
  "validate_legacy_session C info rec =
     Load (\<lambda>st.
     if mode st = Enforce then fail LegacyDenied
     else if mode st = Bounded \<and> (ttl rec \<le> 0 \<or> max_ttl C < ttl rec) then fail LegacyDenied
     else if \<not> checks_legacy_deny (mode st) then ok ()
     else check_ctx (call (CExists (legacy_deny_key C (uid info))) (\<lambda>rep.
       need (rep = RInt 0) LegacyDenied (ok ()))))"

section \<open>The session index\<close>

definition add_session_index ::
    "session_cfg \<Rightarrow> string \<Rightarrow> string \<Rightarrow> string \<Rightarrow> int \<Rightarrow> int \<Rightarrow> unit act" where
  "add_session_index C u g member expires d =
     need (\<not> blank g) BadArguments (Clock (\<lambda>now. Load (\<lambda>st.
     call (AddIndexS (session_index_key C u g) (unix now) member expires (max_per_uid st) (millis d))
       (\<lambda>rep. and_then (of_res (redis_integer rep)) (\<lambda>code.
        if code = -1 then fail LimitReached else need (code = 1) BadReply (ok ()))))))"

definition cleanup_issued_v3 ::
    "session_cfg \<Rightarrow> string \<Rightarrow> string \<Rightarrow> string \<Rightarrow> int \<Rightarrow> string \<Rightarrow> string \<Rightarrow> unit act" where
  "cleanup_issued_v3 C token owned u flag g member =
     call (CompareDeleteS (token_key C token) owned) (\<lambda>rep.
     and_then (of_res (redis_integer rep)) (\<lambda>deleted.
     if deleted = 0 then ok ()
     else and_then (compare_delete_device_index C token u flag) (\<lambda>_.
       call (CZRem (session_index_key C u g) member) (\<lambda>_. ok ()))))"

text \<open>\<open>cleanup(primary)\<close>: the outcome is the primary error whether or not the cleanup worked.\<close>

definition after_cleanup :: "unit act \<Rightarrow> auth_error \<Rightarrow> 'a act" where
  "after_cleanup p primary = pbind p (\<lambda>_. fail primary)"

definition or_cleanup :: "unit act \<Rightarrow> unit act \<Rightarrow> 'a act \<Rightarrow> 'a act" where
  "or_cleanup clean p k = pbind p (\<lambda>x. case x of Inl e \<Rightarrow> after_cleanup clean e | Inr _ \<Rightarrow> k)"

definition cleanup_index_reservation ::
    "codec \<Rightarrow> session_cfg \<Rightarrow> string \<Rightarrow> string \<Rightarrow> int \<Rightarrow> string \<Rightarrow> string \<Rightarrow> unit act" where
  "cleanup_index_reservation J C token u flag dev g =
     (let member = index_member_of J token flag dev;
          remove = call (CZRem (session_index_key C u g) member) (\<lambda>_. ok ())
      in client_get (token_key C token) (\<lambda>v. case v of
           None \<Rightarrow> remove
         | Some raw \<Rightarrow>
             and_then (of_res (decode J raw)) (\<lambda>info.
             if is_v3 info \<and> index_member_of J token (device_flag info) (device_id info) = member
             then ok () else remove)))"

section \<open>Issuing a session\<close>

definition issue_new_session ::
    "codec \<Rightarrow> session_cfg \<Rightarrow> string \<Rightarrow> token_info \<Rightarrow> issue_fence \<Rightarrow> unit act" where
  "issue_new_session J C token info fence =
     and_then writable_state (\<lambda>_. Load (\<lambda>st.
     need (writes_v3 (mode st)) V3Disabled (
     need (\<not> blank token \<and> \<not> blank (uid info) \<and> 0 \<le> device_flag info) BadArguments (
     need (\<not> blank (f_generation fence) \<and> f_revision fence \<noteq> 0) BadArguments (
     and_then (require_fence J C (uid info) fence) (\<lambda>_. Clock (\<lambda>now.
     let expires = unix (now + max_ttl C);
         d = until expires now;
         info = info\<lparr>issued_at := unix now, expires_at := expires,
                  session_generation := f_generation fence, session_revision := f_revision fence\<rparr>;
         member = index_member_of J token (device_flag info) (device_id info)
     in
     need (0 < d) NoNextSecond (
     and_then (of_res (encode_v3 J info)) (\<lambda>pl.
     and_then (of_res (mark_issued_payload J pl token)) (\<lambda>owned.
     call (CSetNX (token_key C token) owned d) (\<lambda>rep.
     if rep = RInt 0 then fail TokenCollision
     else
       let clean = cleanup_issued_v3 C token owned (uid info) (device_flag info)
                     (f_generation fence) member
       in or_cleanup clean (add_session_index C (uid info) (f_generation fence) member expires d) (
          Context (\<lambda>done. if done then after_cleanup clean Cancelled else
          or_cleanup clean (call (CSet (uid_token_key C (uid info) (device_flag info)) token d)
             (\<lambda>_. ok ())) (
          or_cleanup clean (extend_fence_deadline C (uid info) fence expires) (
          or_cleanup clean (require_fence J C (uid info) fence) (ok ()))))))))))))))))"

section \<open>Replacing a payload in place\<close>

text \<open>The result is the remaining life, whether the payload was replaced, and whether it had changed.\<close>

definition cas_replace_payload ::
    "session_cfg \<Rightarrow> string \<Rightarrow> string \<Rightarrow> string \<Rightarrow> int \<Rightarrow> (int \<times> bool \<times> bool) act" where
  "cas_replace_payload C token expected pl cap =
     check_ctx (need (0 < cap) BadArguments (
     call (CasReplaceS (token_key C token) expected pl (millis cap)) (\<lambda>rep.
     and_then (of_res (multi_of 3 rep)) (\<lambda>parts.
     and_then (of_res (redis_integer (parts ! 0))) (\<lambda>code.
     if code = -2 then ok (0, False, False)
     else if code = -4 then ok (0, False, True)
     else if code \<noteq> 1 then fail BadReply
     else and_then (of_res (redis_integer (parts ! 1))) (\<lambda>ms.
       if ms \<le> 0 then fail BadReply
       else and_then (of_res (redis_integer (parts ! 2))) (\<lambda>persistent.
         ok (of_millis ms, True, False))))))))"

text \<open>\<open>(ok, conflict, err)\<close>.\<close>

definition reuse_existing_v3 ::
    "codec \<Rightarrow> session_cfg \<Rightarrow> string \<Rightarrow> string \<Rightarrow> token_info \<Rightarrow> token_info \<Rightarrow> issue_fence
     \<Rightarrow> (bool \<times> bool) act" where
  "reuse_existing_v3 J C token current_payload current snapshot fence =
     (if session_generation current \<noteq> f_generation fence \<or> session_revision current \<noteq> f_revision fence
      then ok (False, False)
      else if device_flag current \<noteq> device_flag snapshot then fail FlagMismatch
      else
        let current = current\<lparr>display_name := display_name snapshot, role := role snapshot,
                        language := language snapshot\<rparr>
        in and_then (of_res (encode_v3 J current)) (\<lambda>pl. Clock (\<lambda>now.
           let cap = until (expires_at current) now in
           if cap \<le> 0 then ok (False, False)
           else and_then (cas_replace_payload C token current_payload pl cap) (\<lambda>(d, replaced, conflict).
             if conflict then ok (False, True)
             else if \<not> replaced then ok (False, False)
             else
               and_then (add_session_index C (uid current) (session_generation current)
                 (index_member_of J token (device_flag current) (device_id current))
                 (expires_at current) d) (\<lambda>_.
               call (CSet (uid_token_key C (uid current) (device_flag current)) token d) (\<lambda>_.
               and_then (extend_fence_deadline C (uid current) fence (expires_at current)) (\<lambda>_.
               and_then (require_fence J C (uid current) fence) (\<lambda>_. ok (True, False)))))))))"

definition promote_legacy_session ::
    "codec \<Rightarrow> session_cfg \<Rightarrow> string \<Rightarrow> token_record \<Rightarrow> token_info \<Rightarrow> issue_fence
     \<Rightarrow> (bool \<times> bool) act" where
  "promote_legacy_session J C token rec snapshot fence =
     (let cap = (if ttl rec = -1 \<or> max_ttl C < ttl rec then max_ttl C else ttl rec) in
      if cap \<le> 0 then ok (False, False)
      else Clock (\<lambda>now.
        let expires = unix (now + cap); cap = until expires now in
        if cap \<le> 0 then ok (False, False)
        else
          let snapshot = snapshot\<lparr>issued_at := unix now, expires_at := expires,
                session_generation := f_generation fence, session_revision := f_revision fence\<rparr>;
              member = index_member_of J token (device_flag snapshot) (device_id snapshot);
              unreserve = cleanup_index_reservation J C token (uid snapshot)
                (device_flag snapshot) (device_id snapshot) (f_generation fence)
          in and_then (of_res (encode_v3 J snapshot)) (\<lambda>pl.
             and_then (of_res (mark_issued_payload J pl token)) (\<lambda>owned.
             and_then (add_session_index C (uid snapshot) (f_generation fence) member expires cap) (\<lambda>_.
             pbind (cas_replace_payload C token (payload rec) owned cap) (\<lambda>x. case x of
               Inl e \<Rightarrow> after_cleanup unreserve e
             | Inr (d, replaced, conflict) \<Rightarrow>
                 if conflict then and_then unreserve (\<lambda>_. ok (False, True))
                 else if \<not> replaced then and_then unreserve (\<lambda>_. ok (False, False))
                 else
                   let clean = cleanup_issued_v3 C token owned (uid snapshot)
                         (device_flag snapshot) (f_generation fence) member
                   in or_cleanup clean (call (CSet (uid_token_key C (uid snapshot)
                           (device_flag snapshot)) token d) (\<lambda>_. ok ())) (
                      or_cleanup clean (extend_fence_deadline C (uid snapshot) fence expires) (
                      or_cleanup clean (require_fence J C (uid snapshot) fence)
                        (ok (True, False))))))))))"

section \<open>Reusing and updating a session\<close>

text \<open>The loop of \<open>ReuseSession\<close>, with the attempts that are left.\<close>

primrec reuse_attempts ::
    "nat \<Rightarrow> codec \<Rightarrow> session_cfg \<Rightarrow> string \<Rightarrow> token_info \<Rightarrow> issue_fence \<Rightarrow> bool act" where
  "reuse_attempts 0 J C token snapshot fence =
     pbind (cleanup_index_reservation J C token (uid snapshot) (device_flag snapshot)
              (device_id snapshot) (f_generation fence)) (\<lambda>_. fail TooFrequent)"
| "reuse_attempts (Suc n) J C token snapshot fence =
     and_then (read_token (token_key C token)) (\<lambda>rec.
     if ttl rec = -2 \<or> blank (payload rec) then ok False
     else
       and_then (of_res (decode J (payload rec))) (\<lambda>current.
       need (uid current = uid snapshot) UidMismatch (
       and_then
         (if is_v3 current
          then reuse_existing_v3 J C token (payload rec) current snapshot fence
          else promote_legacy_session J C token rec snapshot fence) (\<lambda>(done, conflict).
       if done \<or> \<not> conflict then ok done
       else reuse_attempts n J C token snapshot fence))))"

definition reuse_session ::
    "codec \<Rightarrow> session_cfg \<Rightarrow> string \<Rightarrow> token_info \<Rightarrow> issue_fence \<Rightarrow> (bool \<times> auth_error option) prog" where
  "reuse_session J C token snapshot fence =
     (let flat = (\<lambda>p. pbind p (\<lambda>x. case x of
            Inl e \<Rightarrow> Return (False, Some e) | Inr b \<Rightarrow> Return (b, None)))
      in pbind writable_state (\<lambda>x. case x of
           Inl e \<Rightarrow> Return (False, Some e)
         | Inr _ \<Rightarrow>
             if blank token \<or> blank (uid snapshot) \<or> device_flag snapshot < 0
             then Return (False, Some BadArguments)
             else Load (\<lambda>st.
               if \<not> writes_v3 (mode st)
               then (case encode J snapshot of
                       Inl e \<Rightarrow> Return (False, Some e)
                     | Inr pl \<Rightarrow> reuse_existing C token pl (uid snapshot) (device_flag snapshot))
               else flat (
                 need (\<not> blank (f_generation fence) \<and> f_revision fence \<noteq> 0) BadArguments (
                 and_then (require_fence J C (uid snapshot) fence) (\<lambda>_.
                 reuse_attempts 4 J C token snapshot fence))))))"

primrec update_attempts :: "nat \<Rightarrow> codec \<Rightarrow> session_cfg \<Rightarrow> string \<Rightarrow> token_info \<Rightarrow> bool act" where
  "update_attempts 0 J C token snapshot = fail TooFrequent"
| "update_attempts (Suc n) J C token snapshot =
     and_then (read_token (token_key C token)) (\<lambda>rec.
     if ttl rec = -2 \<or> blank (payload rec) then ok False
     else
       and_then (of_res (decode J (payload rec))) (\<lambda>current.
       need (uid snapshot = [] \<or> uid snapshot = uid current) UidMismatch (
       let current = current\<lparr>display_name := display_name snapshot, role := role snapshot,
                       language := language snapshot\<rparr>;
           replace = (\<lambda>pl cap.
             if cap \<le> 0 then ok False
             else and_then (cas_replace_payload C token (payload rec) pl cap)
               (\<lambda>(_, replaced, conflict).
                 if conflict then update_attempts n J C token snapshot else ok replaced))
       in if is_v3 current
          then (case encode_v3 J current of
                  Inl e \<Rightarrow> Clock (\<lambda>now. fail e)
                | Inr pl \<Rightarrow> Clock (\<lambda>now. replace pl (until (expires_at current) now)))
          else and_then (of_res (encode J current)) (\<lambda>pl. replace pl (max_ttl C)))))"

definition update_session_snapshot ::
    "codec \<Rightarrow> session_cfg \<Rightarrow> string \<Rightarrow> token_info \<Rightarrow> bool act" where
  "update_session_snapshot J C token snapshot =
     need (\<not> blank token) BadArguments (update_attempts 4 J C token snapshot)"

section \<open>Revocation\<close>

definition revoke_all ::
    "session_cfg \<Rightarrow> string \<Rightarrow> nat \<Rightarrow> string \<Rightarrow> unit act" where
  "revoke_all C u event_version event_id =
     Load (\<lambda>st.
     need (writes_v3 (mode st)) V3Disabled (
     need (\<not> blank u \<and> event_version \<noteq> 0 \<and> \<not> blank event_id) BadArguments (check_ctx (
     Random (\<lambda>rnd. case rnd of None \<Rightarrow> fail RandFailed | Some g \<Rightarrow>
     call (RotateS (generation_key C u) g event_version event_id (millis (max_ttl C))) (\<lambda>rep.
     and_then (of_res (multi_of 2 rep)) (\<lambda>parts.
     and_then (of_res (redis_integer (parts ! 0))) (\<lambda>code.
     and_then (of_res (redis_string (parts ! 1))) (\<lambda>previous.
     if code = -1 then fail AlreadyApplied
     else need (code = 0 \<or> code = 1) BadReply (
     let drop_index =
           (if previous = [] then need (code \<noteq> 0) AlreadyApplied (ok ())
            else call (CDel (session_index_key C u previous)) (\<lambda>_.
              need (code \<noteq> 0) AlreadyApplied (ok ())))
     in Load (\<lambda>st.
        if rank Revoke \<le> rank (mode st)
        then call (CSet (legacy_deny_key C u) (show_nat event_version) 0) (\<lambda>_. drop_index)
        else drop_index)))))))))))"

primrec revoke_attempts :: "nat \<Rightarrow> codec \<Rightarrow> session_cfg \<Rightarrow> string \<Rightarrow> string \<Rightarrow> int \<Rightarrow> unit act" where
  "revoke_attempts 0 J C token u flag = fail TooFrequent"
| "revoke_attempts (Suc n) J C token u flag =
     check_ctx (client_get (token_key C token) (\<lambda>v. case v of
        None \<Rightarrow> compare_delete_device_index C token u flag
      | Some current \<Rightarrow>
          and_then (of_res (decode J current)) (\<lambda>info.
          need (uid info = u) UidMismatch (
          call (CompareDeleteS (token_key C token) current) (\<lambda>rep.
          and_then (of_res (redis_integer rep)) (\<lambda>deleted.
          if deleted = 0 then revoke_attempts n J C token u flag
          else
            and_then (compare_delete_device_index C token u flag) (\<lambda>_.
            if is_v3 info
            then call (CZRem (session_index_key C u (session_generation info))
                   (index_member_of J token (device_flag info) (device_id info))) (\<lambda>_. ok ())
            else ok ())))))))"

definition revoke_current :: "codec \<Rightarrow> session_cfg \<Rightarrow> string \<Rightarrow> string \<Rightarrow> int \<Rightarrow> unit act" where
  "revoke_current J C token u flag =
     need (\<not> blank token \<and> \<not> blank u \<and> 0 \<le> flag) BadArguments
     (revoke_attempts 4 J C token u flag)"

text \<open>The device flags of octo-lib's \<open>config.APP\<close>, \<open>Web\<close> and \<open>PC\<close> are a parameter.\<close>

definition join_errors :: "auth_error option \<Rightarrow> auth_error + unit \<Rightarrow> auth_error option" where
  "join_errors acc x =
     (case x of
        Inr _ \<Rightarrow> acc
      | Inl e \<Rightarrow> (case acc of None \<Rightarrow> Some e | Some a \<Rightarrow> Some (Joined a e)))"

primrec delete_device_indexes ::
    "int list \<Rightarrow> session_cfg \<Rightarrow> string \<Rightarrow> string \<Rightarrow> auth_error option \<Rightarrow> unit act" where
  "delete_device_indexes [] C token u acc = (case acc of None \<Rightarrow> ok () | Some e \<Rightarrow> fail e)"
| "delete_device_indexes (f # fs) C token u acc =
     pbind (compare_delete_device_index C token u f) (\<lambda>x.
     delete_device_indexes fs C token u (join_errors acc x))"

definition invalidate_current_token ::
    "codec \<Rightarrow> session_cfg \<Rightarrow> int list \<Rightarrow> string \<Rightarrow> string \<Rightarrow> unit act" where
  "invalidate_current_token J C flags u token =
     need (\<not> blank u \<and> \<not> blank token) BadArguments (
     and_then (read_token (token_key C token)) (\<lambda>rec.
     if ttl rec = -2 \<or> blank (payload rec) then ok ()
     else
       and_then (of_res (decode J (payload rec))) (\<lambda>info.
       need (uid info = u) UidMismatch (
       if is_v3 info then revoke_current J C token u (device_flag info)
       else and_then (delete_token C token) (\<lambda>_. delete_device_indexes flags C token u None)))))"

section \<open>Validation\<close>

text \<open>
  \<open>TokenValidator.Validate\<close> over the store; \<open>resolver\<close> and \<open>policy\<close> say whether the optional
  interfaces are set.
\<close>

definition validate_token ::
    "codec \<Rightarrow> session_cfg \<Rightarrow> bool \<Rightarrow> bool \<Rightarrow> string \<Rightarrow> string \<Rightarrow> token_info act" where
  "validate_token J C resolver policy pre token =
     (if blank token then fail TokenMissing
      else
        and_then (read_token (pre @ token)) (\<lambda>rec.
        if ttl rec = -2 \<or> blank (payload rec) then fail TokenNotFound
        else
          (case decode J (payload rec) of
             Inl e \<Rightarrow> fail (if e = EmptyToken then TokenNotFound else TokenInvalid)
           | Inr info \<Rightarrow>
               if is_v3 info
               then
                 need (0 < ttl rec) TokenInvalid (Clock (\<lambda>now.
                 need (unix now < expires_at info) TokenInvalid (
                 need resolver TokenInvalid (
                 and_then (current_generation J C (uid info)) (\<lambda>g.
                 need (g \<noteq> [] \<and> g = session_generation info) TokenInvalid (ok info))))))
               else
                 need (ttl rec \<noteq> 0 \<and> \<not> ttl rec < -2) TokenInvalid (
                 if policy
                 then pbind (validate_legacy_session C info rec) (\<lambda>x. case x of
                        Inl e \<Rightarrow> fail (if e = LegacyDenied then TokenInvalid else e)
                      | Inr _ \<Rightarrow> ok info)
                 else ok info))))"

record user_info =
  u_uid :: string
  u_name :: string
  u_role :: string
  u_language :: string

text \<open>
  \<open>CacheTokenParser.Parse\<close>: the validator or, without one, the cache; then the fresh language and
  role where resolvers are set, and the snapshot when a resolver fails.
\<close>

definition refreshed :: "(string \<Rightarrow> auth_error + string) option \<Rightarrow> string \<Rightarrow> string \<Rightarrow> string" where
  "refreshed resolver u snapshot =
     (case resolver of
        None \<Rightarrow> snapshot
      | Some f \<Rightarrow> (case f u of Inl _ \<Rightarrow> snapshot | Inr v \<Rightarrow> v))"

definition parse_cached :: "codec \<Rightarrow> auth_error + string \<Rightarrow> auth_error + token_info" where
  "parse_cached J got =
     bind_res got (\<lambda>raw.
     if blank raw then Inl TokenNotFound
     else (case decode J raw of
             Inl e \<Rightarrow> Inl (if e = EmptyToken then TokenNotFound else TokenInvalid)
           | Inr info \<Rightarrow> if is_v3 info then Inl TokenInvalid else Inr info))"

definition parse_token ::
    "codec \<Rightarrow> token_info act option \<Rightarrow> (string \<Rightarrow> auth_error + string)
     \<Rightarrow> (string \<Rightarrow> auth_error + string) option \<Rightarrow> (string \<Rightarrow> auth_error + string) option
     \<Rightarrow> string \<Rightarrow> string \<Rightarrow> user_info act" where
  "parse_token J validator cache languages roles pre token =
     (if blank token then fail TokenMissing
      else
        and_then (case validator of
                    Some v \<Rightarrow> v
                  | None \<Rightarrow> of_res (parse_cached J (cache (pre @ token)))) (\<lambda>info.
        ok \<lparr>u_uid = uid info, u_name = display_name info,
            u_role = refreshed roles (uid info) (role info),
            u_language = refreshed languages (uid info) (language info)\<rparr>))"

end
