(* ===== verification/Session_System.thy ===== *)
theory Session_System
  imports Session_Store
begin

text \<open>
  User sessions, many replicas at once: every operation in progress is a job, and a step of the
  system executes one call of one job, lets time pass, or lets the rest of the world act.  A Redis
  command may fail before it takes effect, or after it; the client's own retry of a command whose
  answer was lost is not modelled.  The section on programs has the rules by which facts about all
  the commands of an operation are proved.
\<close>

section \<open>The commands of a program\<close>

text \<open>
  \<open>all_cmds R P p\<close>: whatever the replies, \<open>p\<close> only executes commands that satisfy \<open>P\<close>, when the
  rollout states it loads are in \<open>R\<close>.
\<close>

primrec all_cmds :: "rollout set \<Rightarrow> (cmd \<Rightarrow> bool) \<Rightarrow> 'a prog \<Rightarrow> bool" where
  "all_cmds R P (Return a) = True"
| "all_cmds R P (Call c k) = (P c \<and> (\<forall>x. all_cmds R P (k x)))"
| "all_cmds R P (Clock k) = (\<forall>x. all_cmds R P (k x))"
| "all_cmds R P (Random k) = (\<forall>x. all_cmds R P (k x))"
| "all_cmds R P (Load k) = (\<forall>x \<in> R. all_cmds R P (k x))"
| "all_cmds R P (Lease k) = (\<forall>x. all_cmds R P (k x))"
| "all_cmds R P (Context k) = (\<forall>x. all_cmds R P (k x))"

named_theorems cmds_intro "rules for the commands of a program"

lemma all_cmds_pbind [cmds_intro]:
  "all_cmds R P p \<Longrightarrow> (\<And>a. all_cmds R P (f a)) \<Longrightarrow> all_cmds R P (pbind p f)"
  by (induction p) simp_all

lemma all_cmds_calls [cmds_intro]:
  "P c \<Longrightarrow> (\<And>x. all_cmds R P (k x)) \<Longrightarrow> all_cmds R P (Call c k)"
  "(\<And>x. all_cmds R P (k' x)) \<Longrightarrow> all_cmds R P (Clock k')"
  "(\<And>x. x \<in> R \<Longrightarrow> all_cmds R P (l x)) \<Longrightarrow> all_cmds R P (Load l)"
  "(\<And>x. all_cmds R P (m x)) \<Longrightarrow> all_cmds R P (Lease m)"
  "(\<And>x. all_cmds R P (m x)) \<Longrightarrow> all_cmds R P (Context m)"
  "all_cmds R P (Return a)"
  by simp_all

lemma all_cmds_acts [cmds_intro]:
  "all_cmds R P (ok a)" "all_cmds R P (fail e)" "all_cmds R P (of_res x)"
  by (simp_all add: ok_def fail_def of_res_def)

lemma all_cmds_and_then [cmds_intro]:
  "all_cmds R P p \<Longrightarrow> (\<And>a. all_cmds R P (f a)) \<Longrightarrow> all_cmds R P (and_then p f)"
  by (auto simp: and_then_def fail_def intro!: all_cmds_pbind split: sum.split)

lemma all_cmds_need [cmds_intro]: "(b \<Longrightarrow> all_cmds R P p) \<Longrightarrow> all_cmds R P (need b e p)"
  by (simp add: need_def fail_def)

lemma all_cmds_check_ctx [cmds_intro]: "all_cmds R P p \<Longrightarrow> all_cmds R P (check_ctx p)"
  by (simp add: check_ctx_def fail_def)

lemma all_cmds_call [cmds_intro]:
  "P c \<Longrightarrow> (\<And>x. all_cmds R P (k x)) \<Longrightarrow> all_cmds R P (call c k)"
  by (simp add: call_def fail_def)

lemma all_cmds_client_get [cmds_intro]:
  "P (CGet key) \<Longrightarrow> (\<And>x. all_cmds R P (k x)) \<Longrightarrow> all_cmds R P (client_get key k)"
  by (auto simp: client_get_def intro!: all_cmds_call split: reply.split)

lemma all_cmds_after_cleanup [cmds_intro]:
  "all_cmds R P p \<Longrightarrow> all_cmds R P (after_cleanup p e)"
  by (simp add: after_cleanup_def fail_def all_cmds_pbind)

lemma all_cmds_or_cleanup [cmds_intro]:
  "all_cmds R P clean \<Longrightarrow> all_cmds R P p \<Longrightarrow> all_cmds R P k \<Longrightarrow> all_cmds R P (or_cleanup clean p k)"
  by (auto simp: or_cleanup_def intro!: all_cmds_pbind all_cmds_after_cleanup split: sum.split)

lemma all_cmds_cases [cmds_intro]:
  "(b \<Longrightarrow> all_cmds R P p) \<Longrightarrow> (\<not> b \<Longrightarrow> all_cmds R P q) \<Longrightarrow> all_cmds R P (if b then p else q)"
  "(\<And>x y. all_cmds R P (f x y)) \<Longrightarrow> all_cmds R P (case z of (x, y) \<Rightarrow> f x y)"
  "(\<And>a. all_cmds R P (g a)) \<Longrightarrow> (\<And>a. all_cmds R P (h a)) \<Longrightarrow>
    all_cmds R P (case w of Inl a \<Rightarrow> g a | Inr a \<Rightarrow> h a)"
  "all_cmds R P n \<Longrightarrow> (\<And>a. all_cmds R P (s a)) \<Longrightarrow>
    all_cmds R P (case v of None \<Rightarrow> n | Some a \<Rightarrow> s a)"
  by (auto split: prod.split sum.split option.split)

section \<open>What the operations execute\<close>

lemmas op_defs = read_token_def writable_state_def compare_delete_device_index_def
  issue_new_def update_payload_keep_def reuse_existing_def update_payload_keep_deadline_def
  device_token_def delete_token_def revoke_issued_def current_generation_def require_fence_def
  extend_fence_deadline_def validate_legacy_session_def add_session_index_def
  cleanup_issued_v3_def cleanup_index_reservation_def issue_new_session_def
  cas_replace_payload_def reuse_existing_v3_def promote_legacy_session_def

text \<open>The commands of every operation but \<open>BeginIssue\<close> and \<open>RevokeAll\<close>, by the kind of key.\<close>

definition device_keys :: "session_cfg \<Rightarrow> string set" where
  "device_keys C = {uid_token_key C u flag | u flag. True}"

definition deny_keys :: "session_cfg \<Rightarrow> string set" where "deny_keys C = range (legacy_deny_key C)"
definition token_keys :: "session_cfg \<Rightarrow> string set" where "token_keys C = range (token_key C)"
definition generation_keys :: "session_cfg \<Rightarrow> string set" where
  "generation_keys C = range (generation_key C)"
definition index_keys :: "session_cfg \<Rightarrow> string set" where
  "index_keys C = {session_index_key C u g | u g. True}"

lemma key_sets [simp]:
  "uid_token_key C u flag \<in> device_keys C" "legacy_deny_key C u \<in> deny_keys C"
  "token_key C tok \<in> token_keys C" "generation_key C u \<in> generation_keys C"
  "session_index_key C u g \<in> index_keys C"
  by (auto simp: device_keys_def deny_keys_def token_keys_def generation_keys_def index_keys_def)

fun plain_cmd :: "rollout set \<Rightarrow> session_cfg \<Rightarrow> cmd \<Rightarrow> bool" where
  "plain_cmd R C (CGet k) = True"
| "plain_cmd R C (CExists k) = True"
| "plain_cmd R C (CDel k) = True"
| "plain_cmd R C (CSet k v ns) = (k \<in> device_keys C \<union> deny_keys C)"
| "plain_cmd R C (CSetNX k v ns) = (k \<in> token_keys C)"
| "plain_cmd R C (CZRem k m) = True"
| "plain_cmd R C (ReadTokenS k) = True"
| "plain_cmd R C (UpdatePayloadS k p ms) = (k \<in> token_keys C)"
| "plain_cmd R C (CompareDeleteS k v) = True"
| "plain_cmd R C (EnsureGenS k c ms) = False"
| "plain_cmd R C (AddIndexS k now m x cap ms) =
     (k \<in> index_keys C \<and> cap \<in> max_per_uid ` R)"
| "plain_cmd R C (RotateS k g v e ms) = False"
| "plain_cmd R C (ExtendS k g v ms) = True"
| "plain_cmd R C (CasReplaceS k a b ms) = (k \<in> token_keys C)"

lemma all_cmds_reply [cmds_intro]:
  "all_cmds R P a \<Longrightarrow> all_cmds R P b \<Longrightarrow> (\<And>x. all_cmds R P (c x)) \<Longrightarrow> (\<And>x. all_cmds R P (d x)) \<Longrightarrow>
    (\<And>x. all_cmds R P (e x)) \<Longrightarrow>
    all_cmds R P (case z of RFail \<Rightarrow> a | RNil \<Rightarrow> b | RBulk x \<Rightarrow> c x | RInt x \<Rightarrow> d x | RMulti x \<Rightarrow> e x)"
  by (auto split: reply.split)

abbreviation plain :: "rollout set \<Rightarrow> session_cfg \<Rightarrow> 'a prog \<Rightarrow> bool" where
  "plain R C \<equiv> all_cmds R (plain_cmd R C)"

lemma plain_read [cmds_intro]: "plain R C (read_token k)"
  unfolding read_token_def by (auto intro!: cmds_intro)

lemma plain_writable [cmds_intro]: "plain R C writable_state"
  unfolding writable_state_def by (auto intro!: cmds_intro)

lemma plain_device [cmds_intro]: "plain R C (compare_delete_device_index C token u flag)"
  unfolding compare_delete_device_index_def by (auto intro!: cmds_intro)

lemma plain_issue_new [cmds_intro]: "plain R C (issue_new J C token pl u flag)"
  unfolding issue_new_def by (auto intro!: cmds_intro)

lemma plain_update [cmds_intro]: "plain R C (update_payload_keep C token pl)"
  unfolding update_payload_keep_def by (auto intro!: cmds_intro)

lemma plain_reuse_existing [cmds_intro]: "plain R C (reuse_existing C token pl u flag)"
  unfolding reuse_existing_def by (auto intro!: cmds_intro)

lemma plain_require [cmds_intro]: "plain R C (require_fence J C u fence)"
  unfolding require_fence_def by (auto intro!: cmds_intro)

lemma plain_extend [cmds_intro]: "plain R C (extend_fence_deadline C u fence d)"
  unfolding extend_fence_deadline_def Let_def by (auto intro!: cmds_intro)

lemma plain_index [cmds_intro]: "plain R C (add_session_index C u g member expires d)"
  unfolding add_session_index_def by (auto intro!: cmds_intro)

lemma plain_cleanup_issued [cmds_intro]: "plain R C (cleanup_issued_v3 C token owned u flag g member)"
  unfolding cleanup_issued_v3_def by (auto intro!: cmds_intro)

lemma plain_cleanup_index [cmds_intro]: "plain R C (cleanup_index_reservation J C token u flag dev g)"
  unfolding cleanup_index_reservation_def Let_def by (auto intro!: cmds_intro)

lemma plain_issue [cmds_intro]: "plain R C (issue_new_session J C token info fence)"
  unfolding issue_new_session_def Let_def by (auto intro!: cmds_intro)

lemma plain_cas [cmds_intro]: "plain R C (cas_replace_payload C token expected pl cap)"
  unfolding cas_replace_payload_def by (auto intro!: cmds_intro)

lemma plain_reuse_v3 [cmds_intro]: "plain R C (reuse_existing_v3 J C token p current snapshot fence)"
  unfolding reuse_existing_v3_def Let_def by (auto intro!: cmds_intro)

lemma plain_promote [cmds_intro]: "plain R C (promote_legacy_session J C token rec snapshot fence)"
  unfolding promote_legacy_session_def Let_def by (auto intro!: cmds_intro)

lemma plain_reuse_attempts [cmds_intro]: "plain R C (reuse_attempts n J C token snapshot fence)"
  by (induction n) (auto intro!: cmds_intro)

lemma plain_reuse [cmds_intro]: "plain R C (reuse_session J C token snapshot fence)"
  unfolding reuse_session_def Let_def by (auto intro!: cmds_intro)

lemma plain_update_attempts [cmds_intro]: "plain R C (update_attempts n J C token snapshot)"
  by (induction n) (auto intro!: cmds_intro simp: Let_def)

lemma plain_revoke_attempts [cmds_intro]: "plain R C (revoke_attempts n J C token u flag)"
  by (induction n) (auto intro!: cmds_intro)

lemma plain_revoke_issued [cmds_intro]: "plain R C (revoke_issued J C token u flag)"
  unfolding revoke_issued_def Let_def by (auto intro!: cmds_intro)

lemma plain_generation [cmds_intro]: "plain R C (current_generation J C u)"
  unfolding current_generation_def by (auto intro!: cmds_intro)

lemma plain_legacy [cmds_intro]: "plain R C (validate_legacy_session C info rec)"
  unfolding validate_legacy_session_def by (auto intro!: cmds_intro)

lemma plain_validate [cmds_intro]: "plain R C (validate_token J C resolver policy pre token)"
  unfolding validate_token_def by (auto intro!: cmds_intro)

lemma plain_snapshot [cmds_intro]: "plain R C (update_session_snapshot J C token snapshot)"
  unfolding update_session_snapshot_def by (auto intro!: cmds_intro)

lemma plain_payload [cmds_intro]: "plain R C (update_payload_keep_deadline C token pl)"
  unfolding update_payload_keep_deadline_def by (auto intro!: cmds_intro)

lemma plain_device_token [cmds_intro]: "plain R C (device_token C u flag)"
  unfolding device_token_def by (auto intro!: cmds_intro)

lemma plain_delete [cmds_intro]: "plain R C (delete_token C token)"
  unfolding delete_token_def by (auto intro!: cmds_intro)

lemma plain_revoke_current [cmds_intro]: "plain R C (revoke_current J C token u flag)"
  unfolding revoke_current_def by (auto intro!: cmds_intro)

lemma plain_indexes [cmds_intro]: "plain R C (delete_device_indexes fs C token u acc)"
  by (induction fs arbitrary: acc) (auto intro!: cmds_intro)

lemma plain_invalidate [cmds_intro]: "plain R C (invalidate_current_token J C flags u token)"
  unfolding invalidate_current_token_def by (auto intro!: cmds_intro)

section \<open>Operations as jobs\<close>

datatype operation =
    BeginIssue string
  | IssueNewSession string token_info issue_fence
  | IssueNew string string string int
  | ReuseSession string token_info issue_fence
  | ReuseExisting string string string int
  | UpdateSessionSnapshot string token_info
  | UpdatePayloadKeepDeadline string string
  | DeviceToken string int
  | DeleteToken string
  | RevokeIssued string string int
  | RevokeCurrent string string int
  | InvalidateCurrentToken string string
  | RevokeAll string nat string
  | Validate string

datatype outcome =
    OError auth_error
  | ODone
  | OBool bool
  | OBoolError bool "auth_error option"
  | OFence issue_fence
  | OText string
  | OInfo token_info

definition report :: "('a \<Rightarrow> outcome) \<Rightarrow> 'a act \<Rightarrow> outcome prog" where
  "report f p = pbind p (\<lambda>x. Return (case x of Inl e \<Rightarrow> OError e | Inr a \<Rightarrow> f a))"

fun program :: "codec \<Rightarrow> session_cfg \<Rightarrow> int list \<Rightarrow> operation \<Rightarrow> outcome prog" where
  "program J C flags (BeginIssue u) = report OFence (begin_issue J C u)"
| "program J C flags (IssueNewSession token info fence) =
     report (\<lambda>_. ODone) (issue_new_session J C token info fence)"
| "program J C flags (IssueNew token pl u flag) = report (\<lambda>_. ODone) (issue_new J C token pl u flag)"
| "program J C flags (ReuseSession token info fence) =
     pbind (reuse_session J C token info fence) (\<lambda>(b, e). Return (OBoolError b e))"
| "program J C flags (ReuseExisting token pl u flag) =
     pbind (reuse_existing C token pl u flag) (\<lambda>(b, e). Return (OBoolError b e))"
| "program J C flags (UpdateSessionSnapshot token info) =
     report OBool (update_session_snapshot J C token info)"
| "program J C flags (UpdatePayloadKeepDeadline token pl) =
     report OBool (update_payload_keep_deadline C token pl)"
| "program J C flags (DeviceToken u flag) = report OText (device_token C u flag)"
| "program J C flags (DeleteToken token) = report (\<lambda>_. ODone) (delete_token C token)"
| "program J C flags (RevokeIssued token u flag) =
     report (\<lambda>_. ODone) (revoke_issued J C token u flag)"
| "program J C flags (RevokeCurrent token u flag) =
     report (\<lambda>_. ODone) (revoke_current J C token u flag)"
| "program J C flags (InvalidateCurrentToken u token) =
     report (\<lambda>_. ODone) (invalidate_current_token J C flags u token)"
| "program J C flags (RevokeAll u v e) = report (\<lambda>_. ODone) (revoke_all C u v e)"
| "program J C flags (Validate token) =
     report OInfo (validate_token J C True True (token_prefix C) token)"

text \<open>
  The system: Redis and its clock, the generations that have been drawn so far, and the jobs.
  \<open>R\<close> is the set of rollout states that replicas may load.
\<close>

record 's system =
  store :: 's
  store_ms :: int
  used :: "string set"
  jobs :: "nat \<Rightarrow> (operation \<times> outcome prog) option"

definition put_job :: "nat \<Rightarrow> operation \<Rightarrow> outcome prog \<Rightarrow> 's system \<Rightarrow> 's system" where
  "put_job i op p c = c\<lparr>jobs := (jobs c)(i \<mapsto> (op, p))\<rparr>"

lemma put_job_sel [simp]:
  "store (put_job i op p c) = store c" "store_ms (put_job i op p c) = store_ms c"
  "used (put_job i op p c) = used c" "jobs (put_job i op p c) = (jobs c)(i \<mapsto> (op, p))"
  by (simp_all add: put_job_def)

text \<open>
  \<open>session_step\<close>: a random draw is one that was never drawn before, and Redis's clock does not go
  back.  Other clients of Redis may do anything, except write generations or grow a session index.
\<close>

inductive session_step ::
    "'s kv \<Rightarrow> codec \<Rightarrow> session_cfg \<Rightarrow> int list \<Rightarrow> rollout set \<Rightarrow> 's system \<Rightarrow> 's system \<Rightarrow> bool"
  for r :: "'s kv" and J :: codec and C :: session_cfg and flags :: "int list" and R :: "rollout set" where
  start: "jobs c i = None \<Longrightarrow>
    session_step r J C flags R c (put_job i op (program J C flags op) c)"
| executed: "jobs c i = Some (op, Call cmd k) \<Longrightarrow> exec r J (store_ms c) cmd (store c) = (s', x) \<Longrightarrow>
    session_step r J C flags R c (put_job i op (k x) (c\<lparr>store := s'\<rparr>))"
| answer_lost: "jobs c i = Some (op, Call cmd k) \<Longrightarrow> exec r J (store_ms c) cmd (store c) = (s', x) \<Longrightarrow>
    session_step r J C flags R c (put_job i op (k RFail) (c\<lparr>store := s'\<rparr>))"
| not_executed: "jobs c i = Some (op, Call cmd k) \<Longrightarrow>
    session_step r J C flags R c (put_job i op (k RFail) c)"
| reads_clock: "jobs c i = Some (op, Clock k) \<Longrightarrow>
    session_step r J C flags R c (put_job i op (k now) c)"
| draws: "jobs c i = Some (op, Random k) \<Longrightarrow> g \<notin> used c \<Longrightarrow> valid_utf8 g \<Longrightarrow>
    session_step r J C flags R c (put_job i op (k (Some g)) (c\<lparr>used := insert g (used c)\<rparr>))"
| no_random: "jobs c i = Some (op, Random k) \<Longrightarrow>
    session_step r J C flags R c (put_job i op (k None) c)"
| loads: "jobs c i = Some (op, Load k) \<Longrightarrow> st \<in> R \<Longrightarrow>
    session_step r J C flags R c (put_job i op (k st) c)"
| asks_lease: "jobs c i = Some (op, Lease k) \<Longrightarrow>
    session_step r J C flags R c (put_job i op (k b) c)"
| asks_context: "jobs c i = Some (op, Context k) \<Longrightarrow>
    session_step r J C flags R c (put_job i op (k b) c)"
| time_passes: "store_ms c \<le> t \<Longrightarrow> session_step r J C flags R c (c\<lparr>store_ms := t\<rparr>)"
| outside: "(\<And>k. k \<in> generation_keys C \<Longrightarrow>
      kv_get r s' (store_ms c) k = None \<or> kv_get r s' (store_ms c) k = kv_get r (store c) (store_ms c) k) \<Longrightarrow>
    (\<And>k m. k \<in> index_keys C \<Longrightarrow> kv_zscore r s' (store_ms c) k m = None \<or>
      kv_zscore r s' (store_ms c) k m = kv_zscore r (store c) (store_ms c) k m) \<Longrightarrow>
    session_step r J C flags R c (c\<lparr>store := s'\<rparr>)"

inductive_cases session_stepE: "session_step r J C flags R c c'"

inductive session_reach ::
    "'s kv \<Rightarrow> codec \<Rightarrow> session_cfg \<Rightarrow> int list \<Rightarrow> rollout set \<Rightarrow> 's system \<Rightarrow> 's system \<Rightarrow> bool"
  for r :: "'s kv" and J :: codec and C :: session_cfg and flags :: "int list" and R :: "rollout set" where
  here: "session_reach r J C flags R c c"
| later: "session_reach r J C flags R c c' \<Longrightarrow> session_step r J C flags R c' c'' \<Longrightarrow>
    session_reach r J C flags R c c''"

end
