(* ===== verification/Session_Generations.thy ===== *)
theory Session_Generations
  imports Session_System
begin

text \<open>
  User sessions, revocation: a generation that has stopped being the current one of a user never
  becomes current again, whatever the replicas do, because every installed generation comes from a
  draw that is used once.
\<close>

section \<open>Key spaces\<close>

text \<open>The two prefixes of the configuration do not extend each other.\<close>

definition cfg_ok :: "session_cfg \<Rightarrow> bool" where
  "cfg_ok C \<longleftrightarrow> \<not> prefix (token_prefix C) (uid_token_prefix C) \<and>
     \<not> prefix (uid_token_prefix C) (token_prefix C)"

lemma not_prefix_append:
  "\<not> prefix a b \<Longrightarrow> \<not> prefix b a \<Longrightarrow> a @ x \<noteq> b @ y"
  by (metis prefixI prefix_same_cases)

lemma show_int_hd: "\<exists>c r. show_int i = c # r \<and> c \<noteq> CHR ''a''"
proof -
  obtain c cs where c: "show_nat (nat \<bar>i\<bar>) = c # cs" "is_digit c"
    using show_nat_digits [of "nat \<bar>i\<bar>"] by (cases "show_nat (nat \<bar>i\<bar>)") auto
  then have "c \<noteq> CHR ''a''" by (auto simp: is_digit_def byte_def)
  with c show ?thesis by (cases "i < 0") (auto simp: show_int_def)
qed

lemma keys_apart:
  assumes "cfg_ok C"
  shows "generation_keys C \<inter> token_keys C = {}" "generation_keys C \<inter> device_keys C = {}"
    "generation_keys C \<inter> deny_keys C = {}" "generation_keys C \<inter> index_keys C = {}"
    "index_keys C \<inter> token_keys C = {}" "index_keys C \<inter> device_keys C = {}"
    "index_keys C \<inter> deny_keys C = {}"
proof -
  have dev: "CHR ''a'' # x \<noteq> show_int flag @ u" for flag u x
    using show_int_hd [of flag] by auto
  have "uid_token_prefix C @ x \<noteq> token_prefix C @ y" for x y
    using assms not_prefix_append [of "uid_token_prefix C" "token_prefix C" x y] by (simp add: cfg_ok_def)
  from dev this this [THEN not_sym]
  show "generation_keys C \<inter> token_keys C = {}" "generation_keys C \<inter> device_keys C = {}"
    "generation_keys C \<inter> deny_keys C = {}" "generation_keys C \<inter> index_keys C = {}"
    "index_keys C \<inter> token_keys C = {}" "index_keys C \<inter> device_keys C = {}"
    "index_keys C \<inter> deny_keys C = {}"
    by (auto simp: generation_keys_def token_keys_def device_keys_def deny_keys_def index_keys_def
        generation_key_def token_key_def uid_token_key_def legacy_deny_key_def session_index_key_def)
qed

section \<open>Installing a generation\<close>

text \<open>The generations that a command can make current.\<close>

fun installs :: "codec \<Rightarrow> cmd \<Rightarrow> string set" where
  "installs J (EnsureGenS k c ms) =
     (case unmarshal_gen J c of None \<Rightarrow> {} | Some g \<Rightarrow> {generation g})"
| "installs J (RotateS k g v e ms) = {g}"
| "installs J _ = {}"

fun is_install :: "session_cfg \<Rightarrow> cmd \<Rightarrow> bool" where
  "is_install C (EnsureGenS k c ms) = (k \<in> generation_keys C)"
| "is_install C (RotateS k g v e ms) = (k \<in> generation_keys C)"
| "is_install C _ = False"

lemma plain_installs [simp]: "plain_cmd R C c \<Longrightarrow> installs J c = {}"
  by (cases c) simp_all

text \<open>What a reader of a generation key finds.\<close>

definition current :: "codec \<Rightarrow> 's kv \<Rightarrow> 's \<Rightarrow> int \<Rightarrow> string \<Rightarrow> string option" where
  "current J r s t k =
     (case kv_get r s t k of
        None \<Rightarrow> None
      | Some raw \<Rightarrow> map_option generation (unmarshal_gen J raw))"

locale session_laws = kv_laws r + codec_laws J
  for r :: "'s kv" and J :: codec
begin

lemma client_set_other:
  "client_set r t k v ns s = Some s' \<Longrightarrow> k' \<noteq> k \<Longrightarrow> kv_get r s' t k' = kv_get r s t k'"
  by (auto simp: client_set_def get_set split: if_splits)

text \<open>A plain command does not write generation keys; at most the key is gone afterwards.\<close>

lemma exec_plain:
  assumes C: "cfg_ok C" and c: "plain_cmd R C c" and k: "k \<in> generation_keys C"
    and e: "exec r J t c s = (s', x)"
  shows "kv_get r s' t k = None \<or> kv_get r s' t k = kv_get r s t k"
proof -
  have apart: "k \<notin> token_keys C" "k \<notin> device_keys C" "k \<notin> deny_keys C" "k \<notin> index_keys C"
    using keys_apart [OF C] k by blast+
  show ?thesis
  proof (cases c)
    case (CSet k1 v ns)
    with c apart have "k \<noteq> k1" by auto
    with e CSet show ?thesis by (auto split: option.splits dest: client_set_other)
  next
    case (CSetNX k1 v ns)
    with c apart have "k \<noteq> k1" by auto
    with e CSetNX show ?thesis by (auto split: option.splits if_splits dest: client_set_other)
  next
    case (UpdatePayloadS k1 p ms)
    with c apart have "k \<noteq> k1" by auto
    with e UpdatePayloadS show ?thesis
      by (auto simp: update_payload_script_def Let_def get_set split: option.splits if_splits)
  next
    case (CasReplaceS k1 a b ms)
    with c apart have "k \<noteq> k1" by auto
    with e CasReplaceS show ?thesis
      by (auto simp: cas_replace_script_def Let_def get_set split: option.splits if_splits)
  next
    case (AddIndexS k1 now m x cap ms)
    with e show ?thesis
      by (auto simp: add_session_index_script_def Let_def get_zset get_pexpire split: if_splits)
  next
    case (ExtendS k1 g v ms)
    with e show ?thesis
      by (auto simp: extend_generation_script_def Let_def get_pexpire split: if_splits option.splits)
  next
    case (CompareDeleteS k1 v)
    with e show ?thesis by (auto simp: compare_delete_script_def get_del split: if_splits)
  qed (use c e in \<open>auto simp: get_del get_zset\<close>)
qed

lemma ensure_current:
  assumes "ensure_generation_script r t k1 cand ms s = (s', x)"
  shows "current J r s' t k \<in> {None, current J r s t k} \<union> Some ` installs J (EnsureGenS k1 cand ms)"
  using assms
  by (auto simp: ensure_generation_script_def current_def get_set get_pexpire Let_def
      split: option.splits if_splits)

lemma rotate_writes:
  assumes "rotate_generation_script r J t k1 g v e ms s = (s', x)"
  shows "s' = s \<and> (\<forall>y. x \<noteq> RMulti [RInt 1, y]) \<or>
    (\<exists>n p ttl. pred_option (\<lambda>d. 0 < d) ttl \<and> s' = kv_set r t k1 (lua_encode J (rotated g v e n p)) ttl s)"
  using assms
  by (cases "kv_get r s t k1")
    (force simp: rotate_generation_script_def Let_def split: option.splits if_splits)+

lemma rotate_current:
  assumes "rotate_generation_script r J t k1 g v e ms s = (s', x)" and "valid_utf8 g"
  shows "current J r s' t k \<in> {None, current J r s t k, Some g}"
    and "x = RMulti [RInt 1, y] \<Longrightarrow> current J r s' t k1 \<in> {None, Some g}"
proof -
  have new: "map_option generation (unmarshal_gen J (lua_encode J (rotated g v e n p))) \<in> {None, Some g}"
    for n p
  proof (cases "unmarshal_gen J (lua_encode J (rotated g v e n p))")
    case (Some g')
    with lua_kept [OF _ Some] assms(2) show ?thesis by (simp add: rotated_def)
  qed simp
  have set: "current J r (kv_set r t k1 (lua_encode J (rotated g v e n p)) ttl s) t k =
      (if k = k1 then map_option generation (unmarshal_gen J (lua_encode J (rotated g v e n p)))
       else current J r s t k)" if "pred_option (\<lambda>d. 0 < d) ttl" for n p ttl k
    by (simp add: current_def get_set [OF that])
  from rotate_writes [OF assms(1)] show "current J r s' t k \<in> {None, current J r s t k, Some g}"
  proof (elim disjE exE conjE)
    fix n p ttl
    assume "pred_option (\<lambda>d. 0 < d) ttl"
      and s': "s' = kv_set r t k1 (lua_encode J (rotated g v e n p)) ttl s"
    from set [OF this(1), of n p k] new [of n p] show ?thesis unfolding s' by (auto split: if_splits)
  qed simp
  show "current J r s' t k1 \<in> {None, Some g}" if "x = RMulti [RInt 1, y]"
    using rotate_writes [OF assms(1)]
  proof (elim disjE exE conjE)
    fix n p ttl
    assume "pred_option (\<lambda>d. 0 < d) ttl"
      and s': "s' = kv_set r t k1 (lua_encode J (rotated g v e n p)) ttl s"
    from set [OF this(1), of n p k1] new [of n p] show ?thesis unfolding s' by simp
  qed (use that in simp)
qed

text \<open>A command makes no generation current but those it installs.\<close>

lemma exec_current:
  assumes "cfg_ok C" and "plain_cmd R C c \<or> is_install C c" and "k \<in> generation_keys C"
    and "exec r J t c s = (s', x)" and "\<forall>g \<in> installs J c. valid_utf8 g"
  shows "current J r s' t k \<in> {None, current J r s t k} \<union> Some ` installs J c"
  using assms(2)
proof
  assume "plain_cmd R C c"
  from exec_plain [OF assms(1) this assms(3,4)] show ?thesis by (auto simp: current_def)
next
  assume "is_install C c"
  then show ?thesis
  proof (cases c)
    case (EnsureGenS k1 cand ms)
    with assms(4) have "ensure_generation_script r t k1 cand ms s = (s', x)" by simp
    from ensure_current [OF this] show ?thesis by (simp only: EnsureGenS)
  next
    case (RotateS k1 g v e ms)
    with assms(4) have "rotate_generation_script r J t k1 g v e ms s = (s', x)" by simp
    from rotate_current(1) [OF this, of k] assms(5) show ?thesis by (auto simp: RotateS)
  qed simp_all
qed

end

section \<open>Draws are used once\<close>

text \<open>\<open>gen_safe R J C p G\<close>: a program that holds the draws \<open>G\<close> installs only what it holds, once.\<close>

primrec gen_safe ::
    "rollout set \<Rightarrow> codec \<Rightarrow> session_cfg \<Rightarrow> 'a prog \<Rightarrow> string set \<Rightarrow> bool" where
  "gen_safe R J C (Return a) = (\<lambda>G. True)"
| "gen_safe R J C (Call c k) = (\<lambda>G. (plain_cmd R C c \<or> is_install C c) \<and> installs J c \<subseteq> G \<and>
     (\<forall>x. gen_safe R J C (k x) (G - installs J c)))"
| "gen_safe R J C (Clock k) = (\<lambda>G. \<forall>x. gen_safe R J C (k x) G)"
| "gen_safe R J C (Random k) = (\<lambda>G. gen_safe R J C (k None) G \<and>
     (\<forall>g. valid_utf8 g \<longrightarrow> gen_safe R J C (k (Some g)) (insert g G)))"
| "gen_safe R J C (Load k) = (\<lambda>G. \<forall>x \<in> R. gen_safe R J C (k x) G)"
| "gen_safe R J C (Lease k) = (\<lambda>G. \<forall>x. gen_safe R J C (k x) G)"
| "gen_safe R J C (Context k) = (\<lambda>G. \<forall>x. gen_safe R J C (k x) G)"

lemma plain_gen_safe: "plain R C p \<Longrightarrow> gen_safe R J C p G"
  by (induction p arbitrary: G) auto

lemma gen_safe_report: "gen_safe R J C p G \<Longrightarrow> gen_safe R J C (report f p) G"
  unfolding report_def by (induction p arbitrary: G) auto

lemma gen_safe_acts [simp]: "gen_safe R J C (fail e) G" "gen_safe R J C (ok a) G"
  by (simp_all add: fail_def ok_def)

lemma gen_safe_revoke_all: "gen_safe R J C (revoke_all C u v e) {}"
  unfolding revoke_all_def need_def check_ctx_def call_def
  by (auto intro!: plain_gen_safe cmds_intro split: option.split simp: Let_def)

lemma gen_safe_begin:
  assumes "codec_laws J"
  shows "gen_safe R J C (begin_issue J C u) {}"
proof -
  have one: "installs J (EnsureGenS (generation_key C u) (marshal_gen J \<lparr>generation = g, revision = 1,
      gen_state = session_generation_active, last_event_version = 0, last_event_id = [],
      last_revoked_generation = []\<rparr>) (millis (max_ttl C))) \<subseteq> {g}" if "valid_utf8 g" for g
    using codec_laws.gen_kept [OF assms, of "\<lparr>generation = g, revision = 1,
      gen_state = session_generation_active, last_event_version = 0, last_event_id = [],
      last_revoked_generation = []\<rparr>"] that by (auto split: option.split)
  have rest: "gen_safe R J C (if x = RFail then fail RedisFailed
      else and_then (of_res (redis_string x)) (\<lambda>raw. and_then (of_res (decode_gen J raw)) (\<lambda>rec.
        if gen_state rec = session_generation_active
        then ok \<lparr>f_generation = generation rec, f_revision = revision rec\<rparr>
        else fail GenerationInactive))) G" for x G
    by (rule plain_gen_safe) (intro cmds_intro)
  show ?thesis
    unfolding begin_issue_def need_def check_ctx_def call_def
    by (simp del: installs.simps One_nat_def add: one rest)
qed

lemma plain_report [cmds_intro]: "plain R C p \<Longrightarrow> plain R C (report f p)"
  unfolding report_def by (auto intro!: cmds_intro)

lemma gen_safe_program:
  assumes "codec_laws J"
  shows "gen_safe R J C (program J C flags op) {}"
proof (cases op)
  case (BeginIssue u)
  then show ?thesis by (simp add: gen_safe_report gen_safe_begin [OF assms])
next
  case (RevokeAll u v e)
  then show ?thesis by (simp add: gen_safe_report gen_safe_revoke_all)
qed (auto intro!: plain_gen_safe cmds_intro)

section \<open>What a program must have seen\<close>

text \<open>
  \<open>must P Q p\<close>: unless a command and its reply satisfy \<open>P\<close> on the way, \<open>p\<close> returns a value that
  satisfies \<open>Q\<close>.
\<close>

primrec must :: "(cmd \<Rightarrow> reply \<Rightarrow> bool) \<Rightarrow> ('a \<Rightarrow> bool) \<Rightarrow> 'a prog \<Rightarrow> bool" where
  "must P Q (Return a) = Q a"
| "must P Q (Call c k) = (\<forall>x. P c x \<or> must P Q (k x))"
| "must P Q (Clock k) = (\<forall>x. must P Q (k x))"
| "must P Q (Random k) = (\<forall>x. must P Q (k x))"
| "must P Q (Load k) = (\<forall>x. must P Q (k x))"
| "must P Q (Lease k) = (\<forall>x. must P Q (k x))"
| "must P Q (Context k) = (\<forall>x. must P Q (k x))"

lemma must_pbind: "must P Q (pbind p f) = must P (\<lambda>a. must P Q (f a)) p"
  by (induction p) simp_all

lemma must_mono: "(\<And>a. Q a \<Longrightarrow> Q' a) \<Longrightarrow> must P Q p \<Longrightarrow> must P Q' p"
  by (induction p) auto

lemma must_any: "must P (\<lambda>a. True) p"
  by (induction p) simp_all

lemma must_acts [simp]:
  "must P Q (ok a) = Q (Inr a)" "must P Q (fail e) = Q (Inl e)" "must P Q (of_res x) = Q x"
  by (simp_all add: ok_def fail_def of_res_def)

lemma must_need [simp]: "must P Q (need b e p) = (if b then must P Q p else Q (Inl e))"
  by (simp add: need_def)

lemma must_check_ctx [simp]: "must P Q (check_ctx p) = (Q (Inl Cancelled) \<and> must P Q p)"
  by (simp add: check_ctx_def all_bool_eq)

lemma must_call [simp]:
  "must P Q (call c k) = ((P c RFail \<or> Q (Inl RedisFailed)) \<and> (\<forall>x. x \<noteq> RFail \<longrightarrow> P c x \<or> must P Q (k x)))"
  by (auto simp: call_def)

lemma must_report [simp]:
  "must P Q (report f p) = must P (\<lambda>x. Q (case x of Inl e \<Rightarrow> OError e | Inr a \<Rightarrow> f a)) p"
  by (simp add: report_def must_pbind)

lemma must_and_then:
  "must P Q (and_then p f) = must P (\<lambda>x. case x of Inl e \<Rightarrow> Q (Inl e) | Inr a \<Rightarrow> must P Q (f a)) p"
proof -
  have "(\<lambda>x. must P Q (case x of Inl e \<Rightarrow> fail e | Inr a \<Rightarrow> f a)) =
      (\<lambda>x. case x of Inl e \<Rightarrow> Q (Inl e) | Inr a \<Rightarrow> must P Q (f a))"
    by (auto simp: fun_eq_iff split: sum.split)
  then show ?thesis by (simp add: and_then_def must_pbind)
qed

text \<open>\<open>RevokeAll\<close> returns without an error only after the script has rotated the generation.\<close>

definition rotation_of :: "session_cfg \<Rightarrow> string \<Rightarrow> cmd \<Rightarrow> reply \<Rightarrow> bool" where
  "rotation_of C u c x \<longleftrightarrow>
     (\<exists>g v e ms y. c = RotateS (generation_key C u) g v e ms \<and>
        (x = RMulti [RInt 1, y] \<or> (\<exists>z. x = RMulti [RBulk z, y])))"

lemma revoke_all_rotates:
  "must (rotation_of C u) (\<lambda>o'. o' \<noteq> ODone) (program J C flags (RevokeAll u v e))"
proof -
  have tail: "rotation_of C u (RotateS (generation_key C u) g v e ms) x \<or>
      must (rotation_of C u) Q (and_then (of_res (multi_of 2 x)) (\<lambda>parts.
        and_then (of_res (redis_integer (parts ! 0))) (\<lambda>code.
        and_then (of_res (redis_string (parts ! 1))) (f code))))"
    if Q: "\<And>e. Q (Inl e)" and f: "\<And>code p. code \<noteq> 1 \<Longrightarrow> must (rotation_of C u) Q (f code p)"
    for Q g ms x and f :: "int \<Rightarrow> string \<Rightarrow> unit act"
  proof (cases "multi_of 2 x")
    case (Inr xs)
    then obtain a b where x: "x = RMulti [a, b]" "xs = [a, b]"
      by (cases x; cases xs; cases "tl xs") (auto split: if_splits)
    show ?thesis
    proof (cases "redis_integer a")
      case a: (Inr code)
      show ?thesis
      proof (cases "code = 1")
        case True
        with a have "a = RInt 1 \<or> (\<exists>z. a = RBulk z)" by (cases a) auto
        then show ?thesis by (auto simp: rotation_of_def x)
      next
        case False
        from f [OF this] show ?thesis
          by (simp add: x a must_and_then Q split: sum.split)
      qed
    qed (simp add: x must_and_then Q)
  qed (simp add: must_and_then Q)
  show ?thesis
    unfolding program.simps revoke_all_def
    by (simp split: option.split del: One_nat_def, intro impI allI tail)
      (simp_all add: Let_def)
qed

text \<open>A token is only accepted after a reading of the user's generation that matches it.\<close>

definition reading_of :: "codec \<Rightarrow> session_cfg \<Rightarrow> string \<Rightarrow> string \<Rightarrow> cmd \<Rightarrow> reply \<Rightarrow> bool" where
  "reading_of J C u g c x \<longleftrightarrow>
     c = CGet (generation_key C u) \<and>
     (\<exists>raw rec. x = RBulk raw \<and> unmarshal_gen J raw = Some rec \<and> generation rec = g)"

definition accepts :: "string \<Rightarrow> string \<Rightarrow> outcome \<Rightarrow> bool" where
  "accepts u g x = (case x of OInfo i \<Rightarrow> is_v3 i \<and> uid i = u \<and> session_generation i = g | _ \<Rightarrow> False)"

lemma decode_gen_Inr: "decode_gen J raw = Inr rec \<Longrightarrow> unmarshal_gen J raw = Some rec"
  by (auto simp: decode_gen_def split: option.splits if_splits)

lemma current_generation_reads:
  assumes "\<And>e. Q (Inl e)" and "\<And>g'. g' \<noteq> g \<or> g' = [] \<Longrightarrow> Q (Inr g')"
  shows "must (reading_of J C u g) Q (current_generation J C u)"
  unfolding current_generation_def client_get_def
  using assms
  by (auto simp: must_and_then reading_of_def split: reply.split option.split sum.split
      dest: decode_gen_Inr)

lemma must_all: "(\<And>a. Q a) \<Longrightarrow> must P Q p"
  by (rule must_mono [OF _ must_any])

lemma validate_token_reads:
  assumes err: "\<And>e. Q (Inl e)" and old: "\<And>i. \<not> is_v3 i \<Longrightarrow> Q (Inr i)"
    and other: "\<And>i. uid i \<noteq> u \<or> session_generation i \<noteq> g \<Longrightarrow> Q (Inr i)"
  shows "must (reading_of J C u g) Q (validate_token J C resolver policy pre token)"
proof -
  have v3: "must (reading_of J C u g) Q (and_then (current_generation J C (uid i)) (\<lambda>g'.
      need (g' \<noteq> [] \<and> g' = session_generation i) TokenInvalid (ok i)))" for i
  proof (cases "uid i = u \<and> session_generation i = g")
    case True
    then have u: "uid i = u" "session_generation i = g" by simp_all
    show ?thesis unfolding must_and_then u(1)
      by (rule current_generation_reads) (auto simp: err u)
  next
    case False
    then have "Q (Inr i)" using other by blast
    with err show ?thesis unfolding must_and_then by (intro must_all) (auto split: sum.split)
  qed
  have v2: "must (reading_of J C u g) Q (if policy
      then pbind (validate_legacy_session C i rec) (\<lambda>x. case x of
             Inl e \<Rightarrow> fail (if e = LegacyDenied then TokenInvalid else e) | Inr _ \<Rightarrow> ok i)
      else ok i)" if "\<not> is_v3 i" for i rec
    using old [OF that] err
    by (auto simp: must_pbind intro!: must_all split: sum.split)
  show ?thesis
    unfolding validate_token_def must_and_then if_distrib [of "must (reading_of J C u g) Q"]
    by (auto simp: err v2 intro!: must_all v3 split: sum.split)
qed

lemma validate_reads:
  "must (reading_of J C u g) (\<lambda>x. \<not> accepts u g x) (program J C flags (Validate token))"
  unfolding program.simps must_report by (rule validate_token_reads) (auto simp: accepts_def)

end
