(* ===== verification/Session_Revoked.thy ===== *)
theory Session_Revoked
  imports Session_Generations
begin

text \<open>
  User sessions, revocation under concurrency: the invariant of the draws along any run of the
  system, and from it that a revoked generation is never read again.
\<close>

section \<open>The invariant\<close>

text \<open>
  \<open>G i\<close> are the draws that job \<open>i\<close> still holds, \<open>I\<close> the generations that were ever installed.
\<close>

definition draws_ok ::
    "'s kv \<Rightarrow> codec \<Rightarrow> session_cfg \<Rightarrow> rollout set \<Rightarrow> (nat \<Rightarrow> string set) \<Rightarrow> string set \<Rightarrow> 's system \<Rightarrow> bool" where
  "draws_ok r J C R G I c \<longleftrightarrow>
     (\<forall>i op p. jobs c i = Some (op, p) \<longrightarrow> gen_safe R J C p (G i)) \<and>
     (\<forall>i. G i \<inter> I = {} \<and> G i \<subseteq> used c \<and> (\<forall>g \<in> G i. valid_utf8 g)) \<and>
     (\<forall>i j. i \<noteq> j \<longrightarrow> G i \<inter> G j = {}) \<and> I \<subseteq> used c \<and>
     (\<forall>k \<in> generation_keys C. current J r (store c) (store_ms c) k \<in> {None} \<union> Some ` I)"

lemma draws_okD:
  assumes "draws_ok r J C R G I c"
  shows "jobs c i = Some (op, p) \<Longrightarrow> gen_safe R J C p (G i)"
    and "G i \<inter> I = {}" and "G i \<subseteq> used c" and "g \<in> G i \<Longrightarrow> valid_utf8 g"
    and "i \<noteq> j \<Longrightarrow> G i \<inter> G j = {}" and "I \<subseteq> used c"
    and "k \<in> generation_keys C \<Longrightarrow> current J r (store c) (store_ms c) k \<in> {None} \<union> Some ` I"
  using assms by (auto simp: draws_ok_def)

lemma draws_okI:
  assumes "\<And>i op p. jobs c i = Some (op, p) \<Longrightarrow> gen_safe R J C p (G i)"
    and "\<And>i. G i \<inter> I = {}" and "\<And>i. G i \<subseteq> used c" and "\<And>i g. g \<in> G i \<Longrightarrow> valid_utf8 g"
    and "\<And>i j. i \<noteq> j \<Longrightarrow> G i \<inter> G j = {}" and "I \<subseteq> used c"
    and "\<And>k. k \<in> generation_keys C \<Longrightarrow> current J r (store c) (store_ms c) k \<in> {None} \<union> Some ` I"
  shows "draws_ok r J C R G I c"
  using assms unfolding draws_ok_def by blast

text \<open>A job that goes on with the draws it has left, while the store changes as stated.\<close>

lemma draws_move:
  assumes ok: "draws_ok r J C R G I c"
    and safe: "gen_safe R J C p' H" and H: "H \<subseteq> G i" and new: "N \<subseteq> G i" "H \<inter> N = {}"
    and cur: "\<And>k. k \<in> generation_keys C \<Longrightarrow> current J r s' t' k \<in>
      {None, current J r (store c) (store_ms c) k} \<union> Some ` N"
  shows "draws_ok r J C R (G(i := H)) (I \<union> N) (put_job i op p' (c\<lparr>store := s', store_ms := t'\<rparr>))"
proof -
  note D = draws_okD [OF ok]
  show ?thesis
  proof (rule draws_okI)
    fix j op' p
    assume "jobs (put_job i op p' (c\<lparr>store := s', store_ms := t'\<rparr>)) j = Some (op', p)"
    with safe D(1) show "gen_safe R J C p ((G(i := H)) j)" by (auto split: if_splits)
  next
    fix j
    have "N \<inter> G j = {}" if "j \<noteq> i" using D(5) [OF that] new(1) by blast
    with D(2) [of j] D(2) [of i] H new show "(G(i := H)) j \<inter> (I \<union> N) = {}" by auto
    from D(3) [of j] D(3) [of i] H
    show "(G(i := H)) j \<subseteq> used (put_job i op p' (c\<lparr>store := s', store_ms := t'\<rparr>))" by auto
    fix g assume "g \<in> (G(i := H)) j"
    with D(4) H show "valid_utf8 g" by (auto split: if_splits)
  next
    fix j j' :: nat assume "j \<noteq> j'"
    with D(5) H show "(G(i := H)) j \<inter> (G(i := H)) j' = {}" by (auto simp: disjoint_iff)
  next
    from D(6) D(3) [of i] new(1) show "I \<union> N \<subseteq> used (put_job i op p' (c\<lparr>store := s', store_ms := t'\<rparr>))"
      by auto
  next
    fix k assume k: "k \<in> generation_keys C"
    from cur [OF k] D(7) [OF k]
    show "current J r (store (put_job i op p' (c\<lparr>store := s', store_ms := t'\<rparr>)))
        (store_ms (put_job i op p' (c\<lparr>store := s', store_ms := t'\<rparr>))) k \<in> {None} \<union> Some ` (I \<union> N)"
      by auto
  qed
qed

lemma draws_quiet:
  assumes ok: "draws_ok r J C R G I c" and safe: "gen_safe R J C p' (G i)"
  shows "draws_ok r J C R G I (put_job i op p' c)"
proof -
  have "draws_ok r J C R (G(i := G i)) (I \<union> {}) (put_job i op p' (c\<lparr>store := store c, store_ms := store_ms c\<rparr>))"
    by (rule draws_move [OF ok safe]) auto
  then show ?thesis by simp
qed

lemma draws_store:
  assumes ok: "draws_ok r J C R G I c"
    and cur: "\<And>k. k \<in> generation_keys C \<Longrightarrow> current J r s' t' k \<in> {None, current J r (store c) (store_ms c) k}"
  shows "draws_ok r J C R G I (c\<lparr>store := s', store_ms := t'\<rparr>)"
proof (rule draws_okI)
  fix k assume "k \<in> generation_keys C"
  with cur [OF this] draws_okD(7) [OF ok this]
  show "current J r (store (c\<lparr>store := s', store_ms := t'\<rparr>)) (store_ms (c\<lparr>store := s', store_ms := t'\<rparr>)) k
      \<in> {None} \<union> Some ` I" by auto
qed (use draws_okD [OF ok] in simp_all)

text \<open>No step makes an old generation current again.\<close>

definition none_back :: "'s kv \<Rightarrow> codec \<Rightarrow> session_cfg \<Rightarrow> string set \<Rightarrow> 's system \<Rightarrow> 's system \<Rightarrow> bool" where
  "none_back r J C I c c' \<longleftrightarrow>
     (\<forall>k \<in> generation_keys C. \<forall>g \<in> I. current J r (store c') (store_ms c') k = Some g \<longrightarrow>
        current J r (store c) (store_ms c) k = Some g)"

lemma none_backI:
  assumes "\<And>k. k \<in> generation_keys C \<Longrightarrow> current J r (store c') (store_ms c') k \<in>
      {None, current J r (store c) (store_ms c) k} \<union> Some ` N" and "N \<inter> I = {}"
  shows "none_back r J C I c c'"
  using assms unfolding none_back_def by fastforce

lemma none_back_trans:
  "none_back r J C I c c' \<Longrightarrow> none_back r J C I' c' c'' \<Longrightarrow> I \<subseteq> I' \<Longrightarrow> none_back r J C I c c''"
  unfolding none_back_def by blast

context session_laws
begin

lemma current_later:
  "t \<le> t' \<Longrightarrow> current J r s t' k \<in> {None, current J r s t k}"
  using get_later [of t t' s k] by (auto simp: current_def)

lemma step_draws:
  assumes C: "cfg_ok C" and ok: "draws_ok r J C R G I c"
    and step: "session_step r J C flags R c c'"
  shows "\<exists>G' I'. I \<subseteq> I' \<and> draws_ok r J C R G' I' c' \<and> none_back r J C I c c'"
  using step
proof (cases rule: session_step.cases)
  case (start i op)
  have G: "draws_ok r J C R (G(i := {})) (I \<union> {})
      (put_job i op (program J C flags op) (c\<lparr>store := store c, store_ms := store_ms c\<rparr>))"
    by (rule draws_move [OF ok gen_safe_program [OF codec_laws_axioms]]) auto
  then have "draws_ok r J C R (G(i := {})) I c'" using start by simp
  moreover have "none_back r J C I c c'" using start by (simp add: none_back_def)
  ultimately show ?thesis by blast
next
  case (executed i op cmd k s' x)
  note safe = draws_okD(1) [OF ok executed(2)]
  let ?N = "installs J cmd"
  have cmd: "plain_cmd R C cmd \<or> is_install C cmd" "?N \<subseteq> G i" and next_safe: "gen_safe R J C (k x) (G i - ?N)"
    using safe by auto
  have valid: "\<forall>g \<in> ?N. valid_utf8 g" using draws_okD(4) [OF ok] cmd(2) by blast
  note cur = exec_current [OF C cmd(1) _ executed(3) valid]
  have "draws_ok r J C R (G(i := G i - ?N)) (I \<union> ?N) (put_job i op (k x) (c\<lparr>store := s', store_ms := store_ms c\<rparr>))"
    by (rule draws_move [OF ok next_safe]) (use cmd(2) cur in auto)
  then have "draws_ok r J C R (G(i := G i - ?N)) (I \<union> ?N) c'" using executed(1) by simp
  moreover have "none_back r J C I c c'"
    by (rule none_backI [where N = ?N]) (use cur executed(1) cmd(2) draws_okD(2) [OF ok, of i] in auto)
  ultimately show ?thesis by blast
next
  case (answer_lost i op cmd k s' x)
  note safe = draws_okD(1) [OF ok answer_lost(2)]
  let ?N = "installs J cmd"
  have cmd: "plain_cmd R C cmd \<or> is_install C cmd" "?N \<subseteq> G i"
    and next_safe: "gen_safe R J C (k RFail) (G i - ?N)"
    using safe by auto
  have valid: "\<forall>g \<in> ?N. valid_utf8 g" using draws_okD(4) [OF ok] cmd(2) by blast
  note cur = exec_current [OF C cmd(1) _ answer_lost(3) valid]
  have "draws_ok r J C R (G(i := G i - ?N)) (I \<union> ?N) (put_job i op (k RFail) (c\<lparr>store := s', store_ms := store_ms c\<rparr>))"
    by (rule draws_move [OF ok next_safe]) (use cmd(2) cur in auto)
  then have "draws_ok r J C R (G(i := G i - ?N)) (I \<union> ?N) c'" using answer_lost(1) by simp
  moreover have "none_back r J C I c c'"
    by (rule none_backI [where N = ?N]) (use cur answer_lost(1) cmd(2) draws_okD(2) [OF ok, of i] in auto)
  ultimately show ?thesis by blast
next
  case (not_executed i op cmd k)
  note safe = draws_okD(1) [OF ok not_executed(2)]
  have "draws_ok r J C R (G(i := G i - installs J cmd)) (I \<union> {})
      (put_job i op (k RFail) (c\<lparr>store := store c, store_ms := store_ms c\<rparr>))"
    by (rule draws_move [OF ok]) (use safe in auto)
  then show ?thesis using not_executed(1) by (auto simp: none_back_def)
next
  case (draws i op k g)
  note safe = draws_okD(1) [OF ok draws(2)]
  note D = draws_okD [OF ok]
  have "draws_ok r J C R (G(i := insert g (G i))) I c'"
  proof (rule draws_okI)
    fix j op' p assume "jobs c' j = Some (op', p)"
    with draws safe D(1) show "gen_safe R J C p ((G(i := insert g (G i))) j)" by (auto split: if_splits)
  next
    fix j
    show "(G(i := insert g (G i))) j \<inter> I = {}" using D(2,6) draws(3) by (auto simp: disjoint_iff)
    show "(G(i := insert g (G i))) j \<subseteq> used c'" using D(3) draws(1) by auto
    fix g' assume "g' \<in> (G(i := insert g (G i))) j"
    then show "valid_utf8 g'" using D(4) draws(4) by (auto split: if_splits)
  next
    fix j j' :: nat assume "j \<noteq> j'"
    with D(5) [of j j'] D(3) [of j] D(3) [of j'] draws(3)
    show "(G(i := insert g (G i))) j \<inter> (G(i := insert g (G i))) j' = {}" by auto
  next
    show "I \<subseteq> used c'" using D(6) draws(1) by auto
  next
    fix k assume "k \<in> generation_keys C"
    with D(7) draws(1) show "current J r (store c') (store_ms c') k \<in> {None} \<union> Some ` I" by simp
  qed
  moreover have "none_back r J C I c c'" using draws(1) by (simp add: none_back_def)
  ultimately show ?thesis by blast
next
  case (time_passes t)
  have cur: "\<And>k. k \<in> generation_keys C \<Longrightarrow> current J r (store c) t k \<in>
      {None, current J r (store c) (store_ms c) k}"
    using current_later [OF time_passes(2)] by simp
  have "draws_ok r J C R G I (c\<lparr>store := store c, store_ms := t\<rparr>)"
    by (rule draws_store [OF ok cur])
  moreover have "none_back r J C I c c'"
    by (rule none_backI [where N = "{}"]) (use cur time_passes(1) in auto)
  ultimately show ?thesis using time_passes(1) by auto
next
  case (outside s')
  have cur: "current J r s' (store_ms c) k \<in> {None, current J r (store c) (store_ms c) k}"
    if "k \<in> generation_keys C" for k
    using outside(2) [OF that] by (auto simp: current_def)
  have "draws_ok r J C R G I (c\<lparr>store := s', store_ms := store_ms c\<rparr>)"
    by (rule draws_store [OF ok cur])
  moreover have "none_back r J C I c c'"
    by (rule none_backI [where N = "{}"]) (use cur outside(1) in auto)
  ultimately show ?thesis using outside(1) by auto
next
  case (reads_clock i op k now)
  have "draws_ok r J C R G I c'" unfolding reads_clock(1)
    by (rule draws_quiet [OF ok]) (use draws_okD(1) [OF ok reads_clock(2)] in simp)
  then show ?thesis using reads_clock(1) by (auto simp: none_back_def)
next
  case (no_random i op k)
  have "draws_ok r J C R G I c'" unfolding no_random(1)
    by (rule draws_quiet [OF ok]) (use draws_okD(1) [OF ok no_random(2)] in simp)
  then show ?thesis using no_random(1) by (auto simp: none_back_def)
next
  case (loads i op k st)
  have "draws_ok r J C R G I c'" unfolding loads(1)
    by (rule draws_quiet [OF ok]) (use draws_okD(1) [OF ok loads(2)] loads(3) in simp)
  then show ?thesis using loads(1) by (auto simp: none_back_def)
next
  case (asks_lease i op k b)
  have "draws_ok r J C R G I c'" unfolding asks_lease(1)
    by (rule draws_quiet [OF ok]) (use draws_okD(1) [OF ok asks_lease(2)] in simp)
  then show ?thesis using asks_lease(1) by (auto simp: none_back_def)
next
  case (asks_context i op k b)
  have "draws_ok r J C R G I c'" unfolding asks_context(1)
    by (rule draws_quiet [OF ok]) (use draws_okD(1) [OF ok asks_context(2)] in simp)
  then show ?thesis using asks_context(1) by (auto simp: none_back_def)
qed

lemma reach_draws:
  assumes C: "cfg_ok C" and run: "session_reach r J C flags R c c'" and ok: "draws_ok r J C R G I c"
  shows "\<exists>G' I'. I \<subseteq> I' \<and> draws_ok r J C R G' I' c' \<and> none_back r J C I c c'"
  using run ok
proof (induction rule: session_reach.induct)
  case (here c)
  then show ?case by (auto simp: none_back_def)
next
  case (later c c' c'')
  then obtain G1 I1 where 1: "I \<subseteq> I1" "draws_ok r J C R G1 I1 c'" "none_back r J C I c c'" by blast
  from step_draws [OF C 1(2) later.hyps(2)]
  obtain G2 I2 where 2: "I1 \<subseteq> I2" "draws_ok r J C R G2 I2 c''" "none_back r J C I1 c' c''" by blast
  with 1 have "none_back r J C I c c''" by (blast intro: none_back_trans)
  with 1 2 show ?case by blast
qed

end

section \<open>What a job has seen\<close>

definition job_must ::
    "(cmd \<Rightarrow> reply \<Rightarrow> bool) \<Rightarrow> (outcome \<Rightarrow> bool) \<Rightarrow> nat \<Rightarrow> operation \<Rightarrow> 's system \<Rightarrow> bool" where
  "job_must P Q i op c \<longleftrightarrow> (\<forall>p. jobs c i = Some (op, p) \<longrightarrow> must P Q p)"

lemma step_must:
  assumes prog: "must P Q (program J C flags op)" and lost: "\<And>cmd. \<not> P cmd RFail"
    and job: "job_must P Q i op c" and step: "session_step r J C flags R c c'"
  shows "job_must P Q i op c' \<or>
    (\<exists>cmd k s' x. jobs c i = Some (op, Call cmd k) \<and> exec r J (store_ms c) cmd (store c) = (s', x) \<and>
       P cmd x \<and> c' = put_job i op (k x) (c\<lparr>store := s'\<rparr>))"
  using step
proof (cases rule: session_step.cases)
  case (executed j op' cmd k s' x)
  then show ?thesis
    using job by (cases "j = i \<and> op' = op") (auto simp: job_must_def)
next
  case (answer_lost j op' cmd k s' x)
  then show ?thesis
    using job lost [of cmd] by (cases "j = i \<and> op' = op") (auto simp: job_must_def)
next
  case (not_executed j op' cmd k)
  then show ?thesis
    using job lost [of cmd] by (cases "j = i \<and> op' = op") (auto simp: job_must_def)
qed (use prog lost job in \<open>auto simp: job_must_def split: if_splits\<close>)

lemma reading_not_lost: "\<not> reading_of J C u g cmd RFail"
  by (simp add: reading_of_def)

lemma rotation_not_lost: "\<not> rotation_of C u cmd RFail"
  by (simp add: rotation_of_def)

context session_laws
begin

text \<open>While the generation is not current, no job accepts a token of it.\<close>

lemma validate_rejects:
  assumes run: "session_reach r J C flags R c c'" and C: "cfg_ok C"
    and ok: "draws_ok r J C R G I c" and g: "g \<in> I"
    and gone: "current J r (store c) (store_ms c) (generation_key C u) \<noteq> Some g"
    and new: "jobs c j = None"
  shows "job_must (reading_of J C u g) (\<lambda>x. \<not> accepts u g x) j (Validate token) c'"
  using run ok g gone new
proof (induction rule: session_reach.induct)
  case (here c)
  then show ?case by (simp add: job_must_def)
next
  case (later c c' c'')
  from reach_draws [OF C later.hyps(1) later.prems(1)] later.prems(2,3)
  have gone: "current J r (store c') (store_ms c') (generation_key C u) \<noteq> Some g"
    by (auto simp: none_back_def)
  from step_must [OF validate_reads reading_not_lost later.IH [OF later.prems] later.hyps(2)]
  show ?case
  proof (elim disjE exE conjE)
    fix cmd k s' x
    assume "exec r J (store_ms c') cmd (store c') = (s', x)" and "reading_of J C u g cmd x"
    then have "current J r (store c') (store_ms c') (generation_key C u) = Some g"
      by (auto simp: reading_of_def current_def nil_or_def split: option.splits)
    with gone show ?thesis by contradiction
  qed
qed

lemma rotate_reply:
  assumes "rotation_of C u cmd x" and "exec r J t cmd s = (s', x)"
  shows "\<exists>g v e ms y. cmd = RotateS (generation_key C u) g v e ms \<and> x = RMulti [RInt 1, y]"
proof -
  from assms(1) obtain g v e ms y where cmd: "cmd = RotateS (generation_key C u) g v e ms"
    and x: "x = RMulti [RInt 1, y] \<or> (\<exists>z. x = RMulti [RBulk z, y])"
    by (auto simp: rotation_of_def)
  with assms(2) have "x \<noteq> RMulti [RBulk z, y]" for z
    by (auto simp: rotate_generation_script_def Let_def split: option.splits if_splits)
  with cmd x show ?thesis by blast
qed

text \<open>When \<open>RevokeAll\<close> has returned without an error, the generation that was current is not any more.\<close>

lemma revoke_retires:
  assumes run: "session_reach r J C flags R c c'" and C: "cfg_ok C"
    and ok: "draws_ok r J C R G I c" and g: "g \<in> I" and new: "jobs c i = None"
  shows "job_must (rotation_of C u) (\<lambda>x. x \<noteq> ODone) i (RevokeAll u v e) c' \<or>
    current J r (store c') (store_ms c') (generation_key C u) \<noteq> Some g"
  using run ok g new
proof (induction rule: session_reach.induct)
  case (here c)
  then show ?case by (simp add: job_must_def)
next
  case (later c c' c'')
  from reach_draws [OF C later.hyps(1) later.prems(1)] obtain G1 I1
    where I: "I \<subseteq> I1" and ok1: "draws_ok r J C R G1 I1 c'" by blast
  from step_draws [OF C ok1 later.hyps(2)] have nb: "none_back r J C I1 c' c''" by blast
  have g: "g \<in> I1" using later.prems(2) I by blast
  from later.IH [OF later.prems] show ?case
  proof
    assume "current J r (store c') (store_ms c') (generation_key C u) \<noteq> Some g"
    with nb g show ?thesis by (auto simp: none_back_def)
  next
    assume "job_must (rotation_of C u) (\<lambda>x. x \<noteq> ODone) i (RevokeAll u v e) c'"
    from step_must [OF revoke_all_rotates rotation_not_lost this later.hyps(2)]
    show ?thesis
    proof (elim disjE exE conjE)
      fix cmd k s' x
      assume job: "jobs c' i = Some (RevokeAll u v e, Call cmd k)"
        and ex: "exec r J (store_ms c') cmd (store c') = (s', x)"
        and P: "rotation_of C u cmd x" and c'': "c'' = put_job i (RevokeAll u v e) (k x) (c'\<lparr>store := s'\<rparr>)"
      from rotate_reply [OF P ex] obtain g' v' e' ms y
        where cmd: "cmd = RotateS (generation_key C u) g' v' e' ms" and x: "x = RMulti [RInt 1, y]" by blast
      have g': "g' \<in> G1 i" using draws_okD(1) [OF ok1 job] by (simp add: cmd)
      then have "valid_utf8 g'" and "g' \<noteq> g" using draws_okD(2,4) [OF ok1] g by auto
      with rotate_current(2) [OF _ this(1) x] ex
      have "current J r s' (store_ms c') (generation_key C u) \<in> {None, Some g'}" by (simp add: cmd)
      with \<open>g' \<noteq> g\<close> show ?thesis by (auto simp: c'')
    qed simp
  qed
qed

end

text \<open>A start: no jobs, and the generations that Redis has are known to have been drawn.\<close>

definition session_start :: "'s kv \<Rightarrow> codec \<Rightarrow> session_cfg \<Rightarrow> 's system \<Rightarrow> bool" where
  "session_start r J C c \<longleftrightarrow> jobs c = Map.empty \<and>
     (\<forall>k \<in> generation_keys C. \<forall>g. current J r (store c) (store_ms c) k = Some g \<longrightarrow> g \<in> used c)"

lemma start_draws:
  assumes "session_start r J C c"
  shows "draws_ok r J C R (\<lambda>_. {}) (used c) c"
proof (rule draws_okI)
  fix k assume "k \<in> generation_keys C"
  with assms show "current J r (store c) (store_ms c) k \<in> {None} \<union> Some ` used c"
    by (cases "current J r (store c) (store_ms c) k") (auto simp: session_start_def)
qed (use assms in \<open>simp_all add: session_start_def\<close>)

end
