(* ===== verification/Session_Bounds.thy ===== *)
theory Session_Bounds
  imports Session_Generations
begin

text \<open>
  User sessions, bounds: the session index of a generation never grows beyond the cap, and an
  existing v3 session keeps its claims and its deadline, whatever the jobs do.
\<close>

section \<open>Every job executes known commands\<close>

definition known_cmd :: "rollout set \<Rightarrow> session_cfg \<Rightarrow> cmd \<Rightarrow> bool" where
  "known_cmd R C c \<longleftrightarrow> plain_cmd R C c \<or> is_install C c"

lemma all_cmds_mono: "(\<And>c. P c \<Longrightarrow> Q c) \<Longrightarrow> all_cmds R P p \<Longrightarrow> all_cmds R Q p"
  by (induction p) auto

lemma known_program: "all_cmds R (known_cmd R C) (program J C flags op)"
proof -
  have plain: "plain R C p \<Longrightarrow> all_cmds R (known_cmd R C) p" for p :: "outcome prog"
    by (rule all_cmds_mono) (simp_all add: known_cmd_def)
  show ?thesis
  proof (cases op)
    case (BeginIssue u)
    then show ?thesis
      by (auto simp: report_def begin_issue_def known_cmd_def intro!: cmds_intro)
  next
    case (RevokeAll u v e)
    then show ?thesis
      by (auto simp: report_def revoke_all_def known_cmd_def Let_def intro!: cmds_intro)
  qed (auto intro!: plain cmds_intro)
qed

definition jobs_run :: "rollout set \<Rightarrow> (cmd \<Rightarrow> bool) \<Rightarrow> 's system \<Rightarrow> bool" where
  "jobs_run R P c \<longleftrightarrow> (\<forall>i op p. jobs c i = Some (op, p) \<longrightarrow> all_cmds R P p)"

lemma jobs_runD: "jobs_run R P c \<Longrightarrow> jobs c i = Some (op, p) \<Longrightarrow> all_cmds R P p"
  by (auto simp: jobs_run_def)

lemma jobs_run_put:
  "jobs_run R P c \<Longrightarrow> all_cmds R P p \<Longrightarrow> jobs c1 = jobs c \<Longrightarrow> jobs_run R P (put_job i op p c1)"
  by (auto simp: jobs_run_def)

lemma step_jobs_run:
  assumes step: "session_step r J C flags R c c'" and run: "jobs_run R P c"
    and new: "\<And>i op p. jobs c' i = Some (op, p) \<Longrightarrow> all_cmds R P (program J C flags op)"
  shows "jobs_run R P c'"
  using step
proof (cases rule: session_step.cases)
  case (start i op)
  then have "all_cmds R P (program J C flags op)" using new [of i] by simp
  with run start show ?thesis by (auto intro: jobs_run_put)
next
  case (executed i op cmd k s' x)
  with jobs_runD [OF run executed(2)] run show ?thesis by (auto intro: jobs_run_put)
next
  case (answer_lost i op cmd k s' x)
  with jobs_runD [OF run answer_lost(2)] run show ?thesis by (auto intro: jobs_run_put)
next
  case (not_executed i op cmd k)
  with jobs_runD [OF run not_executed(2)] run show ?thesis by (auto intro: jobs_run_put)
next
  case (reads_clock i op k now)
  with jobs_runD [OF run reads_clock(2)] run show ?thesis by (auto intro: jobs_run_put)
next
  case (draws i op k g)
  with jobs_runD [OF run draws(2)] run show ?thesis by (auto intro: jobs_run_put)
next
  case (no_random i op k)
  with jobs_runD [OF run no_random(2)] run show ?thesis by (auto intro: jobs_run_put)
next
  case (loads i op k st)
  with jobs_runD [OF run loads(2)] run show ?thesis by (auto intro: jobs_run_put)
next
  case (asks_lease i op k b)
  with jobs_runD [OF run asks_lease(2)] run show ?thesis by (auto intro: jobs_run_put)
next
  case (asks_context i op k b)
  with jobs_runD [OF run asks_context(2)] run show ?thesis by (auto intro: jobs_run_put)
qed (use run in \<open>auto simp: jobs_run_def\<close>)

text \<open>What a step does to the store: a command of a job, the passage of time, or something outside.\<close>

lemma step_store:
  assumes "session_step r J C flags R c c'"
  obtains (same) "store c' = store c" "store_ms c' = store_ms c"
  | (command) i op cmd k x where "jobs c i = Some (op, Call cmd k)"
      "exec r J (store_ms c) cmd (store c) = (store c', x)" "store_ms c' = store_ms c"
  | (time) "store c' = store c" "store_ms c \<le> store_ms c'"
  | (other) "jobs c' = jobs c" "store_ms c' = store_ms c"
      "\<And>k m. k \<in> index_keys C \<Longrightarrow> kv_zscore r (store c') (store_ms c) k m = None \<or>
        kv_zscore r (store c') (store_ms c) k m = kv_zscore r (store c) (store_ms c) k m"
  using assms by (cases rule: session_step.cases) (auto intro: that)

section \<open>The session index\<close>

definition members :: "'s kv \<Rightarrow> 's \<Rightarrow> int \<Rightarrow> string \<Rightarrow> string set" where
  "members r s t k = {m. kv_zscore r s t k m \<noteq> None}"

definition index_bounded :: "'s kv \<Rightarrow> session_cfg \<Rightarrow> int \<Rightarrow> 's system \<Rightarrow> bool" where
  "index_bounded r C n c \<longleftrightarrow> (\<forall>k \<in> index_keys C. int (card (members r (store c) (store_ms c) k)) \<le> n)"

context session_laws
begin

lemma members_finite [simp]: "finite (members r s t k)"
  using zset_finite [of s t k] by (simp add: members_def)

lemma members_add:
  assumes "add_session_index_script r t k now m x cap ms s = (s', y)"
  shows "members r s' t k \<subseteq> members r s t k \<or> int (card (members r s' t k)) \<le> cap"
    and "k' \<noteq> k \<Longrightarrow> members r s' t k' \<subseteq> members r s t k'"
proof -
  let ?s1 = "kv_zrem_upto r t k now s"
  let ?s2 = "kv_zadd r t k x m ?s1"
  have pruned: "members r ?s1 t k2 \<subseteq> members r s t k2" for k2
    by (auto simp: members_def zscore_zrem_upto split: option.splits if_splits)
  have added: "members r ?s2 t k2 = (if k2 = k then insert m (members r ?s1 t k2) else members r ?s1 t k2)" for k2
    by (auto simp: members_def zscore_zadd)
  have expire: "members r (kv_pexpire r t k d ?s2) t k2 \<subseteq> members r ?s2 t k2" for d k2
    by (auto simp: members_def zscore_pexpire)
  have card: "kv_zcard r ?s1 t k = card (members r ?s1 t k)" by (simp add: zcard_card members_def)
  show "members r s' t k \<subseteq> members r s t k \<or> int (card (members r s' t k)) \<le> cap"
  proof (cases "kv_zscore r ?s1 t k m = None \<and> cap \<le> int (kv_zcard r ?s1 t k)")
    case True
    with assms have "s' = ?s1" by (simp add: add_session_index_script_def)
    with pruned show ?thesis by blast
  next
    case False
    with assms have "members r s' t k \<subseteq> members r ?s2 t k"
      using expire by (auto simp: add_session_index_script_def Let_def split: if_splits)
    then have sub: "members r s' t k \<subseteq> insert m (members r ?s1 t k)" by (simp add: added)
    show ?thesis
    proof (cases "m \<in> members r ?s1 t k")
      case True
      with sub pruned [of k] show ?thesis by blast
    next
      case out: False
      then have "int (card (members r ?s1 t k)) < cap" using False card by (auto simp: members_def)
      moreover have "card (members r s' t k) \<le> card (insert m (members r ?s1 t k))"
        by (rule card_mono [OF _ sub]) simp
      ultimately show ?thesis using out by simp
    qed
  qed
  show "members r s' t k' \<subseteq> members r s t k'" if "k' \<noteq> k"
    using assms expire [of _ k'] pruned [of k'] added [of k'] that
    by (auto simp: add_session_index_script_def Let_def split: if_splits)
qed

lemma members_other:
  assumes "exec r J t c s = (s', x)" and "\<And>k now m x cap ms. c \<noteq> AddIndexS k now m x cap ms"
  shows "members r s' t k \<subseteq> members r s t k"
proof (cases c)
  case (AddIndexS k now m x cap ms)
  with assms(2) show ?thesis by blast
qed (use assms(1) in
    \<open>auto simp: members_def zscore_set zscore_del zscore_pexpire zscore_zrem client_set_def Let_def
      update_payload_script_def compare_delete_script_def ensure_generation_script_def
      rotate_generation_script_def extend_generation_script_def cas_replace_script_def
      split: option.splits if_splits\<close>)

lemma exec_members:
  assumes "known_cmd R C c" and "\<And>st. st \<in> R \<Longrightarrow> max_per_uid st \<le> n" and "exec r J t c s = (s', x)"
  shows "members r s' t k \<subseteq> members r s t k \<or> int (card (members r s' t k)) \<le> n"
proof (cases "\<exists>k now m x cap ms. c = AddIndexS k now m x cap ms")
  case True
  then obtain k1 now m x1 cap ms where c: "c = AddIndexS k1 now m x1 cap ms" by blast
  then have "cap \<le> n" using assms(1,2) by (auto simp: known_cmd_def)
  with members_add [of t k1 now m x1 cap ms s s' x] assms(3) show ?thesis
    by (cases "k = k1") (force simp: c)+
next
  case False
  with members_other [OF assms(3)] show ?thesis by blast
qed

lemma step_bounded:
  assumes cap: "\<And>st. st \<in> R \<Longrightarrow> max_per_uid st \<le> n"
    and run: "jobs_run R (known_cmd R C) c" and ok: "index_bounded r C n c"
    and step: "session_step r J C flags R c c'"
  shows "index_bounded r C n c'"
  unfolding index_bounded_def
proof
  fix k assume k: "k \<in> index_keys C"
  have old: "int (card (members r (store c) (store_ms c) k)) \<le> n" using ok k by (simp add: index_bounded_def)
  have smaller: "int (card M) \<le> n" if "M \<subseteq> members r (store c) (store_ms c) k" for M
    using card_mono [OF members_finite that] old by linarith
  from step show "int (card (members r (store c') (store_ms c') k)) \<le> n"
  proof (cases rule: step_store)
    case same
    with old show ?thesis by simp
  next
    case (command i op cmd kk x)
    from jobs_runD [OF run command(1)] have "known_cmd R C cmd" by simp
    from exec_members [OF this cap command(2), of k] smaller command(3) show ?thesis by auto
  next
    case time
    then have "members r (store c') (store_ms c') k \<subseteq> members r (store c) (store_ms c) k"
      using zscore_later [OF time(2), of "store c" k] by (auto simp: members_def) (metis option.distinct(1))
    then show ?thesis by (rule smaller)
  next
    case other
    then have "members r (store c') (store_ms c') k \<subseteq> members r (store c) (store_ms c) k"
      using other(2) other(3) [OF k] by (auto simp: members_def) (metis option.distinct(1))
    then show ?thesis by (rule smaller)
  qed
qed

end

lemma reach_jobs_run:
  assumes "session_reach r J C flags R c c'" and "jobs_run R (known_cmd R C) c"
  shows "jobs_run R (known_cmd R C) c'"
  using assms
  by (induction rule: session_reach.induct) (blast intro: step_jobs_run known_program)+

lemma reach_bounded:
  assumes "session_laws r J" and "session_reach r J C flags R c c'"
    and "\<And>st. st \<in> R \<Longrightarrow> max_per_uid st \<le> n"
    and "jobs_run R (known_cmd R C) c" and "index_bounded r C n c"
  shows "index_bounded r C n c'"
  using assms(2,4,5)
proof (induction rule: session_reach.induct)
  case (later c c' c'')
  have "jobs_run R (known_cmd R C) c'" by (rule reach_jobs_run [OF later.hyps(1) later.prems(1)])
  with later.IH [OF later.prems] later.hyps(2) assms(3) show ?case
    using session_laws.step_bounded [OF assms(1)] by blast
qed

end
