(* ===== verification/Session_Run.thy ===== *)
theory Session_Run
  imports Session_System
begin

text \<open>
  User sessions, one operation alone: \<open>run\<close> executes a program to its end while nothing else happens
  and every command succeeds, and \<open>run_reaches\<close> says that this is a run of the system.
\<close>

record surroundings =
  at_ms :: int
  at_ns :: int
  at_state :: rollout

primrec run ::
    "'s kv \<Rightarrow> codec \<Rightarrow> surroundings \<Rightarrow> 'a prog \<Rightarrow> string list \<Rightarrow> 's \<Rightarrow> 'a \<times> string list \<times> 's" where
  "run r J E (Return a) = (\<lambda>gs s. (a, gs, s))"
| "run r J E (Call c k) = (\<lambda>gs s. run r J E (k (snd (exec r J (at_ms E) c s))) gs (fst (exec r J (at_ms E) c s)))"
| "run r J E (Clock k) = run r J E (k (at_ns E))"
| "run r J E (Random k) =
     (\<lambda>gs s. if gs = [] then run r J E (k None) gs s else run r J E (k (Some (hd gs))) (tl gs) s)"
| "run r J E (Load k) = run r J E (k (at_state E))"
| "run r J E (Lease k) = run r J E (k True)"
| "run r J E (Context k) = run r J E (k False)"

lemma run_pbind:
  "run r J E (pbind p f) gs s = (case run r J E p gs s of (a, gs', s') \<Rightarrow> run r J E (f a) gs' s')"
  by (induction p arbitrary: gs s) simp_all

lemma run_acts [simp]:
  "run r J E (ok a) gs s = (Inr a, gs, s)" "run r J E (fail e) gs s = (Inl e, gs, s)"
  "run r J E (of_res x) gs s = (x, gs, s)"
  by (simp_all add: ok_def fail_def of_res_def)

lemma run_and_then [simp]:
  "run r J E (and_then p f) gs s =
    (case run r J E p gs s of (x, gs', s') \<Rightarrow>
      (case x of Inl e \<Rightarrow> (Inl e, gs', s') | Inr a \<Rightarrow> run r J E (f a) gs' s'))"
  by (simp add: and_then_def run_pbind split: prod.split sum.split)

lemma run_need [simp]: "run r J E (need b e p) gs s = (if b then run r J E p gs s else (Inl e, gs, s))"
  by (simp add: need_def)

lemma run_check_ctx [simp]: "run r J E (check_ctx p) gs s = run r J E p gs s"
  by (simp add: check_ctx_def)

lemma run_call [simp]:
  "run r J E (call c k) gs s =
    (let e = exec r J (at_ms E) c s
     in if snd e = RFail then (Inl RedisFailed, gs, fst e) else run r J E (k (snd e)) gs (fst e))"
  by (simp add: call_def Let_def)

lemma run_client_get [simp]:
  "run r J E (client_get k f) gs s = run r J E (f (kv_get r s (at_ms E) k)) gs s"
  by (simp add: client_get_def nil_or_def split: option.split)

lemma run_or_cleanup [simp]:
  "run r J E (or_cleanup clean p k) gs s =
    (case run r J E p gs s of (x, gs', s') \<Rightarrow>
      (case x of Inl e \<Rightarrow> run r J E (after_cleanup clean e) gs' s' | Inr _ \<Rightarrow> run r J E k gs' s'))"
  by (simp add: or_cleanup_def run_pbind split: prod.split sum.split)

lemma run_report [simp]:
  "run r J E (report f p) gs s =
    (case run r J E p gs s of (x, gs', s') \<Rightarrow> (case x of Inl e \<Rightarrow> OError e | Inr a \<Rightarrow> f a, gs', s'))"
  by (simp add: report_def run_pbind split: prod.split)

lemma run_read_found:
  assumes "\<not> blank k" and "kv_get r s (at_ms E) k = Some v" and "kv_pttl r s (at_ms E) k = p" and "p \<noteq> -2"
  shows "run r J E (read_token k) gs s =
    (Inr \<lparr>payload = v, ttl = (if p = -1 then -1 else of_millis p)\<rparr>, gs, s)"
  using assms by (simp add: read_token_def read_token_script_def Let_def)

lemma run_generation:
  assumes "\<not> blank u" and "kv_get r s (at_ms E) (generation_key C u) = Some raw"
    and "decode_gen J raw = Inr rec" and "gen_state rec = ''active''"
  shows "run r J E (current_generation J C u) gs s = (Inr (generation rec), gs, s)"
  using assms by (simp add: current_generation_def session_generation_active_def)

text \<open>A v3 token before its deadline, whose generation is the current one, is accepted.\<close>

lemma run_validate_v3:
  assumes "\<not> blank token" and "\<not> blank (token_key C token)"
    and "kv_get r s (at_ms E) (token_key C token) = Some v" and "\<not> blank v"
    and "kv_pttl r s (at_ms E) (token_key C token) = p" and "0 < of_millis p" and "0 < p"
    and "decode J v = Inr info" and "is_v3 info" and "unix (at_ns E) < expires_at info"
    and "\<not> blank (uid info)" and "kv_get r s (at_ms E) (generation_key C (uid info)) = Some raw"
    and "decode_gen J raw = Inr rec" and "gen_state rec = ''active''"
    and "generation rec = session_generation info"
  shows "run r J E (validate_token J C True policy (token_prefix C) token) gs s = (Inr info, gs, s)"
proof -
  have k: "token_prefix C @ token = token_key C token" by (simp add: token_key_def)
  have "session_generation info \<noteq> []" using assms(9) by (simp add: is_v3_def)
  with assms show ?thesis unfolding validate_token_def k
    by (simp add: run_read_found [where p = p] run_generation [where raw = raw and rec = rec])
qed

lemma reach_first:
  assumes "session_step r J C flags R c c'" and "session_reach r J C flags R c' c''"
  shows "session_reach r J C flags R c c''"
  using assms(2,1)
proof (induction rule: session_reach.induct)
  case (here c1)
  then show ?case using session_reach.here session_reach.later by blast
next
  case (later c1 c2 c3)
  then show ?case using session_reach.later by blast
qed

text \<open>The job \<open>i\<close> can end with \<open>a\<close> and the store \<open>s'\<close>, drawing at most \<open>gs\<close> and leaving \<open>gs'\<close>.\<close>

definition ends ::
    "'s kv \<Rightarrow> codec \<Rightarrow> session_cfg \<Rightarrow> int list \<Rightarrow> rollout set \<Rightarrow> nat \<Rightarrow> operation \<Rightarrow> outcome \<Rightarrow> 's
     \<Rightarrow> string list \<Rightarrow> string list \<Rightarrow> 's system \<Rightarrow> bool" where
  "ends r J C flags R i op a s' gs gs' c \<longleftrightarrow>
     (\<exists>d. session_reach r J C flags R c d \<and> store d = s' \<and> store_ms d = store_ms c \<and>
        used d \<subseteq> used c \<union> set gs \<and> set gs' \<inter> used d = {} \<and> jobs d = (jobs c)(i \<mapsto> (op, Return a)))"

lemma ends_step:
  assumes "session_step r J C flags R c (put_job i op p c1)" and "store_ms c1 = store_ms c"
    and "used c1 \<union> set hs \<subseteq> used c \<union> set gs" and "jobs c1 = jobs c"
    and "ends r J C flags R i op a s' hs gs' (put_job i op p c1)"
  shows "ends r J C flags R i op a s' gs gs' c"
proof -
  from assms(5) obtain d where "session_reach r J C flags R (put_job i op p c1) d" "store d = s'"
    "store_ms d = store_ms c1" "used d \<subseteq> used c1 \<union> set hs" "set gs' \<inter> used d = {}"
    "jobs d = (jobs c1)(i \<mapsto> (op, Return a))"
    by (auto simp: ends_def)
  with assms(2-4) reach_first [OF assms(1)] show ?thesis unfolding ends_def by fastforce
qed

lemma run_reaches:
  assumes "run r J E p gs s = (a, gs', s')" and "jobs c i = Some (op, p)" and "store c = s"
    and "store_ms c = at_ms E" and "at_state E \<in> R"
    and "distinct gs" and "set gs \<inter> used c = {}" and "\<forall>g \<in> set gs. valid_utf8 g"
  shows "ends r J C flags R i op a s' gs gs' c"
  using assms
proof (induction p arbitrary: gs s c)
  case (Return b)
  then have "session_reach r J C flags R c c \<and> store c = s' \<and> jobs c = (jobs c)(i \<mapsto> (op, Return a)) \<and>
      set gs' \<inter> used c = {}"
    by (auto simp: fun_eq_iff intro: session_reach.here)
  then show ?case unfolding ends_def by blast
next
  case (Call cmd k)
  obtain s1 x where x: "exec r J (at_ms E) cmd s = (s1, x)" by fastforce
  show ?case
    by (rule ends_step [OF session_step.executed]) (use Call.prems x in \<open>auto intro!: Call.IH [OF rangeI]\<close>)
next
  case (Clock k)
  show ?case by (rule ends_step [OF session_step.reads_clock]) (use Clock.prems in \<open>auto intro!: Clock.IH [OF rangeI]\<close>)
next
  case (Random k)
  show ?case
  proof (cases gs)
    case Nil
    show ?thesis by (rule ends_step [OF session_step.no_random]) (use Random.prems Nil in \<open>auto intro!: Random.IH [OF rangeI]\<close>)
  next
    case (Cons g gs1)
    show ?thesis
      by (rule ends_step [where hs = gs1, OF session_step.draws]) (use Random.prems Cons in \<open>auto intro!: Random.IH [OF rangeI]\<close>)
  qed
next
  case (Load k)
  show ?case by (rule ends_step [OF session_step.loads]) (use Load.prems in \<open>auto intro!: Load.IH [OF rangeI]\<close>)
next
  case (Lease k)
  show ?case by (rule ends_step [OF session_step.asks_lease]) (use Lease.prems in \<open>auto intro!: Lease.IH [OF rangeI]\<close>)
next
  case (Context k)
  show ?case by (rule ends_step [OF session_step.asks_context]) (use Context.prems in \<open>auto intro!: Context.IH [OF rangeI]\<close>)
qed

text \<open>An operation that starts now and runs alone.\<close>

lemma run_operation:
  assumes "run r J E (program J C flags op) gs (store c) = (a, gs', s')" and "jobs c i = None"
    and "store_ms c = at_ms E" and "at_state E \<in> R"
    and "distinct gs" and "set gs \<inter> used c = {}" and "\<forall>g \<in> set gs. valid_utf8 g"
  shows "ends r J C flags R i op a s' gs gs' c"
  by (rule ends_step [OF session_step.start]) (use assms in \<open>auto intro!: run_reaches\<close>)

end
