(* ===== verification/Session_Claims.thy ===== *)
theory Session_Claims
  imports Session_Bounds Session_Run
begin

text \<open>
  User sessions, what an existing v3 session keeps: no job changes its user, device, generation or
  absolute lifetime, or gives it more time in Redis.
\<close>

section \<open>Commands that keep the claims\<close>

text \<open>Only the name, the role and the language of a session may be refreshed.\<close>

definition same_claims :: "token_info \<Rightarrow> token_info \<Rightarrow> bool" where
  "same_claims i j \<longleftrightarrow>
     j\<lparr>display_name := display_name i, role := role i, language := language i\<rparr> = i"

fun keeps_claims :: "codec \<Rightarrow> session_cfg \<Rightarrow> cmd \<Rightarrow> bool" where
  "keeps_claims J C (CasReplaceS k a b ms) =
     (\<forall>i. decode J a = Inr i \<and> is_v3 i \<longrightarrow> (\<exists>j. decode J b = Inr j \<and> same_claims i j))"
| "keeps_claims J C (UpdatePayloadS k p ms) = (\<not> prefix v3_prefix p)"
| "keeps_claims J C (CSet k v ns) = (k \<in> device_keys C \<union> deny_keys C)"
| "keeps_claims J C (EnsureGenS k c ms) = (k \<in> generation_keys C)"
| "keeps_claims J C (RotateS k g v e ms) = (k \<in> generation_keys C)"
| "keeps_claims J C (ExtendS k g v ms) = (k \<in> generation_keys C)"
| "keeps_claims J C (AddIndexS k now m x cap ms) = (k \<in> index_keys C)"
| "keeps_claims J C (CZRem k m) = (k \<in> index_keys C)"
| "keeps_claims J C _ = True"

abbreviation keeping :: "codec \<Rightarrow> session_cfg \<Rightarrow> rollout set \<Rightarrow> 'a prog \<Rightarrow> bool" where
  "keeping J C R \<equiv> all_cmds R (keeps_claims J C)"

text \<open>
  The callers pass payloads that \<open>Encode\<close> made, which are never v3, and snapshots of UTF-8 texts.
\<close>

definition snapshot_ok :: "token_info \<Rightarrow> bool" where
  "snapshot_ok i \<longleftrightarrow> valid_utf8 (display_name i) \<and> valid_utf8 (role i) \<and> valid_utf8 (language i)"

fun operation_ok :: "operation \<Rightarrow> bool" where
  "operation_ok (ReuseSession token info fence) = snapshot_ok info"
| "operation_ok (UpdateSessionSnapshot token info) = snapshot_ok info"
| "operation_ok (ReuseExisting token pl u flag) = (\<not> prefix v3_prefix pl)"
| "operation_ok (UpdatePayloadKeepDeadline token pl) = (\<not> prefix v3_prefix pl)"
| "operation_ok _ = True"

lemma all_cmds_decoded:
  "(\<And>a. x = Inr a \<Longrightarrow> all_cmds R P (f a)) \<Longrightarrow> all_cmds R P (and_then (of_res x) f)"
  by (cases x) (simp_all add: and_then_def of_res_def fail_def)

lemma not_v3_encode: "encode J i = Inr p \<Longrightarrow> \<not> prefix v3_prefix p"
  by (auto simp: encode_def v2_prefix_def v3_prefix_def split: if_splits)

context codec_laws
begin

lemma is_v3_decode:
  assumes "decode J raw = Inr i" and "is_v3 i"
  shows "prefix v3_prefix raw \<and> unmarshal_v3 J (drop 3 raw) = Some i \<and> v3_valid i"
proof -
  have "\<not> is_v3 j" if "decode_v2 J p = Inr j" for p j
    using that by (auto simp: decode_v2_def is_v3_def empty_info_def split: option.splits if_splits)
  moreover have "\<not> is_v3 j" if "decode_legacy p = Inr j" for p j
    using that by (auto simp: decode_legacy_def is_v3_def empty_info_def Let_def split: if_splits)
  ultimately show ?thesis using assms
    by (auto simp: decode_def decode_v3_def split: if_splits option.splits)
qed

lemma v3_valid_is_v3: "v3_valid i \<Longrightarrow> is_v3 i"
  by (auto simp: v3_valid_def is_v3_def)

text \<open>A refreshed payload decodes to the same claims.\<close>

lemma refresh_keeps:
  assumes "decode J raw = Inr i" and "is_v3 i" and "snapshot_ok s"
    and "encode_v3 J (i\<lparr>display_name := display_name s, role := role s, language := language s\<rparr>) = Inr p"
  shows "\<exists>j. decode J p = Inr j \<and> same_claims i j"
proof -
  let ?j = "i\<lparr>display_name := display_name s, role := role s, language := language s\<rparr>"
  from is_v3_decode [OF assms(1,2)] have "info_ok i" and "v3_valid i" using v3_decoded by auto
  then have "info_ok ?j" and "v3_valid ?j"
    using assms(3) by (auto simp: info_ok_def v3_valid_def snapshot_ok_def)
  with decode_encode_v3 [of ?j] assms(4) have "decode J p = Inr ?j" by simp
  then show ?thesis by (auto simp: same_claims_def)
qed

lemma keeping_cas:
  assumes "\<And>i. decode J a = Inr i \<Longrightarrow> is_v3 i \<Longrightarrow> \<exists>j. decode J b = Inr j \<and> same_claims i j"
  shows "keeping J C R (cas_replace_payload C token a b cap)"
  unfolding cas_replace_payload_def using assms by (auto intro!: cmds_intro)

lemma keeping_read [cmds_intro]: "keeping J C R (read_token k)"
  unfolding read_token_def by (auto intro!: cmds_intro)

lemma keeping_writable [cmds_intro]: "keeping J C R writable_state"
  unfolding writable_state_def by (auto intro!: cmds_intro)

lemma keeping_device [cmds_intro]: "keeping J C R (compare_delete_device_index C token u flag)"
  unfolding compare_delete_device_index_def by (auto intro!: cmds_intro)

lemma keeping_require [cmds_intro]: "keeping J C R (require_fence J' C u fence)"
  unfolding require_fence_def by (auto intro!: cmds_intro)

lemma keeping_extend [cmds_intro]: "keeping J C R (extend_fence_deadline C u fence d)"
  unfolding extend_fence_deadline_def Let_def by (auto intro!: cmds_intro)

lemma keeping_index [cmds_intro]: "keeping J C R (add_session_index C u g member expires d)"
  unfolding add_session_index_def by (auto intro!: cmds_intro)

lemma keeping_cleanup_issued [cmds_intro]: "keeping J C R (cleanup_issued_v3 C token owned u flag g member)"
  unfolding cleanup_issued_v3_def by (auto intro!: cmds_intro)

lemma keeping_cleanup_index [cmds_intro]: "keeping J C R (cleanup_index_reservation J' C token u flag dev g)"
  unfolding cleanup_index_reservation_def Let_def by (auto intro!: cmds_intro)

lemma keeping_update [cmds_intro]: "\<not> prefix v3_prefix pl \<Longrightarrow> keeping J C R (update_payload_keep C token pl)"
  unfolding update_payload_keep_def by (auto intro!: cmds_intro)

lemma keeping_reuse_existing [cmds_intro]:
  "\<not> prefix v3_prefix pl \<Longrightarrow> keeping J C R (reuse_existing C token pl u flag)"
  unfolding reuse_existing_def by (auto intro!: cmds_intro)

lemma keeping_reuse_v3:
  assumes "decode J p = Inr i" and "is_v3 i" and "snapshot_ok s"
  shows "keeping J C R (reuse_existing_v3 J C token p i s fence)"
  unfolding reuse_existing_v3_def Let_def
  by (intro cmds_intro all_cmds_decoded keeping_cas)
    (use assms refresh_keeps [OF assms] in \<open>auto simp: of_res_def\<close>)

lemma keeping_promote:
  assumes "\<And>i. decode J (payload rec) = Inr i \<Longrightarrow> \<not> is_v3 i"
  shows "keeping J C R (promote_legacy_session J C token rec s fence)"
  unfolding promote_legacy_session_def Let_def
  by (intro cmds_intro keeping_cas) (use assms in auto)

lemma keeping_reuse_attempts [cmds_intro]:
  "snapshot_ok s \<Longrightarrow> keeping J C R (reuse_attempts n J C token s fence)"
proof (induction n)
  case (Suc n)
  then show ?case unfolding reuse_attempts.simps
    by (intro all_cmds_and_then all_cmds_decoded cmds_intro keeping_reuse_v3 keeping_promote) auto
qed (auto intro!: cmds_intro)

lemma keeping_reuse [cmds_intro]:
  "snapshot_ok s \<Longrightarrow> keeping J C R (reuse_session J C token s fence)"
  unfolding reuse_session_def Let_def
  by (auto intro!: cmds_intro dest: not_v3_encode split: sum.split)

lemma keeping_update_attempts [cmds_intro]:
  "snapshot_ok s \<Longrightarrow> keeping J C R (update_attempts n J C token s)"
proof (induction n)
  case (Suc n)
  note IH = Suc.IH [OF Suc.prems]
  have one: "keeping J C R
      (if is_v3 (i\<lparr>display_name := display_name s, role := role s, language := language s\<rparr>)
       then (case encode_v3 J (i\<lparr>display_name := display_name s, role := role s, language := language s\<rparr>) of
               Inl e \<Rightarrow> Clock (\<lambda>now. fail e)
             | Inr pl \<Rightarrow> Clock (\<lambda>now. if until (expires_at (i\<lparr>display_name := display_name s, role := role s, language := language s\<rparr>)) now \<le> 0 then ok False
                 else and_then (cas_replace_payload C token (payload rec) pl (until (expires_at (i\<lparr>display_name := display_name s, role := role s, language := language s\<rparr>)) now))
                   (\<lambda>(_, replaced, conflict). if conflict then update_attempts n J C token s else ok replaced)))
       else and_then (of_res (encode J (i\<lparr>display_name := display_name s, role := role s, language := language s\<rparr>)))
         (\<lambda>pl. if h \<le> 0 then ok False
            else and_then (cas_replace_payload C token (payload rec) pl h)
              (\<lambda>(_, replaced, conflict). if conflict then update_attempts n J C token s else ok replaced)))"
    if d: "decode J (payload rec) = Inr i" for rec i h
  proof (cases "is_v3 i")
    case True
    then show ?thesis
      using refresh_keeps [OF d True Suc.prems] d
      by (auto simp: is_v3_def split: sum.split intro!: keeping_cas IH cmds_intro)
  next
    case False
    then show ?thesis using d
      by (auto simp: is_v3_def split: sum.split intro!: keeping_cas IH cmds_intro)
  qed
  show ?case unfolding update_attempts.simps Let_def
    by (rule all_cmds_and_then [OF keeping_read], rule all_cmds_cases(1), rule all_cmds_acts,
        rule all_cmds_decoded, rule all_cmds_need, rule one)
qed (auto intro!: cmds_intro)

lemma keeping_revoke_attempts [cmds_intro]: "keeping J C R (revoke_attempts n J' C token u flag)"
  by (induction n) (auto intro!: cmds_intro)

lemma keeping_indexes [cmds_intro]: "keeping J C R (delete_device_indexes fs C token u acc)"
  by (induction fs arbitrary: acc) (auto intro!: cmds_intro)

lemma keeping_invalidate [cmds_intro]: "keeping J C R (invalidate_current_token J' C flags u token)"
  by (auto simp: invalidate_current_token_def delete_token_def revoke_current_def intro!: cmds_intro)

lemma keeping_validate [cmds_intro]: "keeping J C R (validate_token J' C resolver policy pre token)"
  by (auto simp: validate_token_def current_generation_def validate_legacy_session_def intro!: cmds_intro)

lemma keeping_revoke_issued [cmds_intro]: "keeping J C R (revoke_issued J' C token u flag)"
  unfolding revoke_issued_def Let_def
  by (simp only: option.case prod.case, auto intro!: cmds_intro)

lemma keeping_program:
  assumes "operation_ok op"
  shows "keeping J C R (program J C flags op)"
  using assms
  by (cases op)
    (auto simp: report_def issue_new_session_def issue_new_def update_session_snapshot_def
      update_payload_keep_deadline_def device_token_def delete_token_def
      revoke_current_def revoke_all_def begin_issue_def Let_def intro!: cmds_intro)

end

section \<open>A session that exists\<close>

text \<open>The key \<open>k\<close> is not due later than before: what had an end keeps it or gets an earlier one.\<close>

definition not_later :: "'s kv \<Rightarrow> string \<Rightarrow> 's system \<Rightarrow> 's system \<Rightarrow> bool" where
  "not_later r k c c' \<longleftrightarrow>
     (kv_pttl r (store c) (store_ms c) k \<noteq> -1 \<longrightarrow>
        kv_pttl r (store c') (store_ms c') k \<noteq> -1 \<and>
        store_ms c' + kv_pttl r (store c') (store_ms c') k \<le> store_ms c + kv_pttl r (store c) (store_ms c) k)"

lemma not_later_refl: "not_later r k c c"
  by (simp add: not_later_def)

lemma not_later_trans: "not_later r k c c' \<Longrightarrow> not_later r k c' c'' \<Longrightarrow> not_later r k c c''"
  by (auto simp: not_later_def)

definition claims_kept :: "codec \<Rightarrow> string \<Rightarrow> string \<Rightarrow> bool" where
  "claims_kept J v v' \<longleftrightarrow>
     (\<forall>i. decode J v = Inr i \<and> is_v3 i \<longrightarrow> (\<exists>j. decode J v' = Inr j \<and> same_claims i j))"

lemma same_claims_refl: "same_claims i i"
  by (simp add: same_claims_def)

lemma same_claims_trans: "same_claims i j \<Longrightarrow> same_claims j k \<Longrightarrow> same_claims i k"
  by (cases i; cases j; cases k) (simp add: same_claims_def)

lemma same_claims_v3: "same_claims i j \<Longrightarrow> is_v3 i \<Longrightarrow> is_v3 j"
  by (cases i; cases j) (simp add: same_claims_def is_v3_def)

lemma claims_kept_refl: "claims_kept J v v"
  by (auto simp: claims_kept_def same_claims_refl)

lemma claims_kept_trans: "claims_kept J v v' \<Longrightarrow> claims_kept J v' v'' \<Longrightarrow> claims_kept J v v''"
  unfolding claims_kept_def by (meson same_claims_trans same_claims_v3)

context session_laws
begin

lemma client_set_pttl_other:
  "client_set r t k v ns s = Some s' \<Longrightarrow> k' \<noteq> k \<Longrightarrow> kv_pttl r s' t k' = kv_pttl r s t k'"
  by (auto simp: client_set_def pttl_set split: if_splits)

lemma exec_token:
  assumes C: "cfg_ok C" and c: "keeps_claims J C c" and k: "k \<in> token_keys C"
    and e: "exec r J t c s = (s', x)"
    and v: "kv_get r s t k = Some v" and v': "kv_get r s' t k = Some v'"
  shows "claims_kept J v v' \<and> (kv_pttl r s t k \<noteq> -1 \<longrightarrow>
    kv_pttl r s' t k \<noteq> -1 \<and> kv_pttl r s' t k \<le> kv_pttl r s t k)"
proof -
  have apart: "k \<notin> generation_keys C" "k \<notin> index_keys C" using keys_apart [OF C] k by blast+
  have other: "k \<notin> device_keys C \<union> deny_keys C"
  proof -
    have "uid_token_prefix C @ y \<noteq> token_prefix C @ x" for x y
      using C not_prefix_append [of "uid_token_prefix C" "token_prefix C" y x] by (simp add: cfg_ok_def)
    with k show ?thesis
      by (auto simp: token_keys_def device_keys_def deny_keys_def token_key_def uid_token_key_def
          legacy_deny_key_def) (metis)+
  qed
  note r = claims_kept_refl
  show ?thesis
  proof (cases c)
    case (CSet k1 w ns)
    with c other have "k \<noteq> k1" by auto
    with e CSet v v' show ?thesis
      by (auto simp: r split: option.splits dest: client_set_other client_set_pttl_other)
  next
    case (CSetNX k1 w ns)
    then show ?thesis
      using e v v' by (cases "k1 = k")
        (auto simp: r split: option.splits if_splits dest: client_set_other client_set_pttl_other)
  next
    case (CasReplaceS k1 a b ms)
    show ?thesis
    proof (cases "k1 = k \<and> a = v")
      case True
      then have "v' = v \<or> v' = b" using e v v' CasReplaceS
        by (auto simp: cas_replace_script_def Let_def get_set split: option.splits if_splits)
      then have "claims_kept J v v'" using c True by (auto simp: CasReplaceS claims_kept_def same_claims_refl)
      moreover have "kv_pttl r s t k \<noteq> -1 \<longrightarrow> kv_pttl r s' t k \<noteq> -1 \<and> kv_pttl r s' t k \<le> kv_pttl r s t k"
        using e v CasReplaceS True
        by (auto simp: cas_replace_script_def Let_def pttl_set split: if_splits)
      ultimately show ?thesis by blast
    next
      case False
      then show ?thesis using e v v' CasReplaceS
        by (auto simp: r cas_replace_script_def Let_def get_set pttl_set split: option.splits if_splits)
    qed
  next
    case (UpdatePayloadS k1 p ms)
    show ?thesis
    proof (cases "k1 = k")
      case True
      have "claims_kept J v v'"
      proof (cases "prefix v3_prefix v")
        case v3: True
        have "take 3 v = ''v3:''" using v3 by (auto simp: v3_prefix_def prefix_def)
        moreover have "take 3 p \<noteq> ''v3:''"
          using c UpdatePayloadS by (auto simp: v3_prefix_def) (metis take_is_prefix)
        ultimately have "v' = v" using e v v' UpdatePayloadS True
          by (auto simp: update_payload_script_def Let_def split: if_splits)
        then show ?thesis by (simp add: r)
      next
        case False
        then show ?thesis using is_v3_decode by (auto simp: claims_kept_def)
      qed
      moreover have "kv_pttl r s t k \<noteq> -1 \<longrightarrow> kv_pttl r s' t k \<noteq> -1 \<and> kv_pttl r s' t k \<le> kv_pttl r s t k"
        using e v UpdatePayloadS True
        by (auto simp: update_payload_script_def Let_def pttl_set split: if_splits)
      ultimately show ?thesis by blast
    next
      case False
      then show ?thesis using e v v' UpdatePayloadS
        by (auto simp: r update_payload_script_def Let_def get_set pttl_set split: option.splits if_splits)
    qed
  next
    case (EnsureGenS k1 cand ms)
    with c apart have "k \<noteq> k1" by auto
    with EnsureGenS e v v' show ?thesis
      by (auto simp: r ensure_generation_script_def Let_def get_set pttl_set get_pexpire pttl_pexpire
          split: option.splits if_splits)
  next
    case (RotateS k1 g u ev ms)
    with c apart have "k \<noteq> k1" by auto
    with RotateS e v v' show ?thesis
      by (auto simp: r rotate_generation_script_def Let_def get_set pttl_set split: option.splits if_splits)
  next
    case (ExtendS k1 g u ms)
    with c apart have "k \<noteq> k1" by auto
    with ExtendS e v v' show ?thesis
      by (auto simp: r extend_generation_script_def Let_def get_pexpire pttl_pexpire split: option.splits if_splits)
  next
    case (AddIndexS k1 now m y cap ms)
    with c apart have "k \<noteq> k1" by auto
    with AddIndexS e v v' show ?thesis
      by (auto simp: r add_session_index_script_def Let_def get_pexpire pttl_pexpire get_zset pttl_zset
          split: if_splits)
  next
    case (CZRem k1 m)
    with c apart have "k \<noteq> k1" by auto
    with CZRem e v v' show ?thesis by (auto simp: r get_zset pttl_zset)
  next
    case (CompareDeleteS k1 w)
    with e v v' show ?thesis
      by (auto simp: r compare_delete_script_def get_del pttl_del split: if_splits)
  next
    case (CDel k1)
    with e v v' show ?thesis by (auto simp: r get_del pttl_del split: if_splits)
  qed (use e v v' in \<open>auto simp: r\<close>)
qed

end

section \<open>While the session exists\<close>

text \<open>
  \<open>lives r J C flags R k\<close>: a run in which the key \<open>k\<close> is there after every step, and changes that no
  job makes leave it alone.
\<close>

definition jobs_ok :: "'s system \<Rightarrow> bool" where
  "jobs_ok c \<longleftrightarrow> (\<forall>i op p. jobs c i = Some (op, p) \<longrightarrow> operation_ok op)"

inductive lives ::
    "'s kv \<Rightarrow> codec \<Rightarrow> session_cfg \<Rightarrow> int list \<Rightarrow> rollout set \<Rightarrow> string \<Rightarrow> 's system \<Rightarrow> 's system \<Rightarrow> bool"
  for r :: "'s kv" and J :: codec and C :: session_cfg and flags :: "int list" and R :: "rollout set"
    and k :: string where
  unmoved: "lives r J C flags R k c c"
| onwards: "lives r J C flags R k c c' \<Longrightarrow> session_step r J C flags R c' c'' \<Longrightarrow>
    jobs_ok c'' \<Longrightarrow>
    kv_get r (store c'') (store_ms c'') k \<noteq> None \<Longrightarrow>
    (jobs c'' = jobs c' \<Longrightarrow>
      kv_get r (store c'') (store_ms c'') k = kv_get r (store c') (store_ms c'') k \<and>
      kv_pttl r (store c'') (store_ms c'') k = kv_pttl r (store c') (store_ms c'') k) \<Longrightarrow>
    lives r J C flags R k c c''"

context session_laws
begin

lemma step_keeps:
  assumes C: "cfg_ok C" and k: "k \<in> token_keys C" and step: "session_step r J C flags R c c'"
    and run: "jobs_run R (keeps_claims J C) c"
    and v: "kv_get r (store c) (store_ms c) k = Some v"
    and v': "kv_get r (store c') (store_ms c') k = Some v'"
    and alone: "jobs c' = jobs c \<Longrightarrow>
      kv_get r (store c') (store_ms c') k = kv_get r (store c) (store_ms c') k \<and>
      kv_pttl r (store c') (store_ms c') k = kv_pttl r (store c) (store_ms c') k"
  shows "claims_kept J v v' \<and> not_later r k c c'"
  using step
proof (cases rule: step_store)
  case same
  with v v' show ?thesis by (simp add: claims_kept_refl not_later_def)
next
  case (command i op cmd kk x)
  from jobs_runD [OF run command(1)] have "keeps_claims J C cmd" by simp
  from exec_token [OF C this k command(2) v] v' command(3) show ?thesis by (auto simp: not_later_def)
next
  case time
  then have "v' = v" using get_later [OF time(2), of "store c" k] v v' by auto
  with time v' pttl_later [OF time(2), of "store c" k] gone_later [OF time(2), of "store c" k] show ?thesis
    by (auto simp: claims_kept_refl not_later_def)
next
  case other
  with alone v v' show ?thesis by (auto simp: claims_kept_refl not_later_def)
qed

lemma lives_keeps:
  assumes "lives r J C flags R k c c'" and "cfg_ok C" and "k \<in> token_keys C"
    and "jobs_run R (keeps_claims J C) c"
    and "kv_get r (store c) (store_ms c) k = Some v"
    and "kv_get r (store c') (store_ms c') k = Some v'"
  shows "claims_kept J v v' \<and> not_later r k c c' \<and> jobs_run R (keeps_claims J C) c'"
  using assms(1,4,5,6)
proof (induction arbitrary: v' rule: lives.induct)
  case (unmoved c)
  then show ?case by (simp add: claims_kept_refl not_later_refl)
next
  case (onwards c c1 c2)
  have "\<exists>w. kv_get r (store c1) (store_ms c1) k = Some w"
    using onwards.hyps(1) onwards.prems(2) by (cases rule: lives.cases) auto
  then obtain w where w: "kv_get r (store c1) (store_ms c1) k = Some w" by blast
  from onwards.IH [OF onwards.prems(1,2) w]
  have IH: "claims_kept J v w" "not_later r k c c1" "jobs_run R (keeps_claims J C) c1" by auto
  have "claims_kept J w v' \<and> not_later r k c1 c2"
    by (rule step_keeps [OF assms(2,3) onwards.hyps(2) IH(3) w onwards.prems(3)]) (rule onwards.hyps(5))
  moreover have "jobs_run R (keeps_claims J C) c2"
    using step_jobs_run [OF onwards.hyps(2) IH(3)] keeping_program onwards.hyps(3)
    by (metis jobs_ok_def)
  ultimately show ?case using IH claims_kept_trans not_later_trans by blast
qed

end


section \<open>The jobs of a run\<close>

lemma step_same_job:
  assumes "session_step r J C flags R c c'" and "jobs c i = Some (op, p)"
  shows "\<exists>q. jobs c' i = Some (op, q)"
  using assms by (cases rule: session_step.cases) (auto split: if_splits)

lemma reach_keeping:
  assumes "session_laws r J" and "session_reach r J C flags R c c'" and "jobs c = Map.empty" and "jobs_ok c'"
  shows "jobs_run R (keeps_claims J C) c'"
  using assms(2-4)
proof (induction rule: session_reach.induct)
  case (here c)
  then show ?case by (simp add: jobs_run_def)
next
  case (later c c' c'')
  have "jobs_ok c'"
    unfolding jobs_ok_def
  proof (intro allI impI)
    fix i op p assume "jobs c' i = Some (op, p)"
    from step_same_job [OF later.hyps(2) this] later.prems(2) show "operation_ok op"
      by (auto simp: jobs_ok_def)
  qed
  from step_jobs_run [OF later.hyps(2) later.IH [OF later.prems(1) this]] show ?case
    using codec_laws.keeping_program later.prems(2) assms(1) session_laws.axioms(2)
    by (fastforce simp: jobs_ok_def)
qed

section \<open>One operation alone keeps the session alive\<close>

lemma prog_not_in_itself: "p = Call c k \<Longrightarrow> k x \<noteq> p"
proof (induction p arbitrary: c k x)
  case (Call c1 k1)
  show ?case
  proof
    assume "k x = Call c1 k1"
    with Call.prems have "k1 x = Call c1 k1" by simp
    moreover have "k1 x \<in> range k1" by simp
    ultimately show False using Call.IH [of "k1 x" c1 k1 x] by simp
  qed
qed simp_all

text \<open>\<open>Q\<close> holds of the store after every command of a run that draws nothing.\<close>

primrec throughout ::
    "'s kv \<Rightarrow> codec \<Rightarrow> surroundings \<Rightarrow> ('s \<Rightarrow> bool) \<Rightarrow> 'a prog \<Rightarrow> 's \<Rightarrow> bool" where
  "throughout r J E Q (Return a) = (\<lambda>s. True)"
| "throughout r J E Q (Call c k) =
     (\<lambda>s. let e = exec r J (at_ms E) c s in Q (fst e) \<and> throughout r J E Q (k (snd e)) (fst e))"
| "throughout r J E Q (Clock k) = throughout r J E Q (k (at_ns E))"
| "throughout r J E Q (Random k) = throughout r J E Q (k None)"
| "throughout r J E Q (Load k) = throughout r J E Q (k (at_state E))"
| "throughout r J E Q (Lease k) = throughout r J E Q (k True)"
| "throughout r J E Q (Context k) = throughout r J E Q (k False)"

lemma throughout_pbind:
  "throughout r J E Q (pbind p f) s \<longleftrightarrow>
     throughout r J E Q p s \<and> throughout r J E Q (f (fst (run r J E p [] s))) (snd (snd (run r J E p [] s)))"
  by (induction p arbitrary: s) (simp_all add: Let_def)

lemma throughout_acts [simp]:
  "throughout r J E Q (ok a) s" "throughout r J E Q (fail e) s" "throughout r J E Q (of_res x) s"
  by (simp_all add: ok_def fail_def of_res_def)

lemma throughout_and_then [simp]:
  "throughout r J E Q (and_then p f) s \<longleftrightarrow> throughout r J E Q p s \<and>
     (case run r J E p [] s of (x, gs, s') \<Rightarrow> (case x of Inl e \<Rightarrow> True | Inr a \<Rightarrow> throughout r J E Q (f a) s'))"
  by (simp add: and_then_def throughout_pbind split: prod.split sum.split)

lemma throughout_more [simp]:
  "throughout r J E Q (need b e p) s \<longleftrightarrow> (b \<longrightarrow> throughout r J E Q p s)"
  "throughout r J E Q (check_ctx p) s \<longleftrightarrow> throughout r J E Q p s"
  "throughout r J E Q (call c k) s \<longleftrightarrow>
     (let e = exec r J (at_ms E) c s in Q (fst e) \<and> (snd e \<noteq> RFail \<longrightarrow> throughout r J E Q (k (snd e)) (fst e)))"
  "throughout r J E Q (report f q) s \<longleftrightarrow> throughout r J E Q q s"
  by (simp_all add: need_def check_ctx_def call_def report_def throughout_pbind Let_def)

lemma lives_first:
  assumes "lives r J C flags R k c' c''" and "lives r J C flags R k c c'"
  shows "lives r J C flags R k c c''"
  using assms by (induction rule: lives.induct) (auto intro: lives.onwards)

lemma lives_job:
  assumes "session_step r J C flags R c (put_job i op p c1)" and "jobs c1 = jobs c"
    and "store_ms c1 = store_ms c" and "jobs_ok c" and "operation_ok op"
    and "kv_get r (store c1) (store_ms c) k \<noteq> None"
    and "store c1 = store c \<or> jobs c i \<noteq> Some (op, p)"
    and "lives r J C flags R k (put_job i op p c1) d"
  shows "lives r J C flags R k c d"
proof (rule lives_first [OF assms(8)], rule lives.onwards [OF lives.unmoved assms(1)])
  assume "jobs (put_job i op p c1) = jobs c"
  then have "jobs c i = Some (op, p)" by (metis fun_upd_same put_job_sel(4))
  with assms(3,7) show "kv_get r (store (put_job i op p c1)) (store_ms (put_job i op p c1)) k =
      kv_get r (store c) (store_ms (put_job i op p c1)) k \<and>
    kv_pttl r (store (put_job i op p c1)) (store_ms (put_job i op p c1)) k =
      kv_pttl r (store c) (store_ms (put_job i op p c1)) k"
    by simp
qed (use assms in \<open>auto simp: jobs_ok_def\<close>)

definition lives_to ::
    "'s kv \<Rightarrow> codec \<Rightarrow> session_cfg \<Rightarrow> int list \<Rightarrow> rollout set \<Rightarrow> string \<Rightarrow> nat \<Rightarrow> operation \<Rightarrow> outcome
     \<Rightarrow> 's \<Rightarrow> 's system \<Rightarrow> bool" where
  "lives_to r J C flags R k i op a s' c \<longleftrightarrow>
     (\<exists>d. lives r J C flags R k c d \<and> store d = s' \<and> store_ms d = store_ms c \<and>
        jobs d = (jobs c)(i \<mapsto> (op, Return a)))"

lemma lives_to_step:
  assumes "session_step r J C flags R c (put_job i op p c1)" and "jobs c1 = jobs c"
    and "store_ms c1 = store_ms c" and "jobs_ok c" and "operation_ok op"
    and "kv_get r (store c1) (store_ms c) k \<noteq> None"
    and "store c1 = store c \<or> jobs c i \<noteq> Some (op, p)"
    and "lives_to r J C flags R k i op a s' (put_job i op p c1)"
  shows "lives_to r J C flags R k i op a s' c"
proof -
  from assms(8) obtain d where d: "lives r J C flags R k (put_job i op p c1) d" "store d = s'"
    "store_ms d = store_ms c1" "jobs d = (jobs c1)(i \<mapsto> (op, Return a))"
    by (auto simp: lives_to_def)
  with lives_job [OF assms(1-7) d(1)] assms(2,3) show ?thesis by (auto simp: lives_to_def)
qed

lemma jobs_ok_put:
  "jobs_ok c \<Longrightarrow> jobs c i = Some (op, p) \<Longrightarrow> operation_ok op"
  "jobs_ok c \<Longrightarrow> jobs c i = Some (op, p) \<Longrightarrow> jobs c1 = jobs c \<Longrightarrow> jobs_ok (put_job i op q c1)"
  by (auto simp: jobs_ok_def)

lemma run_lives:
  assumes "run r J E p [] s = (a, gs', s')"
    and "throughout r J E (\<lambda>s. kv_get r s (at_ms E) k \<noteq> None) p s"
    and "jobs c i = Some (op, p)" and "store c = s" and "store_ms c = at_ms E" and "at_state E \<in> R"
    and "jobs_ok c" and "kv_get r s (at_ms E) k \<noteq> None"
  shows "lives_to r J C flags R k i op a s' c"
  using assms
proof (induction p arbitrary: s c)
  case (Return b)
  then have "lives r J C flags R k c c \<and> store c = s' \<and> jobs c = (jobs c)(i \<mapsto> (op, Return a))"
    by (auto simp: fun_eq_iff intro: lives.unmoved)
  then show ?case unfolding lives_to_def by blast
next
  case (Call cmd f)
  obtain s1 x where x: "exec r J (at_ms E) cmd s = (s1, x)" by fastforce
  note ok = jobs_ok_put [OF Call.prems(7,3)]
  have new: "f x \<noteq> Call cmd f" by (rule prog_not_in_itself) simp
  have e: "exec r J (store_ms c) cmd (store c) = (s1, x)" using x Call.prems(4,5) by simp
  show ?case
    by (rule lives_to_step [OF session_step.executed [OF Call.prems(3) e]])
      (use Call.prems new x ok(1) in \<open>auto simp: Let_def intro!: ok(2) Call.IH [OF rangeI]\<close>)
next
  case (Clock f)
  note ok = jobs_ok_put [OF Clock.prems(7,3)]
  show ?case
    by (rule lives_to_step [OF session_step.reads_clock [OF Clock.prems(3)]])
      (use Clock.prems ok(1) in \<open>auto intro!: ok(2) Clock.IH [OF rangeI]\<close>)
next
  case (Random f)
  note ok = jobs_ok_put [OF Random.prems(7,3)]
  show ?case
    by (rule lives_to_step [OF session_step.no_random [OF Random.prems(3)]])
      (use Random.prems ok(1) in \<open>auto intro!: ok(2) Random.IH [OF rangeI]\<close>)
next
  case (Load f)
  note ok = jobs_ok_put [OF Load.prems(7,3)]
  show ?case
    by (rule lives_to_step [OF session_step.loads [OF Load.prems(3,6)]])
      (use Load.prems ok(1) in \<open>auto intro!: ok(2) Load.IH [OF rangeI]\<close>)
next
  case (Lease f)
  note ok = jobs_ok_put [OF Lease.prems(7,3)]
  show ?case
    by (rule lives_to_step [OF session_step.asks_lease [OF Lease.prems(3)]])
      (use Lease.prems ok(1) in \<open>auto intro!: ok(2) Lease.IH [OF rangeI]\<close>)
next
  case (Context f)
  note ok = jobs_ok_put [OF Context.prems(7,3)]
  show ?case
    by (rule lives_to_step [OF session_step.asks_context [OF Context.prems(3)]])
      (use Context.prems ok(1) in \<open>auto intro!: ok(2) Context.IH [OF rangeI]\<close>)
qed

lemma operation_lives:
  assumes "run r J E (program J C flags op) [] (store c) = (a, gs', s')"
    and "throughout r J E (\<lambda>s. kv_get r s (at_ms E) k \<noteq> None) (program J C flags op) (store c)"
    and "jobs c i = None" and "operation_ok op" and "store_ms c = at_ms E" and "at_state E \<in> R"
    and "jobs_ok c" and "kv_get r (store c) (at_ms E) k \<noteq> None"
  shows "lives_to r J C flags R k i op a s' c"
  by (rule lives_to_step [OF session_step.start])
    (use assms in \<open>auto simp: jobs_ok_def intro!: run_lives\<close>)

end
