(* ===== verification/Session_Issue.thy ===== *)
theory Session_Issue
  imports Session_Claims Session_Run
begin

text \<open>
  User sessions, what issuing does when nothing interferes: the store it leaves, and that validation
  accepts the session until it ends.
\<close>

section \<open>Runs that succeed\<close>

lemma run_and_then_InrE:
  assumes "run r J E (and_then p f) gs s = (Inr a, gs', s')"
  obtains b g1 s1 where "run r J E p gs s = (Inr b, g1, s1)" "run r J E (f b) g1 s1 = (Inr a, gs', s')"
  using assms by (auto split: prod.splits sum.splits)

lemma run_after_cleanup: "run r J E (after_cleanup p e) gs s \<noteq> (Inr a, gs', s')"
  by (auto simp: after_cleanup_def run_pbind split: prod.splits)

lemma run_or_cleanup_InrE:
  assumes "run r J E (or_cleanup c p f) gs s = (Inr a, gs', s')"
  obtains b g1 s1 where "run r J E p gs s = (Inr b, g1, s1)" "run r J E f g1 s1 = (Inr a, gs', s')"
  using assms by (auto simp: run_after_cleanup split: prod.splits sum.splits)

lemma run_need_InrE:
  assumes "run r J E (need b e p) gs s = (Inr a, gs', s')"
  obtains "b" "run r J E p gs s = (Inr a, gs', s')"
  using assms by (auto split: if_splits)

lemma run_call_InrE:
  assumes "run r J E (call c k) gs s = (Inr a, gs', s')"
  obtains s1 x where "exec r J (at_ms E) c s = (s1, x)" "x \<noteq> RFail" "run r J E (k x) gs s1 = (Inr a, gs', s')"
  using assms by (cases "exec r J (at_ms E) c s") (auto simp: Let_def split: if_splits)

lemma run_reads_E:
  "run r J E (Load k) gs s = y \<Longrightarrow> (run r J E (k (at_state E)) gs s = y \<Longrightarrow> P) \<Longrightarrow> P"
  "run r J E (Clock k') gs s = y \<Longrightarrow> (run r J E (k' (at_ns E)) gs s = y \<Longrightarrow> P) \<Longrightarrow> P"
  "run r J E (Context m) gs s = y \<Longrightarrow> (run r J E (m False) gs s = y \<Longrightarrow> P) \<Longrightarrow> P"
  "run r J E (Lease m) gs s = y \<Longrightarrow> (run r J E (m True) gs s = y \<Longrightarrow> P) \<Longrightarrow> P"
  by simp_all

lemma run_else_InrE:
  assumes "run r J E (if b then fail e else p) gs s = (Inr a, gs', s')"
  obtains "\<not> b" "run r J E p gs s = (Inr a, gs', s')"
  using assms by (auto split: if_splits)

lemma run_done_InrE:
  assumes "run r J E (if False then q else p) gs s = y"
  obtains "run r J E p gs s = y"
  using assms by simp

lemma run_of_res_InrE:
  assumes "run r J E (of_res x) gs s = (Inr a, gs', s')"
  obtains "x = Inr a" "gs' = gs" "s' = s"
  using assms by simp

lemma run_ok_InrE:
  assumes "run r J E (ok b) gs s = (Inr a, gs', s')"
  obtains "b = a" "gs' = gs" "s' = s"
  using assms by simp

lemmas run_InrE = run_and_then_InrE run_or_cleanup_InrE run_need_InrE run_call_InrE run_reads_E
  run_else_InrE run_done_InrE run_of_res_InrE run_ok_InrE

lemma run_writable: "run r J E writable_state gs s = (Inr st, gs', s') \<Longrightarrow> gs' = gs \<and> s' = s"
  by (auto simp: writable_state_def split: if_splits)

lemma run_require:
  assumes "run r J E (require_fence J C u fence) gs s = (Inr x, gs', s')"
  obtains raw rec where "gs' = gs" "s' = s" "kv_get r s (at_ms E) (generation_key C u) = Some raw"
    "decode_gen J raw = Inr rec" "gen_state rec = ''active''" "generation rec = f_generation fence"
  using assms by (auto simp: require_fence_def session_generation_active_def
      split: option.splits sum.splits if_splits)

text \<open>The key has the value \<open>v\<close> and \<open>p\<close> milliseconds to live.\<close>

definition holds :: "'s kv \<Rightarrow> string \<Rightarrow> string \<Rightarrow> int \<Rightarrow> int \<Rightarrow> 's \<Rightarrow> bool" where
  "holds r k v p t s \<longleftrightarrow> kv_get r s t k = Some v \<and> kv_pttl r s t k = p"

text \<open>
  The numbers of Go: times are 64-bit nanoseconds, revisions 64 bits wide, and texts are UTF-8.
\<close>

definition issue_ok :: "session_cfg \<Rightarrow> surroundings \<Rightarrow> token_info \<Rightarrow> issue_fence \<Rightarrow> bool" where
  "issue_ok C E info fence \<longleftrightarrow>
     info_ok info \<and> valid_utf8 (f_generation fence) \<and> f_revision fence < 2 ^ 64 \<and>
     0 \<le> at_ns E \<and> at_ns E < 2 ^ 62 \<and> 0 < max_ttl C \<and> max_ttl C < 2 ^ 62"

lemma issued_info_ok:
  assumes "issue_ok C E info fence"
  shows "info_ok (info\<lparr>issued_at := unix (at_ns E), expires_at := unix (at_ns E + max_ttl C),
    session_generation := f_generation fence, session_revision := f_revision fence\<rparr>)"
proof -
  have "0 \<le> unix (at_ns E)" "unix (at_ns E) < 2 ^ 63" "0 \<le> unix (at_ns E + max_ttl C)"
    "unix (at_ns E + max_ttl C) < 2 ^ 63"
    using assms by (auto simp: issue_ok_def unix_def second_ns_def)
  with assms show ?thesis by (auto simp: issue_ok_def info_ok_def)
qed

lemma until_less: "d = until x now \<Longrightarrow> d < 2 ^ 63"
  by (simp add: until_def)

lemma of_millis_pos:
  assumes "0 < p" and "p \<le> d div 1000000" and "d < 2 ^ 63"
  shows "0 < of_millis p"
proof -
  have "p * 1000000 \<le> d" using assms(2) by linarith
  with assms(1,3) show ?thesis by (simp add: of_millis_def milli_ns_def)
qed

context session_laws
begin

text \<open>The value of another key is not touched by the steps of issuing.\<close>

lemma run_index_keeps:
  assumes "run r J E (add_session_index C u g member expires d) gs s = (Inr x, gs', s')"
    and "k \<notin> index_keys C" and "holds r k v p (at_ms E) s"
  shows "holds r k v p (at_ms E) s'"
proof -
  have "k \<noteq> session_index_key C u g" using assms(2) key_sets(5) [of C u g] by metis
  with assms(1,3) show ?thesis
    by (auto simp: add_session_index_def holds_def Let_def add_session_index_script_def get_pexpire
        pttl_pexpire get_zset pttl_zset split: if_splits sum.splits)
qed

lemma set_keeps:
  assumes "exec r J t (CSet k1 w ns) s = (s', x)" and "k \<noteq> k1" and "holds r k v p t s"
  shows "holds r k v p t s'"
  using assms by (auto simp: holds_def client_set_def get_set pttl_set split: if_splits)

lemma set_new_holds:
  assumes "exec r J t (CSetNX k v ns) s = (s', x)" and "x \<noteq> RFail" and "x \<noteq> RInt 0" and "0 < ns"
  shows "holds r k v (ns div 1000000) t s' \<and> 0 < ns div 1000000"
  using assms by (auto simp: holds_def client_set_def get_set pttl_set split: if_splits option.splits)

lemma run_extend_keeps:
  assumes "run r J E (extend_fence_deadline C u fence deadline) gs s = (Inr x, gs', s')"
    and "k \<noteq> generation_key C u" and "holds r k v p (at_ms E) s"
  shows "holds r k v p (at_ms E) s'"
  using assms by (auto simp: extend_fence_deadline_def extend_generation_script_def holds_def Let_def
      get_pexpire pttl_pexpire split: if_splits option.splits sum.splits)

lemma run_extends:
  assumes "run r J E (extend_fence_deadline C u fence deadline) gs s = (Inr x, gs', s')"
  shows "kv_pttl r s' (at_ms E) (generation_key C u) = -1 \<or>
    millis (until deadline (at_ns E)) \<le> kv_pttl r s' (at_ms E) (generation_key C u)"
proof -
  let ?k = "generation_key C u"
  have "kv_get r s (at_ms E) ?k \<noteq> None"
  proof
    assume "kv_get r s (at_ms E) ?k = None"
    with assms show False
      by (simp add: extend_fence_deadline_def extend_generation_script_def Let_def split: if_splits)
  qed
  from pttl_range [OF this] show ?thesis
    using assms by (auto simp: extend_fence_deadline_def extend_generation_script_def Let_def
        pttl_pexpire split: if_splits option.splits sum.splits)
qed

text \<open>What a successful issue leaves.\<close>

lemma run_issue:
  assumes C: "cfg_ok C" and run: "run r J E (issue_new_session J C token info fence) gs s = (Inr x, gs', s')"
  defines "expires \<equiv> unix (at_ns E + max_ttl C)"
  defines "d \<equiv> until expires (at_ns E)"
  defines "issued \<equiv> info\<lparr>issued_at := unix (at_ns E), expires_at := expires,
    session_generation := f_generation fence, session_revision := f_revision fence\<rparr>"
  obtains pl owned raw rec where "\<not> blank token" "\<not> blank (uid info)" "0 < d"
    "encode_v3 J issued = Inr pl" "mark_issued_payload J pl token = Inr owned"
    "0 < d div 1000000" "holds r (token_key C token) owned (d div 1000000) (at_ms E) s'"
    "kv_get r s' (at_ms E) (generation_key C (uid info)) = Some raw" "decode_gen J raw = Inr rec"
    "gen_state rec = ''active''" "generation rec = f_generation fence"
    "kv_pttl r s' (at_ms E) (generation_key C (uid info)) = -1 \<or>
     millis d \<le> kv_pttl r s' (at_ms E) (generation_key C (uid info))"
proof -
  let ?k = "token_key C token"
  have apart: "?k \<notin> generation_keys C" "?k \<notin> index_keys C" using keys_apart [OF C] key_sets(3) by blast+
  have other: "?k \<noteq> uid_token_key C u f" for u f
    using C not_prefix_append [of "uid_token_prefix C" "token_prefix C"]
    by (simp add: cfg_ok_def token_key_def uid_token_key_def) metis
  from run [unfolded issue_new_session_def Let_def] show ?thesis
  proof (elim run_InrE, goal_cases)
    case (1 st g1 s1 u1 g2 s2 pl g3 s3 owned g4 s4 s5 x1 u2 g6 s6 u3 g7 s7 u4 g8 s8 u5 g9 s9 s10 x2)
    note e = 1
    have sel: "uid issued = uid info" "device_flag issued = device_flag info" by (simp_all add: issued_def)
    note e' = e [folded expires_def, folded d_def issued_def]
    have new: "holds r ?k owned (d div 1000000) (at_ms E) s5" "0 < d div 1000000"
      using set_new_holds [OF e'(7,8,9,6)] by auto
    have "holds r ?k owned (d div 1000000) (at_ms E) s6" by (rule run_index_keeps [OF e'(10) apart(2) new(1)])
    then have "holds r ?k owned (d div 1000000) (at_ms E) s10" by (rule set_keeps [OF e'(13) other])
    then have "holds r ?k owned (d div 1000000) (at_ms E) s7" by (simp only: e'(26))
    then have held: "holds r ?k owned (d div 1000000) (at_ms E) s8"
      by (rule run_extend_keeps [OF e'(11), rotated]) (use apart(1) key_sets(4) in metis)
    from e'(12) obtain raw rec where fence: "s9 = s8" "kv_get r s8 (at_ms E) (generation_key C (uid info)) = Some raw"
      "decode_gen J raw = Inr rec" "gen_state rec = ''active''" "generation rec = f_generation fence"
      by (rule run_require) (use e' in \<open>simp add: sel\<close>)
    note ends = run_extends [OF e'(11), unfolded sel, folded d_def]
    show ?thesis
      by (rule that [OF _ _ e'(6) e'(15) e'(18) new(2)]) (use e'(3,23) held fence ends in simp_all)
  qed
qed

lemma run_issued_validates:
  assumes C: "cfg_ok C" and ok: "issue_ok C E info fence" and key: "\<not> blank (token_key C token)"
    and run: "run r J E (issue_new_session J C token info fence) gs s = (Inr x, gs', s')"
  defines "expires \<equiv> unix (at_ns E + max_ttl C)"
  assumes now: "at_ms E \<le> at_ms E'" "at_ms E' < at_ms E + until expires (at_ns E) div 1000000"
    "unix (at_ns E') < expires"
  shows "run r J E' (validate_token J C True policy (token_prefix C) token) hs s' =
    (Inr (info\<lparr>issued_at := unix (at_ns E), expires_at := expires,
       session_generation := f_generation fence, session_revision := f_revision fence\<rparr>), hs, s')"
proof -
  let ?d = "until expires (at_ns E)" and ?k = "token_key C token" and ?g = "generation_key C (uid info)"
  let ?i = "info\<lparr>issued_at := unix (at_ns E), expires_at := expires,
       session_generation := f_generation fence, session_revision := f_revision fence\<rparr>"
  from C run obtain pl owned raw rec where a: "\<not> blank token" "\<not> blank (uid info)" "0 < ?d"
    and e: "encode_v3 J ?i = Inr pl" "mark_issued_payload J pl token = Inr owned" "0 < ?d div 1000000"
    and t: "holds r ?k owned (?d div 1000000) (at_ms E) s'"
    and g: "kv_get r s' (at_ms E) ?g = Some raw" "decode_gen J raw = Inr rec" "gen_state rec = ''active''"
      "generation rec = f_generation fence"
    and life: "kv_pttl r s' (at_ms E) ?g = -1 \<or> millis ?d \<le> kv_pttl r s' (at_ms E) ?g"
    unfolding expires_def by (rule run_issue)
  have iok: "info_ok ?i" using issued_info_ok [OF ok] by (simp add: expires_def)
  have valid: "v3_valid ?i" and pl: "pl = v3_prefix @ marshal_v3 J ?i"
    using e(1) by (auto simp: encode_v3_def split: if_splits)
  from marked_payload [OF iok valid, of token] e(2) pl
  have owned: "decode J owned = Inr ?i" "prefix v3_prefix owned" by auto
  have left: "?d div 1000000 - (at_ms E' - at_ms E) > 0" using now by linarith
  have millis: "millis ?d = ?d div 1000000" using a(3) by (simp add: millis_def milli_ns_def)
  have t': "kv_get r s' (at_ms E') ?k = Some owned"
    "kv_pttl r s' (at_ms E') ?k = ?d div 1000000 - (at_ms E' - at_ms E)"
    using get_kept [OF now(1), of s' ?k] pttl_later [OF now(1), of s' ?k] t e(3) now(2)
    by (auto simp: holds_def)
  have g': "kv_get r s' (at_ms E') ?g = Some raw"
    using get_kept [OF now(1), of s' ?g] g(1) life millis now(2) by auto
  have nb: "\<not> blank owned" using owned(2) by (auto simp: prefix_def)
  have "0 < of_millis (?d div 1000000 - (at_ms E' - at_ms E))"
    by (rule of_millis_pos [OF left _ until_less [where d = ?d, OF refl]]) (use now(1) in simp)
  moreover have "is_v3 ?i" using v3_valid_is_v3 [OF valid] .
  ultimately show ?thesis
    using run_validate_v3 [OF a(1) key t'(1) nb t'(2) _ left owned(1), of raw rec policy hs] a(2) g(2-4) g' now(3)
    by simp
qed

end

end
