(* ===== verification/Session_Codec.thy ===== *)
theory Session_Codec
  imports Session_Token
begin

text \<open>
  A codec that satisfies \<open>codec_laws\<close>: an object is the list of its names and values, each byte
  escaped.  It stands in for \<open>encoding/json\<close> and \<open>cjson\<close> where a theorem is applied to a concrete
  run.
\<close>

section \<open>Lists of strings as a string\<close>

definition flat_string :: "string \<Rightarrow> string" where
  "flat_string s = concat (map (\<lambda>c. [CHR ''x'', c]) s) @ ''.''"

definition flat_strings :: "string list \<Rightarrow> string" where
  "flat_strings xs = concat (map flat_string xs)"

fun read_strings :: "string \<Rightarrow> string \<Rightarrow> string list option" where
  "read_strings acc [] = (if acc = [] then Some [] else None)"
| "read_strings acc (x # r) =
     (if x = CHR ''.'' then map_option (\<lambda>l. acc # l) (read_strings [] r)
      else (case r of [] \<Rightarrow> None | c # r' \<Rightarrow> read_strings (acc @ [c]) r'))"

lemma read_flat_string:
  "read_strings acc (concat (map (\<lambda>c. [CHR ''x'', c]) s) @ CHR ''.'' # r) =
    map_option (\<lambda>l. (acc @ s) # l) (read_strings [] r)"
  by (induction s arbitrary: acc) simp_all

lemma read_flat_strings [simp]: "read_strings [] (flat_strings xs) = Some xs"
  by (induction xs) (simp_all add: flat_strings_def flat_string_def read_flat_string)

fun pairs_of :: "string list \<Rightarrow> (string \<times> string) list option" where
  "pairs_of [] = Some []"
| "pairs_of [_] = None"
| "pairs_of (k # v # r) = map_option (\<lambda>l. (k, v) # l) (pairs_of r)"

definition flat_fields :: "(string \<times> string) list \<Rightarrow> string" where
  "flat_fields fs = flat_strings (concat (map (\<lambda>(k, v). [k, v]) fs))"

definition read_fields :: "string \<Rightarrow> (string \<times> string) list option" where
  "read_fields s = Option.bind (read_strings [] s) pairs_of"

lemma pairs_of_concat [simp]: "pairs_of (concat (map (\<lambda>(k, v). [k, v]) fs)) = Some fs"
  by (induction fs) (auto split: prod.splits)

lemma read_flat_fields [simp]: "read_fields (flat_fields fs) = Some fs"
  by (simp add: read_fields_def flat_fields_def)

section \<open>The codec\<close>

definition text_of :: "(string \<times> string) list \<Rightarrow> string \<Rightarrow> string" where
  "text_of fs k = (case map_of fs k of Some v \<Rightarrow> v | None \<Rightarrow> [])"

definition int_of :: "(string \<times> string) list \<Rightarrow> string \<Rightarrow> int" where
  "int_of fs k = (case map_of fs k of Some v \<Rightarrow> the (parse_int64 v) | None \<Rightarrow> 0)"

definition nat_of :: "(string \<times> string) list \<Rightarrow> string \<Rightarrow> nat" where
  "nat_of fs k = (case map_of fs k of Some v \<Rightarrow> digits_value v | None \<Rightarrow> 0)"

lemma text_of_Cons [simp]: "text_of ((k, v) # fs) k' = (if k' = k then v else text_of fs k')"
  by (simp add: text_of_def)

lemma fields_update [simp]:
  "k' \<noteq> k \<Longrightarrow> text_of (AList.update k' v fs) k = text_of fs k"
  "k' \<noteq> k \<Longrightarrow> int_of (AList.update k' v fs) k = int_of fs k"
  "k' \<noteq> k \<Longrightarrow> nat_of (AList.update k' v fs) k = nat_of fs k"
  "text_of (AList.update k v fs) k = v"
  by (simp_all add: text_of_def int_of_def nat_of_def update_conv')

definition v3_fields :: "token_info \<Rightarrow> (string \<times> string) list" where
  "v3_fields i =
     [(''uid'', uid i), (''name'', display_name i), (''role'', role i), (''lang'', language i),
      (''issued_at'', show_int (issued_at i)), (''expires_at'', show_int (expires_at i)),
      (''device_flag'', show_int (device_flag i)), (''device_id'', device_id i),
      (''session_generation'', session_generation i),
      (''session_revision'', show_nat (session_revision i))]"

definition v3_of :: "(string \<times> string) list \<Rightarrow> token_info" where
  "v3_of fs =
     \<lparr>uid = text_of fs ''uid'', display_name = text_of fs ''name'', role = text_of fs ''role'',
      language = text_of fs ''lang'', issued_at = int_of fs ''issued_at'',
      expires_at = int_of fs ''expires_at'', device_flag = int_of fs ''device_flag'',
      device_id = text_of fs ''device_id'', session_generation = text_of fs ''session_generation'',
      session_revision = nat_of fs ''session_revision''\<rparr>"

definition gen_fields :: "bool \<Rightarrow> gen_record \<Rightarrow> (string \<times> string) list" where
  "gen_fields omit g =
     [(''generation'', generation g), (''revision'', show_nat (revision g)), (''state'', gen_state g)] @
     (if omit \<and> last_event_version g = 0 then []
      else [(''last_event_version'', show_nat (last_event_version g))]) @
     (if omit \<and> last_event_id g = [] then [] else [(''last_event_id'', last_event_id g)]) @
     (if omit \<and> last_revoked_generation g = [] then []
      else [(''last_revoked_generation'', last_revoked_generation g)])"

definition gen_of :: "(string \<times> string) list \<Rightarrow> gen_record" where
  "gen_of fs =
     \<lparr>generation = text_of fs ''generation'', revision = nat_of fs ''revision'',
      gen_state = text_of fs ''state'', last_event_version = nat_of fs ''last_event_version'',
      last_event_id = text_of fs ''last_event_id'',
      last_revoked_generation = text_of fs ''last_revoked_generation''\<rparr>"

definition lua_of :: "(string \<times> string) list \<Rightarrow> lua_gen" where
  "lua_of fs =
     \<lparr>lua_generation = map_of fs ''generation'',
      lua_revision = map_option digits_value (map_of fs ''revision''),
      lua_state = map_of fs ''state'',
      lua_event_version = map_option digits_value (map_of fs ''last_event_version''),
      lua_event_id = map_of fs ''last_event_id'',
      lua_revoked = map_of fs ''last_revoked_generation''\<rparr>"

definition flat_codec :: codec where
  "flat_codec =
     \<lparr>marshal_v2 = (\<lambda>v. flat_fields [(''uid'', v2_uid v), (''name'', v2_name v), (''role'', v2_role v),
        (''lang'', v2_lang v)]),
      unmarshal_v2 = (\<lambda>s. map_option (\<lambda>fs. \<lparr>v2_uid = text_of fs ''uid'', v2_name = text_of fs ''name'',
        v2_role = text_of fs ''role'', v2_lang = text_of fs ''lang''\<rparr>) (read_fields s)),
      marshal_v3 = (\<lambda>i. flat_fields (v3_fields i)),
      unmarshal_v3 = (\<lambda>s. case read_fields s of None \<Rightarrow> None
        | Some fs \<Rightarrow> if info_ok (v3_of fs) then Some (v3_of fs) else None),
      marshal_gen = (\<lambda>g. flat_fields (gen_fields True g)),
      unmarshal_gen = (\<lambda>s. map_option gen_of (read_fields s)),
      lua_encode = (\<lambda>g. flat_fields (gen_fields False g)),
      lua_decode = (\<lambda>s. map_option lua_of (read_fields s)),
      marshal_member = (\<lambda>m. flat_fields [(''token'', m_token m),
        (''device_flag'', show_int (m_device_flag m)), (''device_id'', m_device_id m)]),
      raw_fields = (\<lambda>s. map_option Some (read_fields s)),
      marshal_fields = flat_fields,
      marshal_string = (\<lambda>s. s),
      unmarshal_owner = (\<lambda>s. map_option (\<lambda>fs. text_of fs issued_owner_field) (read_fields s))\<rparr>"

lemma v3_of_fields [simp]: "info_ok i \<Longrightarrow> v3_of (v3_fields i) = i"
  by (cases i) (simp add: v3_of_def v3_fields_def text_of_def int_of_def nat_of_def info_ok_def)

lemma v3_of_update [simp]: "v3_of (AList.update issued_owner_field x fs) = v3_of fs"
  by (simp add: v3_of_def issued_owner_field_def)

lemma gen_of_fields [simp]: "gen_of (gen_fields b g) = g"
  by (cases g) (simp add: gen_of_def gen_fields_def text_of_def nat_of_def)

lemma lua_of_fields [simp]:
  "lua_of (gen_fields True g) = go_fields g" "lua_of (gen_fields False g) = lua_fields g"
  by (simp_all add: lua_of_def gen_fields_def go_fields_def lua_fields_def)

interpretation flat: codec_laws flat_codec
  by unfold_locales (auto simp: flat_codec_def split: option.splits if_splits)

end
