(* ===== verification/Session_Memory.thy ===== *)
theory Session_Memory
  imports Session_Redis Session_Codec Redis_Store
begin

text \<open>
  A Redis in memory that satisfies \<open>kv_laws\<close>, for the concrete runs: strings and sorted sets with
  the time at which they expire.
\<close>

record kv_mem =
  mem_strings :: "string \<Rightarrow> (string \<times> int option) option"
  mem_zsets :: "string \<Rightarrow> ((string \<times> int) list \<times> int option) option"

fun alive :: "int \<Rightarrow> int option \<Rightarrow> bool" where
  "alive t None = True"
| "alive t (Some d) = (t < d)"

definition live :: "int \<Rightarrow> ('a \<times> int option) option \<Rightarrow> ('a \<times> int option) option" where
  "live t e = (case e of None \<Rightarrow> None | Some (v, d) \<Rightarrow> if alive t d then Some (v, d) else None)"

definition remaining :: "int \<Rightarrow> int option \<Rightarrow> int" where
  "remaining t d = (case d of None \<Rightarrow> -1 | Some x \<Rightarrow> x - t)"

definition expire_entry :: "int \<Rightarrow> int \<Rightarrow> ('a \<times> int option) option \<Rightarrow> ('a \<times> int option) option" where
  "expire_entry t d e =
     (if d \<le> 0 then None else map_option (\<lambda>(v, _). (v, Some (t + d))) (live t e))"

definition zset_at :: "kv_mem \<Rightarrow> int \<Rightarrow> string \<Rightarrow> (string \<times> int) list" where
  "zset_at s t z = (case live t (mem_zsets s z) of None \<Rightarrow> [] | Some (l, _) \<Rightarrow> l)"

definition put_zset :: "int \<Rightarrow> string \<Rightarrow> (string \<times> int) list \<Rightarrow> kv_mem \<Rightarrow> kv_mem" where
  "put_zset t z l s = s\<lparr>mem_zsets := (mem_zsets s)(z \<mapsto>
     (l, case live t (mem_zsets s z) of None \<Rightarrow> None | Some (_, d) \<Rightarrow> d))\<rparr>"

definition mem_kv :: "kv_mem kv" where
  "mem_kv =
     \<lparr>kv_get = (\<lambda>s t k. map_option fst (live t (mem_strings s k))),
      kv_pttl = (\<lambda>s t k. case live t (mem_strings s k) of
          Some (_, d) \<Rightarrow> remaining t d
        | None \<Rightarrow> (case live t (mem_zsets s k) of Some (_, d) \<Rightarrow> remaining t d | None \<Rightarrow> -2)),
      kv_set = (\<lambda>t k v ttl s. s\<lparr>mem_strings := (mem_strings s)(k \<mapsto> (v, map_option (\<lambda>d. t + d) ttl)),
        mem_zsets := (mem_zsets s)(k := None)\<rparr>),
      kv_del = (\<lambda>t k s. s\<lparr>mem_strings := (mem_strings s)(k := None), mem_zsets := (mem_zsets s)(k := None)\<rparr>),
      kv_pexpire = (\<lambda>t k d s. s\<lparr>mem_strings := (mem_strings s)(k := expire_entry t d (mem_strings s k)),
        mem_zsets := (mem_zsets s)(k := expire_entry t d (mem_zsets s k))\<rparr>),
      kv_zscore = (\<lambda>s t z m. map_of (zset_at s t z) m),
      kv_zcard = (\<lambda>s t z. length (AList.clearjunk (zset_at s t z))),
      kv_zadd = (\<lambda>t z x m s. put_zset t z (AList.update m x (zset_at s t z)) s),
      kv_zrem = (\<lambda>t z m s. put_zset t z (AList.delete m (zset_at s t z)) s),
      kv_zrem_upto = (\<lambda>t z x s. put_zset t z
        (filter (\<lambda>p. \<not> snd p \<le> x) (AList.clearjunk (zset_at s t z))) s)\<rparr>"

lemma alive_mono: "t \<le> t' \<Longrightarrow> alive t' d \<Longrightarrow> alive t d"
  by (cases d) auto

lemma alive_put: "alive t (case live t e of None \<Rightarrow> None | Some (x, d) \<Rightarrow> d)"
  by (auto simp: live_def split: option.split)

lemma zset_at_put [simp]: "zset_at (put_zset t z l s) t z' = (if z' = z then l else zset_at s t z')"
  using alive_put [of t "mem_zsets s z"] by (simp add: zset_at_def put_zset_def) (simp add: live_def)

lemma put_zset_sel [simp]:
  "mem_strings (put_zset t z l s) = mem_strings s"
  "z' \<noteq> z \<Longrightarrow> mem_zsets (put_zset t z l s) z' = mem_zsets s z'"
  by (simp_all add: put_zset_def)

lemma live_expire [simp]: "live t (expire_entry t d e) = expire_entry t d e"
  by (auto simp: live_def expire_entry_def split: option.splits)

lemma length_clearjunk: "length (AList.clearjunk l) = card {m. map_of l m \<noteq> None}"
proof -
  have "{m. map_of l m \<noteq> None} = fst ` set (AList.clearjunk l)"
    by (metis (no_types, lifting) Collect_cong dom_def dom_clearjunk dom_map_of_conv_image_fst map_of_clearjunk)
  also have "card \<dots> = length (AList.clearjunk l)"
    by (metis distinct_card distinct_clearjunk length_map list.set_map)
  finally show ?thesis by simp
qed

lemma mem_kv_sel:
  "kv_get mem_kv s t k = map_option fst (live t (mem_strings s k))"
  "kv_pttl mem_kv s t k = (case live t (mem_strings s k) of
      Some (_, d) \<Rightarrow> remaining t d
    | None \<Rightarrow> (case live t (mem_zsets s k) of Some (_, d) \<Rightarrow> remaining t d | None \<Rightarrow> -2))"
  "kv_set mem_kv t k v ttl s = s\<lparr>mem_strings := (mem_strings s)(k \<mapsto> (v, map_option (\<lambda>d. t + d) ttl)),
    mem_zsets := (mem_zsets s)(k := None)\<rparr>"
  "kv_del mem_kv t k s = s\<lparr>mem_strings := (mem_strings s)(k := None), mem_zsets := (mem_zsets s)(k := None)\<rparr>"
  "kv_pexpire mem_kv t k d s = s\<lparr>mem_strings := (mem_strings s)(k := expire_entry t d (mem_strings s k)),
    mem_zsets := (mem_zsets s)(k := expire_entry t d (mem_zsets s k))\<rparr>"
  "kv_zscore mem_kv s t z m = map_of (zset_at s t z) m"
  "kv_zcard mem_kv s t z = length (AList.clearjunk (zset_at s t z))"
  "kv_zadd mem_kv t z x m s = put_zset t z (AList.update m x (zset_at s t z)) s"
  "kv_zrem mem_kv t z m s = put_zset t z (AList.delete m (zset_at s t z)) s"
  "kv_zrem_upto mem_kv t z x s = put_zset t z (filter (\<lambda>p. \<not> snd p \<le> x) (AList.clearjunk (zset_at s t z))) s"
  by (simp_all add: mem_kv_def)

lemma live_simps [simp]: "live t None = None" "live t (Some (v, None)) = Some (v, None)"
  "t < d \<Longrightarrow> live t (Some (v, Some d)) = Some (v, Some d)"
  by (simp_all add: live_def)

lemma zset_at_cong: "mem_zsets s z = mem_zsets s' z \<Longrightarrow> zset_at s t z = zset_at s' t z"
  by (simp add: zset_at_def)

lemma live_later:
  assumes "t \<le> t'"
  shows "live t' e = None \<or> live t' e = live t e"
  using assms alive_mono [OF assms] by (auto simp: live_def split: option.split)

interpretation mem_kv: kv_laws mem_kv
proof (unfold_locales, goal_cases)
  case (1 t t' s k)
  from live_later [OF 1, of "mem_strings s k"] show ?case by (auto simp: mem_kv_sel)
next
  case (2 t t' s k)
  then show ?case
    by (auto simp: mem_kv_sel live_def remaining_def split: option.splits if_splits dest: alive_mono)
next
  case (3 t t' s k)
  then show ?case
    by (auto simp: mem_kv_sel live_def remaining_def split: option.splits if_splits dest: alive_mono)
next
  case (4 ttl t k v s k')
  then show ?case by (cases ttl) (auto simp: mem_kv_sel)
next
  case (5 ttl t k v s k')
  then show ?case by (cases ttl) (auto simp: mem_kv_sel remaining_def split: option.split)
next
  case (8 t k d s k')
  show ?case by (auto simp: mem_kv_sel expire_entry_def live_def split: option.split)
next
  case (9 t k d s k')
  show ?case by (auto simp: mem_kv_sel expire_entry_def live_def remaining_def split: option.split)
next
  case (16 s t k)
  then obtain v d where "mem_strings s k = Some (v, d)" "alive t d"
    by (auto simp: mem_kv_sel live_def split: option.splits if_splits)
  then show ?case by (cases d) (auto simp: mem_kv_sel live_def remaining_def)
next
  case (17 t t' s k m)
  from live_later [OF 17, of "mem_zsets s k"] show ?case by (auto simp: mem_kv_sel zset_at_def)
next
  case (20 t k d s z m)
  then show ?case by (auto simp: mem_kv_sel zset_at_def expire_entry_def live_def split: option.split)
next
  case (7 k' k t s)
  then show ?case by (simp add: mem_kv_sel cong: option.case_cong)
next
  case (13 k' z t x m s)
  then show ?case by (simp add: mem_kv_sel cong: option.case_cong)
next
  case (14 k' z t m s)
  then show ?case by (simp add: mem_kv_sel cong: option.case_cong)
next
  case (15 k' z t x s)
  then show ?case by (simp add: mem_kv_sel cong: option.case_cong)
next
  case (23 t z x s z' m')
  show ?case
    using map_of_filter_clearjunk [where Q = "\<lambda>k y. y \<le> x" and k = m' and al = "zset_at s t z"]
    by (auto simp: mem_kv_sel split: option.split)
next
  case (18 t k v ttl s z m)
  show ?case by (auto simp: mem_kv_sel zset_at_def)
next
  case (19 t k s z m)
  show ?case by (auto simp: mem_kv_sel zset_at_def)
next
  case (24 s t z)
  show ?case using finite_dom_map_of [of "zset_at s t z"] by (simp add: mem_kv_sel dom_def)
next
  case (26 t t' s k)
  then obtain v d where e: "mem_strings s k = Some (v, d)" "alive t' d"
    by (auto simp: mem_kv_sel live_def split: option.splits if_splits)
  with 26(1,3) show ?case
    by (cases d) (auto simp: mem_kv_sel live_def remaining_def)
qed (auto simp: mem_kv_sel delete_conv' update_conv' length_clearjunk)

end
