(* ===== verification/Session_Props.thy ===== *)
theory Session_Props
  imports Session_Revoked Session_Issue Session_Memory
begin

text \<open>
  User sessions, the properties: what revocation, issuing and reuse promise.  The concrete runs use
  the memory Redis, the flat codec and one user.
\<close>

interpretation mem_sessions: session_laws mem_kv flat_codec ..

section \<open>A small deployment\<close>

definition sample_cfg :: session_cfg where
  "sample_cfg = \<lparr>token_prefix = ''token:'', uid_token_prefix = ''uidtoken:'', max_ttl = 3600000000000\<rparr>"

definition sample_state :: rollout where
  "sample_state = \<lparr>mode = Revoke, max_per_uid = 2, version = 1\<rparr>"

definition sample_surroundings :: surroundings where
  "sample_surroundings = \<lparr>at_ms = 5000, at_ns = 5000000000, at_state = sample_state\<rparr>"

definition sample_generation :: "string \<Rightarrow> gen_record" where
  "sample_generation g = \<lparr>generation = g, revision = 1, gen_state = ''active'',
     last_event_version = 0, last_event_id = [], last_revoked_generation = []\<rparr>"

definition sample_info :: "string \<Rightarrow> token_info" where
  "sample_info g = empty_info\<lparr>uid := ''ann'', issued_at := 1, expires_at := 60,
     session_generation := g, session_revision := 2\<rparr>"

definition sample_store :: kv_mem where
  "sample_store = \<lparr>mem_strings = Map.empty
     (generation_key sample_cfg ''ann'' \<mapsto> (marshal_gen flat_codec (sample_generation ''g0''), None),
      token_key sample_cfg ''t1'' \<mapsto> (v3_prefix @ marshal_v3 flat_codec (sample_info ''g1''), Some 60000)),
     mem_zsets = Map.empty\<rparr>"

definition sample_system :: "kv_mem system" where
  "sample_system = \<lparr>store = sample_store, store_ms = 5000, used = {''g0''}, jobs = Map.empty\<rparr>"

lemma sample_cfg_ok: "cfg_ok sample_cfg"
  by (simp add: cfg_ok_def sample_cfg_def)

lemma sample_keys:
  "token_key sample_cfg t = ''token:'' @ t" "uid_token_key sample_cfg u f = ''uidtoken:'' @ show_int f @ u"
  "generation_key sample_cfg u = ''uidtoken:auth:generation:'' @ session_subject u"
  "legacy_deny_key sample_cfg u = ''uidtoken:auth:legacy-deny:'' @ session_subject u"
  "session_index_key sample_cfg u g =
     ''uidtoken:auth:sessions:'' @ session_subject u @ '':'' @ session_subject g"
  by (simp_all add: token_key_def uid_token_key_def generation_key_def legacy_deny_key_def
      session_index_key_def sample_cfg_def)

lemma blank_simps: "\<not> blank ''ann''" "\<not> blank ''e1''" "\<not> blank ''t1''" "\<not> blank ''g1''"
  by code_simp+

lemma sample_key_not_blank: "\<not> blank (token_key sample_cfg ''t1'')"
  unfolding token_key_def sample_cfg_def by code_simp

lemma utf8_simps: "valid_utf8 ''ann''" "valid_utf8 ''g1''"
  by code_simp+

definition revoked_record :: gen_record where
  "revoked_record = rotated ''g1'' 1 ''e1'' 1 ''g0''"

definition revoked_store :: kv_mem where
  "revoked_store = \<lparr>mem_strings = (mem_strings sample_store)
     (generation_key sample_cfg ''ann'' \<mapsto> (lua_encode flat_codec revoked_record, None),
      legacy_deny_key sample_cfg ''ann'' \<mapsto> (show_nat 1, None),
      session_index_key sample_cfg ''ann'' ''g0'' := None), mem_zsets = Map.empty\<rparr>"

lemma sample_distinct [simp]:
  "generation_key sample_cfg u \<noteq> token_key sample_cfg t" "token_key sample_cfg t \<noteq> generation_key sample_cfg u"
  "generation_key sample_cfg u \<noteq> legacy_deny_key sample_cfg u'" "legacy_deny_key sample_cfg u' \<noteq> generation_key sample_cfg u"
  "generation_key sample_cfg u \<noteq> session_index_key sample_cfg u' g" "session_index_key sample_cfg u' g \<noteq> generation_key sample_cfg u"
  "token_key sample_cfg t \<noteq> session_index_key sample_cfg u' g" "session_index_key sample_cfg u' g \<noteq> token_key sample_cfg t"
  "token_key sample_cfg t \<noteq> legacy_deny_key sample_cfg u" "legacy_deny_key sample_cfg u \<noteq> token_key sample_cfg t"
  by (simp_all add: sample_keys)

lemma sample_reads:
  "lua_decode flat_codec (marshal_gen flat_codec g) = Some (go_fields g)"
  "unmarshal_gen flat_codec (marshal_gen flat_codec g) = Some g"
  "unmarshal_gen flat_codec (lua_encode flat_codec g) = Some g"
  by (simp_all add: flat_codec_def)

lemma sample_revoke:
  "run mem_kv flat_codec sample_surroundings (program flat_codec sample_cfg [] (RevokeAll ''ann'' 1 ''e1''))
    [''g1''] sample_store = (ODone, [], revoked_store)"
  by (simp add: revoke_all_def sample_surroundings_def sample_state_def Let_def writes_v3_def blank_simps
      rotate_generation_script_def sample_store_def mem_kv_sel sample_reads client_set_def go_fields_def
      sample_generation_def or_zero_def or_empty_def remaining_def revoked_store_def revoked_record_def)

lemma sample_active: "\<not> blank ''active''"
  by code_simp

lemmas sample_simps = sample_surroundings_def sample_state_def sample_store_def revoked_store_def
  revoked_record_def rotated_def sample_info_def empty_info_def blank_simps sample_key_not_blank
  sample_active remaining_def of_millis_def milli_ns_def unix_def second_ns_def is_v3_def decode_gen_def sample_reads

lemma sample_validate:
  "run mem_kv flat_codec sample_surroundings (program flat_codec sample_cfg [] (Validate ''t1'')) [] revoked_store =
    (OInfo (sample_info ''g1''), [], revoked_store)"
proof -
  let ?v = "v3_prefix @ marshal_v3 flat_codec (sample_info ''g1'')"
  have d: "decode flat_codec ?v = Inr (sample_info ''g1'')"
    by (rule flat.decode_encode_v3)
      (simp_all add: sample_info_def empty_info_def info_ok_def v3_valid_def blank_simps utf8_simps)
  have "run mem_kv flat_codec sample_surroundings
      (validate_token flat_codec sample_cfg True True (token_prefix sample_cfg) ''t1'') [] revoked_store =
      (Inr (sample_info ''g1''), [], revoked_store)"
  proof (rule run_validate_v3 [where p = 55000 and v = ?v and rec = revoked_record and
        raw = "lua_encode flat_codec revoked_record"])
  qed (rule d | simp add: mem_kv_sel sample_simps)+
  then show ?thesis by simp
qed

text \<open>C28: once \<open>RevokeAll\<close> has returned without an error, no validation that starts afterwards accepts a
  v3 token of the generation that was current before it started.  This holds for any number of
  replicas and operations, in any order, with Redis commands that fail before or after they take
  effect, clocks that show anything, evictions, and expiries.
\<close>
theorem revoked_never_validates:
  assumes "kv_laws r" and "codec_laws J" and C: "cfg_ok C"
    and start: "session_start r J C c0"
    and before: "session_reach r J C flags R c0 c1" "jobs c1 i = None"
    and issued: "current J r (store c1) (store_ms c1) (generation_key C u) = Some g"
    and revoked: "session_reach r J C flags R c1 c2" "jobs c2 i = Some (RevokeAll u v e, Return ODone)"
    and later: "jobs c2 j = None" "session_reach r J C flags R c2 c3"
      "jobs c3 j = Some (Validate token, Return (OInfo info))"
  shows "\<not> (is_v3 info \<and> uid info = u \<and> session_generation info = g)"
proof -
  from assms(1,2) have laws: "session_laws r J" by (rule session_laws.intro)
  from session_laws.reach_draws [OF laws C before(1) start_draws [OF start]]
  obtain G1 I1 where ok1: "draws_ok r J C R G1 I1 c1" by blast
  have g: "g \<in> I1" using draws_okD(7) [OF ok1, of "generation_key C u"] issued by auto
  from session_laws.reach_draws [OF laws C revoked(1) ok1]
  obtain G2 I2 where I: "I1 \<subseteq> I2" and ok2: "draws_ok r J C R G2 I2 c2" by blast
  from session_laws.revoke_retires [OF laws revoked(1) C ok1 g before(2), of u v e] revoked(2)
  have gone: "current J r (store c2) (store_ms c2) (generation_key C u) \<noteq> Some g"
    by (auto simp: job_must_def)
  from session_laws.validate_rejects [OF laws later(2) C ok2 _ gone later(1), of token] g I later(3)
  show ?thesis by (auto simp: job_must_def accepts_def)
qed


lemma sample_start: "session_start mem_kv flat_codec sample_cfg sample_system"
proof -
  have "current flat_codec mem_kv sample_store 5000 k = Some g \<Longrightarrow> k \<in> generation_keys sample_cfg \<Longrightarrow>
      g = ''g0''" for k g
    by (auto simp: current_def mem_kv_sel sample_store_def sample_generation_def sample_reads
        generation_keys_def split: if_splits)
  then show ?thesis by (auto simp: session_start_def sample_system_def)
qed

lemma sample_run:
  obtains c2 c3 where
    "session_reach mem_kv flat_codec sample_cfg [] {sample_state} sample_system c2"
    "jobs c2 = [0 \<mapsto> (RevokeAll ''ann'' 1 ''e1'', Return ODone)]"
    "session_reach mem_kv flat_codec sample_cfg [] {sample_state} c2 c3"
    "jobs c3 1 = Some (Validate ''t1'', Return (OInfo (sample_info ''g1'')))"
proof -
  let ?R = "{sample_state}"
  have s: "store_ms sample_system = at_ms sample_surroundings" "at_state sample_surroundings \<in> ?R"
    "store sample_system = sample_store" "jobs sample_system = Map.empty" "''g1'' \<notin> used sample_system"
    by (simp_all add: sample_system_def sample_surroundings_def)
  have "ends mem_kv flat_codec sample_cfg [] ?R 0 (RevokeAll ''ann'' 1 ''e1'') ODone revoked_store [''g1''] []
      sample_system"
    by (rule run_operation [OF _ _ s(1,2)]) (use s sample_revoke utf8_simps in auto)
  then obtain c2 where c2: "session_reach mem_kv flat_codec sample_cfg [] ?R sample_system c2"
    "store c2 = revoked_store" "store_ms c2 = at_ms sample_surroundings"
    "jobs c2 = [0 \<mapsto> (RevokeAll ''ann'' 1 ''e1'', Return ODone)]"
    using s by (auto simp: ends_def)
  have "ends mem_kv flat_codec sample_cfg [] ?R 1 (Validate ''t1'') (OInfo (sample_info ''g1'')) revoked_store [] [] c2"
    by (rule run_operation [OF _ _ c2(3) s(2)]) (use c2 sample_validate in auto)
  then obtain c3 where "session_reach mem_kv flat_codec sample_cfg [] ?R c2 c3"
    "jobs c3 1 = Some (Validate ''t1'', Return (OInfo (sample_info ''g1'')))"
    by (auto simp: ends_def)
  with c2 that show ?thesis by blast
qed

theorem revoked_never_validates_witness:
  "\<not> (is_v3 (sample_info ''g1'') \<and> uid (sample_info ''g1'') = ''ann'' \<and>
      session_generation (sample_info ''g1'') = ''g0'')"
proof -
  obtain c2 c3 where c: "session_reach mem_kv flat_codec sample_cfg [] {sample_state} sample_system c2"
    "jobs c2 = [0 \<mapsto> (RevokeAll ''ann'' 1 ''e1'', Return ODone)]"
    "session_reach mem_kv flat_codec sample_cfg [] {sample_state} c2 c3"
    "jobs c3 1 = Some (Validate ''t1'', Return (OInfo (sample_info ''g1'')))"
    by (rule sample_run)
  show ?thesis
    by (rule revoked_never_validates [OF mem_kv.kv_laws_axioms flat.codec_laws_axioms sample_cfg_ok
          sample_start session_reach.here, where i = 0 and j = 1])
      (use c in \<open>auto simp: sample_system_def current_def mem_kv_sel sample_store_def sample_generation_def
        sample_reads\<close>)
qed

section \<open>Issuing\<close>

definition sample_fence :: issue_fence where
  "sample_fence = \<lparr>f_generation = ''g0'', f_revision = 1\<rparr>"

definition sample_user :: token_info where
  "sample_user = empty_info\<lparr>uid := ''ann'', device_flag := 1\<rparr>"

lemma more_blanks: "\<not> blank ''t2''" "\<not> blank ''g0''" by code_simp+
lemma more_utf8: "valid_utf8 ''g0''" "valid_utf8 ''''" by code_simp+

definition sample_issued :: token_info where
  "sample_issued = sample_user\<lparr>issued_at := 5, expires_at := 3605, session_generation := ''g0'', session_revision := 1\<rparr>"

lemma sample_encode: "encode_v3 flat_codec sample_issued = Inr (v3_prefix @ marshal_v3 flat_codec sample_issued)"
  by (rule flat.decode_encode_v3) (simp_all add: sample_issued_def sample_user_def empty_info_def info_ok_def
    v3_valid_def more_blanks more_utf8 utf8_simps)

lemma sample_mark: "\<exists>p. mark_issued_payload flat_codec (v3_prefix @ marshal_v3 flat_codec sample_issued) ''t2'' = Inr p"
  by (rule flat.marked_payload [of sample_issued]) (auto simp add: sample_issued_def sample_user_def empty_info_def info_ok_def
    v3_valid_def more_blanks more_utf8 utf8_simps)

lemma issued_is: "sample_user\<lparr>issued_at := 5, expires_at := 3605, session_generation := ''g0'', session_revision := Suc 0\<rparr> = sample_issued"
  by (simp add: sample_issued_def)

lemma show_one: "show_int 1 = ''1''" by code_simp

lemma sample_keys_apart [simp]:
  "uid_token_key sample_cfg u f \<noteq> token_key sample_cfg t" "token_key sample_cfg t \<noteq> uid_token_key sample_cfg u f"
  "uid_token_key sample_cfg u 1 \<noteq> generation_key sample_cfg u'" "generation_key sample_cfg u' \<noteq> uid_token_key sample_cfg u 1"
  "uid_token_key sample_cfg u 1 \<noteq> session_index_key sample_cfg u' g" "session_index_key sample_cfg u' g \<noteq> uid_token_key sample_cfg u 1"
  "token_key sample_cfg t = token_key sample_cfg t' \<longleftrightarrow> t = t'"
  by (simp_all add: sample_keys show_one)

lemmas sample_env = sample_surroundings_def sample_state_def

lemma sample_writable: "run r J sample_surroundings writable_state gs s = (Inr sample_state, gs, s)"
  by (simp add: writable_state_def sample_env writes_v3_def cap_usable_def session_max_per_uid_limit_def)

definition with_generation :: "kv_mem \<Rightarrow> bool" where
  "with_generation s \<longleftrightarrow> mem_strings s (generation_key sample_cfg ''ann'') =
     Some (marshal_gen flat_codec (sample_generation ''g0''), None)"

lemma sample_require:
  assumes "with_generation s"
  shows "run mem_kv flat_codec sample_surroundings (require_fence flat_codec sample_cfg ''ann'' sample_fence) gs s =
    (Inr (), gs, s)"
  using assms by (simp add: require_fence_def with_generation_def mem_kv_sel decode_gen_def sample_reads
    sample_generation_def sample_active more_blanks session_generation_active_def sample_fence_def)

lemma sample_extend:
  assumes "with_generation s"
  shows "run mem_kv flat_codec sample_surroundings (extend_fence_deadline sample_cfg ''ann'' sample_fence 3605) gs s =
    (Inr (), gs, s)"
  using assms by (simp add: extend_fence_deadline_def extend_generation_script_def Let_def with_generation_def
    mem_kv_sel sample_reads go_fields_def sample_generation_def sample_fence_def until_def sample_env second_ns_def
    remaining_def)

lemma sample_index:
  assumes "mem_zsets s (session_index_key sample_cfg ''ann'' ''g0'') = None" and "with_generation s"
  shows "\<exists>s1. with_generation s1 \<and> run mem_kv flat_codec sample_surroundings
     (add_session_index sample_cfg ''ann'' ''g0'' m 3605 d) gs s = (Inr (), gs, s1)"
  using assms unfolding with_generation_def
  by (auto simp add: add_session_index_def add_session_index_script_def Let_def more_blanks sample_env
    mem_kv_sel zset_at_def remaining_def put_zset_def with_generation_def)

lemma sample_issue:
  "\<exists>s. run mem_kv flat_codec sample_surroundings
     (issue_new_session flat_codec sample_cfg ''t2'' sample_user sample_fence) gs sample_store = (Inr (), gs, s)"
proof -
  obtain p where p: "mark_issued_payload flat_codec (v3_prefix @ marshal_v3 flat_codec sample_issued) ''t2'' = Inr p"
    using sample_mark by blast
  have u: "uid sample_user = ''ann''" "device_flag sample_user = 1" "device_id sample_user = []"
    "uid sample_issued = ''ann''" "device_flag sample_issued = 1" "device_id sample_issued = []"
    by (simp_all add: sample_user_def empty_info_def sample_issued_def)
  have c: "max_ttl sample_cfg = 3600000000000" "at_ns sample_surroundings = 5000000000" "at_ms sample_surroundings = 5000"
    "at_state sample_surroundings = sample_state" "f_generation sample_fence = ''g0''" "f_revision sample_fence = 1"
    by (simp_all add: sample_cfg_def sample_env sample_fence_def)
  have n: "unix 3605000000000 = 3605" "until 3605 5000000000 = 3600000000000" "unix 5000000000 = 5"
    "writes_v3 (mode sample_state)"
    by (simp_all add: unix_def until_def second_ns_def writes_v3_def sample_state_def)
  let ?s = "kv_set mem_kv 5000 (token_key sample_cfg ''t2'') p (Some 3600000) sample_store"
  have g: "with_generation sample_store" "with_generation ?s"
    "mem_zsets ?s (session_index_key sample_cfg ''ann'' ''g0'') = None"
    "kv_get mem_kv sample_store 5000 (token_key sample_cfg ''t2'') = None"
    by (simp_all add: with_generation_def sample_store_def mem_kv_sel)
  obtain s1 where s1: "with_generation s1" "run mem_kv flat_codec sample_surroundings
     (add_session_index sample_cfg ''ann'' ''g0'' (index_member_of flat_codec ''t2'' 1 []) 3605 3600000000000) gs ?s =
     (Inr (), gs, s1)" using sample_index [OF g(3,2)] by blast
  let ?s2 = "kv_set mem_kv 5000 (uid_token_key sample_cfg ''ann'' 1) ''t2'' (Some 3600000) s1"
  have "with_generation ?s2" using s1(1) by (simp add: with_generation_def mem_kv_sel)
  then show ?thesis
    by (simp add: issue_new_session_def Let_def u c n sample_writable sample_require sample_extend g s1(2)
      blank_simps more_blanks issued_is sample_encode p client_set_def)
qed
text \<open>C30: a session that \<open>IssueNewSession\<close> returned is accepted by \<open>Validate\<close>, with the user, the device
  and the generation it was issued for, until it ends, when nothing interferes.
\<close>
theorem issued_session_accepted:
  assumes "kv_laws r" and "codec_laws J" and "cfg_ok C" and "issue_ok C E info fence"
    and "\<not> blank (token_key C token)"
    and "run r J E (program J C flags (IssueNewSession token info fence)) gs s = (ODone, gs', s')"
    and "at_ms E \<le> at_ms E'"
    and "at_ms E' < at_ms E + until (unix (at_ns E + max_ttl C)) (at_ns E) div 1000000"
    and "unix (at_ns E') < unix (at_ns E + max_ttl C)"
  shows "run r J E' (program J C flags (Validate token)) hs s' =
    (OInfo (info\<lparr>issued_at := unix (at_ns E), expires_at := unix (at_ns E + max_ttl C),
       session_generation := f_generation fence, session_revision := f_revision fence\<rparr>), hs, s')"
proof -
  from assms(1,2) have laws: "session_laws r J" by (rule session_laws.intro)
  obtain x where "run r J E (issue_new_session J C token info fence) gs s = (Inr x, gs', s')"
    using assms(6) by (auto split: prod.splits sum.splits)
  from session_laws.run_issued_validates [OF laws assms(3-5) this assms(7-9)] show ?thesis by simp
qed

lemma sample_issue_ok: "issue_ok sample_cfg sample_surroundings sample_user sample_fence"
  by (simp add: issue_ok_def info_ok_def sample_user_def empty_info_def sample_fence_def sample_cfg_def
      sample_env more_utf8 utf8_simps)

lemma sample_new_key: "\<not> blank (token_key sample_cfg ''t2'')"
  unfolding token_key_def sample_cfg_def by code_simp

definition later_surroundings :: surroundings where
  "later_surroundings = \<lparr>at_ms = 65000, at_ns = 65000000000, at_state = sample_state\<rparr>"

theorem issued_session_accepted_witness:
  "\<exists>s. run mem_kv flat_codec sample_surroundings
         (program flat_codec sample_cfg [] (IssueNewSession ''t2'' sample_user sample_fence)) [] sample_store =
         (ODone, [], s) \<and>
       run mem_kv flat_codec later_surroundings (program flat_codec sample_cfg [] (Validate ''t2'')) [] s =
         (OInfo sample_issued, [], s)"
proof -
  obtain s where s: "run mem_kv flat_codec sample_surroundings
     (program flat_codec sample_cfg [] (IssueNewSession ''t2'' sample_user sample_fence)) [] sample_store = (ODone, [], s)"
    using sample_issue [of "[]"] by auto
  have i: "sample_user\<lparr>issued_at := unix (at_ns sample_surroundings),
      expires_at := unix (at_ns sample_surroundings + max_ttl sample_cfg),
      session_generation := f_generation sample_fence, session_revision := f_revision sample_fence\<rparr> = sample_issued"
    by (simp add: sample_issued_def sample_env sample_cfg_def sample_fence_def unix_def second_ns_def)
  from issued_session_accepted [OF mem_kv.kv_laws_axioms flat.codec_laws_axioms sample_cfg_ok sample_issue_ok
      sample_new_key s, of later_surroundings "[]", unfolded i]
  show ?thesis using s
    by (auto simp: later_surroundings_def sample_env sample_cfg_def until_def unix_def second_ns_def)
qed

section \<open>The cap\<close>

text \<open>C31: no user's generation ever has more sessions than the largest cap that any replica applies,
  whatever the replicas do at the same time, if this held at the start.
\<close>
theorem session_index_bounded:
  assumes "kv_laws r" and "codec_laws J"
    and "jobs c0 = Map.empty" and "session_reach r J C flags R c0 c"
    and caps: "\<forall>st \<in> R. max_per_uid st \<le> n"
    and start: "\<forall>u g. int (kv_zcard r (store c0) (store_ms c0) (session_index_key C u g)) \<le> n"
  shows "int (kv_zcard r (store c) (store_ms c) (session_index_key C u g)) \<le> n"
proof -
  from assms(1,2) have laws: "session_laws r J" by (rule session_laws.intro)
  have zcard: "kv_zcard r s t k = card (members r s t k)" for s t k
    by (simp add: kv_laws.zcard_card [OF assms(1)] members_def)
  have "index_bounded r C n c0" using start by (auto simp: index_bounded_def index_keys_def zcard)
  with reach_bounded [OF laws assms(4)] caps assms(3) have "index_bounded r C n c"
    by (auto simp: jobs_run_def)
  then show ?thesis by (simp add: index_bounded_def zcard)
qed

theorem session_index_bounded_witness:
  "\<exists>c. session_reach mem_kv flat_codec sample_cfg [] {sample_state} sample_system c \<and>
       jobs c 0 = Some (IssueNewSession ''t2'' sample_user sample_fence, Return ODone) \<and>
       int (kv_zcard mem_kv (store c) (store_ms c) (session_index_key sample_cfg ''ann'' ''g0'')) \<le> 2"
proof -
  obtain s where s: "run mem_kv flat_codec sample_surroundings
     (program flat_codec sample_cfg [] (IssueNewSession ''t2'' sample_user sample_fence)) [] sample_store = (ODone, [], s)"
    using sample_issue [of "[]"] by auto
  have "ends mem_kv flat_codec sample_cfg [] {sample_state} 0 (IssueNewSession ''t2'' sample_user sample_fence) ODone s
      [] [] sample_system"
    by (rule run_operation [where E = sample_surroundings]) (use s in \<open>auto simp: sample_system_def sample_env\<close>)
  then obtain c where c: "session_reach mem_kv flat_codec sample_cfg [] {sample_state} sample_system c"
    "jobs c 0 = Some (IssueNewSession ''t2'' sample_user sample_fence, Return ODone)"
    by (auto simp: ends_def)
  have "int (kv_zcard mem_kv (store c) (store_ms c) (session_index_key sample_cfg ''ann'' ''g0'')) \<le> 2"
    by (rule session_index_bounded [OF mem_kv.kv_laws_axioms flat.codec_laws_axioms _ c(1)])
      (simp_all add: sample_system_def sample_state_def sample_store_def mem_kv_sel zset_at_def)
  with c show ?thesis by blast
qed

section \<open>What an existing session keeps\<close>

text \<open>C29: as long as the token of a v3 session is there and only the operations of the store write it, its
  user, device, issue time, absolute deadline, generation and revision stay what they were, and it
  never gets more time in Redis: only its name, role and language may be refreshed.
\<close>
theorem session_claims_fixed:
  assumes "kv_laws r" and "codec_laws J" and "cfg_ok C"
    and "jobs c0 = Map.empty" and "session_reach r J C flags R c0 c" and "jobs_ok c"
    and "kv_get r (store c) (store_ms c) (token_key C token) = Some v"
    and "decode J v = Inr i" and "is_v3 i"
    and "lives r J C flags R (token_key C token) c c'"
  shows "\<exists>v' j. kv_get r (store c') (store_ms c') (token_key C token) = Some v' \<and> decode J v' = Inr j \<and>
    j\<lparr>display_name := display_name i, role := role i, language := language i\<rparr> = i \<and>
    not_later r (token_key C token) c c'"
proof -
  from assms(1,2) have laws: "session_laws r J" by (rule session_laws.intro)
  have run: "jobs_run R (keeps_claims J C) c" by (rule reach_keeping [OF laws assms(5,4,6)])
  obtain v' where v': "kv_get r (store c') (store_ms c') (token_key C token) = Some v'"
    using assms(10,7) by (cases rule: lives.cases) auto
  from session_laws.lives_keeps [OF laws assms(10,3) key_sets(3) run assms(7) v'] assms(8,9) v'
  show ?thesis by (auto simp: claims_kept_def same_claims_def)
qed

definition renamed :: token_info where
  "renamed = (sample_info ''g1'')\<lparr>display_name := ''ann''\<rparr>"

lemma sample_decode:
  "decode flat_codec (v3_prefix @ marshal_v3 flat_codec (sample_info ''g1'')) = Inr (sample_info ''g1'')"
  by (rule flat.decode_encode_v3)
    (simp_all add: sample_info_def empty_info_def info_ok_def v3_valid_def blank_simps utf8_simps more_utf8)

lemma renamed_encode: "encode_v3 flat_codec renamed = Inr (v3_prefix @ marshal_v3 flat_codec renamed)"
  by (rule flat.decode_encode_v3)
    (simp_all add: renamed_def sample_info_def empty_info_def info_ok_def v3_valid_def blank_simps utf8_simps more_utf8)

lemma sample_update:
  defines "P \<equiv> update_session_snapshot flat_codec sample_cfg ''t1'' (empty_info\<lparr>display_name := ''ann''\<rparr>)"
  shows "\<exists>s. run mem_kv flat_codec sample_surroundings P [] sample_store = (Inr True, [], s) \<and>
    throughout mem_kv flat_codec sample_surroundings
      (\<lambda>s. kv_get mem_kv s 5000 (token_key sample_cfg ''t1'') \<noteq> None) P sample_store"
proof -
  have four: "(4::nat) = Suc 3" by simp
  have r: "(sample_info ''g1'')\<lparr>display_name := ''ann'', role := [], language := []\<rparr> = renamed"
    by (simp add: renamed_def sample_info_def empty_info_def)
  have i: "uid (sample_info ''g1'') = ''ann''" "is_v3 renamed" "expires_at renamed = 60"
    by (simp_all add: renamed_def sample_info_def empty_info_def is_v3_def)
  have e: "uid (empty_info\<lparr>display_name := ''ann''\<rparr>) = []" "role empty_info = []" "language empty_info = []"
    by (simp_all add: empty_info_def)
  show ?thesis
    unfolding P_def update_session_snapshot_def four update_attempts.simps(2)
    by (simp add: blank_simps read_token_def read_token_script_def sample_key_not_blank mem_kv_sel sample_store_def remaining_def
       Let_def sample_decode e r i renamed_encode until_def second_ns_def sample_env cas_replace_payload_def
       cas_replace_script_def millis_def milli_ns_def of_millis_def)
qed
theorem session_claims_fixed_witness:
  "\<exists>c v j. lives mem_kv flat_codec sample_cfg [] {sample_state} (token_key sample_cfg ''t1'') sample_system c \<and>
     jobs c 0 = Some (UpdateSessionSnapshot ''t1'' (empty_info\<lparr>display_name := ''ann''\<rparr>), Return (OBool True)) \<and>
     kv_get mem_kv (store c) (store_ms c) (token_key sample_cfg ''t1'') = Some v \<and> decode flat_codec v = Inr j \<and>
     j\<lparr>display_name := [], role := [], language := []\<rparr> = sample_info ''g1''"
proof -
  let ?k = "token_key sample_cfg ''t1''"
  let ?op = "UpdateSessionSnapshot ''t1'' (empty_info\<lparr>display_name := ''ann''\<rparr>)"
  have sys: "jobs sample_system = Map.empty" "store sample_system = sample_store" "store_ms sample_system = 5000"
    "at_ms sample_surroundings = 5000" "at_state sample_surroundings = sample_state"
    by (simp_all add: sample_system_def sample_env)
  have v: "kv_get mem_kv sample_store 5000 ?k = Some (v3_prefix @ marshal_v3 flat_codec (sample_info ''g1''))"
    by (simp add: mem_kv_sel sample_store_def)
  obtain s where s: "run mem_kv flat_codec sample_surroundings (program flat_codec sample_cfg [] ?op) [] sample_store =
      (OBool True, [], s)"
    "throughout mem_kv flat_codec sample_surroundings (\<lambda>s. kv_get mem_kv s 5000 ?k \<noteq> None)
      (program flat_codec sample_cfg [] ?op) sample_store"
    using sample_update by auto
  have "lives_to mem_kv flat_codec sample_cfg [] {sample_state} ?k 0 ?op (OBool True) s sample_system"
    by (rule operation_lives [where E = sample_surroundings])
      (use s v in \<open>auto simp: sys jobs_ok_def snapshot_ok_def empty_info_def utf8_simps more_utf8\<close>)
  then obtain c where c: "lives mem_kv flat_codec sample_cfg [] {sample_state} ?k sample_system c"
    "jobs c 0 = Some (?op, Return (OBool True))" by (auto simp: lives_to_def)
  have "is_v3 (sample_info ''g1'')" by (simp add: is_v3_def sample_info_def)
  from session_claims_fixed [OF mem_kv.kv_laws_axioms flat.codec_laws_axioms sample_cfg_ok sys(1)
      session_reach.here _ _ sample_decode this c(1)] c v
  show ?thesis by (auto simp: sys jobs_ok_def sample_info_def empty_info_def)
qed

end
