(* ===== verification/Rollout_State.thy ===== *)
theory Rollout_State
  imports Session_Store
begin

text \<open>
  The session rollout, its durable state: session_rollout_control_store.go, session_rollout_legacy.go
  and the boot of runtime.go.  MySQL holds one row with the floor, the cap and a version, and an
  append-only table of audit rows; every change is one transaction over both.  A transaction that
  fails, for whatever reason, changes nothing.
\<close>

section \<open>The state and its validation\<close>

fun mode_text :: "session_mode \<Rightarrow> string" where
  "mode_text Expand = ''expand''"
| "mode_text V3Write = ''v3-write''"
| "mode_text Revoke = ''revoke''"
| "mode_text Bounded = ''bounded''"
| "mode_text Enforce = ''enforce''"
| "mode_text (OtherMode s) = s"

lemma mode_of_text: "mode_valid m \<Longrightarrow> mode_of (mode_text m) = m"
  by (cases m) auto

text \<open>\<open>updated_at\<close> is written and never read by the rollout.\<close>

record rollout_state =
  rs_floor :: session_mode
  rs_cap :: int
  rs_version :: int
  rs_paused :: bool

datatype rollout_error =
    BadFloor | BadCap | BadVersion | BadSeedMode | BadSeedCap
  | NotInitialized | ControlChanged | FloorNotNext | NoCap | BadTargetCap | NeedsCapChange
  | LegacyExpires | LegacyReply | LegacyDecode | LegacyRecord
  | StoreFailed | RetryableConflict | TakeoverFailed
  | BadMode | ModeBelowFloor | NoRegistry | NotPublished | NotAllowed

definition validate_rollout_state :: "rollout_state \<Rightarrow> rollout_error + unit" where
  "validate_rollout_state s =
     (if \<not> mode_valid (rs_floor s) then Inl BadFloor
      else if \<not> cap_usable (rs_cap s) then Inl BadCap
      else if rs_version s \<le> 0 then Inl BadVersion
      else Inr ())"

lemma validate_rollout_Inr [res_simps]:
  "validate_rollout_state s = Inr u \<longleftrightarrow> mode_valid (rs_floor s) \<and> cap_usable (rs_cap s) \<and> 0 < rs_version s"
  by (auto simp: validate_rollout_state_def)

section \<open>Taking over from the Redis floor and the environment\<close>

record rollout_seed =
  seed_floor :: session_mode
  seed_cap :: int
  seed_actor :: string
  seed_source :: string
  seed_redis :: string

definition default_recovery_max_per_uid :: int where "default_recovery_max_per_uid = 20"

text \<open>\<open>OtherMode []\<close> is the empty mode, which stands for none.\<close>

definition stricter :: "session_mode \<Rightarrow> session_mode \<Rightarrow> session_mode" where
  "stricter m fl = (if mode_valid m \<and> rank fl < rank m then m else fl)"

definition resolve_rollout_seed ::
    "session_mode \<Rightarrow> session_mode \<Rightarrow> int \<Rightarrow> int \<Rightarrow> rollout_error + rollout_seed" where
  "resolve_rollout_seed redis_floor env_mode redis_cap env_cap =
     (if (redis_floor \<noteq> OtherMode [] \<and> \<not> mode_valid redis_floor) \<or>
         (env_mode \<noteq> OtherMode [] \<and> \<not> mode_valid env_mode) then Inl BadSeedMode
      else if \<not> (0 \<le> redis_cap \<and> redis_cap \<le> session_max_per_uid_limit) \<or>
         \<not> (0 \<le> env_cap \<and> env_cap \<le> session_max_per_uid_limit) then Inl BadSeedCap
      else
        let fl = stricter env_mode (stricter redis_floor Expand);
            cap = (if redis_cap \<le> 0 then env_cap else redis_cap);
            cap = (if cap \<le> 0 then default_recovery_max_per_uid else cap)
        in Inr \<lparr>seed_floor = fl, seed_cap = cap, seed_actor = [], seed_source = [], seed_redis = []\<rparr>)"

text \<open>The record that older releases kept in Redis; \<open>encoding/json\<close> is a parameter.\<close>

record rollout_control =
  c_floor :: session_mode
  c_writer_version :: int
  c_min_gap :: int
  c_cap :: int

definition decode_rollout_control ::
    "(string \<Rightarrow> rollout_control option) \<Rightarrow> string \<Rightarrow> rollout_error + rollout_control" where
  "decode_rollout_control unmarshal raw =
     (case unmarshal raw of
        None \<Rightarrow> Inl LegacyDecode
      | Some c \<Rightarrow>
          if \<not> mode_valid (c_floor c) \<or> c_floor c = Expand \<or> c_writer_version c \<noteq> 3 \<or>
             c_min_gap c < 0 \<or> c_cap c < 0 \<or> session_max_per_uid_limit < c_cap c \<or>
             blank (mode_text (c_floor c))
          then Inl LegacyRecord else Inr c)"

definition rollout_control_key :: "session_cfg \<Rightarrow> string" where
  "rollout_control_key C = uid_token_prefix C @ ''auth:rollout-control''"

text \<open>\<open>RolloutControl\<close>, given what the read script answered.\<close>

definition rollout_control_of ::
    "(string \<Rightarrow> rollout_control option) \<Rightarrow> reply \<Rightarrow> rollout_error + rollout_control option" where
  "rollout_control_of unmarshal rep =
     (case rep of
        RFail \<Rightarrow> Inl StoreFailed
      | RMulti [value, ms] \<Rightarrow>
          (case redis_integer ms of
             Inl _ \<Rightarrow> Inl LegacyReply
           | Inr t \<Rightarrow>
               if t = -2 then Inr None
               else if t \<noteq> -1 then Inl LegacyExpires
               else (case value of
                       RBulk raw \<Rightarrow> bind_res (decode_rollout_control unmarshal raw) (\<lambda>c. Inr (Some c))
                     | _ \<Rightarrow> Inl LegacyReply))
      | _ \<Rightarrow> Inl LegacyReply)"

definition read_legacy_script :: "'s kv \<Rightarrow> int \<Rightarrow> string \<Rightarrow> 's \<Rightarrow> reply" where
  "read_legacy_script r t k s =
     (case kv_get r s t k of
        None \<Rightarrow> RMulti [RNil, RInt (-2)]
      | Some v \<Rightarrow> RMulti [RBulk v, RInt (kv_pttl r s t k)])"

section \<open>The tables\<close>

record observation =
  o_instance :: string
  o_complete :: bool
  o_total :: int
  o_missing :: int
  o_persistent :: int
  o_finite :: int
  o_over_max :: int
  o_invalid_ttl :: int
  o_decode_invalid :: int
  o_read_errors :: int
  o_v1 :: int
  o_v2 :: int
  o_v3 :: int

record advance_record =
  a_from :: session_mode
  a_to :: session_mode
  a_actor :: string
  a_kind :: string
  a_redis :: string
  a_fingerprint :: string
  a_observation :: "observation option"
  a_cap_change :: "(int \<times> int) option"

record rollout_db =
  singleton :: "rollout_state option"
  advances :: "advance_record list"

fun first_non_empty :: "string list \<Rightarrow> string" where
  "first_non_empty [] = []"
| "first_non_empty (v # vs) = (if trim_space v \<noteq> [] then trim_space v else first_non_empty vs)"

text \<open>\<open>insertRolloutAdvance\<close>: the evidence column holds the cap change of a \<open>set-cap\<close> row.\<close>

definition insert_advance ::
    "advance_record \<Rightarrow> string \<Rightarrow> rollout_db \<Rightarrow> rollout_error + rollout_db" where
  "insert_advance rec kind db =
     (if kind = ''set-cap'' \<and> a_cap_change rec = None then Inl NeedsCapChange
      else Inr (db\<lparr>advances := advances db @ [rec\<lparr>a_actor := first_non_empty [a_actor rec, ''unknown''],
             a_kind := kind,
             a_observation := (if kind = ''set-cap'' then None else a_observation rec),
             a_cap_change := (if kind = ''set-cap'' then a_cap_change rec else None)\<rparr>]\<rparr>))"

text \<open>A transaction: its changes are kept only when it returns without an error.\<close>

definition in_tx ::
    "(rollout_db \<Rightarrow> rollout_error + 'a \<times> rollout_db) \<Rightarrow> rollout_db \<Rightarrow> (rollout_error + 'a) \<times> rollout_db" where
  "in_tx f db = (case f db of Inl e \<Rightarrow> (Inl e, db) | Inr (a, db') \<Rightarrow> (Inr a, db'))"

definition load_state :: "rollout_db \<Rightarrow> rollout_error + rollout_state" where
  "load_state db =
     (case singleton db of
        None \<Rightarrow> Inl NotInitialized
      | Some s \<Rightarrow> bind_res (validate_rollout_state s) (\<lambda>_. Inr s))"

text \<open>\<open>UPDATE ... SET ..., version = version + 1 WHERE ...\<close>, and \<open>RowsAffected\<close> must be one.\<close>

definition update_row ::
    "(rollout_state \<Rightarrow> bool) \<Rightarrow> (rollout_state \<Rightarrow> rollout_state) \<Rightarrow> rollout_db
     \<Rightarrow> rollout_error + rollout_db" where
  "update_row w f db =
     (case singleton db of
        None \<Rightarrow> Inl ControlChanged
      | Some s \<Rightarrow>
          if w s then Inr (db\<lparr>singleton := Some ((f s)\<lparr>rs_version := rs_version s + 1\<rparr>)\<rparr>)
          else Inl ControlChanged)"

definition plain_record :: "session_mode \<Rightarrow> session_mode \<Rightarrow> string \<Rightarrow> string \<Rightarrow> advance_record" where
  "plain_record a b actor redis =
     \<lparr>a_from = a, a_to = b, a_actor = actor, a_kind = [], a_redis = redis, a_fingerprint = [],
      a_observation = None, a_cap_change = None\<rparr>"

section \<open>The operations of the control store\<close>

definition initialize_tx ::
    "rollout_seed \<Rightarrow> rollout_db \<Rightarrow> rollout_error + rollout_state \<times> rollout_db" where
  "initialize_tx seed db =
     (case singleton db of
       None \<Rightarrow>
         let s = \<lparr>rs_floor = seed_floor seed, rs_cap = seed_cap seed, rs_version = 1, rs_paused = False\<rparr>;
             rec = plain_record (OtherMode []) (seed_floor seed)
                     (first_non_empty [seed_actor seed, ''startup'']) (seed_redis seed)
         in bind_res (insert_advance rec (first_non_empty [seed_source seed, ''bootstrap''])
              (db\<lparr>singleton := Some s\<rparr>)) (\<lambda>db. Inr (s, db))
     | Some cur \<Rightarrow>
         bind_res (validate_rollout_state cur) (\<lambda>_.
         if rank (rs_floor cur) < rank (seed_floor seed)
         then
           bind_res (update_row
              (\<lambda>s. rs_version s = rs_version cur \<and> rs_floor s = rs_floor cur)
              (\<lambda>s. s\<lparr>rs_floor := seed_floor seed, rs_cap := seed_cap seed\<rparr>) db) (\<lambda>db.
           bind_res (insert_advance (plain_record (rs_floor cur) (seed_floor seed)
                (first_non_empty [seed_actor seed, ''startup'']) (seed_redis seed))
                (first_non_empty [seed_source seed, ''legacy-takeover'']) db) (\<lambda>db.
           Inr (cur\<lparr>rs_floor := seed_floor seed, rs_cap := seed_cap seed,
                    rs_version := rs_version cur + 1\<rparr>, db)))
         else Inr (cur, db)))"

definition initialize_once ::
    "rollout_seed \<Rightarrow> rollout_db \<Rightarrow> (rollout_error + rollout_state) \<times> rollout_db" where
  "initialize_once seed db =
     (if \<not> mode_valid (seed_floor seed) then (Inl BadFloor, db)
      else if \<not> cap_usable (seed_cap seed) then (Inl BadCap, db)
      else in_tx (initialize_tx seed) db)"

text \<open>
  \<open>Initialize\<close> retries a conflict that MySQL reports (duplicate row, lock timeout, deadlock) up to
  eight times.  \<open>conflicts\<close> says for each attempt whether it met one, \<open>cancelled\<close> whether the
  context ended in the pause after it.
\<close>

definition rollout_initialize_retries :: nat where "rollout_initialize_retries = 8"

fun initialize_attempts ::
    "nat \<Rightarrow> (nat \<Rightarrow> rollout_error option) \<Rightarrow> (nat \<Rightarrow> bool) \<Rightarrow> rollout_seed \<Rightarrow> nat \<Rightarrow> rollout_db
     \<Rightarrow> (rollout_error + rollout_state) \<times> rollout_db" where
  "initialize_attempts 0 conflicts cancelled seed i db = (Inl TakeoverFailed, db)"
| "initialize_attempts (Suc n) conflicts cancelled seed i db =
     (let (res, db) = (case conflicts i of None \<Rightarrow> initialize_once seed db | Some e \<Rightarrow> (Inl e, db))
      in case res of
           Inr s \<Rightarrow> (Inr s, db)
         | Inl e \<Rightarrow>
             if e \<noteq> RetryableConflict then (Inl e, db)
             else if n = 0 then (Inl TakeoverFailed, db)
             else if cancelled i then (Inl StoreFailed, db)
             else initialize_attempts n conflicts cancelled seed (Suc i) db)"

definition initialize ::
    "(nat \<Rightarrow> rollout_error option) \<Rightarrow> (nat \<Rightarrow> bool) \<Rightarrow> rollout_seed \<Rightarrow> rollout_db
     \<Rightarrow> (rollout_error + rollout_state) \<times> rollout_db" where
  "initialize conflicts cancelled seed =
     initialize_attempts rollout_initialize_retries conflicts cancelled seed 0"

definition advance_tx ::
    "rollout_state \<Rightarrow> advance_record \<Rightarrow> rollout_db \<Rightarrow> rollout_error + rollout_state \<times> rollout_db" where
  "advance_tx cur rec db =
     bind_res (insert_advance rec ''advance'' db) (\<lambda>db.
     bind_res (update_row
        (\<lambda>s. rs_version s = rs_version cur \<and> rs_floor s = rs_floor cur \<and> \<not> rs_paused s)
        (\<lambda>s. s\<lparr>rs_floor := a_to rec, rs_cap := rs_cap cur\<rparr>) db) (\<lambda>db.
     Inr (cur\<lparr>rs_floor := a_to rec, rs_version := rs_version cur + 1\<rparr>, db)))"

definition advance_floor ::
    "rollout_state \<Rightarrow> advance_record \<Rightarrow> rollout_db \<Rightarrow> (rollout_error + rollout_state) \<times> rollout_db" where
  "advance_floor cur rec db =
     (if a_from rec \<noteq> rs_floor cur \<or> rank (a_to rec) \<noteq> rank (rs_floor cur) + 1
      then (Inl FloorNotNext, db)
      else if \<not> cap_usable (rs_cap cur) then (Inl NoCap, db)
      else in_tx (advance_tx cur rec) db)"

definition set_cap_tx ::
    "rollout_state \<Rightarrow> int \<Rightarrow> string \<Rightarrow> rollout_db \<Rightarrow> rollout_error + rollout_state \<times> rollout_db" where
  "set_cap_tx cur cap actor db =
     (let rec = (plain_record (rs_floor cur) (rs_floor cur)
                      (first_non_empty [actor, ''operator'']) [])\<lparr>a_cap_change := Some (rs_cap cur, cap)\<rparr>
         in bind_res (insert_advance rec ''set-cap'' db) (\<lambda>db.
            bind_res (update_row
              (\<lambda>s. rs_version s = rs_version cur \<and> rs_floor s = rs_floor cur \<and> rs_cap s = rs_cap cur)
              (\<lambda>s. s\<lparr>rs_cap := cap\<rparr>) db) (\<lambda>db.
            Inr (cur\<lparr>rs_cap := cap, rs_version := rs_version cur + 1\<rparr>, db))))"

definition set_max_per_uid ::
    "rollout_state \<Rightarrow> int \<Rightarrow> string \<Rightarrow> rollout_db \<Rightarrow> (rollout_error + rollout_state) \<times> rollout_db" where
  "set_max_per_uid cur cap actor db =
     (case validate_rollout_state cur of
        Inl e \<Rightarrow> (Inl e, db)
      | Inr _ \<Rightarrow>
          if \<not> cap_usable cap then (Inl BadTargetCap, db)
          else if cap = rs_cap cur then (Inr cur, db)
          else in_tx (set_cap_tx cur cap actor) db)"

definition set_paused :: "bool \<Rightarrow> rollout_db \<Rightarrow> (rollout_error + unit) \<times> rollout_db" where
  "set_paused b db =
     (case update_row (\<lambda>_. True) (\<lambda>s. s\<lparr>rs_paused := b\<rparr>) db of
        Inl _ \<Rightarrow> (Inl NotInitialized, db)
      | Inr db' \<Rightarrow> (Inr (), db'))"

definition last_advance :: "rollout_db \<Rightarrow> advance_record option" where
  "last_advance db = (if advances db = [] then None else Some (last (advances db)))"

section \<open>The boot\<close>

datatype boot_outcome = Fresh | Adopted | Normal

text \<open>
  \<open>InitializeSessionRollout\<close> up to the state it applies: the Redis floor and the environment are
  consulted only when there is no row.
\<close>

definition boot_seed ::
    "session_policy \<Rightarrow> rollout_control option \<Rightarrow> string option
     \<Rightarrow> rollout_error + rollout_seed \<times> boot_outcome" where
  "boot_seed p legacy redis_id =
     (let fl = (case legacy of None \<Rightarrow> OtherMode [] | Some c \<Rightarrow> c_floor c);
          cap = (case legacy of None \<Rightarrow> 0 | Some c \<Rightarrow> c_cap c)
      in bind_res (resolve_rollout_seed fl (legacy_mode p) cap (legacy_max_per_uid p)) (\<lambda>seed.
         let (source, result) =
               (if mode_valid fl then (''legacy-redis'', Adopted)
                else if mode_valid (legacy_mode p) \<and> legacy_mode p \<noteq> Expand then (''legacy-env'', Adopted)
                else (''bootstrap'', Fresh))
         in Inr (seed\<lparr>seed_actor := ''startup'', seed_source := source,
                      seed_redis := (case redis_id of None \<Rightarrow> [] | Some i \<Rightarrow> i)\<rparr>, result)))"

definition boot_mode :: "bool \<Rightarrow> session_mode \<Rightarrow> session_mode" where
  "boot_mode canary fl = (if canary \<and> rank fl < rank Enforce then next_mode fl else fl)"

definition boot_state ::
    "(nat \<Rightarrow> rollout_error option) \<Rightarrow> (nat \<Rightarrow> bool) \<Rightarrow> session_policy
     \<Rightarrow> rollout_error + rollout_control option \<Rightarrow> string option \<Rightarrow> rollout_db
     \<Rightarrow> (rollout_error + rollout_state \<times> session_mode \<times> boot_outcome) \<times> rollout_db" where
  "boot_state conflicts cancelled p legacy redis_id db =
     (let with_mode = (\<lambda>res outcome db.
            case res of
              Inl e \<Rightarrow> (Inl e, db)
            | Inr s \<Rightarrow> (Inr (s, boot_mode (canary_ahead p) (rs_floor s), outcome), db))
      in case load_state db of
           Inl NotInitialized \<Rightarrow>
             (case bind_res legacy (\<lambda>c. boot_seed p c redis_id) of
                Inl e \<Rightarrow> (Inl e, db)
              | Inr (seed, outcome) \<Rightarrow>
                  let (res, db) = initialize conflicts cancelled seed db in with_mode res outcome db)
         | res \<Rightarrow> with_mode res Normal db)"

end
