(* ===== verification/Rollout_Audit.thy ===== *)
theory Rollout_Audit
  imports Rollout_State
begin

text \<open>
  The session rollout, any number of replicas and operators on the control store: each transaction
  is a step, with whatever snapshot its caller had loaded before.  The floor only rises, each row of
  the audit table continues the one before it, and a version identifies the state.
\<close>

section \<open>Transactions as steps\<close>

inductive control_step :: "rollout_db \<Rightarrow> rollout_db \<Rightarrow> bool" where
  initializes: "first_non_empty [seed_source seed] \<noteq> ''advance'' \<Longrightarrow>
    control_step db (snd (initialize_once seed db))"
| advances: "control_step db (snd (advance_floor cur rec db))"
| sets_cap: "control_step db (snd (set_max_per_uid cur cap actor db))"
| pauses: "control_step db (snd (set_paused b db))"

abbreviation control_reach :: "rollout_db \<Rightarrow> rollout_db \<Rightarrow> bool" where
  "control_reach \<equiv> control_step\<^sup>*\<^sup>*"

definition empty_db :: rollout_db where
  "empty_db = \<lparr>singleton = None, advances = []\<rparr>"

section \<open>What a step changes\<close>

text \<open>An advance moves one phase, a change of the cap none, a takeover may skip phases.\<close>

definition row_ok :: "advance_record \<Rightarrow> bool" where
  "row_ok row \<longleftrightarrow> rank (a_from row) \<le> rank (a_to row) \<and>
     (a_kind row = ''advance'' \<longrightarrow> rank (a_to row) = rank (a_from row) + 1) \<and>
     (a_kind row = ''set-cap'' \<longrightarrow> a_to row = a_from row \<and> a_cap_change row \<noteq> None)"

fun linked :: "session_mode \<Rightarrow> advance_record list \<Rightarrow> session_mode \<Rightarrow> bool" where
  "linked m [] f = (m = f)"
| "linked m (row # rows) f = (a_from row = m \<and> row_ok row \<and> linked (a_to row) rows f)"

lemma linked_append: "linked m (xs @ ys) f \<longleftrightarrow> (\<exists>k. linked m xs k \<and> linked k ys f)"
  by (induction xs arbitrary: m) auto

lemma linked_rank: "linked m rows f \<Longrightarrow> rank m \<le> rank f"
  by (induction rows arbitrary: m) (auto simp: row_ok_def dest: order_trans)

text \<open>One transaction that changed something, with the audit rows it added.\<close>

definition moved :: "rollout_db \<Rightarrow> rollout_db \<Rightarrow> bool" where
  "moved db db' \<longleftrightarrow>
     (\<exists>s' rows. singleton db' = Some s' \<and> advances db' = advances db @ rows \<and>
        (case singleton db of
           None \<Rightarrow> validate_rollout_state s' = Inr () \<and> rs_version s' = 1 \<and> length rows = 1 \<and>
             linked (OtherMode []) rows (rs_floor s')
         | Some s \<Rightarrow> rs_version s' = rs_version s + 1 \<and> length rows \<le> 1 \<and>
             linked (rs_floor s) rows (rs_floor s') \<and>
             (validate_rollout_state s = Inr () \<longrightarrow> validate_rollout_state s' = Inr ())))"

lemma rank_valid: "0 < rank m \<longleftrightarrow> mode_valid m"
  by (cases m) auto

lemma insert_advance_Inr [res_simps]:
  "insert_advance rec kind db = Inr db' \<longleftrightarrow>
     (kind = ''set-cap'' \<longrightarrow> a_cap_change rec \<noteq> None) \<and>
     db' = db\<lparr>advances := advances db @ [rec\<lparr>a_actor := first_non_empty [a_actor rec, ''unknown''],
       a_kind := kind, a_observation := (if kind = ''set-cap'' then None else a_observation rec),
       a_cap_change := (if kind = ''set-cap'' then a_cap_change rec else None)\<rparr>]\<rparr>"
  by (auto simp: insert_advance_def)

lemma update_row_Inr [res_simps]:
  "update_row w f db = Inr db' \<longleftrightarrow> (\<exists>s. singleton db = Some s \<and> w s \<and>
     db' = db\<lparr>singleton := Some ((f s)\<lparr>rs_version := rs_version s + 1\<rparr>)\<rparr>)"
  by (auto simp: update_row_def split: option.splits)

lemma initialize_tx_moves:
  assumes src: "first_non_empty [seed_source seed] \<noteq> ''advance''"
    and ok: "mode_valid (seed_floor seed)" "cap_usable (seed_cap seed)"
    and run: "initialize_tx seed db = Inr (a, db')"
  shows "db' = db \<or> moved db db'"
proof -
  have kind: "first_non_empty [seed_source seed, d] \<noteq> ''advance''" if "trim_space d \<noteq> ''advance''" for d
    using src that by (auto split: if_splits)
  have k: "first_non_empty [seed_source seed, ''bootstrap''] \<noteq> ''advance''"
    "first_non_empty [seed_source seed, ''legacy-takeover''] \<noteq> ''advance''"
    by (rule kind, code_simp)+
  show ?thesis
  proof (cases "singleton db")
    case None
    with run ok k(1) show ?thesis unfolding initialize_tx_def
      by (auto simp: Let_def res_simps moved_def plain_record_def row_ok_def simp del: first_non_empty.simps)
  next
    case (Some s)
    with run ok k(2) show ?thesis unfolding initialize_tx_def
      by (auto simp: res_simps moved_def plain_record_def row_ok_def simp del: first_non_empty.simps
          split: if_splits)
  qed
qed

lemma advance_tx_moves:
  assumes "a_from rec = rs_floor cur" and next_phase: "rank (a_to rec) = rank (rs_floor cur) + 1"
    and "cap_usable (rs_cap cur)" and "advance_tx cur rec db = Inr (a, db')"
  shows "moved db db'"
proof -
  have "mode_valid (a_to rec)" using rank_valid [of "a_to rec"] next_phase by simp
  with assms show ?thesis by (auto simp: advance_tx_def res_simps moved_def row_ok_def)
qed

lemma set_cap_tx_moves:
  "cap_usable cap \<Longrightarrow> set_cap_tx cur cap actor db = Inr (a, db') \<Longrightarrow> moved db db'"
  by (auto simp: set_cap_tx_def Let_def res_simps moved_def row_ok_def plain_record_def)

lemma in_tx_moves:
  assumes "\<And>a db'. f db = Inr (a, db') \<Longrightarrow> db' = db \<or> moved db db'"
  shows "snd (in_tx f db) = db \<or> moved db (snd (in_tx f db))"
  using assms by (auto simp: in_tx_def split: sum.split)

lemma pause_moves: "set_paused b db = (res, db') \<Longrightarrow> db' = db \<or> moved db db'"
  by (auto simp: set_paused_def update_row_def moved_def res_simps split: option.splits)

lemma step_moves:
  assumes "control_step db db'"
  shows "db' = db \<or> moved db db'"
  using assms
proof (cases rule: control_step.cases)
  case (initializes seed)
  then show ?thesis
    using in_tx_moves [where f = "initialize_tx seed" and db = db] initialize_tx_moves [of seed db]
    by (auto simp: initialize_once_def split: if_splits)
next
  case (advances cur rec)
  then show ?thesis
    using in_tx_moves [where f = "advance_tx cur rec" and db = db] advance_tx_moves [of rec cur db]
    by (auto simp: advance_floor_def split: if_splits)
next
  case (sets_cap cur cap actor)
  then show ?thesis
    using in_tx_moves [where f = "set_cap_tx cur cap actor" and db = db] set_cap_tx_moves [of cap cur actor db]
    by (auto simp: set_max_per_uid_def split: if_splits sum.splits)
next
  case (pauses b)
  then show ?thesis using pause_moves by (metis prod.collapse)
qed

section \<open>The invariant\<close>

definition audited :: "rollout_db \<Rightarrow> bool" where
  "audited db \<longleftrightarrow>
     (case singleton db of
        None \<Rightarrow> advances db = []
      | Some s \<Rightarrow> validate_rollout_state s = Inr () \<and> advances db \<noteq> [] \<and>
          linked (OtherMode []) (advances db) (rs_floor s) \<and> int (length (advances db)) \<le> rs_version s)"

lemma moved_audited:
  assumes "moved db db'" and "audited db"
  shows "audited db'"
proof (cases "singleton db")
  case None
  with assms obtain s' rows where "singleton db' = Some s'" "advances db' = rows" "length rows = 1"
    "validate_rollout_state s' = Inr ()" "rs_version s' = 1" "linked (OtherMode []) rows (rs_floor s')"
    by (auto simp: moved_def audited_def)
  then show ?thesis by (auto simp: audited_def)
next
  case (Some s)
  with assms(1) obtain s' rows where m: "singleton db' = Some s'" "advances db' = advances db @ rows"
    "rs_version s' = rs_version s + 1" "length rows \<le> 1" "linked (rs_floor s) rows (rs_floor s')"
    "validate_rollout_state s = Inr () \<longrightarrow> validate_rollout_state s' = Inr ()"
    by (auto simp: moved_def)
  from assms(2) Some have a: "validate_rollout_state s = Inr ()" "advances db \<noteq> []"
    "linked (OtherMode []) (advances db) (rs_floor s)" "int (length (advances db)) \<le> rs_version s"
    by (auto simp: audited_def)
  have "linked (OtherMode []) (advances db') (rs_floor s')"
    using m(2,5) a(3) by (auto simp: linked_append)
  with m a show ?thesis by (simp add: audited_def)
qed

lemma step_audited: "control_step db db' \<Longrightarrow> audited db \<Longrightarrow> audited db'"
  by (drule step_moves) (elim disjE, simp, rule moved_audited)

lemma reach_audited:
  assumes "control_reach db db'" and "audited db"
  shows "audited db'"
  using assms by (induction rule: rtranclp_induct) (simp_all only: step_audited)

definition newer :: "rollout_db \<Rightarrow> rollout_db \<Rightarrow> bool" where
  "newer db db' \<longleftrightarrow> (\<forall>s. singleton db = Some s \<longrightarrow> (\<exists>s'. singleton db' = Some s' \<and>
     rank (rs_floor s) \<le> rank (rs_floor s') \<and> (s' = s \<or> rs_version s < rs_version s')))"

lemma moved_later: "moved db db' \<Longrightarrow> newer db db'"
  by (auto simp: moved_def newer_def dest: linked_rank)

lemma newer_trans:
  assumes "newer a b" and "newer b c"
  shows "newer a c"
  unfolding newer_def
proof (intro allI impI)
  fix s assume "singleton a = Some s"
  with assms(1) obtain s' where s': "singleton b = Some s'" "rank (rs_floor s) \<le> rank (rs_floor s')"
    "s' = s \<or> rs_version s < rs_version s'" by (auto simp: newer_def)
  with assms(2) obtain s'' where "singleton c = Some s''" "rank (rs_floor s') \<le> rank (rs_floor s'')"
    "s'' = s' \<or> rs_version s' < rs_version s''" by (auto simp: newer_def)
  with s' show "\<exists>s'. singleton c = Some s' \<and> rank (rs_floor s) \<le> rank (rs_floor s') \<and>
      (s' = s \<or> rs_version s < rs_version s')"
    by force
qed

lemma step_later: "control_step db db' \<Longrightarrow> newer db db'"
  by (drule step_moves) (elim disjE, simp add: newer_def, rule moved_later)

lemma reach_later:
  assumes "control_reach db db'"
  shows "newer db db'"
  using assms
proof (induction rule: rtranclp_induct)
  case base
  show ?case by (simp add: newer_def)
next
  case (step b c)
  show ?case by (rule newer_trans [OF step.IH step_later [OF step.hyps(2)]])
qed

end
