(* ===== verification/Writer_Registry.thy ===== *)
theory Writer_Registry
  imports Rollout_State "HOL-Library.List_Lexorder" "HOL-Library.Char_ord"
begin

text \<open>
  The writer registry of writer_registry.go: a replica may create credentials only while it holds a
  lease, an entry in Redis that lives thirty seconds, next to a roster of the identities.  JSON is a
  parameter (\<open>entry_codec\<close>), and so are the commands of Redis; the roster is a set of its own.
  Times are milliseconds.
\<close>

section \<open>Entries and their Redis commands\<close>

record writer_entry =
  w_id :: string
  w_build :: string
  w_applied :: string
  w_pod :: string
  w_started :: int

record entry_codec =
  marshal_entry :: "writer_entry \<Rightarrow> string"
  unmarshal_entry :: "string \<Rightarrow> writer_entry option"

record 's roster =
  members_of :: "'s \<Rightarrow> int \<Rightarrow> string \<Rightarrow> string set"
  sadd :: "int \<Rightarrow> string \<Rightarrow> string \<Rightarrow> 's \<Rightarrow> 's"
  srem :: "int \<Rightarrow> string \<Rightarrow> string \<Rightarrow> 's \<Rightarrow> 's"

text \<open>Sets do not expire by themselves, and a string command on another key leaves them alone.\<close>

locale roster_laws = kv_laws r
  for r :: "'s kv" +
  fixes q :: "'s roster"
  assumes members_sadd: "members_of q (sadd q t k m s) t' k' =
      (if k' = k then insert m (members_of q s t' k) else members_of q s t' k')"
    and members_srem: "members_of q (srem q t k m s) t' k' =
      (if k' = k then members_of q s t' k - {m} else members_of q s t' k')"
    and get_sadd: "k' \<noteq> k \<Longrightarrow> kv_get r (sadd q t k m s) t' k' = kv_get r s t' k'"
    and get_srem: "k' \<noteq> k \<Longrightarrow> kv_get r (srem q t k m s) t' k' = kv_get r s t' k'"
    and pttl_sadd: "k' \<noteq> k \<Longrightarrow> kv_pttl r (sadd q t k m s) t' k' = kv_pttl r s t' k'"
    and pttl_srem: "k' \<noteq> k \<Longrightarrow> kv_pttl r (srem q t k m s) t' k' = kv_pttl r s t' k'"
    and members_set: "k' \<noteq> k \<Longrightarrow> members_of q (kv_set r t k v d s) t' k' = members_of q s t' k'"
    and members_del: "k' \<noteq> k \<Longrightarrow> members_of q (kv_del r t k s) t' k' = members_of q s t' k'"
    and members_later: "members_of q s t k = members_of q s t' k"

definition roster_key :: "string \<Rightarrow> string" where "roster_key p = p @ ''writers''"
definition entry_key :: "string \<Rightarrow> string \<Rightarrow> string" where "entry_key p i = p @ ''writer:'' @ i"

definition writer_lease_ttl :: int where "writer_lease_ttl = 30000"
definition writer_lease_margin :: int where "writer_lease_margin = 5000"

definition publish_writer_lease ::
    "'s kv \<Rightarrow> 's roster \<Rightarrow> entry_codec \<Rightarrow> string \<Rightarrow> int \<Rightarrow> writer_entry \<Rightarrow> 's \<Rightarrow> 's" where
  "publish_writer_lease r q J p t e s =
     kv_set r t (entry_key p (w_id e)) (marshal_entry J e) (Some writer_lease_ttl)
       (sadd q t (roster_key p) (w_id e) s)"

text \<open>The heartbeat at the end of its context, when the server has stopped: the entry and the member go.\<close>

definition leave_registry :: "'s kv \<Rightarrow> 's roster \<Rightarrow> string \<Rightarrow> int \<Rightarrow> string \<Rightarrow> 's \<Rightarrow> 's" where
  "leave_registry r q p t i s = srem q t (roster_key p) i (kv_del r t (entry_key p i) s)"

text \<open>A candidate for pruning: its entry was missing, or had a value that is not an entry.\<close>

datatype stale_writer = Missing string | Unreadable string string

definition prune_writer_lease ::
    "'s kv \<Rightarrow> 's roster \<Rightarrow> string \<Rightarrow> int \<Rightarrow> stale_writer \<Rightarrow> 's \<Rightarrow> 's" where
  "prune_writer_lease r q p t x s =
     (case x of
        Missing i \<Rightarrow>
          if kv_get r s t (entry_key p i) = None then srem q t (roster_key p) i s else s
      | Unreadable i v \<Rightarrow>
          if kv_get r s t (entry_key p i) = Some v then srem q t (roster_key p) i s else s)"

text \<open>\<open>Live\<close>, given the roster in the order \<open>SMEMBERS\<close> gave it and what \<open>MGET\<close> found.\<close>

fun live_entries ::
    "entry_codec \<Rightarrow> (string \<times> string option) list \<Rightarrow> writer_entry list \<times> stale_writer list" where
  "live_entries J [] = ([], [])"
| "live_entries J ((i, v) # rest) =
     (let (live, stale) = live_entries J rest
      in case v of
           None \<Rightarrow> (live, Missing i # stale)
         | Some raw \<Rightarrow>
             if blank raw then (live, Unreadable i raw # stale)
             else (case unmarshal_entry J raw of
                     None \<Rightarrow> (live, Unreadable i raw # stale)
                   | Some e \<Rightarrow> (e # live, stale)))"

definition live_writers ::
    "'s kv \<Rightarrow> entry_codec \<Rightarrow> string \<Rightarrow> int \<Rightarrow> string list \<Rightarrow> 's \<Rightarrow> writer_entry list \<times> stale_writer list" where
  "live_writers r J p t ids s = live_entries J (map (\<lambda>i. (i, kv_get r s t (entry_key p i))) ids)"

section \<open>The fingerprint and the convergence window\<close>

definition writer_set_fingerprint :: "writer_entry list \<Rightarrow> string" where
  "writer_set_fingerprint es =
     hex_encode (sha256 (str_join '','' (sort (show_nat (length es) #
       map (\<lambda>e. w_id e @ ''|'' @ w_build e @ ''|'' @ w_applied e) es))))"

record convergence =
  cv_fingerprint :: string
  cv_since :: int

definition new_convergence :: convergence where
  "new_convergence = \<lparr>cv_fingerprint = [], cv_since = 0\<rparr>"

definition observe_writers :: "writer_entry list \<Rightarrow> int \<Rightarrow> convergence \<Rightarrow> int \<times> convergence" where
  "observe_writers es now c =
     (let fp = writer_set_fingerprint es
      in if fp \<noteq> cv_fingerprint c then (0, \<lparr>cv_fingerprint = fp, cv_since = now\<rparr>)
         else if now < cv_since c then (0, c\<lparr>cv_since := now\<rparr>)
         else (now - cv_since c, c))"

section \<open>The lease on the side of the replica\<close>

record writer_registry =
  rg_self :: writer_entry
  rg_last :: "int option"

text \<open>\<open>MayWrite\<close>.\<close>

definition may_write :: "int \<Rightarrow> writer_registry \<Rightarrow> bool" where
  "may_write now g =
     (case rg_last g of None \<Rightarrow> False | Some t \<Rightarrow> now - t < writer_lease_ttl - writer_lease_margin)"

text \<open>\<open>mayWrite\<close> of the store: without a registry, only the fence counts.\<close>

definition store_may_write :: "bool \<Rightarrow> int \<Rightarrow> writer_registry option \<Rightarrow> bool" where
  "store_may_write fenced now g =
     (\<not> fenced \<and> (case g of None \<Rightarrow> True | Some g \<Rightarrow> may_write now g))"

text \<open>
  \<open>refresh\<close> and \<open>PublishAppliedState\<close> under \<open>writeMu\<close>: the candidate that is published, and what is kept
  when Redis has accepted it.
\<close>

definition joined :: "writer_registry \<Rightarrow> bool" where "joined g \<longleftrightarrow> w_id (rg_self g) \<noteq> []"

definition publish_candidate :: "writer_registry \<Rightarrow> string \<Rightarrow> rollout_error + writer_entry" where
  "publish_candidate g state =
     (if blank state then Inl BadMode
      else if \<not> joined g then Inl NoRegistry
      else Inr ((rg_self g)\<lparr>w_applied := state\<rparr>))"

definition published :: "writer_entry \<Rightarrow> int \<Rightarrow> writer_registry \<Rightarrow> writer_registry" where
  "published e now g = g\<lparr>rg_self := e, rg_last := Some now\<rparr>"

definition needs_publish :: "writer_registry \<Rightarrow> string \<Rightarrow> bool" where
  "needs_publish g state \<longleftrightarrow> w_applied (rg_self g) \<noteq> state"

definition join_entry :: "string \<Rightarrow> string \<Rightarrow> string \<Rightarrow> string \<Rightarrow> int \<Rightarrow> writer_entry" where
  "join_entry i build pod state now =
     \<lparr>w_id = i, w_build = build, w_applied = state, w_pod = pod, w_started = now\<rparr>"

end
