(* ===== verification/Rollout_Observe.thy ===== *)
theory Rollout_Observe
  imports Rollout_State
begin

text \<open>
  The session rollout, \<open>ObserveRateLimited\<close> of session_store.go: the scan over the token keys that
  counts what kinds of records there are.  What Redis, the scan lease and the context answer in one
  turn of the loop is a \<open>scan_round\<close>; a scan that met another Redis process starts again.
\<close>

section \<open>One record\<close>

definition count_expiry :: "int \<Rightarrow> int \<Rightarrow> observation \<Rightarrow> observation" where
  "count_expiry max_ns d stats =
     (if d = -1 then stats\<lparr>o_persistent := o_persistent stats + 1\<rparr>
      else if 0 < d then
        (let stats = stats\<lparr>o_finite := o_finite stats + 1\<rparr>
         in if max_ns < d then stats\<lparr>o_over_max := o_over_max stats + 1\<rparr> else stats)
      else stats\<lparr>o_invalid_ttl := o_invalid_ttl stats + 1\<rparr>)"

definition count_version :: "string \<Rightarrow> observation \<Rightarrow> observation" where
  "count_version raw stats =
     (if prefix v3_prefix raw then stats\<lparr>o_v3 := o_v3 stats + 1\<rparr>
      else if prefix v2_prefix raw then stats\<lparr>o_v2 := o_v2 stats + 1\<rparr>
      else stats\<lparr>o_v1 := o_v1 stats + 1\<rparr>)"

text \<open>What the loop over the keys does with a record that it has read.\<close>

definition observe_record :: "codec \<Rightarrow> int \<Rightarrow> token_record \<Rightarrow> observation \<Rightarrow> observation" where
  "observe_record J max_ns rec stats =
     (let stats = stats\<lparr>o_total := o_total stats + 1\<rparr>
      in if ttl rec = -2 then stats\<lparr>o_missing := o_missing stats + 1\<rparr>
         else case decode J (payload rec) of
                Inl _ \<Rightarrow> stats\<lparr>o_decode_invalid := o_decode_invalid stats + 1\<rparr>
              | Inr _ \<Rightarrow> count_version (payload rec) (count_expiry max_ns (ttl rec) stats))"

section \<open>The loop\<close>

text \<open>A key of a batch: the lease or the context ended the scan, or the read gave an answer.\<close>

datatype key_read = KeyStopped | KeyRead "auth_error + token_record"

text \<open>The identity of the Redis process, asked before and after the work: it may have changed.\<close>

datatype identity = Unknown | Same | Moved string

datatype scan_reply = ScanFailed | ScanMoved string | Scanned "key_read list" nat

record scan_round =
  sr_stopped :: bool
  sr_reply :: scan_reply
  sr_check :: identity
  sr_final :: identity
  sr_confirms :: "nat \<Rightarrow> bool"
  sr_id :: bool

datatype scan_end = ScanError | ScanDone | ScanOpen

text \<open>The keys of a batch, in order, up to the first failure.\<close>

fun observe_keys ::
    "codec \<Rightarrow> int \<Rightarrow> key_read list \<Rightarrow> observation \<Rightarrow> (observation + observation)" where
  "observe_keys J max_ns [] stats = Inr stats"
| "observe_keys J max_ns (KeyStopped # ks) stats = Inl stats"
| "observe_keys J max_ns (KeyRead (Inl e) # ks) stats =
     Inl (stats\<lparr>o_total := o_total stats + 1, o_read_errors := o_read_errors stats + 1\<rparr>)"
| "observe_keys J max_ns (KeyRead (Inr rec) # ks) stats =
     observe_keys J max_ns ks (observe_record J max_ns rec stats)"

definition fresh_observation :: "string \<Rightarrow> observation" where
  "fresh_observation instance_id =
     \<lparr>o_instance = instance_id, o_complete = False, o_total = 0, o_missing = 0, o_persistent = 0,
      o_finite = 0, o_over_max = 0, o_invalid_ttl = 0, o_decode_invalid = 0, o_read_errors = 0,
      o_v1 = 0, o_v2 = 0, o_v3 = 0\<rparr>"

text \<open>
  One turn: the counters with an error, with the end of the scan, or for the next turn.  A restart
  needs the lease, and a new scan id (\<open>sr_id\<close>: the random source had one).
\<close>

definition restart_observation ::
    "scan_round \<Rightarrow> nat \<Rightarrow> string \<Rightarrow> observation \<Rightarrow> scan_end \<times> observation" where
  "restart_observation x i instance_id stats =
     (if \<not> sr_confirms x i then (ScanError, stats)
      else if \<not> sr_id x then (ScanError, stats)
      else (ScanOpen, fresh_observation instance_id))"

definition observe_round :: "codec \<Rightarrow> int \<Rightarrow> scan_round \<Rightarrow> observation \<Rightarrow> scan_end \<times> observation" where
  "observe_round J max_ns x stats =
     (if sr_stopped x then (ScanError, stats)
      else
        (case sr_reply x of
           ScanFailed \<Rightarrow> (ScanError, stats)
         | ScanMoved i \<Rightarrow> restart_observation x 0 i stats
         | Scanned keys cursor \<Rightarrow>
             (case observe_keys J max_ns keys stats of
                Inl stats \<Rightarrow> (ScanError, stats)
              | Inr stats \<Rightarrow>
                  (case sr_check x of
                     Unknown \<Rightarrow> (ScanError, stats)
                   | Moved i \<Rightarrow> restart_observation x 1 i stats
                   | Same \<Rightarrow>
                       if \<not> sr_confirms x 2 then (ScanError, stats)
                       else if cursor \<noteq> 0 then (ScanOpen, stats)
                       else
                         (case sr_final x of
                            Unknown \<Rightarrow> (ScanError, stats)
                          | Moved i \<Rightarrow> restart_observation x 3 i stats
                          | Same \<Rightarrow>
                              if \<not> sr_confirms x 4 then (ScanError, stats)
                              else (ScanDone, stats\<lparr>o_complete := True\<rparr>))))))"

fun observe_rounds ::
    "codec \<Rightarrow> int \<Rightarrow> scan_round list \<Rightarrow> observation \<Rightarrow> scan_end \<times> observation" where
  "observe_rounds J max_ns [] stats = (ScanOpen, stats)"
| "observe_rounds J max_ns (x # xs) stats =
     (case observe_round J max_ns x stats of
        (ScanOpen, stats) \<Rightarrow> observe_rounds J max_ns xs stats
      | res \<Rightarrow> res)"

text \<open>
  The whole operation: the bounds of the arguments, the lease (\<open>None\<close> when somebody holds it or Redis
  fails), the first identity (\<open>None\<close> when it cannot be read).
\<close>

definition observe_rate_limited ::
    "codec \<Rightarrow> int \<Rightarrow> int \<Rightarrow> int \<Rightarrow> bool \<Rightarrow> string option \<Rightarrow> scan_round list \<Rightarrow> scan_end \<times> observation" where
  "observe_rate_limited J max_ns batch interval lease first rounds =
     (if batch \<le> 0 \<or> 10000 < batch \<or> interval < 0 \<or> \<not> lease then (ScanError, fresh_observation [])
      else case first of
             None \<Rightarrow> (ScanError, fresh_observation [])
           | Some i \<Rightarrow> observe_rounds J max_ns rounds (fresh_observation i))"

section \<open>What a completed scan says\<close>

text \<open>The records of the turns since the last restart, if the scan is completed in these turns.\<close>

fun read_records :: "key_read list \<Rightarrow> token_record list" where
  "read_records [] = []"
| "read_records (KeyRead (Inr rec) # ks) = rec # read_records ks"
| "read_records (_ # ks) = read_records ks"

definition restarts :: "scan_round \<Rightarrow> bool" where
  "restarts x \<longleftrightarrow> (case sr_reply x of
     ScanFailed \<Rightarrow> False
   | ScanMoved i \<Rightarrow> True
   | Scanned keys cursor \<Rightarrow> (\<exists>i. sr_check x = Moved i) \<or> (cursor = 0 \<and> (\<exists>i. sr_final x = Moved i)))"

definition finishes :: "scan_round \<Rightarrow> bool" where
  "finishes x \<longleftrightarrow> (case sr_reply x of Scanned keys cursor \<Rightarrow> cursor = 0 | _ \<Rightarrow> False)"

definition round_records :: "scan_round \<Rightarrow> token_record list" where
  "round_records x = (case sr_reply x of Scanned keys cursor \<Rightarrow> read_records keys | _ \<Rightarrow> [])"

fun scan_records :: "scan_round list \<Rightarrow> token_record list \<Rightarrow> token_record list" where
  "scan_records [] acc = acc"
| "scan_records (x # xs) acc =
     (if restarts x then scan_records xs []
      else if finishes x then acc @ round_records x
      else scan_records xs (acc @ round_records x))"

definition tally :: "codec \<Rightarrow> int \<Rightarrow> string \<Rightarrow> token_record list \<Rightarrow> observation" where
  "tally J max_ns i recs = fold (observe_record J max_ns) recs (fresh_observation i)"

lemma observe_keys_Inr:
  "observe_keys J max_ns ks stats = Inr stats' \<Longrightarrow>
     stats' = fold (observe_record J max_ns) (read_records ks) stats"
  by (induction J max_ns ks stats rule: observe_keys.induct) auto

lemma tally_keys:
  "observe_keys J max_ns ks (tally J max_ns i acc) = Inr stats \<Longrightarrow> stats = tally J max_ns i (acc @ read_records ks)"
  by (drule observe_keys_Inr) (simp add: tally_def)

lemma fresh_tally: "fresh_observation i = tally J max_ns i []"
  by (simp add: tally_def)

lemma restart_Open:
  "restart_observation x n i stats = (e, stats') \<Longrightarrow> e \<noteq> ScanError \<Longrightarrow> e = ScanOpen \<and> stats' = fresh_observation i"
  by (auto simp: restart_observation_def split: if_splits)

text \<open>A turn without an error: a restart, the end, or one more batch.\<close>

lemma observe_round_cases:
  assumes run: "observe_round J max_ns x (tally J max_ns i acc) = (e, stats)" and e: "e \<noteq> ScanError"
  obtains (restart) j where "restarts x" "e = ScanOpen" "stats = tally J max_ns j []"
    | (finish) "\<not> restarts x" "finishes x" "e = ScanDone"
        "stats = (tally J max_ns i (acc @ round_records x))\<lparr>o_complete := True\<rparr>"
    | (batch) "\<not> restarts x" "\<not> finishes x" "e = ScanOpen" "stats = tally J max_ns i (acc @ round_records x)"
proof (cases "sr_reply x")
  case ScanFailed
  with run e show ?thesis by (auto simp: observe_round_def split: if_splits)
next
  case (ScanMoved j)
  with run e have "restart_observation x 0 j (tally J max_ns i acc) = (e, stats)"
    by (auto simp: observe_round_def split: if_splits)
  from restart_Open [OF this e] show ?thesis
    by (intro restart [of j]) (auto simp: restarts_def fresh_tally ScanMoved)
next
  case (Scanned keys cursor)
  from run e have run': "(case observe_keys J max_ns keys (tally J max_ns i acc) of
      Inl stats \<Rightarrow> (ScanError, stats)
    | Inr stats \<Rightarrow>
        (case sr_check x of
           Unknown \<Rightarrow> (ScanError, stats)
         | Moved i \<Rightarrow> restart_observation x 1 i stats
         | Same \<Rightarrow>
             if \<not> sr_confirms x 2 then (ScanError, stats)
             else if cursor \<noteq> 0 then (ScanOpen, stats)
             else (case sr_final x of
                     Unknown \<Rightarrow> (ScanError, stats)
                   | Moved i \<Rightarrow> restart_observation x 3 i stats
                   | Same \<Rightarrow> if \<not> sr_confirms x 4 then (ScanError, stats)
                             else (ScanDone, stats\<lparr>o_complete := True\<rparr>)))) = (e, stats)"
    by (simp add: observe_round_def Scanned split: if_splits)
  then obtain st where keys: "observe_keys J max_ns keys (tally J max_ns i acc) = Inr st"
    using e by (cases "observe_keys J max_ns keys (tally J max_ns i acc)") auto
  then have st: "st = tally J max_ns i (acc @ round_records x)"
    using tally_keys by (simp add: round_records_def Scanned)
  show ?thesis
  proof (cases "sr_check x")
    case Unknown
    with run' keys e show ?thesis by simp
  next
    case (Moved j)
    with run' keys have "restart_observation x 1 j st = (e, stats)" by simp
    from restart_Open [OF this e] show ?thesis
      by (intro restart [of j]) (auto simp: restarts_def fresh_tally Moved Scanned)
  next
    case Same
    show ?thesis
    proof (cases "cursor = 0")
      case False
      with run' keys Same e have "e = ScanOpen" "stats = st" by (auto split: if_splits)
      with False Same Scanned st show ?thesis by (intro batch) (auto simp: restarts_def finishes_def)
    next
      case last: True
      show ?thesis
      proof (cases "sr_final x")
        case Unknown
        with run' keys Same last e show ?thesis by (simp split: if_splits)
      next
        case (Moved j)
        with run' keys Same last e have "restart_observation x 3 j st = (e, stats)" by (simp split: if_splits)
        from restart_Open [OF this e] show ?thesis
          by (intro restart [of j]) (auto simp: restarts_def fresh_tally Moved last Scanned)
      next
        case final: Same
        with run' keys Same last e have "e = ScanDone" "stats = st\<lparr>o_complete := True\<rparr>"
          by (auto split: if_splits)
        with final Same last Scanned st show ?thesis by (intro finish) (auto simp: restarts_def finishes_def)
      qed
    qed
  qed
qed

lemma observe_rounds_tally:
  assumes "observe_rounds J max_ns xs (tally J max_ns i acc) = (ScanDone, stats)"
  shows "\<exists>j. stats = (tally J max_ns j (scan_records xs acc))\<lparr>o_complete := True\<rparr>"
  using assms
proof (induction xs arbitrary: i acc)
  case (Cons x xs)
  obtain e st where r: "observe_round J max_ns x (tally J max_ns i acc) = (e, st)" by force
  with Cons.prems have e: "e \<noteq> ScanError" by auto
  from r e show ?case
  proof (cases rule: observe_round_cases)
    case (restart j)
    with r Cons.prems have "observe_rounds J max_ns xs (tally J max_ns j []) = (ScanDone, stats)" by simp
    from Cons.IH [OF this] restart show ?thesis by simp
  next
    case finish
    with r Cons.prems show ?thesis by auto
  next
    case batch
    with r Cons.prems have "observe_rounds J max_ns xs (tally J max_ns i (acc @ round_records x)) = (ScanDone, stats)"
      by simp
    from Cons.IH [OF this] batch show ?thesis by simp
  qed
qed simp

lemma observe_record_mono:
  "o_persistent stats \<le> o_persistent (observe_record J max_ns rec stats)"
  "o_over_max stats \<le> o_over_max (observe_record J max_ns rec stats)"
  "o_v1 stats \<le> o_v1 (observe_record J max_ns rec stats)"
  "o_v2 stats \<le> o_v2 (observe_record J max_ns rec stats)"
  by (simp_all add: observe_record_def count_expiry_def count_version_def Let_def split: sum.split)

lemma fold_mono:
  "o_persistent stats \<le> o_persistent (fold (observe_record J max_ns) recs stats)"
  "o_over_max stats \<le> o_over_max (fold (observe_record J max_ns) recs stats)"
  "o_v1 stats \<le> o_v1 (fold (observe_record J max_ns) recs stats)"
  "o_v2 stats \<le> o_v2 (fold (observe_record J max_ns) recs stats)"
proof (induction recs arbitrary: stats)
  case (Cons rec recs)
  { case 1 show ?case using order_trans [OF observe_record_mono(1) Cons.IH(1)] by simp }
  { case 2 show ?case using order_trans [OF observe_record_mono(2) Cons.IH(2)] by simp }
  { case 3 show ?case using order_trans [OF observe_record_mono(3) Cons.IH(3)] by simp }
  { case 4 show ?case using order_trans [OF observe_record_mono(4) Cons.IH(4)] by simp }
qed simp_all

lemma tally_member:
  assumes "rec \<in> set recs" and "ttl rec \<noteq> -2" and "decode J (payload rec) = Inr info"
  shows "ttl rec = -1 \<Longrightarrow> 0 < o_persistent (tally J max_ns i recs)"
    and "0 < ttl rec \<Longrightarrow> max_ns < ttl rec \<Longrightarrow> 0 < o_over_max (tally J max_ns i recs)"
    and "\<not> prefix v3_prefix (payload rec) \<Longrightarrow> 0 < o_v1 (tally J max_ns i recs) + o_v2 (tally J max_ns i recs)"
proof -
  from assms(1) obtain xs ys where recs: "recs = xs @ rec # ys" by (meson split_list)
  let ?a = "tally J max_ns i xs" and ?b = "observe_record J max_ns rec (tally J max_ns i xs)"
  have t: "tally J max_ns i recs = fold (observe_record J max_ns) ys ?b"
    by (simp add: recs tally_def)
  have a: "0 \<le> o_persistent ?a" "0 \<le> o_over_max ?a" "0 \<le> o_v1 ?a" "0 \<le> o_v2 ?a"
    using fold_mono [of "fresh_observation i" J max_ns xs] by (simp_all add: tally_def fresh_observation_def)
  note m = fold_mono [of ?b J max_ns ys]
  note d = observe_record_def count_expiry_def count_version_def Let_def
  show "0 < o_persistent (tally J max_ns i recs)" if "ttl rec = -1"
    unfolding t using that assms(2,3) a(1) m(1) by (simp add: d split: if_splits)
  show "0 < o_over_max (tally J max_ns i recs)" if "0 < ttl rec" "max_ns < ttl rec"
    unfolding t using that assms(2,3) a(2) m(2) by (simp add: d split: if_splits)
  show "0 < o_v1 (tally J max_ns i recs) + o_v2 (tally J max_ns i recs)" if "\<not> prefix v3_prefix (payload rec)"
    unfolding t using that assms(2,3) a(3,4) m(3,4) by (simp add: d split: if_splits)
qed

end
