(* ===== verification/Rollout_Advance.thy ===== *)
theory Rollout_Advance
  imports Writer_Registry Rollout_Observe
begin

text \<open>
  The session rollout, when the floor moves: \<open>EvaluateRolloutAdvance\<close> of session_rollout_predicate.go
  and the reconciler of session_rollout_reconciler.go.  What the registry, the scan and the clock
  answer is an argument; times are milliseconds.
\<close>

section \<open>The predicate\<close>

record advance_input =
  in_state :: rollout_state
  in_live :: "(rollout_error + writer_entry list) option"
  in_final :: "rollout_error + writer_entry list"
  in_expect :: int
  in_convergence :: "convergence option"
  in_scan :: "scan_end \<times> observation"
  in_now :: int

record decision =
  d_current :: session_mode
  d_target :: session_mode
  d_version :: int
  d_allowed :: bool
  d_blocked :: "string list"
  d_cap :: int
  d_scanned :: bool
  d_observation :: "observation option"
  d_options :: "string list"
  d_fingerprint :: string
  d_redis :: string

definition convergence_prefix :: string where "convergence_prefix = ''writer set stable for ''"
definition convergence_unobserved :: string where
  "convergence_unobserved = ''writer convergence has not been observed over time''"
definition expect_writers_env :: string where "expect_writers_env = ''OCTO_AUTH_SESSION_EXPECT_WRITERS''"

text \<open>A duration below a minute, cut to seconds, as Go prints it.\<close>

definition show_seconds :: "int \<Rightarrow> string" where
  "show_seconds ms = show_int (ms div 1000) @ ''s''"

text \<open>The roster: every live writer runs the same build and has applied the floor.\<close>

definition behind :: "session_mode \<Rightarrow> writer_entry list \<Rightarrow> nat" where
  "behind fl es = length (filter (\<lambda>e. rank (mode_of (w_applied e)) < rank fl) es)"

definition fleet_blockers :: "session_mode \<Rightarrow> writer_entry list \<Rightarrow> string list" where
  "fleet_blockers fl es =
     (if es = [] then [''no live writers registered'']
      else
        let builds = length (remdups (map w_build es))
        in (if 1 < builds then [show_nat builds @ '' distinct builds are live''] else []) @
           (if 0 < behind fl es
            then [show_nat (behind fl es) @ '' of '' @ show_nat (length es) @
                  '' writers have not applied floor '' @ mode_text fl] else []))"

definition first_floor_blockers ::
    "int \<Rightarrow> convergence option \<Rightarrow> writer_entry list \<Rightarrow> int \<Rightarrow> string list \<times> convergence option" where
  "first_floor_blockers expect conv es now =
     (let count =
            (if expect \<le> 0 then [expect_writers_env @ '' is required to establish the first v3 floor'']
             else if int (length es) \<noteq> expect
             then [''expected '' @ show_int expect @ '' writers, registry has '' @ show_nat (length es)]
             else [])
      in case conv of
           None \<Rightarrow> (count @ [convergence_unobserved], None)
         | Some c \<Rightarrow>
             let (stable, c) = observe_writers es now c
             in (count @ (if stable < writer_lease_ttl
                          then [convergence_prefix @ show_seconds stable @ '', need 30s''] else []), Some c))"

definition show_counts :: "string \<Rightarrow> int \<Rightarrow> string \<Rightarrow> int \<Rightarrow> string" where
  "show_counts a m b n = a @ ''='' @ show_int m @ '' '' @ b @ ''='' @ show_int n @ '' (need 0)''"

definition scan_blockers :: "session_mode \<Rightarrow> observation \<Rightarrow> string list \<times> string list" where
  "scan_blockers target stats =
     (if target = Bounded \<and> (o_persistent stats \<noteq> 0 \<or> o_over_max stats \<noteq> 0)
      then ([show_counts ''persistent'' (o_persistent stats) ''over_max'' (o_over_max stats)],
            [''wait: legacy records expire on their own'',
             ''migrate --finite-policy natural --cutoff <T>: converge them on an approved deadline''])
      else if target = Enforce \<and> (o_v1 stats \<noteq> 0 \<or> o_v2 stats \<noteq> 0)
      then ([show_counts ''v1'' (o_v1 stats) ''v2'' (o_v2 stats)],
            [''wait: active users are promoted on reuse; inactive ones expire at TokenExpire'',
             ''migrate --finite-policy cap --cutoff <T>: converge them, at the cost of an early re-login''])
      else ([], []))"

definition plain_decision :: "rollout_state \<Rightarrow> string list \<Rightarrow> decision" where
  "plain_decision st blocked =
     \<lparr>d_current = rs_floor st, d_target = next_mode (rs_floor st), d_version = rs_version st,
      d_allowed = False, d_blocked = blocked, d_cap = rs_cap st, d_scanned = False,
      d_observation = None, d_options = [], d_fingerprint = [], d_redis = []\<rparr>"

definition needs_scan :: "session_mode \<Rightarrow> bool" where
  "needs_scan target \<longleftrightarrow> target = Enforce \<or> target = V3Write \<or> target = Bounded"

definition sort_strings :: "string list \<Rightarrow> string list" where
  "sort_strings ss = sort ss"

text \<open>The decision, and the window of the caller after the evaluation.\<close>

definition evaluate_rollout_advance ::
    "advance_input \<Rightarrow> (rollout_error + decision) \<times> convergence option" where
  "evaluate_rollout_advance x =
     (let st = in_state x; fl = rs_floor st; target = next_mode fl; conv = in_convergence x in
      case validate_rollout_state st of
        Inl e \<Rightarrow> (Inl e, conv)
      | Inr _ \<Rightarrow>
      if fl = Enforce then (Inr (plain_decision st [''floor is already enforce'']), conv)
      else if rs_paused st then (Inr (plain_decision st [''rollout is paused'']), conv)
      else
      case (case in_live x of
              None \<Rightarrow> Inr ([], [''writer registry unavailable''], [])
            | Some (Inl e) \<Rightarrow> Inl e
            | Some (Inr es) \<Rightarrow> Inr (es, fleet_blockers fl es, writer_set_fingerprint es)) of
        Inl e \<Rightarrow> (Inl e, conv)
      | Inr (es, fleet, fingerprint) \<Rightarrow>
      if needs_scan target \<and> fst (in_scan x) \<noteq> ScanDone then (Inl StoreFailed, conv)
      else
        let stats = (if needs_scan target then snd (in_scan x) else fresh_observation []);
            incomplete = (if needs_scan target \<and> \<not> o_complete stats then [''keyspace scan did not complete''] else []);
            (first_floor, conv) =
              (if target = V3Write then first_floor_blockers (in_expect x) conv es (in_now x) else ([], conv));
            (counts, options) = scan_blockers target stats
        in case (case in_live x of
                   None \<Rightarrow> Inr []
                 | Some _ \<Rightarrow>
                     bind_res (in_final x) (\<lambda>es'.
                     Inr (if writer_set_fingerprint es' \<noteq> fingerprint
                          then [''writer set changed during evaluation''] else []))) of
             Inl e \<Rightarrow> (Inl e, conv)
           | Inr changed \<Rightarrow>
               let blocked = sort_strings (fleet @ incomplete @ first_floor @ counts @ changed)
               in (Inr ((plain_decision st blocked)\<lparr>d_allowed := blocked = [], d_scanned := needs_scan target,
                     d_observation := (if needs_scan target then Some stats else None),
                     d_options := options, d_fingerprint := fingerprint,
                     d_redis := (if needs_scan target then o_instance stats else [])\<rparr>), conv))"

section \<open>What the callers make of a decision\<close>

definition blocked_summary :: "decision \<Rightarrow> string" where
  "blocked_summary d = str_join ''; '' (d_blocked d)"

definition undeterminable :: "string \<Rightarrow> bool" where
  "undeterminable reason \<longleftrightarrow>
     str_contains reason convergence_prefix \<or> str_contains reason convergence_unobserved"

definition blocked_only_on_convergence :: "decision \<Rightarrow> bool" where
  "blocked_only_on_convergence d \<longleftrightarrow> d_blocked d \<noteq> [] \<and> list_all undeterminable (d_blocked d)"

definition split_undeterminable :: "string list \<Rightarrow> string list \<times> string list" where
  "split_undeterminable bs = (filter undeterminable bs, filter (\<lambda>b. \<not> undeterminable b) bs)"

definition blocked_reason_label :: "string \<Rightarrow> string" where
  "blocked_reason_label reason =
     (if str_contains reason ''no live writers'' then ''no-writers''
      else if str_contains reason ''distinct builds'' then ''mixed-builds''
      else if str_contains reason ''have not applied'' then ''not-converged''
      else if str_contains reason ''expected'' then ''writer-count-mismatch''
      else if str_contains reason ''stable for'' \<or> str_contains reason ''convergence has not been observed''
      then ''not-converged-long-enough''
      else if str_contains reason expect_writers_env then ''expect-writers-unset''
      else if str_contains reason ''v1='' then ''legacy-remaining''
      else if str_contains reason ''did not complete'' then ''scan-incomplete''
      else if str_contains reason ''already enforce'' then ''terminal''
      else ''other'')"

section \<open>Committing a decision\<close>

definition rollout_advance_record :: "decision \<Rightarrow> string \<Rightarrow> advance_record" where
  "rollout_advance_record d actor =
     \<lparr>a_from = d_current d, a_to = d_target d, a_actor = actor, a_kind = [], a_redis = d_redis d,
      a_fingerprint = d_fingerprint d, a_observation = d_observation d, a_cap_change = None\<rparr>"

definition decision_state :: "decision \<Rightarrow> rollout_state" where
  "decision_state d =
     \<lparr>rs_floor = d_current d, rs_cap = d_cap d, rs_version = d_version d, rs_paused = False\<rparr>"

text \<open>\<open>advance\<close> of the reconciler: a lost race is no error.\<close>

definition advance_decision ::
    "decision \<Rightarrow> string \<Rightarrow> rollout_db \<Rightarrow> (rollout_error + unit) \<times> rollout_db" where
  "advance_decision d actor db =
     (case advance_floor (decision_state d) (rollout_advance_record d actor) db of
        (Inr _, db') \<Rightarrow> (Inr (), db')
      | (Inl ControlChanged, db') \<Rightarrow> (Inr (), db')
      | (Inl e, db') \<Rightarrow> (Inl e, db'))"

definition force_advance_rollout :: "decision \<Rightarrow> rollout_db \<Rightarrow> (rollout_error + unit) \<times> rollout_db" where
  "force_advance_rollout d db =
     (if \<not> d_allowed d then (Inl NotAllowed, db)
      else case advance_floor (decision_state d) (rollout_advance_record d ''operator'') db of
             (Inr _, db') \<Rightarrow> (Inr (), db')
           | (Inl e, db') \<Rightarrow> (Inl e, db'))"

definition reconcile_interval :: int where "reconcile_interval = 30000"
definition reconcile_scan_backoff :: int where "reconcile_scan_backoff = 3600000"
definition terminal_backoff :: int where "terminal_backoff = 24 * 3600000"

text \<open>
  \<open>reconcileOnce\<close> in its two halves: up to the decision (the time of the next cycle, or a decision to
  commit), and the commit on the database of that later moment.
\<close>

definition reconcile_decide ::
    "int \<Rightarrow> bool \<Rightarrow> rollout_error + rollout_state \<Rightarrow> advance_input \<Rightarrow> (int + decision) \<times> convergence option" where
  "reconcile_decide now enabled loaded x =
     (let soon = now + reconcile_interval in
      case loaded of
        Inl _ \<Rightarrow> (Inl soon, in_convergence x)
      | Inr st \<Rightarrow>
          if rs_paused st \<or> \<not> enabled then (Inl soon, in_convergence x)
          else
            (case evaluate_rollout_advance (x\<lparr>in_state := st\<rparr>) of
               (Inl _, conv) \<Rightarrow> (Inl (now + reconcile_scan_backoff), conv)
             | (Inr d, conv) \<Rightarrow>
                 if d_current d = Enforce then (Inl (now + terminal_backoff), conv)
                 else if \<not> d_allowed d then
                   (Inl (if d_scanned d \<and> \<not> blocked_only_on_convergence d
                         then now + reconcile_scan_backoff else soon), conv)
                 else (Inr d, conv)))"

definition reconcile_commit :: "int \<Rightarrow> int + decision \<Rightarrow> rollout_db \<Rightarrow> int \<times> rollout_db" where
  "reconcile_commit now choice db =
     (case choice of
        Inl t \<Rightarrow> (t, db)
      | Inr d \<Rightarrow>
          (case advance_decision d ''reconciler'' db of
             (Inl _, db') \<Rightarrow> (now + reconcile_interval, db')
           | (Inr _, db') \<Rightarrow> (now, db')))"

section \<open>When the floor may move\<close>

definition advance_justified :: "advance_input \<Rightarrow> bool" where
  "advance_justified x \<longleftrightarrow>
     (\<exists>es es'. in_live x = Some (Inr es) \<and> in_final x = Inr es' \<and>
        writer_set_fingerprint es' = writer_set_fingerprint es \<and> es \<noteq> [] \<and>
        (\<forall>e \<in> set es. \<forall>e' \<in> set es. w_build e = w_build e') \<and>
        (\<forall>e \<in> set es. rank (rs_floor (in_state x)) \<le> rank (mode_of (w_applied e))) \<and>
        (let stats = snd (in_scan x) in
         case rs_floor (in_state x) of
           Expand \<Rightarrow> in_scan x = (ScanDone, stats) \<and> o_complete stats \<and> int (length es) = in_expect x \<and>
             (\<exists>c. in_convergence x = Some c \<and> writer_lease_ttl \<le> fst (observe_writers es (in_now x) c))
         | V3Write \<Rightarrow> True
         | Revoke \<Rightarrow> in_scan x = (ScanDone, stats) \<and> o_complete stats \<and>
             o_persistent stats = 0 \<and> o_over_max stats = 0
         | Bounded \<Rightarrow> in_scan x = (ScanDone, stats) \<and> o_complete stats \<and> o_v1 stats = 0 \<and> o_v2 stats = 0
         | _ \<Rightarrow> False))"

lemma sort_strings_Nil [simp]: "sort_strings ss = [] \<longleftrightarrow> ss = []"
  by (metis length_0_conv length_sort sort_strings_def)

lemma fleet_blockers_Nil:
  "fleet_blockers fl es = [] \<longleftrightarrow> es \<noteq> [] \<and> (\<forall>e \<in> set es. \<forall>e' \<in> set es. w_build e = w_build e') \<and>
     (\<forall>e \<in> set es. rank fl \<le> rank (mode_of (w_applied e)))"
proof -
  have "\<not> 1 < length (remdups bs) \<longleftrightarrow> (\<forall>b \<in> set bs. \<forall>b' \<in> set bs. b = b')" for bs :: "string list"
    by (simp add: length_remdups_card_conv card_le_Suc0_iff_eq not_less)
  from this [of "map w_build es"]
  have "\<not> 1 < length (remdups (map w_build es)) \<longleftrightarrow> (\<forall>e \<in> set es. \<forall>e' \<in> set es. w_build e = w_build e')"
    by simp
  moreover have "\<not> 0 < behind fl es \<longleftrightarrow> (\<forall>e \<in> set es. rank fl \<le> rank (mode_of (w_applied e)))"
    by (auto simp: behind_def filter_empty_conv not_less)
  moreover have "fleet_blockers fl es = [] \<longleftrightarrow> es \<noteq> [] \<and> \<not> 1 < length (remdups (map w_build es)) \<and> \<not> 0 < behind fl es"
    by (simp add: fleet_blockers_def Let_def)
  ultimately show ?thesis by (simp only:)
qed

lemma first_floor_blockers_Nil:
  assumes "es \<noteq> []"
  shows "fst (first_floor_blockers expect conv es now) = [] \<longleftrightarrow> int (length es) = expect \<and>
     (\<exists>c. conv = Some c \<and> writer_lease_ttl \<le> fst (observe_writers es now c))"
proof -
  have "0 < int (length es)" using assms by simp
  then show ?thesis
    by (cases conv) (auto simp: first_floor_blockers_def Let_def convergence_unobserved_def convergence_prefix_def
      split: prod.split if_splits)
qed

lemma scan_blockers_Nil:
  "fst (scan_blockers target stats) = [] \<longleftrightarrow>
     (target = Bounded \<longrightarrow> o_persistent stats = 0 \<and> o_over_max stats = 0) \<and>
     (target = Enforce \<longrightarrow> o_v1 stats = 0 \<and> o_v2 stats = 0)"
  by (auto simp: scan_blockers_def)

lemma target_modes:
  "next_mode m \<noteq> Expand" "next_mode m \<noteq> OtherMode s"
  "next_mode m = V3Write \<longleftrightarrow> m = Expand" "next_mode m = Revoke \<longleftrightarrow> m = V3Write"
  "next_mode m = Bounded \<longleftrightarrow> m = Revoke"
  by (cases m; simp)+

text \<open>The decision of an evaluation that passes the guards and gets its answers.\<close>

definition describes :: "advance_input \<Rightarrow> writer_entry list \<Rightarrow> writer_entry list \<Rightarrow> decision \<Rightarrow> bool" where
  "describes x es es' d \<longleftrightarrow>
     (d_allowed d \<longleftrightarrow> fleet_blockers (rs_floor (in_state x)) es = [] \<and>
        (needs_scan (next_mode (rs_floor (in_state x))) \<longrightarrow> o_complete (snd (in_scan x))) \<and>
        (rs_floor (in_state x) = Expand \<longrightarrow>
          fst (first_floor_blockers (in_expect x) (in_convergence x) es (in_now x)) = []) \<and>
        (needs_scan (next_mode (rs_floor (in_state x))) \<longrightarrow>
          fst (scan_blockers (next_mode (rs_floor (in_state x))) (snd (in_scan x))) = []) \<and>
        writer_set_fingerprint es' = writer_set_fingerprint es) \<and>
     d_current d = rs_floor (in_state x) \<and> d_target d = next_mode (rs_floor (in_state x)) \<and>
     d_version d = rs_version (in_state x) \<and> d_cap d = rs_cap (in_state x) \<and>
     d_fingerprint d = writer_set_fingerprint es \<and>
     d_observation d =
       (if needs_scan (next_mode (rs_floor (in_state x))) then Some (snd (in_scan x)) else None)"

lemma evaluate_open:
  assumes "validate_rollout_state (in_state x) = Inr u" and "rs_floor (in_state x) \<noteq> Enforce"
    and "\<not> rs_paused (in_state x)" and "in_live x = Some (Inr es)"
    and "needs_scan (next_mode (rs_floor (in_state x))) \<Longrightarrow> fst (in_scan x) = ScanDone"
    and "in_final x = Inr es'"
  shows "\<exists>d conv'. evaluate_rollout_advance x = (Inr d, conv') \<and> describes x es es' d"
proof -
  let ?n = "needs_scan (next_mode (rs_floor (in_state x)))"
  let ?stats = "if ?n then snd (in_scan x) else fresh_observation []"
  obtain ff c' where ff: "(if next_mode (rs_floor (in_state x)) = V3Write
      then first_floor_blockers (in_expect x) (in_convergence x) es (in_now x) else ([], in_convergence x)) = (ff, c')"
    by force
  obtain counts opts where counts: "scan_blockers (next_mode (rs_floor (in_state x))) ?stats = (counts, opts)" by force
  have ff': "ff = [] \<longleftrightarrow> (rs_floor (in_state x) = Expand \<longrightarrow>
      fst (first_floor_blockers (in_expect x) (in_convergence x) es (in_now x)) = [])"
    using ff by (auto simp: target_modes split: if_splits)
  have counts': "counts = [] \<longleftrightarrow> (?n \<longrightarrow> fst (scan_blockers (next_mode (rs_floor (in_state x))) (snd (in_scan x))) = [])"
    using counts by (auto simp: needs_scan_def scan_blockers_def split: if_splits)
  have scan: "\<not> (?n \<and> fst (in_scan x) \<noteq> ScanDone)" using assms(5) by blast
  let ?blocked = "sort_strings (fleet_blockers (rs_floor (in_state x)) es @
      (if ?n \<and> \<not> o_complete ?stats then [''keyspace scan did not complete''] else []) @ ff @ counts @
      (if writer_set_fingerprint es' \<noteq> writer_set_fingerprint es
       then [''writer set changed during evaluation''] else []))"
  let ?d = "(plain_decision (in_state x) ?blocked)\<lparr>d_allowed := ?blocked = [], d_scanned := ?n,
      d_observation := (if ?n then Some ?stats else None), d_options := opts,
      d_fingerprint := writer_set_fingerprint es, d_redis := (if ?n then o_instance ?stats else [])\<rparr>"
  have "evaluate_rollout_advance x = (Inr ?d, c')"
    unfolding evaluate_rollout_advance_def Let_def assms(1,4,6) option.case sum.case bind_res_simps ff counts prod.case
    using assms(2,3) scan by simp
  have "d_allowed ?d \<longleftrightarrow> fleet_blockers (rs_floor (in_state x)) es = [] \<and>
      (?n \<longrightarrow> o_complete (snd (in_scan x))) \<and> ff = [] \<and> counts = [] \<and>
      writer_set_fingerprint es' = writer_set_fingerprint es"
    by simp
  then have "describes x es es' ?d"
    unfolding describes_def by (simp add: ff' counts' plain_decision_def)
  with \<open>evaluate_rollout_advance x = (Inr ?d, c')\<close> show ?thesis by blast
qed

text \<open>Whoever gets as far as an allowed decision has passed the guards.\<close>

lemma evaluate_guards:
  assumes run: "evaluate_rollout_advance x = (Inr d, conv')" and ok: "d_allowed d"
  obtains es es' where "validate_rollout_state (in_state x) = Inr ()" "rs_floor (in_state x) \<noteq> Enforce"
    "\<not> rs_paused (in_state x)" "in_live x = Some (Inr es)" "in_final x = Inr es'"
    "needs_scan (next_mode (rs_floor (in_state x))) \<Longrightarrow> fst (in_scan x) = ScanDone"
proof -
  have v: "validate_rollout_state (in_state x) = Inr ()"
  proof (cases "validate_rollout_state (in_state x)")
    case (Inl e)
    with run show ?thesis by (simp add: evaluate_rollout_advance_def Let_def)
  qed simp
  have e: "rs_floor (in_state x) \<noteq> Enforce"
  proof
    assume "rs_floor (in_state x) = Enforce"
    with run ok v show False by (auto simp: evaluate_rollout_advance_def Let_def plain_decision_def)
  qed
  have p: "\<not> rs_paused (in_state x)"
  proof
    assume "rs_paused (in_state x)"
    with run ok v e show False by (auto simp: evaluate_rollout_advance_def Let_def plain_decision_def)
  qed
  have s: "fst (in_scan x) = ScanDone" if n: "needs_scan (next_mode (rs_floor (in_state x)))"
  proof (rule ccontr)
    assume "fst (in_scan x) \<noteq> ScanDone"
    with run n show False
      by (cases "in_live x"; cases "the (in_live x)") (simp_all add: evaluate_rollout_advance_def Let_def v e p)
  qed
  have "\<exists>es. in_live x = Some (Inr es)"
  proof (cases "in_live x")
    case None
    have "d_blocked d \<noteq> [] \<and> (d_allowed d \<longrightarrow> d_blocked d = [])"
      using run unfolding evaluate_rollout_advance_def Let_def v None
      by (auto simp: e p plain_decision_def split: prod.splits if_splits)
    with ok show ?thesis by simp
  next
    case (Some live)
    with run show ?thesis
      by (cases live) (simp_all add: evaluate_rollout_advance_def Let_def v e p)
  qed
  then obtain es where es: "in_live x = Some (Inr es)" by blast
  have "\<exists>es'. in_final x = Inr es'"
  proof (cases "in_final x")
    case (Inl e)
    with run es show ?thesis
      unfolding evaluate_rollout_advance_def Let_def by (simp add: v e p split: prod.splits if_splits)
  qed simp
  with that v e p es s show ?thesis by blast
qed

theorem evaluate_allowed:
  assumes "evaluate_rollout_advance x = (Inr d, conv')" and "d_allowed d"
  shows "advance_justified x" and "validate_rollout_state (in_state x) = Inr ()" and "\<not> rs_paused (in_state x)"
    and "d_current d = rs_floor (in_state x)" and "d_target d = next_mode (rs_floor (in_state x))"
    and "d_version d = rs_version (in_state x)" and "d_cap d = rs_cap (in_state x)"
    and "in_live x = Some (Inr es) \<Longrightarrow> d_fingerprint d = writer_set_fingerprint es"
    and "needs_scan (next_mode (rs_floor (in_state x))) \<Longrightarrow> d_observation d = Some (snd (in_scan x))"
proof -
  from evaluate_guards [OF assms] obtain es0 es' where
    g: "validate_rollout_state (in_state x) = Inr ()" "rs_floor (in_state x) \<noteq> Enforce" "\<not> rs_paused (in_state x)"
      "in_live x = Some (Inr es0)" "in_final x = Inr es'"
      "needs_scan (next_mode (rs_floor (in_state x))) \<Longrightarrow> fst (in_scan x) = ScanDone" by blast
  from evaluate_open [OF g(1-4) g(6,5)] assms(1) have "describes x es0 es' d" by simp
  note desc = this [unfolded describes_def]
  have f: "d_current d = rs_floor (in_state x)" "d_target d = next_mode (rs_floor (in_state x))"
      "d_version d = rs_version (in_state x)" "d_cap d = rs_cap (in_state x)"
      "d_fingerprint d = writer_set_fingerprint es0"
      "d_observation d = (if needs_scan (next_mode (rs_floor (in_state x))) then Some (snd (in_scan x)) else None)"
    using desc by blast+
  have a: "fleet_blockers (rs_floor (in_state x)) es0 = []"
      "needs_scan (next_mode (rs_floor (in_state x))) \<Longrightarrow> o_complete (snd (in_scan x))"
      "rs_floor (in_state x) = Expand \<Longrightarrow>
        fst (first_floor_blockers (in_expect x) (in_convergence x) es0 (in_now x)) = []"
      "needs_scan (next_mode (rs_floor (in_state x))) \<Longrightarrow>
        fst (scan_blockers (next_mode (rs_floor (in_state x))) (snd (in_scan x))) = []"
      "writer_set_fingerprint es' = writer_set_fingerprint es0"
    using desc assms(2) by blast+
  have valid: "mode_valid (rs_floor (in_state x))" using g(1) by (simp add: validate_rollout_Inr)
  have stats: "needs_scan (next_mode (rs_floor (in_state x))) \<Longrightarrow> in_scan x = (ScanDone, snd (in_scan x))"
    using g(6) by (metis prod.collapse)
  note fleet = a(1) [unfolded fleet_blockers_Nil]
  then have ne: "es0 \<noteq> []" by blast
  have "case rs_floor (in_state x) of
           Expand \<Rightarrow> in_scan x = (ScanDone, snd (in_scan x)) \<and> o_complete (snd (in_scan x)) \<and>
             int (length es0) = in_expect x \<and>
             (\<exists>c. in_convergence x = Some c \<and> writer_lease_ttl \<le> fst (observe_writers es0 (in_now x) c))
         | V3Write \<Rightarrow> True
         | Revoke \<Rightarrow> in_scan x = (ScanDone, snd (in_scan x)) \<and> o_complete (snd (in_scan x)) \<and>
             o_persistent (snd (in_scan x)) = 0 \<and> o_over_max (snd (in_scan x)) = 0
         | Bounded \<Rightarrow> in_scan x = (ScanDone, snd (in_scan x)) \<and> o_complete (snd (in_scan x)) \<and>
             o_v1 (snd (in_scan x)) = 0 \<and> o_v2 (snd (in_scan x)) = 0
         | _ \<Rightarrow> False"
    using g(2) valid a(2-4) stats
    by (cases "rs_floor (in_state x)")
      (simp_all add: needs_scan_def scan_blockers_Nil first_floor_blockers_Nil [OF ne])
  with fleet a(5) g(4,5) show "advance_justified x" unfolding advance_justified_def Let_def by blast
  show "validate_rollout_state (in_state x) = Inr ()" "\<not> rs_paused (in_state x)" by fact+
  show "d_current d = rs_floor (in_state x)" "d_target d = next_mode (rs_floor (in_state x))"
    "d_version d = rs_version (in_state x)" "d_cap d = rs_cap (in_state x)" by fact+
  show "d_fingerprint d = writer_set_fingerprint es" if "in_live x = Some (Inr es)"
    using f(5) g(4) that by simp
  show "d_observation d = Some (snd (in_scan x))" if "needs_scan (next_mode (rs_floor (in_state x)))"
    using f(6) that by simp
qed

lemma justified_allowed:
  assumes j: "advance_justified x" and v: "validate_rollout_state (in_state x) = Inr ()"
    and p: "\<not> rs_paused (in_state x)"
  shows "\<exists>d conv'. evaluate_rollout_advance x = (Inr d, conv') \<and> d_allowed d"
proof -
  from j obtain es es' where w: "in_live x = Some (Inr es)" "in_final x = Inr es'"
    "writer_set_fingerprint es' = writer_set_fingerprint es" "fleet_blockers (rs_floor (in_state x)) es = []"
    and c: "case rs_floor (in_state x) of
           Expand \<Rightarrow> in_scan x = (ScanDone, snd (in_scan x)) \<and> o_complete (snd (in_scan x)) \<and>
             int (length es) = in_expect x \<and>
             (\<exists>c. in_convergence x = Some c \<and> writer_lease_ttl \<le> fst (observe_writers es (in_now x) c))
         | V3Write \<Rightarrow> True
         | Revoke \<Rightarrow> in_scan x = (ScanDone, snd (in_scan x)) \<and> o_complete (snd (in_scan x)) \<and>
             o_persistent (snd (in_scan x)) = 0 \<and> o_over_max (snd (in_scan x)) = 0
         | Bounded \<Rightarrow> in_scan x = (ScanDone, snd (in_scan x)) \<and> o_complete (snd (in_scan x)) \<and>
             o_v1 (snd (in_scan x)) = 0 \<and> o_v2 (snd (in_scan x)) = 0
         | _ \<Rightarrow> False"
    unfolding advance_justified_def Let_def fleet_blockers_Nil by blast
  from w(4) have ne: "es \<noteq> []" by (simp add: fleet_blockers_Nil)
  have e: "rs_floor (in_state x) \<noteq> Enforce" using c by auto
  have done_: "fst (in_scan x) = ScanDone" if "needs_scan (next_mode (rs_floor (in_state x)))"
    using that c by (cases "rs_floor (in_state x)") (auto simp: needs_scan_def dest: arg_cong [where f = fst])
  from evaluate_open [OF v e p w(1) done_ w(2)] obtain d conv' where
    d: "evaluate_rollout_advance x = (Inr d, conv')" "describes x es es' d" by blast
  have "d_allowed d"
    using d(2) c w(3,4) unfolding describes_def
    by (cases "rs_floor (in_state x)") (auto simp: needs_scan_def scan_blockers_Nil first_floor_blockers_Nil [OF ne])
  with d(1) show ?thesis by blast
qed

end
