(* ===== verification/Rollout_Commit.thy ===== *)
theory Rollout_Commit
  imports Rollout_Audit Rollout_Advance Session_Run
begin

text \<open>
  The session rollout, from a decision to the floor: what a commit writes, that the state it changes
  is the one that was evaluated, how long the writers of the first v3 floor have stood still, and
  that the next phase accepts every session that the scan has seen and the present phase accepts.
\<close>

section \<open>The commit\<close>

lemma advance_floor_changes:
  assumes "snd (advance_floor cur rec db) \<noteq> db"
  obtains s where "singleton db = Some s" "rs_version s = rs_version cur" "rs_floor s = rs_floor cur"
    "\<not> rs_paused s" "fst (advance_floor cur rec db) = Inr (cur\<lparr>rs_floor := a_to rec, rs_version := rs_version cur + 1\<rparr>)"
    "snd (advance_floor cur rec db) = db\<lparr>singleton := Some (s\<lparr>rs_floor := a_to rec, rs_cap := rs_cap cur,
        rs_version := rs_version s + 1\<rparr>),
      advances := advances db @ [rec\<lparr>a_actor := first_non_empty [a_actor rec, ''unknown''], a_kind := ''advance'',
        a_cap_change := None\<rparr>]\<rparr>"
proof -
  from assms obtain a db' where run: "advance_tx cur rec db = Inr (a, db')"
    and whole: "advance_floor cur rec db = (Inr a, db')"
    by (auto simp: advance_floor_def in_tx_def split: if_splits sum.splits)
  from run obtain s where "singleton db = Some s" "rs_version s = rs_version cur" "rs_floor s = rs_floor cur"
    "\<not> rs_paused s" "a = cur\<lparr>rs_floor := a_to rec, rs_version := rs_version cur + 1\<rparr>"
    "db' = db\<lparr>singleton := Some (s\<lparr>rs_floor := a_to rec, rs_cap := rs_cap cur, rs_version := rs_version s + 1\<rparr>),
      advances := advances db @ [rec\<lparr>a_actor := first_non_empty [a_actor rec, ''unknown''], a_kind := ''advance'',
        a_cap_change := None\<rparr>]\<rparr>"
    by (auto simp: advance_tx_def res_simps)
  with whole that show ?thesis by simp
qed

lemma advance_decision_db: "snd (advance_decision d actor db) =
    snd (advance_floor (decision_state d) (rollout_advance_record d actor) db)"
  by (auto simp: advance_decision_def split: prod.split sum.split rollout_error.split)

text \<open>The row under a version is the one that was loaded under it.\<close>

lemma same_version:
  assumes "singleton db = Some s" and "control_reach db db'" and "singleton db' = Some s'"
    and "rs_version s' = rs_version s"
  shows "s' = s"
  using reach_later [OF assms(2)] assms(1,3,4) by (auto simp: newer_def)

lemma load_Inr: "load_state db = Inr st \<longleftrightarrow> singleton db = Some st \<and> validate_rollout_state st = Inr ()"
  by (auto simp: load_state_def bind_res_def split: option.splits sum.splits)

lemma decide_Inr:
  assumes "reconcile_decide now enabled loaded x = (Inr d, conv')"
  obtains st where "loaded = Inr st" "enabled" "evaluate_rollout_advance (x\<lparr>in_state := st\<rparr>) = (Inr d, conv')"
    "d_allowed d"
  using assms by (auto simp: reconcile_decide_def Let_def split: sum.splits if_splits prod.splits)

section \<open>The window of the first floor\<close>

fun observe_all :: "(writer_entry list \<times> int) list \<Rightarrow> convergence \<Rightarrow> convergence" where
  "observe_all [] c = c"
| "observe_all ((es, now) # obs) c = observe_all obs (snd (observe_writers es now c))"

lemma observe_all_snoc: "observe_all (obs @ [(es, now)]) c = snd (observe_writers es now (observe_all obs c))"
  by (induction obs arbitrary: c) auto

text \<open>
  The window began at an earlier observation of the same writers, and every one since then saw them.
\<close>

definition stood_still :: "string \<Rightarrow> int \<Rightarrow> (writer_entry list \<times> int) list \<Rightarrow> bool" where
  "stood_still fp since obs \<longleftrightarrow>
     (\<exists>before es later. obs = before @ (es, since) # later \<and>
        (\<forall>(es', _) \<in> set ((es, since) # later). writer_set_fingerprint es' = fp))"

lemma stood_still_snoc: "stood_still fp since obs \<Longrightarrow> writer_set_fingerprint es = fp \<Longrightarrow>
    stood_still fp since (obs @ [(es, now)])"
  unfolding stood_still_def by (elim exE conjE) (intro exI conjI, simp, auto)

lemma stood_still_last: "writer_set_fingerprint es = fp \<Longrightarrow> stood_still fp now (obs @ [(es, now)])"
  unfolding stood_still_def by (intro exI [of _ obs] exI [of _ es] exI [of _ "[]"]) simp

lemma window:
  "obs \<noteq> [] \<Longrightarrow> stood_still (cv_fingerprint (observe_all obs new_convergence))
     (cv_since (observe_all obs new_convergence)) obs \<or> cv_fingerprint (observe_all obs new_convergence) = []"
proof (induction obs rule: rev_induct)
  case (snoc o' obs)
  obtain es now where o': "o' = (es, now)" by (cases o')
  let ?c = "observe_all obs new_convergence"
  have new: "observe_all (obs @ [o']) new_convergence = snd (observe_writers es now ?c)"
    by (simp add: o' observe_all_snoc)
  show ?case
  proof (cases "writer_set_fingerprint es = cv_fingerprint ?c \<and> \<not> now < cv_since ?c")
    case True
    then have c: "snd (observe_writers es now ?c) = ?c" by (simp add: observe_writers_def Let_def)
    show ?thesis
    proof (cases "obs = []")
      case True
      with c new show ?thesis by (simp add: new_convergence_def)
    next
      case False
      with snoc.IH True c new show ?thesis by (auto simp: o' intro: stood_still_snoc)
    qed
  next
    case False
    then have "cv_fingerprint (snd (observe_writers es now ?c)) = writer_set_fingerprint es"
      "cv_since (snd (observe_writers es now ?c)) = now"
      by (auto simp: observe_writers_def Let_def)
    with new o' show ?thesis by (simp add: stood_still_last)
  qed
qed simp

text \<open>A fingerprint is never empty, unlike the one that no observation has set.\<close>

lemma sha_round_length: "length (sha_round kw s) = length s"
  by (auto simp: sha_round_def Let_def split: list.splits)

lemma sha_block_length: "length (sha_block block s) = length s"
proof -
  have "length (fold sha_round kws s) = length s" for kws
    by (induction kws arbitrary: s) (simp_all add: sha_round_length)
  then show ?thesis by (simp add: sha_block_def)
qed

lemma sha_blocks_length: "length (sha_blocks ws s) = length s"
proof (induction ws s rule: sha_blocks.induct)
  case (1 ws s)
  show ?case
  proof (cases "length ws < 16")
    case True
    then show ?thesis by (simp add: sha_blocks.simps [of ws])
  next
    case False
    with 1 show ?thesis by (simp add: sha_blocks.simps [of ws] sha_block_length)
  qed
qed

lemma fingerprint_not_empty: "writer_set_fingerprint es \<noteq> []"
proof -
  have "sha256 m \<noteq> []" for m
  proof -
    obtain w ws where "sha_blocks (be_words (sha_pad m)) sha_init = w # ws"
      using sha_blocks_length [of "be_words (sha_pad m)" sha_init]
      by (cases "sha_blocks (be_words (sha_pad m)) sha_init") (simp_all add: sha_init_def)
    then show ?thesis by (simp add: sha256_def be_bytes_def)
  qed
  moreover have "m \<noteq> [] \<Longrightarrow> hex_encode m \<noteq> []" for m
    by (cases m) (simp_all add: hex_encode_Cons)
  ultimately show ?thesis by (simp add: writer_set_fingerprint_def)
qed

lemma window_stood_still:
  assumes "observe_writers es now (observe_all obs new_convergence) = (held, c)" and "0 < held"
  shows "stood_still (writer_set_fingerprint es) (now - held) obs"
proof -
  let ?c = "observe_all obs new_convergence"
  from assms have c: "writer_set_fingerprint es = cv_fingerprint ?c" "held = now - cv_since ?c"
    by (auto simp: observe_writers_def Let_def split: if_splits)
  with fingerprint_not_empty [of es] have "obs \<noteq> []" by (auto simp: new_convergence_def)
  with window [of obs] c fingerprint_not_empty [of es] show ?thesis by simp
qed

text \<open>The evaluations of one caller share a window; an evaluation for the first floor adds a sighting.\<close>

definition sighting :: "advance_input \<Rightarrow> (writer_entry list \<times> int) list" where
  "sighting x =
     (if validate_rollout_state (in_state x) = Inr () \<and> rs_floor (in_state x) = Expand \<and>
         \<not> rs_paused (in_state x) \<and> fst (in_scan x) = ScanDone
      then (case in_live x of
              None \<Rightarrow> [([], in_now x)]
            | Some (Inl _) \<Rightarrow> []
            | Some (Inr es) \<Rightarrow> [(es, in_now x)])
      else [])"

definition window_after :: "advance_input list \<Rightarrow> convergence option" where
  "window_after xs =
     fold (\<lambda>x conv. snd (evaluate_rollout_advance (x\<lparr>in_convergence := conv\<rparr>))) xs (Some new_convergence)"

lemma first_floor_window:
  "snd (first_floor_blockers expect (Some c) es now) = Some (snd (observe_writers es now c))"
  by (simp add: first_floor_blockers_def Let_def split: prod.split)

lemma evaluate_window:
  "snd (evaluate_rollout_advance (x\<lparr>in_convergence := Some c\<rparr>)) = Some (observe_all (sighting x) c)"
proof (cases "validate_rollout_state (in_state x)")
  case (Inl e)
  then show ?thesis by (simp add: evaluate_rollout_advance_def sighting_def Let_def)
next
  case (Inr u)
  consider (guard) "rs_floor (in_state x) = Enforce \<or> rs_paused (in_state x)"
    | (gone) e where "rs_floor (in_state x) \<noteq> Enforce" "\<not> rs_paused (in_state x)" "in_live x = Some (Inl e)"
    | (go) es fleet fp where "rs_floor (in_state x) \<noteq> Enforce" "\<not> rs_paused (in_state x)"
        "(case in_live x of
              None \<Rightarrow> Inr ([], [''writer registry unavailable''], [])
            | Some (Inl e) \<Rightarrow> Inl e
            | Some (Inr es) \<Rightarrow> Inr (es, fleet_blockers (rs_floor (in_state x)) es, writer_set_fingerprint es)) =
          Inr (es, fleet, fp)"
        "sighting x = (if rs_floor (in_state x) = Expand \<and> fst (in_scan x) = ScanDone then [(es, in_now x)] else [])"
  proof (cases "rs_floor (in_state x) = Enforce \<or> rs_paused (in_state x)")
    case False
    show ?thesis
    proof (cases "in_live x")
      case None
      with False Inr show ?thesis by (intro go) (auto simp: sighting_def)
    next
      case (Some a)
      with False Inr show ?thesis by (cases a) (auto simp: sighting_def intro: gone go)
    qed
  qed (rule guard)
  then show ?thesis
  proof cases
    case guard
    with Inr show ?thesis by (auto simp: evaluate_rollout_advance_def sighting_def Let_def)
  next
    case gone
    with Inr show ?thesis by (simp add: evaluate_rollout_advance_def sighting_def Let_def)
  next
    case go
    show ?thesis
    proof (cases "rs_floor (in_state x) = Expand")
      case True
      obtain ff c' where ff: "first_floor_blockers (in_expect x) (Some c) es (in_now x) = (ff, c')" by force
      then have "c' = Some (snd (observe_writers es (in_now x) c))"
        using first_floor_window by (metis snd_conv)
      with True ff go Inr show ?thesis
        by (simp add: evaluate_rollout_advance_def Let_def needs_scan_def scan_blockers_def split: sum.split)
    next
      case False
      with go Inr show ?thesis
        by (simp add: evaluate_rollout_advance_def Let_def target_modes split: sum.split prod.split)
    qed
  qed
qed

lemma window_after_sightings: "window_after xs = Some (observe_all (concat (map sighting xs)) new_convergence)"
proof -
  have app: "observe_all (a @ b) c = observe_all b (observe_all a c)" for a b c
    by (induction a arbitrary: c) auto
  have "fold (\<lambda>x conv. snd (evaluate_rollout_advance (x\<lparr>in_convergence := conv\<rparr>))) xs (Some c) =
      Some (observe_all (concat (map sighting xs)) c)" for c
    by (induction xs arbitrary: c) (simp_all add: evaluate_window app)
  then show ?thesis by (simp add: window_after_def)
qed

section \<open>The next phase accepts what the present one accepts\<close>

lemma decoded_v3:
  assumes "decode J raw = Inr info" and "prefix v3_prefix raw"
  shows "is_v3 info"
proof -
  have "\<not> prefix v2_prefix raw" using assms(2) by (auto simp: prefix_def v2_prefix_def v3_prefix_def)
  with assms have "v3_valid info" by (auto simp: decode_def decode_v3_def split: option.splits if_splits)
  then show ?thesis by (auto simp: v3_valid_def is_v3_def)
qed

lemma run_read_token_state:
  "run r J (E\<lparr>at_state := st\<rparr>) (read_token k) gs s = run r J E (read_token k) gs s"
  by (simp add: read_token_def Let_def split: sum.split reply.split)

lemma run_generation_state:
  "run r J (E\<lparr>at_state := st\<rparr>) (current_generation J C u) gs s = run r J E (current_generation J C u) gs s"
  by (simp add: current_generation_def split: sum.split option.split)

lemma legacy_accepted_next:
  assumes acc: "fst (run r J (E\<lparr>at_state := st\<rparr>) (validate_legacy_session C info rec) gs s) = Inr ()"
    and next_phase: "mode st = Revoke" "mode st' = Bounded" and counted: "0 < ttl rec" "ttl rec \<le> max_ttl C"
  shows "fst (run r J (E\<lparr>at_state := st'\<rparr>) (validate_legacy_session C info rec) gs s) = Inr ()"
  using acc next_phase counted
  by (simp add: validate_legacy_session_def checks_legacy_deny_def Let_def split: if_splits)

lemma next_phase_accepts:
  assumes read: "fst (run r J E (read_token (token_prefix C @ token)) gs s) = Inr rec"
    and acc: "fst (run r J (E\<lparr>at_state := st\<rparr>) (validate_token J C resolver policy (token_prefix C) token) gs s) = Inr info"
    and phase: "mode st = Revoke \<and> mode st' = Bounded \<and>
        (\<forall>info. ttl rec \<noteq> -2 \<longrightarrow> decode J (payload rec) = Inr info \<longrightarrow> ttl rec \<noteq> -1 \<and> (0 < ttl rec \<longrightarrow> ttl rec \<le> max_ttl C)) \<or>
      (\<forall>info. ttl rec \<noteq> -2 \<longrightarrow> decode J (payload rec) = Inr info \<longrightarrow> is_v3 info)"
  shows "fst (run r J (E\<lparr>at_state := st'\<rparr>) (validate_token J C resolver policy (token_prefix C) token) gs s) = Inr info"
proof -
  obtain gs1 s1 where r: "run r J E (read_token (token_prefix C @ token)) gs s = (Inr rec, gs1, s1)"
    using read by (cases "run r J E (read_token (token_prefix C @ token)) gs s") auto
  have tok: "\<not> blank token" using acc by (auto simp: validate_token_def)
  have found: "\<not> (ttl rec = -2 \<or> blank (payload rec))" and dec: "decode J (payload rec) = Inr info"
    using acc tok by (auto simp: validate_token_def run_read_token_state r run_pbind run_generation_state
      split: if_splits sum.splits prod.splits)
  show ?thesis
  proof (cases "is_v3 info")
    case True
    with acc tok found dec show ?thesis
      by (simp add: validate_token_def run_read_token_state r run_generation_state split: if_splits sum.splits prod.splits)
  next
    case False
    with phase found dec have p: "mode st = Revoke" "mode st' = Bounded" "ttl rec \<noteq> -1"
      "0 < ttl rec \<longrightarrow> ttl rec \<le> max_ttl C" by auto
    from acc tok found dec False have t: "ttl rec \<noteq> 0 \<and> \<not> ttl rec < -2"
      by (auto simp: validate_token_def run_read_token_state r split: if_splits)
    with p found have c: "0 < ttl rec" "ttl rec \<le> max_ttl C" by auto
    show ?thesis
    proof (cases policy)
      case False
      with acc tok found dec \<open>\<not> is_v3 info\<close> t show ?thesis
        by (simp add: validate_token_def run_read_token_state r)
    next
      case pol: True
      with acc tok found dec False t
      have "fst (run r J (E\<lparr>at_state := st\<rparr>) (validate_legacy_session C info rec) gs1 s1) = Inr ()"
        by (auto simp: validate_token_def run_read_token_state r run_pbind split: prod.splits sum.splits if_splits)
      from legacy_accepted_next [OF this p(1,2) c] pol tok found dec False t show ?thesis
        by (auto simp: validate_token_def run_read_token_state r run_pbind split: prod.splits sum.splits)
    qed
  qed
qed

text \<open>A record that a completed scan has counted, under the counts that the gate wants.\<close>

lemma counted_record:
  assumes "observe_rate_limited J max_ns batch interval lease first rounds = (ScanDone, stats)"
    and "rec \<in> set (scan_records rounds [])" and "ttl rec \<noteq> -2" and "decode J (payload rec) = Inr info"
  shows "o_persistent stats = 0 \<Longrightarrow> ttl rec \<noteq> -1"
    and "o_over_max stats = 0 \<Longrightarrow> 0 < ttl rec \<Longrightarrow> ttl rec \<le> max_ns"
    and "o_v1 stats = 0 \<Longrightarrow> o_v2 stats = 0 \<Longrightarrow> is_v3 info"
proof -
  from assms(1) obtain i where "observe_rounds J max_ns rounds (fresh_observation i) = (ScanDone, stats)"
    by (auto simp: observe_rate_limited_def split: if_splits option.splits)
  then have "observe_rounds J max_ns rounds (tally J max_ns i []) = (ScanDone, stats)" by (simp add: tally_def)
  from observe_rounds_tally [OF this] obtain j where
    j: "stats = (tally J max_ns j (scan_records rounds []))\<lparr>o_complete := True\<rparr>" by blast
  note m = tally_member [OF assms(2-4), where i = j and max_ns = max_ns]
  show "o_persistent stats = 0 \<Longrightarrow> ttl rec \<noteq> -1" using m(1) j by auto
  show "o_over_max stats = 0 \<Longrightarrow> 0 < ttl rec \<Longrightarrow> ttl rec \<le> max_ns" using m(2) j by fastforce
  show "o_v1 stats = 0 \<Longrightarrow> o_v2 stats = 0 \<Longrightarrow> is_v3 info"
    using m(3) j decoded_v3 [OF assms(4)] by fastforce
qed

end
