(* ===== verification/Rollout_Evidence.thy ===== *)
theory Rollout_Evidence
  imports Rollout_Commit Session_Props
begin

text \<open>
  The session rollout, the properties of the control store and of the evidence on which its floor
  moves.
\<close>

section \<open>The control store\<close>

text \<open>C32: Whatever replicas and operators do to the control store, starting from no rows: the floor
  never falls, a version stands for one state only, and the audit rows explain the floor.  They form
  a chain from nothing to the present floor, each row starting at the floor where the one before it
  ended; a row of kind \<open>advance\<close> climbs exactly one phase and a row of kind \<open>set-cap\<close> none; and there
  are no more rows than versions.\<close>

theorem floor_history:
  assumes "control_reach empty_db db" and "control_reach db db'"
  shows "(\<forall>s s'. singleton db = Some s \<and> singleton db' = Some s' \<longrightarrow>
            rank (rs_floor s) \<le> rank (rs_floor s') \<and> rs_version s \<le> rs_version s' \<and>
            (rs_version s' = rs_version s \<longrightarrow> s' = s)) \<and>
         (singleton db \<noteq> None \<longrightarrow> singleton db' \<noteq> None) \<and>
         (\<forall>s. singleton db = Some s \<longrightarrow> validate_rollout_state s = Inr () \<and>
            linked (OtherMode []) (advances db) (rs_floor s) \<and> int (length (advances db)) \<le> rs_version s) \<and>
         (singleton db = None \<longrightarrow> advances db = [])"
proof -
  have "audited empty_db" by (simp add: audited_def empty_db_def)
  with reach_audited [OF assms(1)] have a: "audited db" .
  have "newer db db'" by (rule reach_later [OF assms(2)])
  with a show ?thesis
    by (auto simp: newer_def audited_def split: option.splits)
qed

text \<open>A first boot, a decision of the reconciler, an operator who raises the cap.\<close>

definition sample_seed :: rollout_seed where
  "sample_seed = \<lparr>seed_floor = Expand, seed_cap = 20, seed_actor = ''startup'',
     seed_source = ''bootstrap'', seed_redis = []\<rparr>"

definition sample_rs :: "session_mode \<Rightarrow> int \<Rightarrow> rollout_state" where
  "sample_rs m v = \<lparr>rs_floor = m, rs_cap = 20, rs_version = v, rs_paused = False\<rparr>"

definition booted_db :: rollout_db where "booted_db = snd (initialize_once sample_seed empty_db)"

definition advanced_db :: rollout_db where
  "advanced_db = snd (advance_floor (sample_rs Expand 1) (plain_record Expand V3Write ''op'' []) booted_db)"

lemma booted: "control_reach empty_db booted_db" and advanced: "control_reach booted_db advanced_db"
proof -
  have src: "first_non_empty [seed_source sample_seed] \<noteq> ''advance''" by code_simp
  show "control_reach empty_db booted_db" "control_reach booted_db advanced_db"
    unfolding booted_db_def advanced_db_def
    using control_step.initializes [OF src] control_step.advances by blast+
qed

lemma sample_rows:
  "singleton booted_db = Some (sample_rs Expand 1)" "singleton advanced_db = Some (sample_rs V3Write 2)"
  by code_simp+

theorem floor_history_witness:
  "singleton booted_db = Some (sample_rs Expand 1) \<and> singleton advanced_db = Some (sample_rs V3Write 2) \<and>
   rank Expand \<le> rank V3Write \<and> linked (OtherMode []) (advances booted_db) Expand"
  using floor_history [OF booted advanced] sample_rows by (simp add: sample_rs_def)

section \<open>The evidence for an advance\<close>

text \<open>\<open>EvaluateRolloutAdvance\<close> allows an advance exactly when the state is valid and not paused, and
  \<open>advance_justified\<close>: the registry answered twice with the same writers, all of one build and none
  below the floor, and the conditions of the next phase hold.\<close>

theorem advance_allowed_exact:
  "(\<exists>d conv'. evaluate_rollout_advance x = (Inr d, conv') \<and> d_allowed d) \<longleftrightarrow>
     validate_rollout_state (in_state x) = Inr () \<and> \<not> rs_paused (in_state x) \<and> advance_justified x"
  (is "?allowed \<longleftrightarrow> ?justified")
proof
  assume ?allowed
  then obtain d conv' where "evaluate_rollout_advance x = (Inr d, conv')" "d_allowed d" by blast
  from evaluate_allowed(1-3) [OF this] show ?justified by blast
next
  assume ?justified
  then show ?allowed using justified_allowed by blast
qed

text \<open>C33: A commit of the reconciler that changes the control store moves the floor that was
  evaluated, and no other.  The state it replaces is the one that was loaded, although replicas and
  operators may have changed the store since then; that state was valid and not paused; the evidence
  was sufficient: the registry answered twice with the same writers, all of one build and none below
  the floor, and the scan and the window that the next phase asks for were there.  The floor rises
  by one phase and the version by one, and one audit row of kind \<open>advance\<close> keeps the fingerprint of
  the writers and, where a scan was made, its counts.\<close>

theorem floor_moves_on_evidence:
  assumes "control_reach empty_db db0" and "control_reach db0 db1"
    and "reconcile_decide now enabled (load_state db0) x = (choice, conv')"
    and "reconcile_commit now' choice db1 = (t, db2)" and "db2 \<noteq> db1"
  shows "\<exists>st row. singleton db0 = Some st \<and> singleton db1 = Some st \<and> enabled \<and>
     validate_rollout_state st = Inr () \<and> \<not> rs_paused st \<and> advance_justified (x\<lparr>in_state := st\<rparr>) \<and>
     singleton db2 = Some (st\<lparr>rs_floor := next_mode (rs_floor st), rs_version := rs_version st + 1\<rparr>) \<and>
     advances db2 = advances db1 @ [row] \<and> a_kind row = ''advance'' \<and>
     a_from row = rs_floor st \<and> a_to row = next_mode (rs_floor st) \<and>
     (\<forall>es. in_live x = Some (Inr es) \<longrightarrow> a_fingerprint row = writer_set_fingerprint es) \<and>
     (rs_floor st \<noteq> V3Write \<longrightarrow> a_observation row = Some (snd (in_scan x)))"
proof -
  from assms(4,5) obtain d where d: "choice = Inr d" "db2 = snd (advance_decision d ''reconciler'' db1)"
    by (auto simp: reconcile_commit_def split: sum.splits prod.splits)
  from decide_Inr [OF assms(3) [unfolded d(1)]] obtain st where
    st: "load_state db0 = Inr st" "enabled" "evaluate_rollout_advance (x\<lparr>in_state := st\<rparr>) = (Inr d, conv')"
      "d_allowed d" .
  let ?x = "x\<lparr>in_state := st\<rparr>"
  note ev = evaluate_allowed [OF st(3,4), simplified]
  from assms(5) d(2) have "snd (advance_floor (decision_state d) (rollout_advance_record d ''reconciler'') db1) \<noteq> db1"
    by (simp add: advance_decision_db)
  from advance_floor_changes [OF this] obtain s where
    s: "singleton db1 = Some s" "rs_version s = d_version d" "\<not> rs_paused s"
    and db2: "db2 = db1\<lparr>singleton := Some (s\<lparr>rs_floor := d_target d, rs_cap := d_cap d, rs_version := rs_version s + 1\<rparr>),
      advances := advances db1 @ [(rollout_advance_record d ''reconciler'')\<lparr>
        a_actor := first_non_empty [''reconciler'', ''unknown''], a_kind := ''advance'', a_cap_change := None\<rparr>]\<rparr>"
    unfolding d(2) advance_decision_db
    by (auto simp: decision_state_def rollout_advance_record_def simp del: first_non_empty.simps)
  from st(1) have st0: "singleton db0 = Some st" by (simp add: load_Inr)
  from same_version [OF st0 assms(2) s(1)] s(2) ev(6) have "s = st" by simp
  with st0 s(1) ev st(2) db2 show ?thesis
    by (intro exI [of _ st] exI [of _ "last (advances db2)"])
      (cases "rs_floor st"; simp add: rollout_advance_record_def needs_scan_def advance_justified_def
        del: first_non_empty.simps; fail)
qed

text \<open>Two replicas of one build, at the floor \<open>m\<close>.\<close>

definition sample_writers :: "session_mode \<Rightarrow> writer_entry list" where
  "sample_writers m = [join_entry ''a1'' ''v9'' ''pod-1'' (mode_text m) 0, join_entry ''b2'' ''v9'' ''pod-2'' (mode_text m) 0]"

definition sample_input :: "rollout_state \<Rightarrow> convergence option \<Rightarrow> observation \<Rightarrow> int \<Rightarrow> advance_input" where
  "sample_input st conv stats now =
     \<lparr>in_state = st, in_live = Some (Inr (sample_writers (rs_floor st))),
      in_final = Inr (sample_writers (rs_floor st)), in_expect = 2, in_convergence = conv,
      in_scan = (ScanDone, stats\<lparr>o_complete := True\<rparr>), in_now = now\<rparr>"

lemma sample_input_sel [simp]:
  "in_state (sample_input st conv stats now) = st"
  "in_live (sample_input st conv stats now) = Some (Inr (sample_writers (rs_floor st)))"
  "in_final (sample_input st conv stats now) = Inr (sample_writers (rs_floor st))"
  "in_expect (sample_input st conv stats now) = 2" "in_convergence (sample_input st conv stats now) = conv"
  "in_scan (sample_input st conv stats now) = (ScanDone, stats\<lparr>o_complete := True\<rparr>)"
  "in_now (sample_input st conv stats now) = now"
  "(sample_input st conv stats now)\<lparr>in_state := st\<rparr> = sample_input st conv stats now"
  "(sample_input st conv stats now)\<lparr>in_convergence := conv'\<rparr> = sample_input st conv' stats now"
  by (simp_all add: sample_input_def)

lemma sample_justified:
  assumes "mode_valid (rs_floor st)"
  shows "advance_justified (sample_input st conv stats now) \<longleftrightarrow>
     (case rs_floor st of
        Expand \<Rightarrow> \<exists>c. conv = Some c \<and> writer_lease_ttl \<le> fst (observe_writers (sample_writers Expand) now c)
      | V3Write \<Rightarrow> True
      | Revoke \<Rightarrow> o_persistent stats = 0 \<and> o_over_max stats = 0
      | Bounded \<Rightarrow> o_v1 stats = 0 \<and> o_v2 stats = 0
      | _ \<Rightarrow> False)"
proof -
  let ?es = "sample_writers (rs_floor st)"
  have es: "?es \<noteq> []" "int (length ?es) = 2"
    "\<forall>e \<in> set ?es. rank (rs_floor st) \<le> rank (mode_of (w_applied e))"
    using mode_of_text [OF assms] by (simp_all add: sample_writers_def join_entry_def del: mode_of.simps)
  have builds: "(\<forall>e \<in> set ?es. \<forall>e' \<in> set ?es. w_build e = w_build e') = True"
    by (simp add: sample_writers_def join_entry_def)
  show ?thesis
    using es unfolding advance_justified_def Let_def sample_input_sel
    by (simp only: option.inject sum.inject ex_simps simp_thms builds) (simp split: session_mode.split)
qed

lemma sample_rs_valid: "mode_valid m \<Longrightarrow> 0 < v \<Longrightarrow> validate_rollout_state (sample_rs m v) = Inr () \<and>
    rs_floor (sample_rs m v) = m \<and> rs_version (sample_rs m v) = v \<and> rs_cap (sample_rs m v) = 20 \<and>
    \<not> rs_paused (sample_rs m v)"
  by (simp add: sample_rs_def validate_rollout_Inr cap_usable_def session_max_per_uid_limit_def)

theorem floor_moves_on_evidence_witness:
  "\<exists>choice conv' t db2.
     reconcile_decide 0 True (load_state advanced_db)
       (sample_input (sample_rs V3Write 2) None (fresh_observation []) 0) = (choice, conv') \<and>
     reconcile_commit 9 choice advanced_db = (t, db2) \<and>
     singleton db2 = Some (sample_rs Revoke 3) \<and> db2 \<noteq> advanced_db"
proof -
  let ?st = "sample_rs V3Write 2"
  let ?x = "sample_input ?st None (fresh_observation []) 0"
  have st: "validate_rollout_state ?st = Inr ()" "rs_floor ?st = V3Write" "rs_version ?st = 2" "rs_cap ?st = 20"
    "\<not> rs_paused ?st"
    using sample_rs_valid [of V3Write 2] by simp_all
  have "advance_justified ?x" by (simp add: sample_justified st(2))
  from justified_allowed [OF this] st obtain d conv' where
    d: "evaluate_rollout_advance ?x = (Inr d, conv')" "d_allowed d" by auto
  note f = evaluate_allowed(4-7) [OF d, simplified, unfolded st]
  have load: "load_state advanced_db = Inr ?st" using sample_rows(2) st(1) by (simp add: load_Inr)
  then have decide: "reconcile_decide 0 True (load_state advanced_db) ?x = (Inr d, conv')"
    using d f(1) st(5) by (simp add: reconcile_decide_def Let_def)
  obtain t db2 where commit: "reconcile_commit 9 (Inr d) advanced_db = (t, db2)" by force
  then have "db2 = snd (advance_decision d ''reconciler'' advanced_db)"
    by (auto simp: reconcile_commit_def split: prod.splits sum.splits)
  then have "singleton db2 = Some (sample_rs Revoke 3)"
    using sample_rows(2) f by (simp add: advance_decision_db advance_floor_def decision_state_def
      rollout_advance_record_def cap_usable_def session_max_per_uid_limit_def in_tx_def advance_tx_def
      insert_advance_def update_row_def sample_rs_def)
  then have ne: "db2 \<noteq> advanced_db" using sample_rows(2) by (auto simp: sample_rs_def)
  from rtranclp_trans [OF booted advanced] have reach: "control_reach empty_db advanced_db" .
  from floor_moves_on_evidence [OF reach rtranclp.rtrancl_refl decide commit ne] sample_rows(2)
  have "singleton db2 = Some (sample_rs Revoke 3)" by (auto simp: sample_rs_def)
  with decide commit ne show ?thesis by blast
qed

text \<open>C34: The first v3 floor waits for a fleet that stands still.  Take the evaluations that one
  caller made with one window, from a new one; when the last of them allows the step to the first v3
  floor, then at least thirty seconds before it an earlier one of them saw the same writers, and so
  did every evaluation in between that looked at the writers for this step; and the registry holds
  as many as the operator expects.\<close>

theorem first_floor_waits:
  assumes "in_convergence x = window_after xs" and "rs_floor (in_state x) = Expand"
    and "in_live x = Some (Inr es)" and "evaluate_rollout_advance x = (Inr d, conv')" and "d_allowed d"
  shows "\<exists>before es0 since later. concat (map sighting xs) = before @ (es0, since) # later \<and>
      since + 30000 \<le> in_now x \<and>
      (\<forall>(es', _) \<in> set ((es0, since) # later). writer_set_fingerprint es' = writer_set_fingerprint es) \<and>
      int (length es) = in_expect x"
proof -
  let ?obs = "concat (map sighting xs)"
  obtain held c where h: "observe_writers es (in_now x) (observe_all ?obs new_convergence) = (held, c)" by force
  from evaluate_allowed(1) [OF assms(4,5)] assms(1-3) h
  have e: "int (length es) = in_expect x" and held: "writer_lease_ttl \<le> held"
    by (auto simp: advance_justified_def Let_def window_after_sightings)
  then have "stood_still (writer_set_fingerprint es) (in_now x - held) ?obs"
    using window_stood_still [OF h] by (simp add: writer_lease_ttl_def)
  then obtain before es0 later where "?obs = before @ (es0, in_now x - held) # later"
    "\<forall>(es', _) \<in> set ((es0, in_now x - held) # later). writer_set_fingerprint es' = writer_set_fingerprint es"
    unfolding stood_still_def by blast
  with e held show ?thesis by (auto simp: writer_lease_ttl_def intro!: exI [of _ before])
qed

theorem first_floor_waits_witness:
  "\<exists>d conv' before es0 since later.
     evaluate_rollout_advance (sample_input (sample_rs Expand 1)
       (window_after [sample_input (sample_rs Expand 1) None (fresh_observation []) 0]) (fresh_observation []) 30000) =
       (Inr d, conv') \<and> d_allowed d \<and>
     concat (map sighting [sample_input (sample_rs Expand 1) None (fresh_observation []) 0]) =
       before @ (es0, since) # later \<and> since + 30000 \<le> 30000"
proof -
  let ?st = "sample_rs Expand 1"
  let ?first = "sample_input ?st None (fresh_observation []) 0"
  let ?x = "sample_input ?st (window_after [?first]) (fresh_observation []) 30000"
  have st: "validate_rollout_state ?st = Inr ()" "rs_floor ?st = Expand" "\<not> rs_paused ?st"
    using sample_rs_valid [of Expand 1] by simp_all
  have "sighting ?first = [(sample_writers Expand, 0)]"
    unfolding sighting_def sample_input_sel
    by (simp only: st simp_thms if_True fst_conv option.case sum.case)
  then have w: "window_after [?first] = Some \<lparr>cv_fingerprint = writer_set_fingerprint (sample_writers Expand), cv_since = 0\<rparr>"
    using fingerprint_not_empty by (simp add: window_after_sightings observe_writers_def Let_def new_convergence_def)
  have "fst (observe_writers (sample_writers Expand) 30000
      \<lparr>cv_fingerprint = writer_set_fingerprint (sample_writers Expand), cv_since = 0\<rparr>) = 30000"
    by (simp add: observe_writers_def Let_def)
  then have "advance_justified ?x"
    by (simp add: sample_justified st(2) w writer_lease_ttl_def)
  from justified_allowed [OF this] st obtain d conv' where
    d: "evaluate_rollout_advance ?x = (Inr d, conv')" "d_allowed d" by auto
  from first_floor_waits [of ?x "[?first]", OF _ _ _ d] st d show ?thesis by fastforce
qed










text \<open>
  The gate of \<open>bounded\<close> is not exactly the set that its reader rejects: a v3 session that was issued
  before the maximal lifetime was lowered is accepted in \<open>bounded\<close>, and the count of it blocks the step.
\<close>

theorem bounded_gate_stricter_than_reader:
  "let C = sample_cfg\<lparr>max_ttl := 30000000000\<rparr>;
       raw = v3_prefix @ marshal_v3 flat_codec (sample_info ''g1'');
       stats = observe_record flat_codec (max_ttl C) \<lparr>payload = raw, ttl = 55000000000\<rparr> (fresh_observation ''r1'')
   in fst (run mem_kv flat_codec sample_surroundings (read_token (token_prefix C @ ''t1'')) [] revoked_store) =
        Inr \<lparr>payload = raw, ttl = 55000000000\<rparr> \<and>
      fst (run mem_kv flat_codec (sample_surroundings\<lparr>at_state := sample_state\<lparr>mode := Bounded\<rparr>\<rparr>)
        (validate_token flat_codec C True True (token_prefix C) ''t1'') [] revoked_store) = Inr (sample_info ''g1'') \<and>
      fst (scan_blockers Bounded stats) = [''persistent=0 over_max=1 (need 0)'']"
proof -
  let ?C = "sample_cfg\<lparr>max_ttl := 30000000000\<rparr>"
  let ?v = "v3_prefix @ marshal_v3 flat_codec (sample_info ''g1'')"
  have d: "decode flat_codec ?v = Inr (sample_info ''g1'')"
    by (rule flat.decode_encode_v3)
      (simp_all add: sample_info_def empty_info_def info_ok_def v3_valid_def blank_simps utf8_simps)
  have keys: "token_key ?C t = token_key sample_cfg t" "generation_key ?C u = generation_key sample_cfg u"
    "token_prefix ?C = token_prefix sample_cfg" "max_ttl ?C = 30000000000" for t u
    by (simp_all add: token_key_def generation_key_def)
  have store: "kv_get mem_kv revoked_store 5000 (token_key sample_cfg ''t1'') = Some ?v"
    "kv_pttl mem_kv revoked_store 5000 (token_key sample_cfg ''t1'') = 55000"
    by (simp_all add: mem_kv_sel sample_simps)
  have "run mem_kv flat_codec (sample_surroundings\<lparr>at_state := sample_state\<lparr>mode := Bounded\<rparr>\<rparr>)
      (validate_token flat_codec ?C True True (token_prefix ?C) ''t1'') [] revoked_store =
      (Inr (sample_info ''g1''), [], revoked_store)"
  proof (rule run_validate_v3 [where p = 55000 and v = ?v and rec = revoked_record and
        raw = "lua_encode flat_codec revoked_record"])
  qed (rule d | simp add: keys mem_kv_sel sample_simps)+
  moreover have "run mem_kv flat_codec sample_surroundings (read_token (token_prefix ?C @ ''t1'')) [] revoked_store =
      (Inr \<lparr>payload = ?v, ttl = 55000000000\<rparr>, [], revoked_store)"
    using run_read_found [of "token_key sample_cfg ''t1''" mem_kv revoked_store sample_surroundings ?v 55000 flat_codec "[]"]
      store sample_key_not_blank
    by (simp add: token_key_def keys sample_surroundings_def of_millis_def milli_ns_def)
  moreover have "show_int 0 = ''0''" "show_int 1 = ''1''" by code_simp+
  moreover have "prefix v3_prefix ?v" by simp
  ultimately show ?thesis
    by (simp add: Let_def keys observe_record_def d count_expiry_def count_version_def fresh_observation_def
      scan_blockers_def show_counts_def)
qed

end
