(* ===== verification/Rollout_Apply.thy ===== *)
theory Rollout_Apply
  imports Rollout_State
begin

text \<open>
  The session rollout, \<open>ApplyRolloutState\<close> of session_store.go: the mode, the cap and the version that
  a replica runs at are one value behind an atomic pointer, which any number of goroutines raise in a
  compare-and-swap loop.  A pointer is a stamp with the value it points to; each swap stores a fresh
  pointer, so a swap succeeds only when nothing was stored since the load.
\<close>

section \<open>One application\<close>

definition apply_checks :: "rollout_state \<Rightarrow> session_mode \<Rightarrow> rollout_error + unit" where
  "apply_checks st m =
     bind_res (validate_rollout_state st) (\<lambda>_.
     if \<not> mode_valid m then Inl BadMode
     else if rank m < rank (rs_floor st) then Inl ModeBelowFloor
     else Inr ())"

text \<open>The value that the body of the loop computes from the current one.\<close>

definition apply_next :: "rollout_state \<Rightarrow> session_mode \<Rightarrow> rollout \<Rightarrow> rollout" where
  "apply_next st m cur =
     (let m = (if rank m < rank (mode cur) then mode cur else m);
          (v, cap) =
            (if version cur < rs_version st then (rs_version st, rs_cap st)
             else if \<not> cap_usable (max_per_uid cur) then (version cur, rs_cap st)
             else (version cur, max_per_uid cur))
      in \<lparr>mode = m, max_per_uid = cap, version = v\<rparr>)"

definition apply_rollout_state :: "rollout_state \<Rightarrow> session_mode \<Rightarrow> rollout \<Rightarrow> rollout_error + rollout" where
  "apply_rollout_state st m cur = bind_res (apply_checks st m) (\<lambda>_. Inr (apply_next st m cur))"

section \<open>The loop, run by many goroutines\<close>

type_synonym pointer = "nat \<times> rollout"

datatype apply_pc = Loading | Holding pointer | Applied

record apply_sys =
  cell :: pointer
  pcs :: "nat \<Rightarrow> apply_pc"

inductive apply_step ::
    "(nat \<Rightarrow> rollout_state \<times> session_mode) \<Rightarrow> nat \<Rightarrow> apply_sys \<Rightarrow> apply_sys \<Rightarrow> bool"
  for args :: "nat \<Rightarrow> rollout_state \<times> session_mode" and n :: nat where
  reads: "i < n \<Longrightarrow> pcs s i = Loading \<Longrightarrow>
    apply_step args n s (s\<lparr>pcs := (pcs s)(i := Holding (cell s))\<rparr>)"
| unchanged: "i < n \<Longrightarrow> pcs s i = Holding (t, v) \<Longrightarrow> apply_next (fst (args i)) (snd (args i)) v = v \<Longrightarrow>
    apply_step args n s (s\<lparr>pcs := (pcs s)(i := Applied)\<rparr>)"
| swaps: "i < n \<Longrightarrow> pcs s i = Holding (t, v) \<Longrightarrow> apply_next (fst (args i)) (snd (args i)) v \<noteq> v \<Longrightarrow>
    t = fst (cell s) \<Longrightarrow>
    apply_step args n s (s\<lparr>cell := (Suc t, apply_next (fst (args i)) (snd (args i)) v),
      pcs := (pcs s)(i := Applied)\<rparr>)"
| loses: "i < n \<Longrightarrow> pcs s i = Holding (t, v) \<Longrightarrow> apply_next (fst (args i)) (snd (args i)) v \<noteq> v \<Longrightarrow>
    t \<noteq> fst (cell s) \<Longrightarrow>
    apply_step args n s (s\<lparr>pcs := (pcs s)(i := Loading)\<rparr>)"

text \<open>All goroutines have passed the checks and are about to load.\<close>

definition apply_start :: "rollout \<Rightarrow> apply_sys" where
  "apply_start v = \<lparr>cell = (0, v), pcs = (\<lambda>_. Loading)\<rparr>"

definition args_ok :: "(nat \<Rightarrow> rollout_state \<times> session_mode) \<Rightarrow> nat \<Rightarrow> bool" where
  "args_ok args n \<longleftrightarrow> (\<forall>i < n. apply_checks (fst (args i)) (snd (args i)) = Inr ())"

section \<open>Facts about one application\<close>

lemma apply_next_sel [simp]:
  "mode (apply_next st m cur) = (if rank m < rank (mode cur) then mode cur else m)"
  "version (apply_next st m cur) = max (version cur) (rs_version st)"
  by (auto simp: apply_next_def Let_def)

lemma rank_le_5: "rank m \<le> 5"
  by (cases m) auto

lemma rank_inject: "mode_valid m \<Longrightarrow> rank m = rank k \<Longrightarrow> m = k"
  by (cases m; cases k) auto

text \<open>How far a value is from the end of the rollout, for the versions in \<open>V\<close>.\<close>

definition distance :: "int set \<Rightarrow> rollout \<Rightarrow> nat" where
  "distance V cur = (5 - rank (mode cur)) + card {v \<in> V. version cur < v} +
     (if cap_usable (max_per_uid cur) then 0 else 1)"

lemma checks_ok:
  "apply_checks st m = Inr u \<longleftrightarrow>
     mode_valid (rs_floor st) \<and> cap_usable (rs_cap st) \<and> 0 < rs_version st \<and> mode_valid m \<and>
     rank (rs_floor st) \<le> rank m"
  by (auto simp: apply_checks_def res_simps split: if_splits)

lemma apply_next_closer:
  assumes ok: "apply_checks st m = Inr ()" and V: "rs_version st \<in> V" "finite V"
    and new: "apply_next st m cur \<noteq> cur"
  shows "distance V (apply_next st m cur) < distance V cur"
proof -
  let ?new = "apply_next st m cur"
  have rank: "rank (mode cur) \<le> rank (mode ?new)" by simp
  have sub: "{v \<in> V. version ?new < v} \<subseteq> {v \<in> V. version cur < v}" by auto
  then have card: "card {v \<in> V. version ?new < v} \<le> card {v \<in> V. version cur < v}"
    using V(2) by (intro card_mono) auto
  have usable: "cap_usable (max_per_uid ?new)"
    using ok by (auto simp: apply_next_def Let_def checks_ok)
  consider (phase) "rank (mode cur) < rank m" | (newer) "version cur < rs_version st"
    | (heal) "\<not> cap_usable (max_per_uid cur)"
    | (same) "rank m \<le> rank (mode cur)" "rs_version st \<le> version cur" "cap_usable (max_per_uid cur)"
    by linarith
  then show ?thesis
  proof cases
    case phase
    then have "rank (mode cur) < rank (mode ?new)" by simp
    with card usable rank_le_5 [of "mode ?new"] show ?thesis unfolding distance_def by auto
  next
    case newer
    then have "rs_version st \<in> {v \<in> V. version cur < v} - {v \<in> V. version ?new < v}" using V(1) by auto
    with sub have "{v \<in> V. version ?new < v} \<subset> {v \<in> V. version cur < v}" by blast
    then have "card {v \<in> V. version ?new < v} < card {v \<in> V. version cur < v}"
      using V(2) by (intro psubset_card_mono) auto
    with usable rank show ?thesis unfolding distance_def by auto
  next
    case heal
    with card usable rank show ?thesis unfolding distance_def by auto
  next
    case same
    have "mode ?new = mode cur"
    proof (cases "rank m < rank (mode cur)")
      case False
      with same(1) have "rank m = rank (mode cur)" by simp
      with ok False show ?thesis using rank_inject [of m "mode cur"] by (simp add: checks_ok)
    qed simp
    with same have "?new = cur" by (cases cur) (simp add: apply_next_def)
    with new show ?thesis by simp
  qed
qed

section \<open>Every run of the loops is short\<close>

text \<open>A held pointer is either the current one or stale, and stamps only grow.\<close>

definition pointers_ok :: "apply_sys \<Rightarrow> bool" where
  "pointers_ok s \<longleftrightarrow> (\<forall>i t v. pcs s i = Holding (t, v) \<longrightarrow>
     t \<le> fst (cell s) \<and> (t = fst (cell s) \<longrightarrow> v = snd (cell s)))"

fun weight :: "nat \<Rightarrow> apply_pc \<Rightarrow> nat" where
  "weight c Loading = 2"
| "weight c (Holding p) = (if fst p = c then 1 else 3)"
| "weight c Applied = 0"

definition work :: "int set \<Rightarrow> nat \<Rightarrow> apply_sys \<Rightarrow> nat" where
  "work V n s = distance V (snd (cell s)) * (2 * n + 1) + (\<Sum>i < n. weight (fst (cell s)) (pcs s i))"

lemma sum_upd:
  fixes f :: "nat \<Rightarrow> nat"
  assumes "i < n"
  shows "(\<Sum>j < n. if j = i then a else f j) + f i = (\<Sum>j < n. f j) + a"
proof -
  have "(\<Sum>j < n. if j = i then a else f j) = a + (\<Sum>j \<in> {..<n} - {i}. f j)"
    using assms by (simp add: sum.remove [where x = i])
  moreover have "(\<Sum>j < n. f j) = f i + (\<Sum>j \<in> {..<n} - {i}. f j)"
    using assms by (simp add: sum.remove [where x = i])
  ultimately show ?thesis by simp
qed

lemma apply_step_pointers:
  assumes "apply_step args n s s'" and ok: "pointers_ok s"
  shows "pointers_ok s'"
  using assms(1)
proof cases
  case (swaps i t v)
  have "t' \<le> Suc t \<and> t' \<noteq> Suc t" if "pcs s j = Holding (t', v')" for j t' v'
  proof -
    have "t' \<le> t" using ok that swaps(5) by (auto simp: pointers_ok_def)
    then show ?thesis by simp
  qed
  then show ?thesis unfolding swaps(1) pointers_ok_def by (auto split: if_splits)
qed (use ok in \<open>auto simp: pointers_ok_def split: if_splits\<close>)

lemma apply_step_work:
  assumes step: "apply_step args n s s'" and ok: "pointers_ok s" and args: "args_ok args n"
    and V: "V = (rs_version \<circ> fst \<circ> args) ` {..<n}"
  shows "work V n s' < work V n s"
  using step
proof cases
  case (reads i)
  have "(\<Sum>j < n. weight (fst (cell s)) (if j = i then Holding (cell s) else pcs s j)) + 2 =
      (\<Sum>j < n. weight (fst (cell s)) (pcs s j)) + 1"
    using sum_upd [OF reads(2), of 1 "\<lambda>j. weight (fst (cell s)) (pcs s j)"] reads(3)
    by (simp add: if_distrib [of "weight _"] cong: if_cong)
  with reads show ?thesis by (simp add: work_def fun_upd_def)
next
  case (unchanged i t v)
  have "(\<Sum>j < n. weight (fst (cell s)) (if j = i then Applied else pcs s j)) + weight (fst (cell s)) (pcs s i) =
      (\<Sum>j < n. weight (fst (cell s)) (pcs s j)) + 0"
    using sum_upd [OF unchanged(2), of 0 "\<lambda>j. weight (fst (cell s)) (pcs s j)"]
    by (simp add: if_distrib [of "weight _"] cong: if_cong)
  with unchanged show ?thesis by (simp add: work_def fun_upd_def split: if_splits)
next
  case (loses i t v)
  have "(\<Sum>j < n. weight (fst (cell s)) (if j = i then Loading else pcs s j)) + 3 =
      (\<Sum>j < n. weight (fst (cell s)) (pcs s j)) + 2"
    using sum_upd [OF loses(2), of 2 "\<lambda>j. weight (fst (cell s)) (pcs s j)"] loses(3,5)
    by (simp add: if_distrib [of "weight _"] cong: if_cong)
  with loses show ?thesis by (simp add: work_def fun_upd_def)
next
  case (swaps i t v)
  let ?a = "args i" and ?w = "\<lambda>s. \<Sum>j < n. weight (fst (cell s)) (pcs s j)"
  have v: "v = snd (cell s)" using ok swaps(3,5) by (auto simp: pointers_ok_def)
  have "distance V (apply_next (fst ?a) (snd ?a) v) < distance V v"
    by (rule apply_next_closer) (use args swaps(2,4) in \<open>auto simp: args_ok_def V\<close>)
  then have "distance V (apply_next (fst ?a) (snd ?a) v) * (2 * n + 1) + (2 * n + 1) \<le> distance V v * (2 * n + 1)"
    by (metis Suc_leI mult_Suc mult_le_mono1 add.commute)
  moreover have "?w s' \<le> ?w s + 2 * n"
  proof -
    have "weight c' (if j = i then Applied else p) \<le> weight c p + 2" for c c' j p
      by (cases p) auto
    then have "?w s' \<le> (\<Sum>j < n. weight (fst (cell s)) (pcs s j) + 2)"
      unfolding swaps(1) by (intro sum_mono) simp
    also have "\<dots> = ?w s + 2 * n" by (simp only: sum.distrib) simp
    finally show ?thesis .
  qed
  ultimately show ?thesis by (simp add: work_def swaps(1) v)
qed

lemma apply_run_work:
  assumes "(apply_step args n ^^ k) s s'" and "pointers_ok s" and "args_ok args n"
    and "V = (rs_version \<circ> fst \<circ> args) ` {..<n}"
  shows "k + work V n s' \<le> work V n s \<and> pointers_ok s'"
  using assms(1)
proof (induction k arbitrary: s')
  case (Suc k)
  then obtain s1 where "(apply_step args n ^^ k) s s1" "apply_step args n s1 s'" by auto
  with Suc.IH [of s1] apply_step_work [OF _ _ assms(3,4), of s1 s'] apply_step_pointers show ?case by fastforce
qed (use assms(2) in simp)

lemma start_pointers: "pointers_ok (apply_start v)"
  by (simp add: pointers_ok_def apply_start_def)

lemma start_work:
  assumes "V = (rs_version \<circ> fst \<circ> args) ` {..<n}"
  shows "work V n (apply_start cur) \<le> (n + 6) * (2 * n + 1) + 2 * n"
proof -
  have "card {v \<in> V. version cur < v} \<le> card V" using assms by (intro card_mono) auto
  also have "card V \<le> n" using assms card_image_le [of "{..<n}" "rs_version \<circ> fst \<circ> args"] by simp
  finally have "distance V cur \<le> n + 6" unfolding distance_def by auto
  then have "distance V cur * (2 * n + 1) \<le> (n + 6) * (2 * n + 1)" by (rule mult_le_mono1)
  then show ?thesis by (simp add: work_def apply_start_def)
qed

section \<open>What is left at the end\<close>

text \<open>A goroutine that has returned left the value at least at its own mode and version.\<close>

definition covered :: "(nat \<Rightarrow> rollout_state \<times> session_mode) \<Rightarrow> nat \<Rightarrow> rollout \<Rightarrow> apply_sys \<Rightarrow> bool" where
  "covered args n v0 s \<longleftrightarrow>
     (let v = snd (cell s) in
      rank (mode v0) \<le> rank (mode v) \<and> version v0 \<le> version v \<and>
      (\<forall>i < n. pcs s i = Applied \<longrightarrow>
         rank (snd (args i)) \<le> rank (mode v) \<and> rs_version (fst (args i)) \<le> version v) \<and>
      (mode v = mode v0 \<or> (\<exists>i < n. mode v = snd (args i))) \<and>
      (if version v = version v0 then max_per_uid v = max_per_uid v0 \<or>
            (\<not> cap_usable (max_per_uid v0) \<and> (\<exists>i < n. max_per_uid v = rs_cap (fst (args i))))
       else \<exists>i < n. version v = rs_version (fst (args i)) \<and> max_per_uid v = rs_cap (fst (args i))))"

lemma covered_start: "covered args n v0 (apply_start v0)"
  by (simp add: covered_def apply_start_def Let_def)

lemma covered_quiet:
  assumes "covered args n v0 s" and "cell s' = cell s"
    and "\<And>i. i < n \<Longrightarrow> pcs s' i = Applied \<Longrightarrow> pcs s i = Applied \<or>
      rank (snd (args i)) \<le> rank (mode (snd (cell s))) \<and> rs_version (fst (args i)) \<le> version (snd (cell s))"
  shows "covered args n v0 s'"
  using assms by (fastforce simp: covered_def Let_def)

definition held_below :: "apply_sys \<Rightarrow> bool" where
  "held_below s \<longleftrightarrow> (\<forall>i t v. pcs s i = Holding (t, v) \<longrightarrow>
     rank (mode v) \<le> rank (mode (snd (cell s))) \<and> version v \<le> version (snd (cell s)))"

lemma apply_step_below:
  assumes step: "apply_step args n s s'" and ok: "pointers_ok s" and below: "held_below s"
  shows "held_below s'"
  using step
proof cases
  case (swaps i t v)
  then have "v = snd (cell s)" using ok by (auto simp: pointers_ok_def)
  with swaps below show ?thesis
    by (fastforce simp: held_below_def le_max_iff_disj split: if_splits)
qed (use below in \<open>auto simp: held_below_def split: if_splits\<close>)

lemma apply_same:
  assumes "apply_next st m v = v"
  shows "rank m \<le> rank (mode v)" and "rs_version st \<le> version v"
proof -
  have "mode (apply_next st m v) = mode v" "version (apply_next st m v) = version v" using assms by simp_all
  then show "rank m \<le> rank (mode v)" "rs_version st \<le> version v" by (auto split: if_splits)
qed

lemma apply_step_covered:
  assumes step: "apply_step args n s s'" and ok: "pointers_ok s" and below: "held_below s"
    and args: "args_ok args n" and c: "covered args n v0 s"
  shows "covered args n v0 s'"
  using step
proof cases
  case (unchanged i t v)
  from below unchanged(3) have v: "rank (mode v) \<le> rank (mode (snd (cell s)))" "version v \<le> version (snd (cell s))"
    by (auto simp: held_below_def)
  with apply_same [OF unchanged(4)] show ?thesis
    by (intro covered_quiet [OF c]) (auto simp: unchanged(1) split: if_splits)
next
  case (swaps i t v)
  let ?st = "fst (args i)" and ?m = "snd (args i)"
  let ?v = "apply_next ?st ?m v"
  have v: "v = snd (cell s)" using ok swaps(3,5) by (auto simp: pointers_ok_def)
  have cap: "cap_usable (rs_cap ?st)" using args swaps(2) by (auto simp: args_ok_def checks_ok)
  have old: "rank (mode v0) \<le> rank (mode v)" "version v0 \<le> version v"
    "\<And>j. j < n \<Longrightarrow> pcs s j = Applied \<Longrightarrow>
      rank (snd (args j)) \<le> rank (mode v) \<and> rs_version (fst (args j)) \<le> version v"
    "mode v = mode v0 \<or> (\<exists>j < n. mode v = snd (args j))"
    "if version v = version v0 then max_per_uid v = max_per_uid v0 \<or>
            (\<not> cap_usable (max_per_uid v0) \<and> (\<exists>j < n. max_per_uid v = rs_cap (fst (args j))))
       else \<exists>j < n. version v = rs_version (fst (args j)) \<and> max_per_uid v = rs_cap (fst (args j))"
    using c by (simp_all add: covered_def Let_def v)
  have new: "snd (cell s') = ?v" and pc: "pcs s' = (pcs s)(i := Applied)" by (simp_all add: swaps(1))
  have "rank (snd (args j)) \<le> rank (mode ?v) \<and> rs_version (fst (args j)) \<le> version ?v"
    if "j < n" "pcs s' j = Applied" for j
    using that old(3) [of j] pc by (cases "j = i") force+
  moreover have "mode ?v = mode v0 \<or> (\<exists>j < n. mode ?v = snd (args j))"
    using old(4) swaps(2) by auto
  moreover have "if version ?v = version v0 then max_per_uid ?v = max_per_uid v0 \<or>
            (\<not> cap_usable (max_per_uid v0) \<and> (\<exists>j < n. max_per_uid ?v = rs_cap (fst (args j))))
       else \<exists>j < n. version ?v = rs_version (fst (args j)) \<and> max_per_uid ?v = rs_cap (fst (args j))"
  proof (cases "version v < rs_version ?st")
    case True
    with old(2) swaps(2) show ?thesis by (auto simp: apply_next_def Let_def)
  next
    case same: False
    show ?thesis
    proof (cases "cap_usable (max_per_uid v)")
      case True
      with same old(5) show ?thesis by (auto simp: apply_next_def Let_def)
    next
      case False
      have "version v = version v0"
      proof (rule ccontr)
        assume "version v \<noteq> version v0"
        with old(5) obtain j where "j < n" "max_per_uid v = rs_cap (fst (args j))" by auto
        with args False show False by (auto simp: args_ok_def checks_ok)
      qed
      moreover from this have "\<not> cap_usable (max_per_uid v0)"
        using old(5) args False by (auto simp: args_ok_def checks_ok)
      ultimately show ?thesis using same False swaps(2) by (auto simp: apply_next_def Let_def)
    qed
  qed
  moreover have "rank (mode v0) \<le> rank (mode ?v)" "version v0 \<le> version ?v" using old(1,2) by auto
  ultimately show ?thesis unfolding covered_def Let_def new by blast
qed (use c in \<open>auto intro: covered_quiet split: if_splits\<close>)

lemma apply_run_covered:
  assumes "(apply_step args n ^^ k) (apply_start v0) s" and "args_ok args n"
  shows "covered args n v0 s \<and> pointers_ok s \<and> held_below s"
  using assms(1)
proof (induction k arbitrary: s)
  case 0
  then show ?case
    using covered_start start_pointers by (auto simp: held_below_def apply_start_def)
next
  case (Suc k)
  then obtain s1 where "(apply_step args n ^^ k) (apply_start v0) s1" "apply_step args n s1 s" by auto
  with Suc.IH [of s1] apply_step_covered [OF _ _ _ assms(2)] apply_step_pointers apply_step_below
  show ?case by blast
qed

lemma apply_progress:
  assumes "i < n" and "pcs s i \<noteq> Applied"
  shows "\<exists>s'. apply_step args n s s'"
proof (cases "pcs s i")
  case (Holding p)
  obtain t v where "p = (t, v)" by (cases p)
  with Holding assms show ?thesis
    using apply_step.unchanged [of i n s t v args] apply_step.swaps [of i n s t v args]
      apply_step.loses [of i n s t v args] by metis
qed (use assms apply_step.reads [of i n s args] in auto)

end
