(* ===== verification/Writer_Lease.thy ===== *)
theory Writer_Lease
  imports Writer_Registry
begin

text \<open>
  One replica and its lease: the heartbeat and the poller publish under one mutex, the poller changes
  the mode behind the fence (\<open>ApplyAndPublishRolloutState\<close>), Redis may execute a command whose answer
  was given up at any later time, other replicas prune the roster, and time passes.  A state with the
  mode and the cap already in use is applied without the fence and changes neither.  A publication
  that the replica counts as confirmed was executed at most \<open>lat\<close> milliseconds before.
\<close>

section \<open>The system\<close>

datatype poll_pc = Resting | Fenced | Raised | Publishing | Published

record publication =
  pb_entry :: writer_entry
  pb_poller :: bool
  pb_executed :: "int option"

record 's replica =
  rp_store :: 's
  rp_now :: int
  rp_fenced :: bool
  rp_mode :: session_mode
  rp_reg :: writer_registry
  rp_pub :: "publication option"
  rp_late :: "writer_entry set"
  rp_poll :: poll_pc

text \<open>\<open>readable\<close>: \<open>Live\<close> takes the value for an entry.\<close>

definition readable :: "entry_codec \<Rightarrow> string \<Rightarrow> bool" where
  "readable J v \<longleftrightarrow> \<not> blank v \<and> unmarshal_entry J v \<noteq> None"

fun candidate_ok :: "entry_codec \<Rightarrow> stale_writer \<Rightarrow> bool" where
  "candidate_ok J (Missing i) = True"
| "candidate_ok J (Unreadable i v) = (\<not> readable J v)"

inductive replica_step ::
    "'s kv \<Rightarrow> 's roster \<Rightarrow> entry_codec \<Rightarrow> string \<Rightarrow> int \<Rightarrow> 's replica \<Rightarrow> 's replica \<Rightarrow> bool"
  for r :: "'s kv" and q :: "'s roster" and J :: entry_codec and p :: string and lat :: int where
  refresh_starts: "rp_pub c = None \<Longrightarrow> joined (rp_reg c) \<Longrightarrow>
    replica_step r q J p lat c
      (c\<lparr>rp_pub := Some \<lparr>pb_entry = rg_self (rp_reg c), pb_poller = False, pb_executed = None\<rparr>\<rparr>)"
| executes: "rp_pub c = Some b \<Longrightarrow> pb_executed b = None \<Longrightarrow>
    replica_step r q J p lat c
      (c\<lparr>rp_store := publish_writer_lease r q J p (rp_now c) (pb_entry b) (rp_store c),
         rp_pub := Some (b\<lparr>pb_executed := Some (rp_now c)\<rparr>)\<rparr>)"
| refresh_ends: "rp_pub c = Some b \<Longrightarrow> \<not> pb_poller b \<Longrightarrow> pb_executed b = Some t \<Longrightarrow> rp_now c \<le> t + lat \<Longrightarrow>
    replica_step r q J p lat c
      (c\<lparr>rp_reg := (rp_reg c)\<lparr>rg_last := Some (rp_now c)\<rparr>, rp_pub := None\<rparr>)"
| refresh_fails: "rp_pub c = Some b \<Longrightarrow> \<not> pb_poller b \<Longrightarrow>
    replica_step r q J p lat c (c\<lparr>rp_pub := None, rp_late := insert (pb_entry b) (rp_late c)\<rparr>)"
| late_executes: "e \<in> rp_late c \<Longrightarrow>
    replica_step r q J p lat c
      (c\<lparr>rp_store := publish_writer_lease r q J p (rp_now c) e (rp_store c)\<rparr>)"
| fences: "rp_poll c = Resting \<Longrightarrow>
    replica_step r q J p lat c (c\<lparr>rp_fenced := True, rp_poll := Fenced\<rparr>)"
| raises: "rp_poll c = Fenced \<Longrightarrow> mode_valid m \<Longrightarrow>
    replica_step r q J p lat c
      (c\<lparr>rp_mode := (if rank m < rank (rp_mode c) then rp_mode c else m), rp_poll := Raised\<rparr>)"
| gives_up: "rp_poll c \<in> {Fenced, Raised} \<Longrightarrow>
    replica_step r q J p lat c (c\<lparr>rp_poll := Resting\<rparr>)"
| publish_starts: "rp_poll c = Raised \<Longrightarrow> rp_pub c = None \<Longrightarrow>
    publish_candidate (rp_reg c) (mode_text (rp_mode c)) = Inr e \<Longrightarrow>
    replica_step r q J p lat c
      (c\<lparr>rp_pub := Some \<lparr>pb_entry = e, pb_poller = True, pb_executed = None\<rparr>, rp_poll := Publishing\<rparr>)"
| publish_ends: "rp_pub c = Some b \<Longrightarrow> pb_poller b \<Longrightarrow> pb_executed b = Some t \<Longrightarrow> rp_now c \<le> t + lat \<Longrightarrow>
    replica_step r q J p lat c
      (c\<lparr>rp_reg := published (pb_entry b) (rp_now c) (rp_reg c), rp_pub := None, rp_poll := Published\<rparr>)"
| publish_fails: "rp_pub c = Some b \<Longrightarrow> pb_poller b \<Longrightarrow>
    replica_step r q J p lat c
      (c\<lparr>rp_pub := None, rp_late := insert (pb_entry b) (rp_late c), rp_poll := Resting\<rparr>)"
| unfences: "rp_poll c = Published \<Longrightarrow>
    replica_step r q J p lat c (c\<lparr>rp_fenced := False, rp_poll := Resting\<rparr>)"
| time_passes: "rp_now c \<le> t \<Longrightarrow> replica_step r q J p lat c (c\<lparr>rp_now := t\<rparr>)"
| prunes: "candidate_ok J x \<Longrightarrow>
    replica_step r q J p lat c
      (c\<lparr>rp_store := prune_writer_lease r q p (rp_now c) x (rp_store c)\<rparr>)"
| others: "kv_get r s' (rp_now c) (entry_key p (w_id (rg_self (rp_reg c)))) =
      kv_get r (rp_store c) (rp_now c) (entry_key p (w_id (rg_self (rp_reg c)))) \<Longrightarrow>
    kv_pttl r s' (rp_now c) (entry_key p (w_id (rg_self (rp_reg c)))) =
      kv_pttl r (rp_store c) (rp_now c) (entry_key p (w_id (rg_self (rp_reg c)))) \<Longrightarrow>
    (w_id (rg_self (rp_reg c)) \<in> members_of q (rp_store c) (rp_now c) (roster_key p) \<Longrightarrow>
      w_id (rg_self (rp_reg c)) \<in> members_of q s' (rp_now c) (roster_key p)) \<Longrightarrow>
    replica_step r q J p lat c (c\<lparr>rp_store := s'\<rparr>)"

abbreviation replica_reach ::
    "'s kv \<Rightarrow> 's roster \<Rightarrow> entry_codec \<Rightarrow> string \<Rightarrow> int \<Rightarrow> 's replica \<Rightarrow> 's replica \<Rightarrow> bool" where
  "replica_reach r q J p lat \<equiv> (replica_step r q J p lat)\<^sup>*\<^sup>*"

text \<open>After \<open>Join\<close> has chosen a fresh identity: nothing is published and issuing is fenced.\<close>

definition entry_ok :: "writer_entry \<Rightarrow> bool" where
  "entry_ok e \<longleftrightarrow> valid_utf8 (w_id e) \<and> valid_utf8 (w_build e) \<and> valid_utf8 (w_applied e) \<and> valid_utf8 (w_pod e) \<and>
     0 \<le> w_started e \<and> w_started e < 2 ^ 63"

definition replica_start :: "'s kv \<Rightarrow> string \<Rightarrow> 's replica \<Rightarrow> bool" where
  "replica_start r p c \<longleftrightarrow>
     kv_get r (rp_store c) (rp_now c) (entry_key p (w_id (rg_self (rp_reg c)))) = None \<and>
     rp_fenced c \<and> mode_valid (rp_mode c) \<and> entry_ok (rg_self (rp_reg c)) \<and>
     w_id (rg_self (rp_reg c)) \<noteq> [] \<and> w_applied (rg_self (rp_reg c)) = mode_text (rp_mode c) \<and>
     rg_last (rp_reg c) = None \<and> rp_pub c = None \<and> rp_late c = {} \<and> rp_poll c = Resting"

section \<open>The invariant\<close>

locale entry_laws =
  fixes J :: entry_codec
  assumes entry_roundtrip: "entry_ok e \<Longrightarrow> unmarshal_entry J (marshal_entry J e) = Some e"
    and entry_not_blank: "\<not> blank (marshal_entry J e)"

text \<open>An entry that this replica may have published: its own identity, and no mode above its own.\<close>

definition own_entry :: "string \<Rightarrow> session_mode \<Rightarrow> writer_entry \<Rightarrow> bool" where
  "own_entry me m e \<longleftrightarrow> w_id e = me \<and> entry_ok e \<and> rank (mode_of (w_applied e)) \<le> rank m"

definition alive_until :: "'s kv \<Rightarrow> string \<Rightarrow> int \<Rightarrow> int \<Rightarrow> 's \<Rightarrow> bool" where
  "alive_until r k x now s \<longleftrightarrow> (now < x \<longrightarrow> kv_get r s now k \<noteq> None \<and>
     (kv_pttl r s now k = -1 \<or> x \<le> now + kv_pttl r s now k))"

definition entries_ok ::
    "'s kv \<Rightarrow> 's roster \<Rightarrow> entry_codec \<Rightarrow> string \<Rightarrow> string \<Rightarrow> 's replica \<Rightarrow> bool" where
  "entries_ok r q J p me c \<longleftrightarrow>
     mode_valid (rp_mode c) \<and> own_entry me (rp_mode c) (rg_self (rp_reg c)) \<and>
     (\<forall>b. rp_pub c = Some b \<longrightarrow> own_entry me (rp_mode c) (pb_entry b)) \<and>
     (\<forall>e \<in> rp_late c. own_entry me (rp_mode c) e) \<and>
     (\<forall>v. kv_get r (rp_store c) (rp_now c) (entry_key p me) = Some v \<longrightarrow>
        (\<exists>e. v = marshal_entry J e \<and> own_entry me (rp_mode c) e) \<and>
        me \<in> members_of q (rp_store c) (rp_now c) (roster_key p))"

definition times_ok :: "'s kv \<Rightarrow> string \<Rightarrow> int \<Rightarrow> string \<Rightarrow> 's replica \<Rightarrow> bool" where
  "times_ok r p lat me c \<longleftrightarrow>
     (\<forall>t. rg_last (rp_reg c) = Some t \<longrightarrow> t \<le> rp_now c \<and>
        alive_until r (entry_key p me) (t + writer_lease_ttl - lat) (rp_now c) (rp_store c)) \<and>
     (\<forall>b t. rp_pub c = Some b \<and> pb_executed b = Some t \<longrightarrow> t \<le> rp_now c \<and>
        alive_until r (entry_key p me) (t + writer_lease_ttl) (rp_now c) (rp_store c))"

definition fence_ok :: "'s replica \<Rightarrow> bool" where
  "fence_ok c \<longleftrightarrow>
     (rp_poll c \<noteq> Resting \<longrightarrow> rp_fenced c) \<and>
     (rp_poll c = Publishing \<longrightarrow> rp_pub c \<noteq> None) \<and>
     (\<forall>b. rp_pub c = Some b \<longrightarrow> (pb_poller b \<longleftrightarrow> rp_poll c = Publishing)) \<and>
     (\<forall>b. rp_pub c = Some b \<longrightarrow> w_applied (pb_entry b) =
        (if pb_poller b then mode_text (rp_mode c) else w_applied (rg_self (rp_reg c)))) \<and>
     (\<not> rp_fenced c \<or> rp_poll c = Published \<longrightarrow>
        w_applied (rg_self (rp_reg c)) = mode_text (rp_mode c))"

lemma keys_differ [simp]: "roster_key p \<noteq> entry_key p i" "entry_key p i \<noteq> roster_key p"
  "entry_key p i = entry_key p i' \<longleftrightarrow> i = i'"
  by (auto simp: roster_key_def entry_key_def)

declare mode_of.simps [simp del]

lemma mode_text_ok: "mode_valid m \<Longrightarrow> valid_utf8 (mode_text m)"
  by (cases m) (simp_all, code_simp+)

lemma own_entry_mono: "own_entry me m e \<Longrightarrow> rank m \<le> rank m' \<Longrightarrow> own_entry me m' e"
  by (auto simp: own_entry_def)

lemma candidate_own:
  assumes "publish_candidate g (mode_text m) = Inr e" and "mode_valid m" and "own_entry me m (rg_self g)"
  shows "own_entry me m e \<and> w_applied e = mode_text m"
  using assms mode_of_text [OF assms(2)] mode_text_ok [OF assms(2)]
  by (auto simp: publish_candidate_def own_entry_def entry_ok_def split: if_splits)

locale lease_system = roster_laws r q + entry_laws J
  for r :: "'s kv" and q :: "'s roster" and J :: entry_codec
begin

lemma publish_get:
  "kv_get r (publish_writer_lease r q J p t e s) t (entry_key p i) =
    (if i = w_id e then Some (marshal_entry J e) else kv_get r s t (entry_key p i))"
  by (simp add: publish_writer_lease_def get_set get_sadd writer_lease_ttl_def)

lemma publish_pttl:
  "kv_pttl r (publish_writer_lease r q J p t e s) t (entry_key p i) =
    (if i = w_id e then writer_lease_ttl else kv_pttl r s t (entry_key p i))"
  by (simp add: publish_writer_lease_def pttl_set pttl_sadd writer_lease_ttl_def)

lemma publish_members:
  "members_of q (publish_writer_lease r q J p t e s) t (roster_key p) =
    insert (w_id e) (members_of q s t (roster_key p))"
  by (simp add: publish_writer_lease_def members_set members_sadd)

lemma prune_get:
  "kv_get r (prune_writer_lease r q p t x s) t (entry_key p i) = kv_get r s t (entry_key p i)"
  by (cases x) (simp_all add: prune_writer_lease_def get_srem)

lemma prune_pttl:
  "kv_pttl r (prune_writer_lease r q p t x s) t (entry_key p i) = kv_pttl r s t (entry_key p i)"
  by (cases x) (simp_all add: prune_writer_lease_def pttl_srem)

lemma prune_members:
  assumes "candidate_ok J x" and "kv_get r s t (entry_key p i) = Some (marshal_entry J e)" and "entry_ok e"
    and "i \<in> members_of q s t (roster_key p)"
  shows "i \<in> members_of q (prune_writer_lease r q p t x s) t (roster_key p)"
proof -
  have "readable J (marshal_entry J e)"
    using entry_roundtrip [OF assms(3)] entry_not_blank by (simp add: readable_def)
  with assms show ?thesis by (cases x) (auto simp: prune_writer_lease_def members_srem)
qed

lemma alive_publish:
  assumes "x \<le> t + writer_lease_ttl" and "w_id e = me"
  shows "alive_until r (entry_key p me) x t (publish_writer_lease r q J p t e s)"
  using assms by (simp add: alive_until_def publish_get publish_pttl)

lemma alive_time:
  assumes "alive_until r k x now s" and "now \<le> t"
  shows "alive_until r k x t s"
proof -
  have "kv_get r s t k \<noteq> None \<and> (kv_pttl r s t k = -1 \<or> x \<le> t + kv_pttl r s t k)" if "t < x"
  proof -
    from that assms have a: "kv_get r s now k \<noteq> None" "kv_pttl r s now k = -1 \<or> x \<le> now + kv_pttl r s now k"
      by (auto simp: alive_until_def)
    with that have "kv_get r s t k = kv_get r s now k" using get_kept [OF assms(2)] by fastforce
    with a pttl_later [OF assms(2), of s k] show ?thesis by auto
  qed
  then show ?thesis by (simp add: alive_until_def)
qed

lemma alive_prune: "alive_until r (entry_key p i) x t s \<Longrightarrow>
    alive_until r (entry_key p i) x t (prune_writer_lease r q p t y s)"
  by (simp add: alive_until_def prune_get prune_pttl)

lemma step_entries:
  assumes step: "replica_step r q J p lat c c'" and ok: "entries_ok r q J p me c" and f: "fence_ok c"
  shows "entries_ok r q J p me c'"
proof -
  note ok' = ok [unfolded entries_ok_def]
  have self: "w_id (rg_self (rp_reg c)) = me" using ok' by (auto simp: own_entry_def)
  from step show ?thesis
  proof cases
    case (raises m)
    have up: "own_entry me (rp_mode c') e" if "own_entry me (rp_mode c) e" for e
      by (rule own_entry_mono [OF that]) (simp add: raises(1))
    with ok' raises show ?thesis by (fastforce simp: entries_ok_def)
  next
    case (publish_starts e)
    with ok' candidate_own [OF publish_starts(4), of me] show ?thesis by (auto simp: entries_ok_def)
  next
    case (time_passes t)
    with ok' get_later [OF time_passes(2), of "rp_store c" "entry_key p me"]
      members_later [of "rp_store c" "rp_now c" "roster_key p" t]
    show ?thesis by (auto simp: entries_ok_def)
  next
    case (prunes x)
    have "me \<in> members_of q (rp_store c') (rp_now c) (roster_key p)"
      if v: "kv_get r (rp_store c) (rp_now c) (entry_key p me) = Some v" for v
    proof -
      from ok' v obtain e where "v = marshal_entry J e" "entry_ok e"
        "me \<in> members_of q (rp_store c) (rp_now c) (roster_key p)" by (auto simp: own_entry_def)
      with prune_members [OF prunes(2)] v show ?thesis by (simp add: prunes(1))
    qed
    with ok' show ?thesis unfolding entries_ok_def by (simp add: prunes(1) prune_get)
  next
    case (executes b)
    with ok' show ?thesis
      by (auto simp: entries_ok_def publish_get publish_members own_entry_def split: if_splits)
  next
    case (late_executes e)
    with ok' show ?thesis
      by (auto simp: entries_ok_def publish_get publish_members own_entry_def split: if_splits)
  next
    case (others s')
    with ok' self show ?thesis by (auto simp: entries_ok_def)
  qed (use ok' in \<open>auto simp: entries_ok_def published_def\<close>)
qed

lemma step_times:
  assumes step: "replica_step r q J p lat c c'" and ok: "times_ok r p lat me c"
    and e: "entries_ok r q J p me c" and lat: "0 \<le> lat"
  shows "times_ok r p lat me c'"
proof -
  note ok' = ok [unfolded times_ok_def] and e' = e [unfolded entries_ok_def]
  have self: "w_id (rg_self (rp_reg c)) = me" using e' by (auto simp: own_entry_def)
  from step show ?thesis
  proof cases
    case (executes b)
    have "w_id (pb_entry b) = me" using e' executes by (auto simp: own_entry_def)
    with ok' lat executes show ?thesis by (auto simp: times_ok_def intro!: alive_publish)
  next
    case (late_executes x)
    have "w_id x = me" using e' late_executes by (auto simp: own_entry_def)
    with ok' lat late_executes show ?thesis by (auto simp: times_ok_def intro!: alive_publish)
  next
    case (refresh_ends b t)
    then have "alive_until r (entry_key p me) (t + writer_lease_ttl) (rp_now c) (rp_store c)" using ok' by auto
    with refresh_ends show ?thesis by (auto simp: times_ok_def alive_until_def)
  next
    case (publish_ends b t)
    then have "alive_until r (entry_key p me) (t + writer_lease_ttl) (rp_now c) (rp_store c)" using ok' by auto
    with publish_ends show ?thesis by (auto simp: times_ok_def alive_until_def published_def)
  next
    case (time_passes t)
    with ok' show ?thesis by (fastforce simp: times_ok_def intro: alive_time)
  next
    case (prunes x)
    with ok' show ?thesis by (auto simp: times_ok_def intro!: alive_prune)
  next
    case (others s')
    with ok' self show ?thesis by (auto simp: times_ok_def alive_until_def)
  qed (use ok' in \<open>auto simp: times_ok_def\<close>)
qed

end

lemma step_fence:
  assumes step: "replica_step r q J p lat c c'" and ok: "fence_ok c"
  shows "fence_ok c'"
  using step
proof cases
  case (publish_starts e)
  then have "w_applied e = mode_text (rp_mode c)" by (auto simp: publish_candidate_def split: if_splits)
  with publish_starts ok show ?thesis by (auto simp: fence_ok_def)
qed (use ok in \<open>auto simp: fence_ok_def published_def\<close>)


section \<open>What a replica that may write has published\<close>

lemma start_ok:
  assumes "replica_start r p c" and "0 \<le> lat"
  shows "entries_ok r q J p (w_id (rg_self (rp_reg c))) c \<and> times_ok r p lat (w_id (rg_self (rp_reg c))) c \<and> fence_ok c"
  using assms mode_of_text [of "rp_mode c"]
  by (auto simp: replica_start_def entries_ok_def times_ok_def fence_ok_def own_entry_def)

lemma reach_ok:
  assumes sys: "lease_system r q J" and run: "replica_reach r q J p lat c c'" and "0 \<le> lat"
    and "entries_ok r q J p me c \<and> times_ok r p lat me c \<and> fence_ok c"
  shows "entries_ok r q J p me c' \<and> times_ok r p lat me c' \<and> fence_ok c'"
  using run assms(4)
proof (induction rule: rtranclp_induct)
  case (step b c)
  then show ?case
    using lease_system.step_entries [OF sys step.hyps(2)] lease_system.step_times [OF sys step.hyps(2) _ _ assms(3)]
      step_fence [OF step.hyps(2)] by blast
qed

lemma may_write_entry:
  assumes e: "entries_ok r q J p me c" and t: "times_ok r p lat me c" and f: "fence_ok c"
    and lat: "lat \<le> writer_lease_margin" and w: "store_may_write (rp_fenced c) (rp_now c) (Some (rp_reg c))"
  shows "\<exists>x. kv_get r (rp_store c) (rp_now c) (entry_key p me) = Some (marshal_entry J x) \<and>
    own_entry me (rp_mode c) x \<and> me \<in> members_of q (rp_store c) (rp_now c) (roster_key p) \<and>
    w_applied (rg_self (rp_reg c)) = mode_text (rp_mode c)"
proof -
  from w obtain t0 where t0: "rg_last (rp_reg c) = Some t0" "rp_now c < t0 + writer_lease_ttl - writer_lease_margin"
    and open_: "\<not> rp_fenced c" by (auto simp: store_may_write_def may_write_def split: option.splits)
  with t lat have "kv_get r (rp_store c) (rp_now c) (entry_key p me) \<noteq> None"
    by (auto simp: times_ok_def alive_until_def)
  with e f open_ show ?thesis by (auto simp: entries_ok_def fence_ok_def)
qed

lemma live_entries_in:
  assumes "(i, Some v) \<in> set xs" and "\<not> blank v" and "unmarshal_entry J v = Some e"
  shows "e \<in> set (fst (live_entries J xs))"
  using assms by (induction xs) (auto split: prod.splits option.splits)

lemma live_writers_in:
  assumes "entry_laws J" and "i \<in> set ids" and "kv_get r s t (entry_key p i) = Some (marshal_entry J e)"
    and "entry_ok e"
  shows "e \<in> set (fst (live_writers r J p t ids s))"
  unfolding live_writers_def
  using live_entries_in [of i "marshal_entry J e" "map (\<lambda>i. (i, kv_get r s t (entry_key p i))) ids" J e]
    entry_laws.entry_roundtrip [OF assms(1,4)] entry_laws.entry_not_blank [OF assms(1)] assms(2,3)
  by force

end
