(* ===== verification/Lease_Memory.thy ===== *)
theory Lease_Memory
  imports Writer_Lease Session_Memory Session_Codec
begin

text \<open>
  A Redis in memory with sets, and a codec of writer entries, that satisfy the contracts of the lease.
\<close>

section \<open>The memory Redis with sets\<close>

type_synonym set_mem = "kv_mem \<times> (string \<Rightarrow> string set)"

text \<open>The commands of \<open>mem_kv\<close> on the first component; writing a key clears a set of that name.\<close>

definition set_kv :: "set_mem kv" where
  "set_kv =
     \<lparr>kv_get = (\<lambda>s. kv_get mem_kv (fst s)),
      kv_pttl = (\<lambda>s. kv_pttl mem_kv (fst s)),
      kv_set = (\<lambda>t k v d s. (kv_set mem_kv t k v d (fst s), (snd s)(k := {}))),
      kv_del = (\<lambda>t k s. (kv_del mem_kv t k (fst s), (snd s)(k := {}))),
      kv_pexpire = (\<lambda>t k d s. (kv_pexpire mem_kv t k d (fst s), snd s)),
      kv_zscore = (\<lambda>s. kv_zscore mem_kv (fst s)),
      kv_zcard = (\<lambda>s. kv_zcard mem_kv (fst s)),
      kv_zadd = (\<lambda>t k x m s. (kv_zadd mem_kv t k x m (fst s), snd s)),
      kv_zrem = (\<lambda>t k m s. (kv_zrem mem_kv t k m (fst s), snd s)),
      kv_zrem_upto = (\<lambda>t k x s. (kv_zrem_upto mem_kv t k x (fst s), snd s))\<rparr>"

definition mem_roster :: "set_mem roster" where
  "mem_roster =
     \<lparr>members_of = (\<lambda>s t k. snd s k),
      sadd = (\<lambda>t k m s. (fst s, (snd s)(k := insert m (snd s k)))),
      srem = (\<lambda>t k m s. (fst s, (snd s)(k := snd s k - {m})))\<rparr>"

lemma set_kv_sel [simp]:
  "kv_get set_kv s = kv_get mem_kv (fst s)" "kv_pttl set_kv s = kv_pttl mem_kv (fst s)"
  "kv_set set_kv t k v d s = (kv_set mem_kv t k v d (fst s), (snd s)(k := {}))"
  "kv_del set_kv t k s = (kv_del mem_kv t k (fst s), (snd s)(k := {}))"
  "kv_pexpire set_kv t k n s = (kv_pexpire mem_kv t k n (fst s), snd s)"
  "kv_zscore set_kv s = kv_zscore mem_kv (fst s)" "kv_zcard set_kv s = kv_zcard mem_kv (fst s)"
  "kv_zadd set_kv t k x m s = (kv_zadd mem_kv t k x m (fst s), snd s)"
  "kv_zrem set_kv t k m s = (kv_zrem mem_kv t k m (fst s), snd s)"
  "kv_zrem_upto set_kv t k x s = (kv_zrem_upto mem_kv t k x (fst s), snd s)"
  by (simp_all add: set_kv_def)

lemma mem_roster_sel [simp]:
  "members_of mem_roster s t k = snd s k"
  "sadd mem_roster t k m s = (fst s, (snd s)(k := insert m (snd s k)))"
  "srem mem_roster t k m s = (fst s, (snd s)(k := snd s k - {m}))"
  by (simp_all add: mem_roster_def)

interpretation set_kv: kv_laws set_kv
  by (unfold_locales, unfold set_kv_sel fst_conv)
    (fact mem_kv.get_later mem_kv.get_kept mem_kv.pttl_later mem_kv.get_set mem_kv.pttl_set mem_kv.get_del
      mem_kv.pttl_del mem_kv.get_pexpire mem_kv.pttl_pexpire mem_kv.get_zset mem_kv.pttl_zset mem_kv.pttl_range
      mem_kv.zscore_later mem_kv.zscore_set mem_kv.zscore_del mem_kv.zscore_pexpire mem_kv.zscore_zadd
      mem_kv.zscore_zrem mem_kv.zscore_zrem_upto mem_kv.zset_finite mem_kv.zcard_card mem_kv.gone_later)+

interpretation mem_roster: roster_laws set_kv mem_roster
  by unfold_locales auto

section \<open>A codec of entries\<close>

definition entry_fields :: "writer_entry \<Rightarrow> (string \<times> string) list" where
  "entry_fields e = [(''id'', w_id e), (''build'', w_build e), (''applied_state'', w_applied e),
     (''pod'', w_pod e), (''started_at_unix_ms'', show_int (w_started e))]"

definition flat_entry :: entry_codec where
  "flat_entry =
     \<lparr>marshal_entry = (\<lambda>e. v3_prefix @ flat_fields (entry_fields e)),
      unmarshal_entry = (\<lambda>s. map_option (\<lambda>fs. \<lparr>w_id = text_of fs ''id'', w_build = text_of fs ''build'',
        w_applied = text_of fs ''applied_state'', w_pod = text_of fs ''pod'',
        w_started = int_of fs ''started_at_unix_ms''\<rparr>) (read_fields (drop 3 s)))\<rparr>"

interpretation flat_entry: entry_laws flat_entry
proof
  show "unmarshal_entry flat_entry (marshal_entry flat_entry e) = Some e" if "entry_ok e" for e
    using that by (cases e) (simp add: flat_entry_def entry_fields_def entry_ok_def v3_prefix_def text_of_def int_of_def)
  show "\<not> blank (marshal_entry flat_entry e)" for e
    by (simp add: flat_entry_def)
qed

interpretation mem_lease: lease_system set_kv mem_roster flat_entry ..

end
