(* ===== verification/Rollout_Props.thy ===== *)
theory Rollout_Props
  imports Rollout_Evidence Rollout_Apply Lease_Memory
begin

text \<open>
  The session rollout, the properties of a replica: the loop that applies a state, and its lease.
\<close>

section \<open>Applying the state\<close>

text \<open>C36: Any number \<open>n\<close> of goroutines may run the compare-and-swap loop of \<open>ApplyRolloutState\<close> on one
  replica at once, with any arguments that pass its checks, interleaved in any way.  A run of the
  loops has at most \<open>(n + 6) * (2 * n + 1) + 2 * n\<close> steps, and when no step is possible every one of them
  has returned.  The value then has at least the mode and the version of each, its mode is the old
  one or one that was asked for, and its cap is the cap that goes with its version.\<close>

theorem apply_loop_terminates:
  assumes "args_ok args n" and "(apply_step args n ^^ k) (apply_start v0) s"
  shows "k \<le> (n + 6) * (2 * n + 1) + 2 * n \<and>
    ((\<nexists>s'. apply_step args n s s') \<longrightarrow>
      (\<forall>i < n. pcs s i = Applied \<and> rank (snd (args i)) \<le> rank (mode (snd (cell s))) \<and>
         rs_version (fst (args i)) \<le> version (snd (cell s)))) \<and>
    (mode (snd (cell s)) = mode v0 \<or> (\<exists>i < n. mode (snd (cell s)) = snd (args i))) \<and>
    (version (snd (cell s)) \<noteq> version v0 \<longrightarrow>
      (\<exists>i < n. version (snd (cell s)) = rs_version (fst (args i)) \<and>
         max_per_uid (snd (cell s)) = rs_cap (fst (args i))))"
proof -
  let ?V = "(rs_version \<circ> fst \<circ> args) ` {..<n}"
  have "k + work ?V n s \<le> work ?V n (apply_start v0)"
    using apply_run_work [OF assms(2) start_pointers assms(1)] by blast
  with start_work have "k \<le> (n + 6) * (2 * n + 1) + 2 * n" by (metis add_leE order_trans)
  moreover have "covered args n v0 s" using apply_run_covered [OF assms(2,1)] by blast
  moreover have "pcs s i = Applied" if "\<nexists>s'. apply_step args n s s'" "i < n" for i
    using apply_progress [OF that(2)] that(1) by blast
  ultimately show ?thesis by (auto simp: covered_def Let_def)
qed

definition sample_args :: "nat \<Rightarrow> rollout_state \<times> session_mode" where
  "sample_args i = (sample_rs V3Write 2, V3Write)"

theorem apply_loop_terminates_witness:
  "\<exists>s. (apply_step sample_args 1 ^^ 2) (apply_start \<lparr>mode = Expand, max_per_uid = 20, version = 1\<rparr>) s \<and>
     2 \<le> (1 + 6) * (2 * 1 + 1) + 2 * (1::nat) \<and>
     snd (cell s) = \<lparr>mode = V3Write, max_per_uid = 20, version = 2\<rparr> \<and> pcs s 0 = Applied"
proof -
  let ?v = "\<lparr>mode = Expand, max_per_uid = 20, version = 1\<rparr> :: rollout"
  let ?w = "apply_next (sample_rs V3Write 2) V3Write ?v"
  let ?s1 = "(apply_start ?v)\<lparr>pcs := (pcs (apply_start ?v))(0 := Holding (cell (apply_start ?v)))\<rparr>"
  let ?s2 = "?s1\<lparr>cell := (Suc 0, apply_next (fst (sample_args 0)) (snd (sample_args 0)) ?v), pcs := (pcs ?s1)(0 := Applied)\<rparr>"
  have w: "?w = \<lparr>mode = V3Write, max_per_uid = 20, version = 2\<rparr>"
    by (simp add: apply_next_def sample_rs_def Let_def)
  have ok: "args_ok sample_args 1"
    by (simp add: args_ok_def sample_args_def sample_rs_def checks_ok cap_usable_def session_max_per_uid_limit_def)
  have "apply_step sample_args 1 (apply_start ?v) ?s1"
    by (rule apply_step.reads) (simp_all add: apply_start_def)
  moreover have "apply_step sample_args 1 ?s1 ?s2"
    by (rule apply_step.swaps [where t = 0]) (simp_all add: apply_start_def sample_args_def w)
  ultimately have run: "(apply_step sample_args 1 ^^ 2) (apply_start ?v) ?s2"
    by (auto simp: numeral_2_eq_2)
  from apply_loop_terminates [OF ok run] run w show ?thesis
    by (intro exI [of _ ?s2]) (simp add: sample_args_def)
qed

section \<open>The lease of a writer\<close>


text \<open>A replica that joins at time 0 and whose first publication is confirmed \<open>d\<close> milliseconds later.\<close>

definition sample_entry :: writer_entry where
  "sample_entry = join_entry ''a1'' ''v9'' ''pod'' ''expand'' 0"

definition joined_replica :: "set_mem replica" where
  "joined_replica = \<lparr>rp_store = (\<lparr>mem_strings = Map.empty, mem_zsets = Map.empty\<rparr>, \<lambda>_. {}), rp_now = 0,
     rp_fenced = True, rp_mode = Expand, rp_reg = \<lparr>rg_self = sample_entry, rg_last = None\<rparr>,
     rp_pub = None, rp_late = {}, rp_poll = Resting\<rparr>"

definition confirmed_replica :: "int \<Rightarrow> set_mem replica" where
  "confirmed_replica d = joined_replica\<lparr>
     rp_store := publish_writer_lease set_kv mem_roster flat_entry ''p:'' 0 sample_entry (rp_store joined_replica),
     rp_now := d, rp_fenced := False, rp_reg := \<lparr>rg_self = sample_entry, rg_last = Some d\<rparr>\<rparr>"

lemma joined_start: "replica_start set_kv ''p:'' joined_replica"
proof -
  have "entry_ok sample_entry" by code_simp
  then show ?thesis
    by (simp add: replica_start_def joined_replica_def live_def mem_kv_def)
      (simp add: sample_entry_def join_entry_def)
qed

lemma first_publication:
  assumes "0 \<le> d" and "d \<le> lat"
  shows "replica_reach set_kv mem_roster flat_entry ''p:'' lat joined_replica (confirmed_replica d)"
proof -
  let ?R = "replica_step set_kv mem_roster flat_entry ''p:'' lat"
  let ?pub = "\<lparr>pb_entry = sample_entry, pb_poller = True, pb_executed = None\<rparr>"
  let ?c1 = "joined_replica\<lparr>rp_fenced := True, rp_poll := Fenced\<rparr>"
  let ?c2 = "?c1\<lparr>rp_mode := Expand, rp_poll := Raised\<rparr>"
  let ?c3 = "?c2\<lparr>rp_pub := Some ?pub, rp_poll := Publishing\<rparr>"
  let ?c4 = "?c3\<lparr>rp_store := publish_writer_lease set_kv mem_roster flat_entry ''p:'' 0 sample_entry (rp_store ?c3),
      rp_pub := Some (?pub\<lparr>pb_executed := Some 0\<rparr>)\<rparr>"
  let ?c5 = "?c4\<lparr>rp_now := d\<rparr>"
  let ?c6 = "?c5\<lparr>rp_reg := published sample_entry d (rp_reg ?c5), rp_pub := None, rp_poll := Published\<rparr>"
  have "?R joined_replica ?c1" by (rule replica_step.fences) (simp add: joined_replica_def)
  moreover have "?R ?c1 ?c2"
    using replica_step.raises [of ?c1 Expand set_kv mem_roster flat_entry "''p:''" lat]
    by (simp add: joined_replica_def)
  moreover have "?R ?c2 ?c3"
  proof (rule replica_step.publish_starts)
    have "\<not> blank ''expand''" by code_simp
    then show "publish_candidate (rp_reg ?c2) (mode_text (rp_mode ?c2)) = Inr sample_entry"
      by (simp add: publish_candidate_def joined_def joined_replica_def sample_entry_def join_entry_def)
  qed (simp_all add: joined_replica_def)
  moreover have "?R ?c3 ?c4"
    using replica_step.executes [of ?c3 ?pub set_kv mem_roster flat_entry "''p:''" lat]
    by (simp add: joined_replica_def)
  moreover have "?R ?c4 ?c5"
    by (rule replica_step.time_passes) (simp add: joined_replica_def assms(1))
  moreover have "?R ?c5 ?c6"
    using replica_step.publish_ends [of ?c5 "?pub\<lparr>pb_executed := Some 0\<rparr>" 0 lat set_kv mem_roster flat_entry "''p:''"]
    by (simp add: assms(2))
  moreover have "?R ?c6 (confirmed_replica d)"
    using replica_step.unfences [of ?c6 set_kv mem_roster flat_entry "''p:''" lat]
    by (simp add: confirmed_replica_def joined_replica_def published_def)
  ultimately show ?thesis by (meson rtranclp.rtrancl_refl converse_rtranclp_into_rtranclp)
qed


text \<open>
  The margin bounds the time between the execution in Redis and the answer: the local clock of the
  lease starts when the answer arrives.  With an answer ten seconds late the replica may still write
  at second 30, when Redis has dropped its entry and \<open>Live\<close> returns nobody.
\<close>

theorem late_answer_outlives_lease:
  "let c = (confirmed_replica 10000)\<lparr>rp_now := 30000\<rparr> in
   replica_start set_kv ''p:'' joined_replica \<and>
   replica_reach set_kv mem_roster flat_entry ''p:'' 10000 joined_replica c \<and>
   store_may_write (rp_fenced c) (rp_now c) (Some (rp_reg c)) \<and>
   live_writers set_kv flat_entry ''p:'' (rp_now c) [''a1''] (rp_store c) = ([], [Missing ''a1''])"
proof -
  let ?c = "(confirmed_replica 10000)\<lparr>rp_now := 30000\<rparr>"
  have "replica_step set_kv mem_roster flat_entry ''p:'' 10000 (confirmed_replica 10000) ?c"
    by (rule replica_step.time_passes) (simp add: confirmed_replica_def)
  then have "replica_reach set_kv mem_roster flat_entry ''p:'' 10000 joined_replica ?c"
    using first_publication [of 10000 10000] by (simp add: rtranclp.rtrancl_into_rtrancl)
  moreover have "store_may_write (rp_fenced ?c) (rp_now ?c) (Some (rp_reg ?c))"
    by (simp add: store_may_write_def may_write_def confirmed_replica_def writer_lease_ttl_def writer_lease_margin_def)
  moreover have "live_writers set_kv flat_entry ''p:'' (rp_now ?c) [''a1''] (rp_store ?c) = ([], [Missing ''a1''])"
    by (simp add: live_writers_def confirmed_replica_def joined_replica_def publish_writer_lease_def
        sample_entry_def join_entry_def live_def mem_kv_def writer_lease_ttl_def)
  ultimately show ?thesis using joined_start by (simp add: Let_def)
qed

text \<open>
  The window looks at the writers when it is asked, not in between: a writer that joins after one
  evaluation and leaves before the next is in the registry for a while, and the window still counts
  the whole thirty seconds.
\<close>

theorem brief_member_unnoticed:
  "let a = sample_entry; b = join_entry ''b2'' ''v9'' ''pod-2'' ''expand'' 4000;
       publish = publish_writer_lease set_kv mem_roster flat_entry ''p:'';
       s0 = publish 0 a (rp_store joined_replica);
       s1 = publish 4000 b s0;
       s2 = publish 9000 a (leave_registry set_kv mem_roster ''p:'' 8000 ''b2'' s1);
       seen = (\<lambda>t ids s. fst (live_writers set_kv flat_entry ''p:'' t ids s))
   in seen 0 [''a1''] s0 = [a] \<and> seen 5000 [''a1'', ''b2''] s1 = [a, b] \<and> seen 30000 [''a1''] s2 = [a] \<and>
      members_of mem_roster s2 30000 (roster_key ''p:'') = {''a1''} \<and>
      writer_lease_ttl \<le> fst (observe_writers [a] 30000 (observe_all [([a], 0)] new_convergence))"
proof -
  let ?a = "sample_entry" and ?b = "join_entry ''b2'' ''v9'' ''pod-2'' ''expand'' 4000"
  have ok: "entry_ok ?a" "entry_ok ?b" by code_simp+
  note codec = flat_entry.entry_roundtrip [OF ok(1)] flat_entry.entry_roundtrip [OF ok(2)] flat_entry.entry_not_blank
  have ids: "w_id ?a = ''a1''" "w_id ?b = ''b2''" by (simp_all add: sample_entry_def join_entry_def)
  have "fst (observe_writers [?a] 30000 (observe_all [([?a], 0)] new_convergence)) = 30000"
    using fingerprint_not_empty [of "[?a]"] by (simp add: observe_writers_def Let_def new_convergence_def)
  then show ?thesis
    by (simp add: Let_def live_writers_def publish_writer_lease_def leave_registry_def ids codec
        joined_replica_def live_def mem_kv_def writer_lease_ttl_def insert_Diff_if)
qed

end
