(* ===== verification/Session_Migration.thy ===== *)
theory Session_Migration
  imports Rollout_Observe
begin

text \<open>
  The migration of legacy sessions, session_migration.go: a script that shortens the lifetime of one
  record, and the command that runs it over the whole keyspace, with its campaign, its lock and its
  checkpoint.  The command line gives the campaign; JSON values that the command stores for itself
  are kept as records.  Times are milliseconds: \<open>t\<close> of Redis, \<open>now\<close> of the replica.
\<close>

section \<open>The options\<close>

record migration_options =
  mo_campaign :: string
  mo_cutoff :: "int option"
  mo_policy :: string
  mo_batch :: int
  mo_interval :: int
  mo_apply :: bool
  mo_confirm :: bool
  mo_lease :: int

record campaign =
  mc_id :: string
  mc_cutoff :: int
  mc_max_ttl :: int
  mc_policy :: string

datatype migration_error =
    BadCampaign | NoCutoff | BadPolicy | BadBatch | BadInterval | ElapsedCutoff | BadLease
  | FloorTooLow | MigrationStopped | LockHeld | LockLost
  | CampaignDiffers | CampaignExpires | PastCutoff | BadCheckpoint | BadReplyShape | BadAction
  | IncompleteEvidence

definition policy_natural :: string where "policy_natural = ''natural''"
definition policy_cap :: string where "policy_cap = ''cap''"

definition validate_migration_options ::
    "session_cfg \<Rightarrow> int \<Rightarrow> migration_options \<Rightarrow> migration_error + campaign" where
  "validate_migration_options C now opts =
     (let ident = trim_space (mo_campaign opts) in
      if ident = [] \<or> 64 < length ident then Inl BadCampaign
      else case mo_cutoff opts of
        None \<Rightarrow> Inl NoCutoff
      | Some cutoff \<Rightarrow>
          if mo_policy opts \<noteq> policy_natural \<and> mo_policy opts \<noteq> policy_cap then Inl BadPolicy
          else if mo_batch opts \<le> 0 \<or> 10000 < mo_batch opts then Inl BadBatch
          else if mo_interval opts < 0 then Inl BadInterval
          else if mo_apply opts \<and> cutoff \<le> now \<and> \<not> mo_confirm opts then Inl ElapsedCutoff
          else if mo_apply opts \<and> (mo_lease opts < 5 * second_ns \<or> 300 * second_ns < mo_lease opts)
          then Inl BadLease
          else Inr \<lparr>mc_id = ident, mc_cutoff = cutoff, mc_max_ttl = millis (max_ttl C), mc_policy = mo_policy opts\<rparr>)"

section \<open>The script\<close>

text \<open>
  \<open>body_uid\<close> is cjson: the member \<open>uid\<close> of a body that decodes to a table in which it is a string.
\<close>

definition payload_version :: "(string \<Rightarrow> string option) \<Rightarrow> string \<Rightarrow> int" where
  "payload_version body_uid raw =
     (if prefix v3_prefix raw \<or> prefix v2_prefix raw then
        (case body_uid (drop 3 raw) of
           None \<Rightarrow> -1
         | Some u \<Rightarrow> if u = [] then -1 else if prefix v3_prefix raw then 3 else 2)
      else
        let ats = length (filter (\<lambda>c. c = CHR ''@'') raw)
        in if ats < 1 \<or> 2 < ats \<or> take 1 raw = ''@'' then -1 else 1)"

definition migrate_target :: "campaign \<Rightarrow> int \<Rightarrow> int \<Rightarrow> int" where
  "migrate_target M now d =
     (let max_target = now + mc_max_ttl M
      in if d = -1 \<or> mc_policy M = policy_cap
         then (if max_target < mc_cutoff M then max_target else mc_cutoff M)
         else max_target)"

definition migrate_script ::
    "'s kv \<Rightarrow> (string \<Rightarrow> string option) \<Rightarrow> int \<Rightarrow> string \<Rightarrow> campaign \<Rightarrow> int \<Rightarrow> bool \<Rightarrow> bool \<Rightarrow> 's
     \<Rightarrow> 's \<times> int \<times> int \<times> int" where
  "migrate_script r body_uid t k M now applies confirm s =
     (case kv_get r s t k of
        None \<Rightarrow> (s, 0, -2, 0)
      | Some raw \<Rightarrow>
          let d = kv_pttl r s t k; v = payload_version body_uid raw in
          if v = -1 then (s, v, d, 5)
          else if v = 3 then (s, v, d, if d \<le> 0 then 2 else 0)
          else if d = -2 then (s, 0, d, 0)
          else if d \<noteq> -1 \<and> d \<le> 0 then (s, v, d, 2)
          else
            let target = migrate_target M now d in
            if target - now \<le> 0 then
              (if applies \<and> \<not> confirm then (s, v, d, 4)
               else (if applies then kv_del r t k s else s, v, d, 3))
            else if \<not> (d = -1 \<or> target - now < d) then (s, v, d, 0)
            else (if applies then kv_pexpire r t k (target - t) s else s, v, d, 1))"

section \<open>Counting one record\<close>

record migration_result =
  mr_complete :: bool
  mr_campaign :: string
  mr_scanned :: int
  mr_invalid_payload :: int
  mr_missing :: int
  mr_v1 :: int
  mr_v2 :: int
  mr_v3 :: int
  mr_shortened :: int
  mr_would_delete :: int
  mr_deleted :: int
  mr_unchanged :: int
  mr_invalid :: int
  mr_v3_non_finite :: int
  mr_cursor :: nat
  mr_lock_lost :: bool

definition new_result :: "string \<Rightarrow> migration_result" where
  "new_result i =
     \<lparr>mr_complete = False, mr_campaign = i, mr_scanned = 0, mr_invalid_payload = 0, mr_missing = 0,
      mr_v1 = 0, mr_v2 = 0, mr_v3 = 0, mr_shortened = 0, mr_would_delete = 0, mr_deleted = 0,
      mr_unchanged = 0, mr_invalid = 0, mr_v3_non_finite = 0, mr_cursor = 0, mr_lock_lost = False\<rparr>"

definition count_migrated_version :: "int \<Rightarrow> int \<Rightarrow> migration_result \<Rightarrow> migration_result" where
  "count_migrated_version v d res =
     (if v = -1 then res\<lparr>mr_invalid_payload := mr_invalid_payload res + 1\<rparr>
      else if v = 0 then res\<lparr>mr_missing := mr_missing res + 1\<rparr>
      else if v = 1 then res\<lparr>mr_v1 := mr_v1 res + 1\<rparr>
      else if v = 2 then res\<lparr>mr_v2 := mr_v2 res + 1\<rparr>
      else if v = 3 then
        (let res = res\<lparr>mr_v3 := mr_v3 res + 1\<rparr>
         in if d \<le> 0 then res\<lparr>mr_v3_non_finite := mr_v3_non_finite res + 1\<rparr> else res)
      else res\<lparr>mr_invalid := mr_invalid res + 1\<rparr>)"

definition count_migrated_action ::
    "bool \<Rightarrow> int \<Rightarrow> migration_result \<Rightarrow> migration_error option \<times> migration_result" where
  "count_migrated_action applies action res =
     (if action = 0 then (None, res\<lparr>mr_unchanged := mr_unchanged res + 1\<rparr>)
      else if action = 1 then (None, res\<lparr>mr_shortened := mr_shortened res + 1\<rparr>)
      else if action = 2 then (None, res\<lparr>mr_invalid := mr_invalid res + 1\<rparr>)
      else if action = 3 then
        (None, if applies then res\<lparr>mr_deleted := mr_deleted res + 1\<rparr>
               else res\<lparr>mr_would_delete := mr_would_delete res + 1\<rparr>)
      else if action = 4 then (Some ElapsedCutoff, res)
      else if action = 5 then (None, res)
      else (Some BadAction, res))"

definition count_migrated ::
    "bool \<Rightarrow> int \<times> int \<times> int \<Rightarrow> migration_result \<Rightarrow> migration_error option \<times> migration_result" where
  "count_migrated applies x res =
     (case x of (v, d, action) \<Rightarrow>
        count_migrated_action applies action
          (count_migrated_version v d (res\<lparr>mr_scanned := mr_scanned res + 1\<rparr>)))"

text \<open>\<open>migrateLegacyToken\<close>; the script runs unless Redis fails before it.\<close>

definition migrate_legacy_token ::
    "'s kv \<Rightarrow> (string \<Rightarrow> string option) \<Rightarrow> campaign \<Rightarrow> bool \<Rightarrow> bool \<Rightarrow> int \<Rightarrow> int \<Rightarrow> string \<Rightarrow> bool
     \<Rightarrow> 's \<times> migration_result \<Rightarrow> migration_error option \<times> 's \<times> migration_result" where
  "migrate_legacy_token r body_uid M applies confirm t now k failed w =
     (if failed then (Some MigrationStopped, w)
      else
        let (s, x) = migrate_script r body_uid t k M now applies confirm (fst w);
            (e, res) = count_migrated applies x (snd w)
        in (e, s, res))"

section \<open>The command\<close>

record migration_checkpoint =
  ck_campaign :: string
  ck_instance :: string
  ck_cursor :: nat
  ck_result :: migration_result

record 's migration_world =
  mw_store :: 's
  mw_campaign :: "(campaign \<times> bool) option"
  mw_checkpoint :: "migration_checkpoint option"
  mw_evidence :: "(string \<times> string) option"

text \<open>
  \<open>ensureMigrationCampaign\<close>: the parameters that an earlier run has stored (and whether they expire)
  must be the present ones, and a new campaign ends in the future.  Between the two reads another
  run may have stored its own (\<open>raced\<close>).
\<close>

definition validate_persisted_campaign :: "campaign \<times> bool \<Rightarrow> campaign \<Rightarrow> migration_error option" where
  "validate_persisted_campaign stored M =
     (if fst stored \<noteq> M then Some CampaignDiffers
      else if snd stored then Some CampaignExpires else None)"

definition ensure_campaign ::
    "campaign \<Rightarrow> int \<Rightarrow> (campaign \<times> bool) option \<Rightarrow> 's migration_world
     \<Rightarrow> migration_error option \<times> 's migration_world" where
  "ensure_campaign M now raced w =
     (case mw_campaign w of
        Some stored \<Rightarrow> (validate_persisted_campaign stored M, w)
      | None \<Rightarrow>
          if mc_cutoff M \<le> now then (Some PastCutoff, w)
          else (case raced of
                  None \<Rightarrow> (None, w\<lparr>mw_campaign := Some (M, False)\<rparr>)
                | Some stored \<Rightarrow> (validate_persisted_campaign stored M, w\<lparr>mw_campaign := Some stored\<rparr>)))"

definition load_checkpoint :: "string \<Rightarrow> 's migration_world \<Rightarrow> migration_error + migration_checkpoint option" where
  "load_checkpoint i w =
     (case mw_checkpoint w of
        None \<Rightarrow> Inr None
      | Some ck \<Rightarrow>
          if ck_campaign ck \<noteq> i then Inl BadCheckpoint
          else if mr_campaign (ck_result ck) \<noteq> i \<or> ck_cursor ck \<noteq> mr_cursor (ck_result ck) then Inl BadCheckpoint
          else Inr (Some ck))"

definition save_checkpoint ::
    "string \<Rightarrow> string \<Rightarrow> nat \<Rightarrow> migration_result \<Rightarrow> 's migration_world \<Rightarrow> 's migration_world" where
  "save_checkpoint i inst cursor res w =
     w\<lparr>mw_checkpoint := Some \<lparr>ck_campaign = i, ck_instance = inst, ck_cursor = cursor, ck_result = res\<rparr>\<rparr>"

definition record_completion ::
    "string \<Rightarrow> string \<Rightarrow> migration_result \<Rightarrow> 's migration_world \<Rightarrow> migration_error option \<times> 's migration_world" where
  "record_completion i inst res w =
     (if \<not> mr_complete res \<or> mr_lock_lost res \<or> mr_campaign res \<noteq> i \<or> blank inst
      then (Some IncompleteEvidence, w)
      else (None, w\<lparr>mw_evidence := Some (i, inst)\<rparr>))"

text \<open>
  \<open>currentRedisInstanceID\<close>: the identity of a Redis process from what \<open>INFO server\<close> answers (\<open>None\<close> when it
  fails), and the record of a completion as \<open>status\<close> reads it back, with the JSON decoder as a parameter.
\<close>

definition run_id_of :: "string \<Rightarrow> string" where
  "run_id_of info =
     (case filter (\<lambda>l. prefix ''run_id:'' l) (map trim_space (str_split (CHR 0x0A) info)) of
        [] \<Rightarrow> []
      | l # _ \<Rightarrow> trim_space (trim_prefix ''run_id:'' l))"

definition current_redis_instance_id :: "string option \<Rightarrow> migration_error + string" where
  "current_redis_instance_id info =
     (case info of
        None \<Rightarrow> Inl MigrationStopped
      | Some text \<Rightarrow>
          if run_id_of text = [] then Inl MigrationStopped
          else Inr (hex_encode (sha256 (''token-session-migration/v1:'' @ run_id_of text))))"

record completion =
  cm_campaign :: string
  cm_completed :: int
  cm_instance :: string

definition load_completion ::
    "'s kv \<Rightarrow> (string \<Rightarrow> completion option) \<Rightarrow> int \<Rightarrow> string \<Rightarrow> 's \<Rightarrow> migration_error + completion" where
  "load_completion r unmarshal t k s =
     (case kv_get r s t k of
        None \<Rightarrow> Inl IncompleteEvidence
      | Some raw \<Rightarrow>
          if kv_pttl r s t k \<noteq> -1 then Inl IncompleteEvidence
          else (case unmarshal raw of
                  None \<Rightarrow> Inl IncompleteEvidence
                | Some c \<Rightarrow>
                    if cm_campaign c = [] \<or> cm_completed c \<le> 0 \<or> cm_instance c = []
                    then Inl IncompleteEvidence else Inr c))"

text \<open>The result a run starts with: that of a checkpoint of the same Redis process, or a new one.\<close>

definition resume_result :: "string \<Rightarrow> string \<Rightarrow> migration_checkpoint option \<Rightarrow> migration_result" where
  "resume_result i inst ck =
     (case ck of
        None \<Rightarrow> new_result i
      | Some ck \<Rightarrow>
          if mr_complete (ck_result ck) then new_result i
          else if ck_instance ck \<noteq> inst then new_result i
          else (ck_result ck)\<lparr>mr_complete := False, mr_lock_lost := False\<rparr>)"

text \<open>What one turn of the loop is answered; the numbers are the places in the turn that ask.\<close>

datatype lock_answer = LockKept | LockBroken bool

datatype migrate_key = MStopped | MLock bool | MKey string int int bool

datatype migrate_reply = MScanFailed | MScanMoved string | MScanned "migrate_key list" nat

record migrate_round =
  gr_stopped :: bool
  gr_reply :: migrate_reply
  gr_check :: identity
  gr_final :: identity
  gr_confirms :: "nat \<Rightarrow> bool"
  gr_locks :: "nat \<Rightarrow> lock_answer"
  gr_saves :: "nat \<Rightarrow> bool"

type_synonym 's migration_run = "string \<times> migration_result \<times> 's migration_world"

text \<open>The lock, where the run applies its changes, and a checkpoint.\<close>

definition with_lock ::
    "bool \<Rightarrow> lock_answer \<Rightarrow> 's migration_run \<Rightarrow> ('s migration_run \<Rightarrow> scan_end \<times> 's migration_run)
     \<Rightarrow> scan_end \<times> 's migration_run" where
  "with_lock applies answer c k =
     (case answer of
        LockBroken lost \<Rightarrow>
          if applies then (case c of (inst, res, w) \<Rightarrow> (ScanError, inst, res\<lparr>mr_lock_lost := lost\<rparr>, w))
          else k c
      | LockKept \<Rightarrow> k c)"

definition with_save ::
    "bool \<Rightarrow> bool \<Rightarrow> string \<Rightarrow> nat \<Rightarrow> 's migration_run \<Rightarrow> ('s migration_run \<Rightarrow> scan_end \<times> 's migration_run)
     \<Rightarrow> scan_end \<times> 's migration_run" where
  "with_save applies saves i cursor c k =
     (if \<not> applies then k c
      else if \<not> saves then (ScanError, c)
      else (case c of (inst, res, w) \<Rightarrow> k (inst, res, save_checkpoint i inst cursor res w)))"

definition migrate_restart ::
    "bool \<Rightarrow> string \<Rightarrow> migrate_round \<Rightarrow> nat \<Rightarrow> string \<Rightarrow> 's migration_run \<Rightarrow> scan_end \<times> 's migration_run" where
  "migrate_restart applies i x n inst c =
     (let c = (inst, new_result i, snd (snd c))
      in if \<not> gr_confirms x n then (ScanError, c)
         else with_lock applies (gr_locks x n) c (\<lambda>c.
              with_save applies (gr_saves x n) i 0 c (\<lambda>c. (ScanOpen, c))))"

fun migrate_keys ::
    "'s kv \<Rightarrow> (string \<Rightarrow> string option) \<Rightarrow> campaign \<Rightarrow> bool \<Rightarrow> bool \<Rightarrow> migrate_key list
     \<Rightarrow> 's migration_run \<Rightarrow> bool \<times> 's migration_run" where
  "migrate_keys r body_uid M applies confirm [] c = (True, c)"
| "migrate_keys r body_uid M applies confirm (MStopped # ks) c = (False, c)"
| "migrate_keys r body_uid M applies confirm (MLock lost # ks) (inst, res, w) =
     (if applies then (False, inst, res\<lparr>mr_lock_lost := lost\<rparr>, w)
      else migrate_keys r body_uid M applies confirm ks (inst, res, w))"
| "migrate_keys r body_uid M applies confirm (MKey k t now failed # ks) (inst, res, w) =
     (case migrate_legacy_token r body_uid M applies confirm t now k failed (mw_store w, res) of
        (e, s, res) \<Rightarrow>
          let c = (inst, res, w\<lparr>mw_store := s\<rparr>)
          in if e \<noteq> None then (False, c) else migrate_keys r body_uid M applies confirm ks c)"

text \<open>The end of a scan, and one turn.\<close>

definition migrate_finish ::
    "bool \<Rightarrow> string \<Rightarrow> migrate_round \<Rightarrow> 's migration_run \<Rightarrow> scan_end \<times> 's migration_run" where
  "migrate_finish applies i x c =
     (case gr_final x of
        Unknown \<Rightarrow> (ScanError, c)
      | Moved inst \<Rightarrow> migrate_restart applies i x 4 inst c
      | Same \<Rightarrow>
          if \<not> gr_confirms x 5 then (ScanError, c)
          else with_lock applies (gr_locks x 5) c (\<lambda>(inst, res, w).
               with_save applies (gr_saves x 5) i 0 (inst, res\<lparr>mr_complete := True\<rparr>, w) (\<lambda>(inst, res, w).
               if \<not> applies then (ScanDone, inst, res, w)
               else if \<not> gr_saves x 6 then (ScanError, inst, res, w)
               else (case record_completion i inst res w of
                       (None, w) \<Rightarrow> (ScanDone, inst, res, w)
                     | (Some _, w) \<Rightarrow> (ScanError, inst, res, w)))))"

definition migrate_batch ::
    "'s kv \<Rightarrow> (string \<Rightarrow> string option) \<Rightarrow> campaign \<Rightarrow> bool \<Rightarrow> bool \<Rightarrow> migrate_round \<Rightarrow> migrate_key list \<Rightarrow> nat
     \<Rightarrow> 's migration_run \<Rightarrow> scan_end \<times> 's migration_run" where
  "migrate_batch r body_uid M applies confirm x keys cursor c =
     (case migrate_keys r body_uid M applies confirm keys c of
        (False, c) \<Rightarrow> (ScanError, c)
      | (True, inst, res, w) \<Rightarrow>
          (case gr_check x of
             Unknown \<Rightarrow> (ScanError, inst, res, w)
           | Moved inst' \<Rightarrow> migrate_restart applies (mc_id M) x 2 inst' (inst, res, w)
           | Same \<Rightarrow>
               if \<not> gr_confirms x 3 then (ScanError, inst, res, w)
               else with_lock applies (gr_locks x 3) (inst, res\<lparr>mr_cursor := cursor\<rparr>, w) (\<lambda>c.
                    with_save applies (gr_saves x 3) (mc_id M) cursor c (\<lambda>c.
                    if cursor \<noteq> 0 then (ScanOpen, c) else migrate_finish applies (mc_id M) x c))))"

definition migrate_round ::
    "'s kv \<Rightarrow> (string \<Rightarrow> string option) \<Rightarrow> campaign \<Rightarrow> bool \<Rightarrow> bool \<Rightarrow> migrate_round
     \<Rightarrow> 's migration_run \<Rightarrow> scan_end \<times> 's migration_run" where
  "migrate_round r body_uid M applies confirm x c =
     (if gr_stopped x then (ScanError, c)
      else with_lock applies (gr_locks x 0) c (\<lambda>c.
        (case gr_reply x of
           MScanFailed \<Rightarrow> (ScanError, c)
         | MScanMoved inst \<Rightarrow> migrate_restart applies (mc_id M) x 1 inst c
         | MScanned keys cursor \<Rightarrow> migrate_batch r body_uid M applies confirm x keys cursor c)))"

fun migrate_rounds ::
    "'s kv \<Rightarrow> (string \<Rightarrow> string option) \<Rightarrow> campaign \<Rightarrow> bool \<Rightarrow> bool \<Rightarrow> migrate_round list
     \<Rightarrow> 's migration_run \<Rightarrow> scan_end \<times> 's migration_run" where
  "migrate_rounds r body_uid M applies confirm [] c = (ScanOpen, c)"
| "migrate_rounds r body_uid M applies confirm (x # xs) c =
     (case migrate_round r body_uid M applies confirm x c of
        (ScanOpen, c) \<Rightarrow> migrate_rounds r body_uid M applies confirm xs c
      | res \<Rightarrow> res)"

text \<open>
  \<open>MigrateLegacySessions\<close>: \<open>m\<close> is the mode of the replica, \<open>now\<close> and \<open>now'\<close>
  its clock at the two places that read it, \<open>leased\<close> whether it got the scan lease,
  \<open>locked\<close> the migration lock; the campaign and the checkpoint of the world are those stored under
  the campaign's identifier.
\<close>

definition migrate_legacy_sessions ::
    "'s kv \<Rightarrow> (string \<Rightarrow> string option) \<Rightarrow> session_cfg \<Rightarrow> session_mode \<Rightarrow> int \<Rightarrow> int \<Rightarrow> migration_options \<Rightarrow> bool
     \<Rightarrow> string option \<Rightarrow> (campaign \<times> bool) option \<Rightarrow> bool \<Rightarrow> migrate_round list \<Rightarrow> 's migration_world
     \<Rightarrow> (migration_error + scan_end) \<times> migration_result \<times> 's migration_world" where
  "migrate_legacy_sessions r body_uid C m now now' opts leased first raced locked rounds w =
     (case validate_migration_options C now opts of
        Inl e \<Rightarrow> (Inl e, new_result [], w)
      | Inr M \<Rightarrow>
          let i = mc_id M; applies = mo_apply opts;
              run = (\<lambda>inst res w. case migrate_rounds r body_uid M applies (mo_confirm opts) rounds (inst, res, w) of
                       (e, _, res, w) \<Rightarrow> (Inr e, res, w))
          in if applies \<and> rank m < rank Revoke then (Inl FloorTooLow, new_result i, w)
             else if \<not> leased then (Inl MigrationStopped, new_result i, w)
             else (case first of
               None \<Rightarrow> (Inl MigrationStopped, new_result i, w)
             | Some inst \<Rightarrow>
                 if \<not> applies then run inst (new_result i) w
                 else (case ensure_campaign M now' raced w of
                   (Some e, w) \<Rightarrow> (Inl e, new_result i, w)
                 | (None, w) \<Rightarrow>
                     if \<not> locked then (Inl LockHeld, new_result i, w)
                     else (case load_checkpoint i w of
                       Inl e \<Rightarrow> (Inl e, new_result i, w)
                     | Inr ck \<Rightarrow> run inst (resume_result i inst ck) w))))"

section \<open>The command can always be resumed\<close>

definition run_ok :: "string \<Rightarrow> (string \<times> string) option \<Rightarrow> 's migration_run \<Rightarrow> bool" where
  "run_ok i ev c = (case c of (inst, res, w) \<Rightarrow>
     mr_campaign res = i \<and> \<not> mr_lock_lost res \<and> (\<exists>ck. load_checkpoint i w = Inr ck) \<and> mw_evidence w = ev)"

definition round_ok :: "string \<Rightarrow> (string \<times> string) option \<Rightarrow> scan_end \<times> 's migration_run \<Rightarrow> bool" where
  "round_ok i ev out = (case out of (e, inst, res, w) \<Rightarrow>
     mr_campaign res = i \<and> (\<exists>ck. load_checkpoint i w = Inr ck) \<and> (e = ScanOpen \<longrightarrow> run_ok i ev (inst, res, w)) \<and>
     (mw_evidence w = ev \<or>
      e = ScanDone \<and> mr_complete res \<and> \<not> mr_lock_lost res \<and> \<not> blank inst \<and> mw_evidence w = Some (i, inst)))"

lemma round_ok_run: "run_ok i ev c \<Longrightarrow> round_ok i ev (e, c)"
  by (auto simp: run_ok_def round_ok_def split: prod.splits)

lemma with_lock_ok:
  assumes "run_ok i ev c" and "round_ok i ev (k c)"
  shows "round_ok i ev (with_lock applies answer c k)"
  using assms by (cases c) (auto simp: with_lock_def run_ok_def round_ok_def split: lock_answer.split)

lemma with_save_ok:
  assumes "run_ok i ev (inst, res, w)" and "cursor = mr_cursor res"
    and "\<And>w'. run_ok i ev (inst, res, w') \<Longrightarrow> round_ok i ev (k (inst, res, w'))"
  shows "round_ok i ev (with_save applies saves i cursor (inst, res, w) k)"
proof -
  have "run_ok i ev (inst, res, save_checkpoint i inst cursor res w)"
    using assms(1,2) by (auto simp: run_ok_def save_checkpoint_def load_checkpoint_def)
  with assms show ?thesis by (auto simp: with_save_def round_ok_run)
qed

lemma restart_ok:
  assumes "run_ok i ev c"
  shows "round_ok i ev (migrate_restart applies i x n inst c)"
proof -
  have start: "run_ok i ev (inst, new_result i, snd (snd c))"
    using assms by (cases c) (auto simp: run_ok_def new_result_def)
  moreover have "round_ok i ev (with_save applies saves i 0 (inst, new_result i, snd (snd c)) (\<lambda>c. (ScanOpen, c)))"
    for saves
    by (rule with_save_ok [OF start]) (simp_all add: new_result_def round_ok_run)
  ultimately show ?thesis
    by (auto simp: migrate_restart_def Let_def intro: round_ok_run with_lock_ok)
qed

lemma count_keeps:
  "count_migrated applies x res = (e, res') \<Longrightarrow>
     mr_campaign res' = mr_campaign res \<and> mr_lock_lost res' = mr_lock_lost res"
  by (auto simp: count_migrated_def count_migrated_action_def count_migrated_version_def Let_def
    split: prod.splits if_splits)

lemma keys_ok:
  assumes "migrate_keys r body_uid M applies confirm ks c = (b, c')" and "run_ok i ev c"
  shows "round_ok i ev (ScanError, c') \<and> (b \<longrightarrow> run_ok i ev c')"
  using assms
proof (induction r body_uid M applies confirm ks c rule: migrate_keys.induct)
  case (4 r body_uid M applies confirm k t now failed ks inst res w)
  obtain e s res' where tok: "migrate_legacy_token r body_uid M applies confirm t now k failed (mw_store w, res) = (e, s, res')"
    by (cases "migrate_legacy_token r body_uid M applies confirm t now k failed (mw_store w, res)") auto
  then have "mr_campaign res' = mr_campaign res \<and> mr_lock_lost res' = mr_lock_lost res"
    by (auto simp: migrate_legacy_token_def Let_def split: if_splits prod.splits dest: count_keeps)
  with "4.prems"(2) have "run_ok i ev (inst, res', w\<lparr>mw_store := s\<rparr>)"
    by (auto simp: run_ok_def load_checkpoint_def)
  with 4 tok show ?case by (auto simp: Let_def round_ok_run split: if_splits)
qed (auto simp: round_ok_run run_ok_def round_ok_def split: if_splits)

lemma finish_ok:
  assumes "run_ok i ev c" and "mr_cursor (fst (snd c)) = 0"
  shows "round_ok i ev (migrate_finish applies i x c)"
proof -
  obtain inst res w where c: "c = (inst, res, w)" by (cases c)
  have done_: "run_ok i ev (inst, res\<lparr>mr_complete := True\<rparr>, w)" using assms(1) by (auto simp: run_ok_def c)
  have last: "round_ok i ev (if \<not> applies then (ScanDone, inst, res\<lparr>mr_complete := True\<rparr>, w')
      else if \<not> gr_saves x 6 then (ScanError, inst, res\<lparr>mr_complete := True\<rparr>, w')
      else (case record_completion i inst (res\<lparr>mr_complete := True\<rparr>) w' of
              (None, w) \<Rightarrow> (ScanDone, inst, res\<lparr>mr_complete := True\<rparr>, w)
            | (Some _, w) \<Rightarrow> (ScanError, inst, res\<lparr>mr_complete := True\<rparr>, w)))"
    if "run_ok i ev (inst, res\<lparr>mr_complete := True\<rparr>, w')" for w'
    using that by (auto simp: run_ok_def round_ok_def record_completion_def load_checkpoint_def)
  have "round_ok i ev (with_save applies (gr_saves x 5) i 0 (inst, res\<lparr>mr_complete := True\<rparr>, w) (\<lambda>(inst, res, w).
      if \<not> applies then (ScanDone, inst, res, w)
      else if \<not> gr_saves x 6 then (ScanError, inst, res, w)
      else (case record_completion i inst res w of
              (None, w) \<Rightarrow> (ScanDone, inst, res, w)
            | (Some _, w) \<Rightarrow> (ScanError, inst, res, w))))"
  proof (rule with_save_ok [OF done_])
    show "0 = mr_cursor (res\<lparr>mr_complete := True\<rparr>)" using assms(2) by (simp add: c)
  qed (simp only: prod.case last)
  with assms(1) show ?thesis
    unfolding migrate_finish_def c
    by (auto simp: round_ok_run restart_ok intro!: with_lock_ok split: identity.split)
qed

lemma batch_ok:
  assumes "run_ok (mc_id M) ev c"
  shows "round_ok (mc_id M) ev (migrate_batch r body_uid M applies confirm x keys cursor c)"
proof -
  obtain b inst res w where ks: "migrate_keys r body_uid M applies confirm keys c = (b, inst, res, w)"
    by (metis surj_pair)
  from keys_ok [OF this assms] have k: "round_ok (mc_id M) ev (ScanError, inst, res, w)"
    "b \<Longrightarrow> run_ok (mc_id M) ev (inst, res, w)" by auto
  show ?thesis
  proof (cases b)
    case True
    then have run: "run_ok (mc_id M) ev (inst, res, w)" using k(2) by simp
    then have c: "run_ok (mc_id M) ev (inst, res\<lparr>mr_cursor := cursor\<rparr>, w)" by (auto simp: run_ok_def)
    have "round_ok (mc_id M) ev (with_save applies (gr_saves x 3) (mc_id M) cursor (inst, res\<lparr>mr_cursor := cursor\<rparr>, w)
        (\<lambda>c. if cursor \<noteq> 0 then (ScanOpen, c) else migrate_finish applies (mc_id M) x c))"
      by (rule with_save_ok [OF c]) (cases "cursor = 0"; simp add: round_ok_run finish_ok)+
    then have "round_ok (mc_id M) ev (with_lock applies (gr_locks x 3) (inst, res\<lparr>mr_cursor := cursor\<rparr>, w) (\<lambda>c.
        with_save applies (gr_saves x 3) (mc_id M) cursor c
          (\<lambda>c. if cursor \<noteq> 0 then (ScanOpen, c) else migrate_finish applies (mc_id M) x c)))"
      by (rule with_lock_ok [OF c])
    with True k(1) restart_ok [OF run] show ?thesis
      by (simp add: migrate_batch_def ks split: identity.split)
  qed (use ks k(1) in \<open>simp add: migrate_batch_def\<close>)
qed

lemma migrate_round_ok:
  assumes "run_ok (mc_id M) ev c"
  shows "round_ok (mc_id M) ev (migrate_round r body_uid M applies confirm x c)"
proof -
  have "round_ok (mc_id M) ev (case gr_reply x of
           MScanFailed \<Rightarrow> (ScanError, c)
         | MScanMoved inst \<Rightarrow> migrate_restart applies (mc_id M) x 1 inst c
         | MScanned keys cursor \<Rightarrow> migrate_batch r body_uid M applies confirm x keys cursor c)"
    using assms by (auto simp: round_ok_run restart_ok batch_ok split: migrate_reply.split)
  with assms show ?thesis by (auto simp: migrate_round_def round_ok_run intro: with_lock_ok)
qed

lemma migrate_rounds_ok:
  "run_ok (mc_id M) ev c \<Longrightarrow> round_ok (mc_id M) ev (migrate_rounds r body_uid M applies confirm xs c)"
proof (induction xs arbitrary: c)
  case (Cons x xs)
  from migrate_round_ok [OF Cons.prems]
  have ok: "round_ok (mc_id M) ev (migrate_round r body_uid M applies confirm x c)" .
  obtain e c' where r: "migrate_round r body_uid M applies confirm x c = (e, c')" by (metis surj_pair)
  with ok have "e = ScanOpen \<Longrightarrow> run_ok (mc_id M) ev c'" by (cases c') (auto simp: round_ok_def)
  with Cons.IH [of c'] r ok show ?case by (cases e) auto
qed (simp add: round_ok_run)

end
