(* ===== verification/Migration_Props.thy ===== *)
theory Migration_Props
  imports Session_Migration Rollout_Evidence
begin

text \<open>
  The migration of legacy sessions, the properties: it counts what the scan counts, it leaves no
  legacy record a longer life than the store allows, and it can always be resumed.
\<close>

section \<open>The two rulers\<close>







section \<open>The lifetime that is left\<close>





section \<open>A run after a run\<close>






end
