(* ===== verification/Spec2Isabelle.thy ===== *)
theory Spec2Isabelle
  imports Card_Props Queue_Props Registry_Props Contract_Props Dispatch_Props
    Key_Lock Mention Rate_Limit Cutover Msg_Extra_Props Session_Props Rollout_Props Migration_Props
begin

text \<open>
  A verification library of octo-server, the Go server of a chat product: HTTP handlers over MySQL
  and Redis (\<open>modules/\<close>), libraries (\<open>pkg/\<close>) and background services (\<open>internal/\<close>).  The library
  models the parts that carry the server's own protocols rather than its database forms: what a
  card message may contain, how a press on a card reaches an external service exactly as often as
  it should, how login sessions are issued and revoked across replicas while the deployment moves
  from one session format to the next, and the counters, locks, limits and switches they need.

  \<^bold>\<open>Cards\<close> (\<open>pkg/cardmsg\<close>).  \<open>Card_Base\<close> holds the profiles, limits and sentinel errors,
  \<open>Card_Validate\<close> the walker of validate.go with its budget, nesting depth and table of identifiers
  (the walker's mutable struct is the record \<open>walker\<close>), \<open>Card_Submit\<close> interactive.go, \<open>Card_Inputs\<close>
  inputs.go, \<open>Card_Plain\<close> plain.go, and \<open>Card_Gate\<close> provenance.go and the write gates.  \<open>Card_Surface\<close>
  reads the faces of a card with an independent traversal and proves that the walker replays it.
  \<open>Card_Props\<close> concludes that an accepted card has only allowed elements, schemes and targets,
  unique identifiers and a bounded size, that the submit lookup of the server finds exactly the
  buttons a client shows, and that inputs, finalised texts and markers are what they should be.
  The walk is a total function: its termination measure is the size of the JSON value, no fuel.

  \<^bold>\<open>Card actions\<close> (\<open>internal/cardactiondispatch\<close>).  \<open>Action_Queue\<close> has the Lua scripts of queue.go
  over an abstract Redis (locale \<open>redis_laws\<close> of \<open>Redis_Store\<close>, interpreted on a memory Redis),
  \<open>Queue_Spec\<close> an abstract queue and the proof that every script refines it, \<open>Queue_Props\<close> the
  fencing, ordering, retry and dead-letter properties.  \<open>Action_Registry\<close> models registry.go,
  config.go and finalizer.go; \<open>Registry_Props\<close> who may notify and which route answers.
  \<open>Octo_Sign\<close> is the request signature with SHA-256 on bytes, \<open>Action_Contract\<close> contract.go and
  http.go, \<open>Action_Dispatch\<close> and \<open>Action_Redis\<close> the dispatcher and its Redis client,
  \<open>Dispatch_Laws\<close> the contract between them (locales \<open>lease_queue\<close> and \<open>dispatcher\<close>, interpreted on
  the model's queue).  A round of the dispatcher reads its ticks, answers and clock from lists;
  the drain loop runs over the list of its claims, and heartbeats over the list of their ticks.

  \<^bold>\<open>Sessions\<close> (\<open>pkg/auth\<close>).  \<open>Session_Token\<close> has the token payloads and the rollout modes,
  \<open>Session_Redis\<close> the Redis commands and the Lua scripts, \<open>Session_Store\<close> every operation of
  \<open>RedisSessionStore\<close> and the validator as a tree of the calls it makes, with every reply it may get.
  \<open>Session_System\<close> runs any number of these operations at once, one call at a time, with calls that
  fail before or after they take effect.  \<open>Session_Generations\<close> and \<open>Session_Revoked\<close> follow the
  generation of a user, \<open>Session_Bounds\<close> the session index, \<open>Session_Claims\<close> the claims of a session
  that exists, \<open>Session_Run\<close> and \<open>Session_Issue\<close> an operation that runs alone.  \<open>Session_Props\<close>
  concludes that a revoked generation is never accepted again, that claims and deadlines of a session
  stay fixed, that an issued session is accepted, and that the cap holds.
  The contract of JSON and cjson is the locale \<open>codec_laws\<close>, interpreted on \<open>Session_Codec\<close>, that of
  Redis \<open>kv_laws\<close>, interpreted on \<open>Session_Memory\<close>.

  \<^bold>\<open>Session rollout\<close> (\<open>pkg/auth\<close>).  \<open>Rollout_State\<close> is the control store of
  session_rollout_control_store.go over the two MySQL tables (one row and the audit rows, each change
  one transaction), the takeover from Redis (session_rollout_legacy.go) and the boot (runtime.go).
  \<open>Rollout_Audit\<close> lets any number of replicas and operators change the store, with stale snapshots;
  \<open>Rollout_Apply\<close> is the compare-and-swap loop of \<open>ApplyRolloutState\<close> run by many goroutines, whose
  steps are bounded by a measure.  \<open>Rollout_Observe\<close> is the keyspace scan that counts kinds of
  records, one turn of its loop per element of a list, \<open>Rollout_Advance\<close> the predicate of
  session_rollout_predicate.go and the reconciler.  \<open>Writer_Registry\<close> has writer_registry.go (locales
  \<open>roster_laws\<close>, \<open>entry_laws\<close>), \<open>Writer_Lease\<close> one replica with its heartbeat, its poller and everything
  the others do (locale \<open>lease_system\<close>, interpreted on \<open>Lease_Memory\<close>).  \<open>Rollout_Commit\<close> joins them, and
  \<open>Rollout_Evidence\<close> and \<open>Rollout_Props\<close> conclude that the floor only rises, one phase at a time and on
  the evidence of the state it replaces, that the first v3 floor waits for a fleet that stands still,
  that a later phase rejects no session the scan has read, that the loop ends, and that whoever may
  create credentials is listed.  \<open>Session_Migration\<close> is the operator's command of
  session_migration.go that shortens the lives of legacy sessions before the last phases, with its
  script, campaign, lock, checkpoints and completion record; \<open>Migration_Props\<close> shows that it measures
  legacy records as the scan does, that it leaves none a longer life than allowed, and that a run can
  always be resumed.

  \<^bold>\<open>Counters, locks, limits, switches.\<close>  \<open>Msg_Extra_Seq\<close> and \<open>Msg_Extra_Props\<close>
  (\<open>internal/msgextraseq\<close>): versions grow in commit order across the change of allocator.  \<open>Key_Lock\<close>
  (\<open>pkg/keylock\<close>): mutual exclusion and progress of the reference-counted locks; fewer than \<open>2 ^ 64\<close>
  goroutines are assumed.  \<open>Rate_Limit\<close> (\<open>pkg/ratelimit\<close>): the token bucket and its window bound.
  \<open>Cutover\<close> (\<open>pkg/cutover\<close>): the one-way switch.  \<open>Mention\<close> (\<open>pkg/mentionrewrite\<close>): the payload on
  the wire is rewritten without touching the shared original, over an explicit heap of Go maps.

  \<^bold>\<open>Conventions.\<close>  A Go error is the left side of a sum (\<open>Prelude\<close>), a string a list of bytes, an
  \<open>interface{}\<close> from JSON the datatype of \<open>Go_Json\<close>.  Integers are \<open>int\<close> or \<open>nat\<close> where the code
  cannot leave the width and wrap explicitly where it can (\<open>of_millis\<close>, the timeout of a route).
  Doubles are exact rationals.  Lua numbers are exact below \<open>2 ^ 53\<close>; the queue's laws assume fewer
  than \<open>2 ^ 62\<close> operations.  Parameters of the model, each with its laws or a concrete instance:
  the JSON parser, cjson, the Markdown library, Redis, MySQL's transactions, the HTTP transport, the
  random source, the legacy sequence of octo-lib.

  \<^bold>\<open>Not modelled.\<close>  The handlers of \<open>modules/\<close> (SQL and HTTP forms over third-party services), card
  templates, single sign-on, storage, logging, metrics and error texts; expiry of the queue's own
  Redis keys; goroutine start and tickers, whose effects are steps instead; the Redis client's own
  retry of a command whose answer was lost; overflow of times beyond 64-bit nanoseconds; the
  offender set of the rate limiter; the loss of a writer's entry by eviction.
\<close>

end
